(* ===== verification/JsPrelude.thy ===== *)
theory JsPrelude
  imports Main "HOL-Library.AList"
begin

text \<open>
  The run-time vocabulary that every component of the model shares: JavaScript values, thrown
  errors as values of a sum type, \<open>Map\<close>, plain objects with their property order, arrays
  with holes, sets that remember insertion order, and the decimal rendering of numbers that
  template strings use. The laws that clients rely on are gathered in the locale
  \<open>keyed_store\<close>, which is interpreted here for \<open>Map\<close> and for plain objects.
\<close>

section \<open>Values and errors\<close>

text \<open>
  A number is a decimal, \<open>Decimal m e\<close> stands for \<open>m * 10 ^ (- e)\<close> and does not end with zeros (\<open>decimal\<close> takes
  them away), or it is infinite, with its sign. Rounding to 64 bits is left out, and so is \<open>NaN\<close> as a value.
\<close>

datatype number = Decimal int nat | Infinite bool

fun decimal :: "int \<Rightarrow> nat \<Rightarrow> number" where
  "decimal m 0 = Decimal m 0"
| "decimal m (Suc e) = (if m mod 10 = 0 then decimal (m div 10) e else Decimal m (Suc e))"

fun num_less :: "number \<Rightarrow> number \<Rightarrow> bool" where
  "num_less (Decimal a d) (Decimal b e) = (a * 10 ^ e < b * 10 ^ d)"
| "num_less (Decimal a d) (Infinite negative) = (\<not> negative)"
| "num_less (Infinite negative) (Decimal b e) = negative"
| "num_less (Infinite negative) (Infinite negative') = (negative \<and> \<not> negative')"

definition num_zero :: "number \<Rightarrow> bool" where
  "num_zero n = (case n of Decimal m _ \<Rightarrow> m = 0 | Infinite _ \<Rightarrow> False)"

datatype jsval =
    JUndef
  | JNull
  | JBool bool
  | JNum number
  | JStr string
  | JArr "jsval list"
  | JObj "(string \<times> jsval) list"

abbreviation JInt :: "int \<Rightarrow> jsval" where
  "JInt i \<equiv> JNum (Decimal i 0)"

text \<open>
  What is thrown: by \<open>assert\<close>, by the language, by the code, or by a node. \<open>NodeError\<close> stands for
  \<open>NodeOperationError\<close> and \<open>NodeApiError\<close>, \<open>ExpressionError\<close> carries its \<open>type\<close> where it has one,
  \<open>PlainError\<close> stands for any other \<open>Error\<close>.
\<close>

datatype js_error =
    AssertionError
  | TypeError
  | ApplicationError string
  | WorkflowOperationError string
  | NodeError string
  | ExpressionError string
  | PlainError string

definition error_message :: "js_error \<Rightarrow> string" where
  "error_message e = (case e of AssertionError \<Rightarrow> ''assertion failed'' | TypeError \<Rightarrow> ''type error''
     | ApplicationError m \<Rightarrow> m | WorkflowOperationError m \<Rightarrow> m | NodeError m \<Rightarrow> m
     | ExpressionError m \<Rightarrow> m | PlainError m \<Rightarrow> m)"

type_synonym 'a res = "js_error + 'a"

named_theorems js_simps \<open>evaluation rules of the run-time vocabulary\<close>
named_theorems res_intros \<open>ways in which a computation returns normally\<close>

subsection \<open>Sequencing computations that may throw\<close>

definition bindR :: "'e + 'a \<Rightarrow> ('a \<Rightarrow> 'e + 'b) \<Rightarrow> 'e + 'b" where
  "bindR m f = (case m of Inl e \<Rightarrow> Inl e | Inr x \<Rightarrow> f x)"

lemma bindR_simps [simp, js_simps]:
  "bindR (Inl e) f = Inl e"
  "bindR (Inr x) f = f x"
  by (simp_all add: bindR_def)

lemma bindR_cong [fundef_cong]:
  "m = m' \<Longrightarrow> (\<And>x. m' = Inr x \<Longrightarrow> f x = g x) \<Longrightarrow> bindR m f = bindR m' g"
  by (simp add: bindR_def split: sum.splits)

lemma bindR_Inr_iff: "bindR m f = Inr y \<longleftrightarrow> (\<exists>x. m = Inr x \<and> f x = Inr y)"
  by (simp add: bindR_def split: sum.splits)

lemma bindR_Inl_iff: "bindR m f = Inl e \<longleftrightarrow> m = Inl e \<or> (\<exists>x. m = Inr x \<and> f x = Inl e)"
  by (auto simp: bindR_def split: sum.splits)

lemma bindR_InrE:
  assumes "bindR m f = Inr y"
  obtains x where "m = Inr x" "f x = Inr y"
  using assms by (auto simp: bindR_Inr_iff)

lemma bindR_assoc: "bindR (bindR m f) g = bindR m (\<lambda>x. bindR (f x) g)"
  by (simp add: bindR_def split: sum.splits)

text \<open>\<open>assert.ok(b)\<close>.\<close>

definition assertR :: "bool \<Rightarrow> unit res" where
  "assertR b = (if b then Inr () else Inl AssertionError)"

lemma assertR_simps [simp, js_simps]:
  "assertR True = Inr ()"
  "assertR False = Inl AssertionError"
  by (simp_all add: assertR_def)

lemma assertR_Inr_iff [simp]: "assertR b = Inr u \<longleftrightarrow> b"
  by (simp add: assertR_def)

lemma assertR_Inl_iff [simp]: "assertR b = Inl e \<longleftrightarrow> \<not> b \<and> e = AssertionError"
  by (auto simp: assertR_def)

text \<open>Dereferencing: a property read on \<open>undefined\<close> or \<open>null\<close> throws a \<open>TypeError\<close>.\<close>

definition derefR :: "'a option \<Rightarrow> 'a res" where
  "derefR v = (case v of None \<Rightarrow> Inl TypeError | Some x \<Rightarrow> Inr x)"

lemma derefR_simps [simp, js_simps]:
  "derefR None = Inl TypeError"
  "derefR (Some x) = Inr x"
  by (simp_all add: derefR_def)

lemma derefR_Inr_iff [simp]: "derefR v = Inr x \<longleftrightarrow> v = Some x"
  by (simp add: derefR_def split: option.splits)

text \<open>A \<open>for ... of\<close> loop whose body updates a state and may throw.\<close>

fun foldR :: "('a \<Rightarrow> 's \<Rightarrow> 'e + 's) \<Rightarrow> 'a list \<Rightarrow> 's \<Rightarrow> 'e + 's" where
  "foldR f [] s = Inr s"
| "foldR f (x # xs) s = bindR (f x s) (foldR f xs)"

lemma foldR_cong [fundef_cong]:
  "xs = ys \<Longrightarrow> s = t \<Longrightarrow> (\<And>x u. x \<in> set ys \<Longrightarrow> f x u = g x u) \<Longrightarrow> foldR f xs s = foldR g ys t"
  by (induction xs arbitrary: ys s t) (auto intro!: bindR_cong)

lemma foldR_append: "foldR f (xs @ ys) s = bindR (foldR f xs s) (foldR f ys)"
  by (induction xs arbitrary: s) (auto simp: bindR_def split: sum.splits)

text \<open>The loop rule: an invariant kept by every iteration holds at the end.\<close>

lemma foldR_invariant:
  assumes "foldR f xs s = Inr t" "P s"
    and "\<And>x u v. x \<in> set xs \<Longrightarrow> P u \<Longrightarrow> f x u = Inr v \<Longrightarrow> P v"
  shows "P t"
  using assms
proof (induction xs arbitrary: s)
  case Nil
  then show ?case by simp
next
  case (Cons x xs)
  then obtain u where "f x s = Inr u" "foldR f xs u = Inr t"
    by (auto simp: bindR_Inr_iff)
  with Cons.IH [of u] Cons.prems(2,3) show ?case by auto
qed

text \<open>A loop that collects into a set: what it collects is the union over the iterations.\<close>

lemma foldR_set_UN:
  assumes "foldR f xs s = Inr t"
    and "\<And>x u v. x \<in> set xs \<Longrightarrow> f x u = Inr v \<Longrightarrow> set v = set u \<union> g x"
  shows "set t = set s \<union> (\<Union>x \<in> set xs. g x)"
  using assms
proof (induction xs arbitrary: s)
  case Nil
  then show ?case by simp
next
  case (Cons x xs)
  then obtain u where u: "f x s = Inr u" "foldR f xs u = Inr t"
    by (auto simp: bindR_Inr_iff)
  then have "set t = set u \<union> (\<Union>x \<in> set xs. g x)" using Cons.IH Cons.prems(2) by simp
  moreover have "set u = set s \<union> g x" using Cons.prems(2) [OF _ u(1)] by simp
  ultimately show ?case by auto
qed

text \<open>The loop returns when every iteration does, from every state of the invariant.\<close>

lemma foldR_total:
  assumes "P s"
    and "\<And>x u. x \<in> set xs \<Longrightarrow> P u \<Longrightarrow> \<exists>v. f x u = Inr v \<and> P v"
  shows "\<exists>t. foldR f xs s = Inr t \<and> P t"
  using assms
proof (induction xs arbitrary: s)
  case Nil
  then show ?case by simp
next
  case (Cons x xs)
  then obtain v where "f x s = Inr v" "P v" by force
  with Cons.IH [of v] Cons.prems(2) show ?case by auto
qed

text \<open>A loop whose body never throws is a pure fold.\<close>

lemma foldR_pure: "(\<And>x u. x \<in> set xs \<Longrightarrow> f x u = Inr (g x u)) \<Longrightarrow> foldR f xs s = Inr (fold g xs s)"
  by (induction xs arbitrary: s) auto

subsection \<open>Bounded recursion\<close>

text \<open>An error that is thrown, or \<open>None\<close> when the bound on the depth is reached.\<close>

type_synonym 'a bounded_res = "js_error option + 'a"

definition thrown :: "'a res \<Rightarrow> 'a bounded_res" where
  "thrown m = (case m of Inl e \<Rightarrow> Inl (Some e) | Inr x \<Rightarrow> Inr x)"

lemma thrown_simps [simp, js_simps]: "thrown (Inl e) = Inl (Some e)" "thrown (Inr x) = Inr x"
  by (simp_all add: thrown_def)

lemma thrown_Inr_iff [simp]: "thrown m = Inr x \<longleftrightarrow> m = Inr x"
  by (simp add: thrown_def split: sum.split)

section \<open>Sets\<close>

text \<open>A \<open>Set\<close> iterates in insertion order; \<open>add\<close> of a member changes nothing.\<close>

definition set_add :: "'a \<Rightarrow> 'a list \<Rightarrow> 'a list" where
  "set_add x xs = (if x \<in> set xs then xs else xs @ [x])"

lemma set_set_add [simp]: "set (set_add x xs) = insert x (set xs)"
  by (auto simp: set_add_def)

lemma distinct_set_add [simp]: "distinct xs \<Longrightarrow> distinct (set_add x xs)"
  by (simp add: set_add_def)

section \<open>Decimal numerals\<close>

definition digits :: string where
  "digits = ''0123456789''"

definition digit :: "nat \<Rightarrow> char" where
  "digit n = digits ! n"

fun show_nat :: "nat \<Rightarrow> string" where
  "show_nat n = (if n < 10 then [digit n] else show_nat (n div 10) @ [digit (n mod 10)])"

declare show_nat.simps [simp del]

definition is_digit :: "char \<Rightarrow> bool" where
  "is_digit c = (c \<in> set digits)"

definition digit_val :: "char \<Rightarrow> nat" where
  "digit_val c = length (takeWhile (\<lambda>d. d \<noteq> c) digits)"

definition read_nat :: "string \<Rightarrow> nat" where
  "read_nat s = foldl (\<lambda>n c. 10 * n + digit_val c) 0 s"

lemma digit_val_digit [simp]: "n < 10 \<Longrightarrow> digit_val (digit n) = n"
proof -
  assume n: "n < 10"
  have "distinct digits" "length digits = 10" by (simp_all add: digits_def)
  then have "takeWhile (\<lambda>d. d \<noteq> digits ! n) digits = take n digits"
    using n by (intro takeWhile_eq_take_P_nth) (auto simp: nth_eq_iff_index_eq)
  then show ?thesis using n \<open>length digits = 10\<close> by (simp add: digit_val_def digit_def)
qed

lemma is_digit_digit [simp]: "n < 10 \<Longrightarrow> is_digit (digit n)"
proof -
  assume "n < 10"
  then have "digits ! n \<in> set digits" by (intro nth_mem) (simp add: digits_def)
  then show ?thesis by (simp add: is_digit_def digit_def)
qed

lemma read_show_nat [simp]: "read_nat (show_nat n) = n"
proof (induction n rule: show_nat.induct)
  case (1 n)
  show ?case
  proof (cases "n < 10")
    case True
    then show ?thesis by (simp add: show_nat.simps [of n] read_nat_def)
  next
    case False
    with 1 have "read_nat (show_nat (n div 10)) = n div 10" by simp
    with False show ?thesis by (simp add: show_nat.simps [of n] read_nat_def)
  qed
qed

lemma show_nat_inject [simp]: "show_nat m = show_nat n \<longleftrightarrow> m = n"
  by (metis read_show_nat)

lemma show_nat_digits: "c \<in> set (show_nat n) \<Longrightarrow> is_digit c"
proof (induction n rule: show_nat.induct)
  case (1 n)
  then show ?case
    by (cases "n < 10") (auto simp: show_nat.simps [of n])
qed

lemma show_nat_nonempty [simp]: "show_nat n \<noteq> []"
  by (simp add: show_nat.simps [of n])

lemma dash_not_in_show_nat [simp]: "CHR ''-'' \<notin> set (show_nat n)"
  using show_nat_digits [of "CHR ''-''" n] by (auto simp: is_digit_def digits_def)

section \<open>Maps and objects\<close>

text \<open>
  A \<open>Map\<close> is an association list in insertion order (\<open>AList.update\<close> keeps the position
  of a key that is already there). A plain object keeps its array-index keys in ascending order
  in front of all the others; the others stay in insertion order.
\<close>

type_synonym ('k, 'v) jsmap = "('k \<times> 'v) list"
type_synonym 'v jsobj = "(string \<times> 'v) list"

definition map_keys :: "('k \<times> 'v) list \<Rightarrow> 'k list" where
  "map_keys m = map fst m"

definition map_values :: "('k \<times> 'v) list \<Rightarrow> 'v list" where
  "map_values m = map snd m"

text \<open>\<open>array_index k\<close>: the number a key stands for when it is a canonical array index.\<close>

definition array_index :: "string \<Rightarrow> nat option" where
  "array_index k =
     (if k \<noteq> [] \<and> list_all is_digit k then
        if show_nat (read_nat k) = k \<and> read_nat k < 4294967295 then Some (read_nat k) else None
      else None)"

text \<open>The same with the comparison on integers, which evaluates faster.\<close>

lemma array_index_code [code]:
  "array_index k =
     (if k \<noteq> [] \<and> list_all is_digit k then
        if show_nat (read_nat k) = k \<and> int (read_nat k) < 4294967295 then Some (read_nat k) else None
      else None)"
  by (simp add: array_index_def)

fun insert_index :: "nat \<Rightarrow> string \<Rightarrow> 'v \<Rightarrow> 'v jsobj \<Rightarrow> 'v jsobj" where
  "insert_index i k v [] = [(k, v)]"
| "insert_index i k v ((k', v') # ob) =
     (case array_index k' of
        None \<Rightarrow> (k, v) # (k', v') # ob
      | Some j \<Rightarrow> if i < j then (k, v) # (k', v') # ob else (k', v') # insert_index i k v ob)"

definition obj_put :: "string \<Rightarrow> 'v \<Rightarrow> 'v jsobj \<Rightarrow> 'v jsobj" where
  "obj_put k v ob =
     (if map_of ob k \<noteq> None then AList.update k v ob
      else case array_index k of None \<Rightarrow> ob @ [(k, v)] | Some i \<Rightarrow> insert_index i k v ob)"

definition obj_has :: "'v jsobj \<Rightarrow> string \<Rightarrow> bool" where
  "obj_has ob k = (map_of ob k \<noteq> None)"

text \<open>The names of \<open>Object.prototype\<close>, which every object inherits.\<close>

definition inherited_names :: "string list" where
  "inherited_names =
     [''constructor'', ''__defineGetter__'', ''__defineSetter__'', ''hasOwnProperty'', ''__lookupGetter__'',
      ''__lookupSetter__'', ''isPrototypeOf'', ''propertyIsEnumerable'', ''toString'', ''valueOf'',
      ''toLocaleString'', ''__proto__'']"

section \<open>Values\<close>

definition js_truthy :: "jsval \<Rightarrow> bool" where
  "js_truthy v = (case v of JUndef \<Rightarrow> False | JNull \<Rightarrow> False | JBool b \<Rightarrow> b | JNum n \<Rightarrow> \<not> num_zero n
     | JStr s \<Rightarrow> s \<noteq> [] | JArr _ \<Rightarrow> True | JObj _ \<Rightarrow> True)"

definition obj_read :: "jsval jsobj \<Rightarrow> string \<Rightarrow> jsval" where
  "obj_read ob k = (case map_of ob k of None \<Rightarrow> JUndef | Some v \<Rightarrow> v)"

text \<open>\<open>{ ...a, ...b }\<close>\<close>

definition spread :: "'v jsobj \<Rightarrow> 'v jsobj \<Rightarrow> 'v jsobj" where
  "spread a b = fold (\<lambda>(k, v). obj_put k v) b a"

text \<open>
  A property of a value. \<open>undefined\<close> and \<open>null\<close> have none, and reading one throws; numbers and
  booleans have only inherited ones, which are left out.
\<close>

definition js_read :: "jsval \<Rightarrow> string \<Rightarrow> jsval res" where
  "js_read v k =
     (case v of
        JUndef \<Rightarrow> Inl TypeError
      | JNull \<Rightarrow> Inl TypeError
      | JObj ob \<Rightarrow> Inr (obj_read ob k)
      | JArr xs \<Rightarrow>
          Inr (case array_index k of
            Some i \<Rightarrow> if i < length xs then xs ! i else JUndef
          | None \<Rightarrow> if k = ''length'' then JInt (int (length xs)) else JUndef)
      | JStr s \<Rightarrow>
          Inr (case array_index k of
            Some i \<Rightarrow> if i < length s then JStr [s ! i] else JUndef
          | None \<Rightarrow> if k = ''length'' then JInt (int (length s)) else JUndef)
      | _ \<Rightarrow> Inr JUndef)"

text \<open>\<open>Object.keys\<close> of a value that is not \<open>undefined\<close> or \<open>null\<close>.\<close>

definition keys_of :: "jsval \<Rightarrow> string list" where
  "keys_of v =
     (case v of
        JObj ob \<Rightarrow> map fst ob
      | JArr xs \<Rightarrow> map show_nat [0..<length xs]
      | JStr s \<Rightarrow> map show_nat [0..<length s]
      | _ \<Rightarrow> [])"

text \<open>\<open>typeof v === 'object'\<close>, and \<open>===\<close>, which is never true of two values that are objects of their own.\<close>

definition is_object :: "jsval \<Rightarrow> bool" where
  "is_object v = (case v of JNull \<Rightarrow> True | JArr _ \<Rightarrow> True | JObj _ \<Rightarrow> True | _ \<Rightarrow> False)"

definition strict_eq :: "jsval \<Rightarrow> jsval \<Rightarrow> bool" where
  "strict_eq v w = (v = w \<and> (\<not> is_object v \<or> v = JNull))"

text \<open>The order of strings by their code units, which \<open><\<close> and \<open>Array.prototype.sort\<close> use.\<close>

fun str_less :: "string \<Rightarrow> string \<Rightarrow> bool" where
  "str_less s [] = False"
| "str_less [] (c # t) = True"
| "str_less (b # s) (c # t) =
     ((of_char b :: nat) < of_char c \<or> b = c \<and> str_less s t)"

section \<open>Numbered objects\<close>

text \<open>Objects keyed by numbers: the keys are array indices, so they stay in ascending order.\<close>

fun num_put :: "nat \<Rightarrow> 'v \<Rightarrow> (nat \<times> 'v) list \<Rightarrow> (nat \<times> 'v) list" where
  "num_put i v [] = [(i, v)]"
| "num_put i v ((j, w) # ob) =
     (if i < j then (i, v) # (j, w) # ob
      else if i = j then (i, v) # ob
      else (j, w) # num_put i v ob)"

lemma insert_index_set: "set (insert_index i k v ob) = insert (k, v) (set ob)"
  by (induction ob) (auto split: option.splits if_splits)

lemma insert_index_map_of:
  "map_of ob k = None \<Longrightarrow> map_of (insert_index i k v ob) = (map_of ob)(k \<mapsto> v)"
  by (induction ob) (auto simp: fun_eq_iff split: option.splits if_splits)

lemma insert_index_distinct:
  "k \<notin> fst ` set ob \<Longrightarrow> distinct (map fst ob) \<Longrightarrow> distinct (map fst (insert_index i k v ob))"
proof (induction ob)
  case Nil
  then show ?case by simp
next
  case (Cons p ob)
  obtain k' v' where p: "p = (k', v')" by (cases p)
  from Cons have "fst ` set (insert_index i k v ob) = insert k (fst ` set ob)"
    by (simp add: insert_index_set)
  with Cons p show ?case by (auto split: option.splits)
qed

lemma map_of_obj_put [simp]: "map_of (obj_put k v ob) = (map_of ob)(k \<mapsto> v)"
  by (auto simp: obj_put_def update_conv' insert_index_map_of fun_eq_iff map_add_def
      split: option.splits)

lemma obj_put_distinct: "distinct (map fst ob) \<Longrightarrow> distinct (map fst (obj_put k v ob))"
  by (auto simp: obj_put_def distinct_update map_of_eq_None_iff insert_index_distinct
      split: option.splits)

lemma num_put_keys: "fst ` set (num_put i v ob) = insert i (fst ` set ob)"
proof (induction ob)
  case Nil
  then show ?case by simp
next
  case (Cons p ob)
  then show ?case by (cases p) auto
qed

lemma num_put_sorted:
  "sorted_wrt (<) (map fst ob) \<Longrightarrow> sorted_wrt (<) (map fst (num_put i v ob))"
proof (induction ob)
  case Nil
  then show ?case by simp
next
  case (Cons p ob)
  obtain j w where p: "p = (j, w)" by (cases p)
  with Cons show ?case using num_put_keys [of i v ob] by (auto simp: image_iff)
qed

lemma map_of_num_put [simp]:
  "sorted_wrt (<) (map fst ob) \<Longrightarrow> map_of (num_put i v ob) = (map_of ob)(i \<mapsto> v)"
proof (induction ob)
  case Nil
  then show ?case by simp
next
  case (Cons p ob)
  obtain j w where p: "p = (j, w)" by (cases p)
  with Cons show ?case by (auto simp: fun_eq_iff)
qed

lemma map_of_delete [simp]: "map_of (AList.delete k ob) = (map_of ob)(k := None)"
  by (simp add: delete_conv')

lemma delete_sorted:
  "sorted_wrt (<) (map fst ob) \<Longrightarrow> sorted_wrt (<) (map fst (AList.delete i ob))"
  by (simp add: delete_keys removeAll_filter_not_eq sorted_wrt_filter)

lemma strict_sorted_imp_distinct: "sorted_wrt (<) (xs :: nat list) \<Longrightarrow> distinct xs"
  by (induction xs) auto

subsection \<open>The contract of a keyed store\<close>

text \<open>
  What the clients of \<open>Map\<close> and of objects used as dictionaries rely on. \<open>wf\<close> is the
  representation invariant.
\<close>

locale keyed_store =
  fixes look :: "'m \<Rightarrow> 'k \<Rightarrow> 'v option"
    and put :: "'k \<Rightarrow> 'v \<Rightarrow> 'm \<Rightarrow> 'm"
    and del :: "'k \<Rightarrow> 'm \<Rightarrow> 'm"
    and keys :: "'m \<Rightarrow> 'k list"
    and wf :: "'m \<Rightarrow> bool"
  assumes look_put: "wf m \<Longrightarrow> look (put k v m) j = (if j = k then Some v else look m j)"
    and look_del: "wf m \<Longrightarrow> look (del k m) j = (if j = k then None else look m j)"
    and set_keys: "wf m \<Longrightarrow> set (keys m) = {k. look m k \<noteq> None}"
    and distinct_keys: "wf m \<Longrightarrow> distinct (keys m)"
    and wf_put: "wf m \<Longrightarrow> wf (put k v m)"
    and wf_del: "wf m \<Longrightarrow> wf (del k m)"
begin

lemma keys_put: "wf m \<Longrightarrow> set (keys (put k v m)) = insert k (set (keys m))"
  by (auto simp: set_keys look_put wf_put split: if_splits)

lemma keys_del: "wf m \<Longrightarrow> set (keys (del k m)) = set (keys m) - {k}"
  by (auto simp: set_keys look_del wf_del split: if_splits)

lemma put_put_look: "wf m \<Longrightarrow> look (put k w (put k v m)) j = look (put k w m) j"
  by (simp add: look_put wf_put)

lemma del_put_look: "wf m \<Longrightarrow> look (del k (put k v m)) j = look (del k m) j"
  by (simp add: look_put look_del wf_put)

lemma wf_del_all: "wf m \<Longrightarrow> wf (fold del ks m)"
  by (induction ks arbitrary: m) (simp_all add: wf_del)

text \<open>Deleting a list of keys one after the other.\<close>

lemma look_del_all:
  "wf m \<Longrightarrow> look (fold del ks m) j = (if j \<in> set ks then None else look m j)"
  by (induction ks arbitrary: m) (auto simp: look_del wf_del)

lemma length_keys_put:
  "wf m \<Longrightarrow> length (keys (put k v m)) = (if look m k = None then Suc else id) (length (keys m))"
proof -
  assume wf: "wf m"
  have "length (keys (put k v m)) = card (insert k (set (keys m)))"
    using wf distinct_card [OF distinct_keys [OF wf_put [OF wf]]] by (simp add: keys_put)
  moreover have "card (set (keys m)) = length (keys m)"
    using wf by (simp add: distinct_card distinct_keys)
  moreover have "k \<in> set (keys m) \<longleftrightarrow> look m k \<noteq> None"
    using wf by (simp add: set_keys)
  ultimately show ?thesis by (simp add: card_insert_if)
qed

end

definition wf_keys :: "('k \<times> 'v) list \<Rightarrow> bool" where
  "wf_keys m = distinct (map fst m)"

definition wf_nums :: "(nat \<times> 'v) list \<Rightarrow> bool" where
  "wf_nums m = sorted_wrt (<) (map fst m)"

interpretation jmap: keyed_store map_of AList.update AList.delete map_keys wf_keys
  by unfold_locales
    (auto simp: update_conv' wf_keys_def map_keys_def distinct_update distinct_delete
      map_of_eq_None_iff simp flip: not_None_eq)

interpretation jobj: keyed_store map_of obj_put AList.delete map_keys wf_keys
  by unfold_locales
    (auto simp: wf_keys_def map_keys_def obj_put_distinct distinct_delete
      map_of_eq_None_iff simp flip: not_None_eq)

interpretation jnum: keyed_store map_of num_put AList.delete map_keys wf_nums
  by unfold_locales
    (auto simp: wf_nums_def map_keys_def num_put_sorted delete_sorted
      map_of_eq_None_iff strict_sorted_imp_distinct simp flip: not_None_eq)

end
