(* ===== verification/WorkflowTypes.thy ===== *)
theory WorkflowTypes
  imports JsPrelude
begin

text \<open>
  The data model of \<open>packages/workflow/src/Interfaces.ts\<close>: nodes, connections, the items that
  flow between nodes, and the state of an execution. A field that the interface marks optional
  is an \<open>option\<close>; a field that the modelled code never reads is left out. A node carries
  \<open>nodeRef\<close>, the identity of the object, so that equality of node records is the \<open>===\<close> of
  the source: two nodes with the same properties are still two objects.
\<close>

section \<open>Nodes\<close>

datatype OnError = ContinueErrorOutput | ContinueRegularOutput | StopWorkflow

record INode =
  nodeRef :: nat
  nodeName :: string
  ntype :: string
  typeVersion :: number
  position :: "int \<times> int"
  disabled :: "bool option"
  retryOnFail :: "bool option"
  maxTries :: "int option"
  waitBetweenTries :: "int option"
  alwaysOutputData :: "bool option"
  executeOnce :: "bool option"
  onError :: "OnError option"
  continueOnFail :: "bool option"
  parameters :: "jsval jsobj"

text \<open>A node with the properties every node has; the others are not set.\<close>

definition plain_node :: "nat \<Rightarrow> string \<Rightarrow> string \<Rightarrow> INode" where
  "plain_node r nm ty =
     \<lparr>nodeRef = r, nodeName = nm, ntype = ty, typeVersion = Decimal 1 0, position = (0, 0), disabled = None,
      retryOnFail = None, maxTries = None, waitBetweenTries = None, alwaysOutputData = None,
      executeOnce = None, onError = None, continueOnFail = None, parameters = []\<rparr>"

text \<open>The reading of an optional flag as a condition: \<open>undefined\<close> and \<open>false\<close> are falsy.\<close>

definition truthy :: "bool option \<Rightarrow> bool" where
  "truthy b = (b = Some True)"

lemma truthy_simps [simp, js_simps]:
  "truthy None = False"
  "truthy (Some b) = b"
  by (simp_all add: truthy_def)

section \<open>Connections\<close>

text \<open>
  \<open>NodeConnectionType\<close> is an enumeration of strings, and the code casts arbitrary object keys to
  it; the model keeps the strings.
\<close>

type_synonym NodeConnectionType = string

abbreviation Main :: NodeConnectionType where
  "Main \<equiv> ''main''"

definition NodeConnectionTypes :: "NodeConnectionType list" where
  "NodeConnectionTypes =
     [''ai_agent'', ''ai_chain'', ''ai_document'', ''ai_embedding'', ''ai_languageModel'',
      ''ai_memory'', ''ai_outputParser'', ''ai_retriever'', ''ai_textSplitter'', ''ai_tool'',
      ''ai_vectorStore'', ''main'']"

record IConnection =
  cnode :: string
  ctype :: NodeConnectionType
  cindex :: nat

text \<open>
  The connections of one input or output type: one entry for each index. An array of the
  source can have holes (indices that were never assigned); a hole is \<open>None\<close>.
\<close>

type_synonym NodeInputConnections = "IConnection list option list"
type_synonym INodeConnections = "NodeInputConnections jsobj"
type_synonym IConnections = "INodeConnections jsobj"

record INodeConnection =
  sourceIndex :: nat
  destinationIndex :: nat

record IConnectedNode =
  cn_name :: string
  cn_indicies :: "nat list"
  cn_depth :: nat

section \<open>Items and run data\<close>

text \<open>
  A slot of an array that holds a value, \<open>null\<close> or \<open>undefined\<close>, or that is a hole: a read of it gives
  \<open>undefined\<close>, but \<open>map\<close> and \<open>filter\<close> pass over it.
\<close>

datatype 'a slot = SUndef | SNull | SVal 'a | SHole

definition slot_read :: "'a slot \<Rightarrow> 'a slot" where
  "slot_read v = (case v of SHole \<Rightarrow> SUndef | _ \<Rightarrow> v)"

lemma slot_read_simps [simp, js_simps]:
  "slot_read SUndef = SUndef" "slot_read SNull = SNull" "slot_read (SVal x) = SVal x" "slot_read SHole = SUndef"
  "slot_read (slot_read v) = slot_read v"
  by (simp_all add: slot_read_def split: slot.split)

lemma slot_read_iff [simp]: "slot_read v = SNull \<longleftrightarrow> v = SNull" "slot_read v = SVal x \<longleftrightarrow> v = SVal x"
  "slot_read v \<noteq> SHole"
  by (simp_all add: slot_read_def split: slot.split)

record ISourceData =
  previousNode :: string
  previousNodeOutput :: "nat option"
  previousNodeRun :: "nat option"

record IPairedItemData =
  pi_item :: nat
  pi_input :: "nat option"
  pi_sourceOverwrite :: "ISourceData option"

datatype pairedItem =
    PairedNumber nat
  | PairedOne IPairedItemData
  | PairedMany "IPairedItemData list"

record INodeExecutionData =
  json :: "jsval jsobj"
  item_error :: jsval
  pairedItem :: "pairedItem option"

definition empty_item :: INodeExecutionData where
  "empty_item = \<lparr>json = [], item_error = JUndef, pairedItem = None\<rparr>"

type_synonym ITaskDataConnections = "INodeExecutionData list slot list jsobj"
type_synonym ITaskDataConnectionsSource = "ISourceData slot list jsobj"

datatype ExecutionStatus =
  Canceled | Crashed | StatusError | New | Running | Success | Unknown | Waiting

record ITaskData =
  executionStatus :: ExecutionStatus
  task_data :: "ITaskDataConnections option"
  task_error :: "js_error option"
  task_source :: "ISourceData slot list"
  task_metadata :: jsval

type_synonym IRunData = "ITaskData list jsobj"
type_synonym IPinData = "INodeExecutionData list jsobj"

record IExecuteData =
  ed_node :: INode
  ed_data :: ITaskDataConnections
  ed_source :: "ITaskDataConnectionsSource option"

type_synonym IWaitingForExecution = "(nat \<times> ITaskDataConnections) list jsobj"
type_synonym IWaitingForExecutionSource = "(nat \<times> ITaskDataConnectionsSource) list jsobj"

text \<open>The issues of a node; \<open>input\<close> and other keys are not written by the modelled code.\<close>

record INodeIssues =
  iss_execution :: "bool option"
  iss_credentials :: "string list jsobj option"
  iss_parameters :: "string list jsobj option"
  iss_typeUnknown :: "bool option"

definition no_issues :: INodeIssues where
  "no_issues = \<lparr>iss_execution = None, iss_credentials = None, iss_parameters = None, iss_typeUnknown = None\<rparr>"

section \<open>Arrays\<close>

text \<open>
  \<open>xs[i]\<close>: a read out of range, or of a hole, is \<open>undefined\<close>. \<open>xs[i] = v\<close> extends the array;
  the indices it skips are holes.
\<close>

definition arr_get :: "'a slot list \<Rightarrow> nat \<Rightarrow> 'a slot" where
  "arr_get xs i = (if i < length xs then slot_read (xs ! i) else SUndef)"

definition arr_set :: "nat \<Rightarrow> 'a slot \<Rightarrow> 'a slot list \<Rightarrow> 'a slot list" where
  "arr_set i v xs =
     (if i < length xs then xs[i := v] else xs @ replicate (i - length xs) SHole @ [v])"

definition hole_get :: "'a option list \<Rightarrow> nat \<Rightarrow> 'a option" where
  "hole_get xs i = (if i < length xs then xs ! i else None)"

definition hole_set :: "nat \<Rightarrow> 'a \<Rightarrow> 'a option list \<Rightarrow> 'a option list" where
  "hole_set i v xs =
     (if i < length xs then xs[i := Some v] else xs @ replicate (i - length xs) None @ [Some v])"

lemma length_arr_set [simp]: "length (arr_set i v xs) = max (length xs) (Suc i)"
  by (auto simp: arr_set_def)

lemma arr_get_set: "arr_get (arr_set i v xs) j = (if j = i then slot_read v else arr_get xs j)"
  by (auto simp: arr_get_def arr_set_def nth_append nth_Cons split: nat.splits)

lemma slot_read_arr_get [simp]: "slot_read (arr_get xs i) = arr_get xs i"
  by (simp add: arr_get_def)

lemma length_hole_set [simp]: "length (hole_set i v xs) = max (length xs) (Suc i)"
  by (auto simp: hole_set_def)

lemma hole_get_set: "hole_get (hole_set i v xs) j = (if j = i then Some v else hole_get xs j)"
  by (auto simp: hole_get_def hole_set_def nth_append nth_Cons split: nat.splits)

lemma hole_get_Nil [simp]: "hole_get [] i = None"
  by (simp add: hole_get_def)

text \<open>The entries of an array that are not holes, with their indices (\<open>for ... in\<close>, \<open>forEach\<close>).\<close>

fun present_from :: "nat \<Rightarrow> 'a option list \<Rightarrow> (nat \<times> 'a) list" where
  "present_from i [] = []"
| "present_from i (None # xs) = present_from (Suc i) xs"
| "present_from i (Some x # xs) = (i, x) # present_from (Suc i) xs"

definition present :: "'a option list \<Rightarrow> (nat \<times> 'a) list" where
  "present xs = present_from 0 xs"

lemma hole_get_Cons: "hole_get (y # xs) k = (case k of 0 \<Rightarrow> y | Suc j \<Rightarrow> hole_get xs j)"
  by (simp add: hole_get_def split: nat.split)

lemma present_from_iff:
  "(i, x) \<in> set (present_from n xs) \<longleftrightarrow> (\<exists>k. i = n + k \<and> hole_get xs k = Some x)"
proof (induction n xs rule: present_from.induct)
  case (1 n)
  then show ?case by simp
next
  case (2 n xs)
  have "(\<exists>k. i = n + k \<and> hole_get (None # xs) k = Some x) \<longleftrightarrow>
    (\<exists>k. i = Suc n + k \<and> hole_get xs k = Some x)"
    by (metis (no_types, lifting) add_Suc_shift hole_get_Cons nat.case nat.exhaust option.distinct(1))
  with 2 show ?case by simp
next
  case (3 n y xs)
  have "(\<exists>k. i = n + k \<and> hole_get (Some y # xs) k = Some x) \<longleftrightarrow>
    i = n \<and> x = y \<or> (\<exists>k. i = Suc n + k \<and> hole_get xs k = Some x)"
    (is "?l \<longleftrightarrow> ?r")
  proof
    assume ?l
    then obtain k where "i = n + k" "hole_get (Some y # xs) k = Some x" by blast
    then show ?r by (cases k) (auto simp: hole_get_Cons)
  next
    assume ?r
    then show ?l
    proof
      assume "i = n \<and> x = y"
      then have "i = n + 0 \<and> hole_get (Some y # xs) 0 = Some x" by (simp add: hole_get_Cons)
      then show ?l by blast
    next
      assume "\<exists>k. i = Suc n + k \<and> hole_get xs k = Some x"
      then obtain k where "i = n + Suc k \<and> hole_get (Some y # xs) (Suc k) = Some x"
        by (auto simp: hole_get_Cons)
      then show ?l by blast
    qed
  qed
  with 3 show ?case by auto
qed

lemma present_iff: "(i, x) \<in> set (present xs) \<longleftrightarrow> hole_get xs i = Some x"
  by (simp add: present_def present_from_iff)

end
