(* ===== verification/JsText.thy ===== *)
theory JsText
  imports JsPrelude
begin

text \<open>
  Texts: the text of a value (\<open>String(v)\<close>), white space and case, and the regular expressions that the
  code has in its source, which are patterns here and are matched by derivatives. Characters are those
  of Latin-1.
\<close>

section \<open>The text of a value\<close>

fun join :: "string \<Rightarrow> string list \<Rightarrow> string" where
  "join sep [] = []"
| "join sep [s] = s"
| "join sep (s # t # ts) = s @ sep @ join sep (t # ts)"

definition show_int :: "int \<Rightarrow> string" where
  "show_int i = (if i < 0 then CHR ''-'' # show_nat (nat (- i)) else show_nat (nat i))"

text \<open>
  \<open>Number.prototype.toString\<close>, without the exponents of numbers that are very large or very small.
\<close>

definition show_number :: "number \<Rightarrow> string" where
  "show_number n =
     (case n of
        Infinite negative \<Rightarrow> (if negative then ''-Infinity'' else ''Infinity'')
      | Decimal m e \<Rightarrow>
          if e = 0 then show_int m
          else
            let s = show_nat (nat (abs m)); digits = replicate (Suc e - length s) (CHR ''0'') @ s;
                k = length digits - e
            in (if m < 0 then ''-'' else []) @ take k digits @ ''.'' @ drop k digits)"

fun js_string :: "jsval \<Rightarrow> string" where
  "js_string JUndef = ''undefined''"
| "js_string JNull = ''null''"
| "js_string (JBool b) = (if b then ''true'' else ''false'')"
| "js_string (JNum n) = show_number n"
| "js_string (JStr s) = s"
| "js_string (JArr xs) =
     join '','' (map (\<lambda>x. case x of JUndef \<Rightarrow> [] | JNull \<Rightarrow> [] | _ \<Rightarrow> js_string x) xs)"
| "js_string (JObj _) = ''[object Object]''"

section \<open>White space and case\<close>

definition is_space :: "char \<Rightarrow> bool" where
  "is_space c = ((of_char c :: nat) \<in> {9, 10, 11, 12, 13, 32, 160})"

definition trim :: "string \<Rightarrow> string" where
  "trim s = rev (dropWhile is_space (rev (dropWhile is_space s)))"

definition lower_char :: "char \<Rightarrow> char" where
  "lower_char c =
     (let n = of_char c :: nat in
      if 65 \<le> n \<and> n \<le> 90 \<or> 192 \<le> n \<and> n \<le> 222 \<and> n \<noteq> 215 then char_of (n + 32) else c)"

definition js_lower :: "string \<Rightarrow> string" where
  "js_lower s = map lower_char s"

definition is_letter :: "char \<Rightarrow> bool" where
  "is_letter c = (let n = of_char c :: nat in 65 \<le> n \<and> n \<le> 90 \<or> 97 \<le> n \<and> n \<le> 122)"

text \<open>\<open>[a-zA-Z0-9_]\<close>\<close>

definition is_word_char :: "char \<Rightarrow> bool" where
  "is_word_char c = (is_letter c \<or> is_digit c \<or> c = CHR ''_'')"

lemma trim_Nil [simp]: "trim [] = []"
  by (simp add: trim_def)

lemma length_js_lower [simp]: "length (js_lower s) = length s"
  by (simp add: js_lower_def)

section \<open>Regular expressions\<close>

datatype pattern =
    Nothing
  | Empty
  | One "char \<Rightarrow> bool"
  | Seq pattern pattern
  | Either pattern pattern
  | Many pattern

text \<open>The language of a pattern is the reference for the matcher.\<close>

inductive_set star :: "'a list set \<Rightarrow> 'a list set" for A where
  star_Nil: "[] \<in> star A"
| star_append: "s \<in> A \<Longrightarrow> t \<in> star A \<Longrightarrow> s @ t \<in> star A"

primrec lang :: "pattern \<Rightarrow> string set" where
  "lang Nothing = {}"
| "lang Empty = {[]}"
| "lang (One P) = {[c] |c. P c}"
| "lang (Seq p q) = {s @ t |s t. s \<in> lang p \<and> t \<in> lang q}"
| "lang (Either p q) = lang p \<union> lang q"
| "lang (Many p) = star (lang p)"

primrec nullable :: "pattern \<Rightarrow> bool" where
  "nullable Nothing = False"
| "nullable Empty = True"
| "nullable (One P) = False"
| "nullable (Seq p q) = (nullable p \<and> nullable q)"
| "nullable (Either p q) = (nullable p \<or> nullable q)"
| "nullable (Many p) = True"

primrec deriv :: "char \<Rightarrow> pattern \<Rightarrow> pattern" where
  "deriv c Nothing = Nothing"
| "deriv c Empty = Nothing"
| "deriv c (One P) = (if P c then Empty else Nothing)"
| "deriv c (Seq p q) =
     (if nullable p then Either (Seq (deriv c p) q) (deriv c q) else Seq (deriv c p) q)"
| "deriv c (Either p q) = Either (deriv c p) (deriv c q)"
| "deriv c (Many p) = Seq (deriv c p) (Many p)"

definition matches :: "pattern \<Rightarrow> string \<Rightarrow> bool" where
  "matches p s = nullable (fold deriv s p)"

lemma nullable_iff: "nullable p \<longleftrightarrow> [] \<in> lang p"
  by (induction p) (auto intro: star_Nil)

lemma star_Cons:
  "c # s \<in> star A \<longleftrightarrow> (\<exists>t u. s = t @ u \<and> c # t \<in> A \<and> u \<in> star A)"
proof
  assume "c # s \<in> star A"
  then show "\<exists>t u. s = t @ u \<and> c # t \<in> A \<and> u \<in> star A"
    by (induction "c # s" arbitrary: c s) (auto simp: append_eq_Cons_conv)
next
  assume "\<exists>t u. s = t @ u \<and> c # t \<in> A \<and> u \<in> star A"
  then obtain t u where "s = t @ u" "c # t \<in> A" "u \<in> star A" by blast
  with star_append [of "c # t" A u] show "c # s \<in> star A" by simp
qed

lemma lang_deriv: "s \<in> lang (deriv c p) \<longleftrightarrow> c # s \<in> lang p"
proof (induction p arbitrary: s)
  case (Seq p q)
  have split: "c # s \<in> lang (Seq p q) \<longleftrightarrow> [] \<in> lang p \<and> c # s \<in> lang q \<or>
      (\<exists>t u. s = t @ u \<and> c # t \<in> lang p \<and> u \<in> lang q)"
    by (auto simp: Cons_eq_append_conv)
  show ?case unfolding split by (simp add: Seq nullable_iff) blast
next
  case (Many p)
  then show ?case by (auto simp: star_Cons)
qed auto

lemma matches_iff_lang: "matches p s \<longleftrightarrow> s \<in> lang p"
proof (induction s arbitrary: p)
  case Nil
  then show ?case by (simp add: matches_def nullable_iff)
next
  case (Cons c s)
  then have "matches (deriv c p) s \<longleftrightarrow> c # s \<in> lang p" by (simp add: lang_deriv)
  then show ?case by (simp add: matches_def)
qed

text \<open>Building blocks: a fixed text, \<open>p?\<close>, \<open>p+\<close>, and tests that are not anchored.\<close>

fun exact :: "string \<Rightarrow> pattern" where
  "exact [] = Empty"
| "exact (c # s) = Seq (One (\<lambda>d. d = c)) (exact s)"

definition perhaps :: "pattern \<Rightarrow> pattern" where
  "perhaps p = Either Empty p"

definition many1 :: "pattern \<Rightarrow> pattern" where
  "many1 p = Seq p (Many p)"

definition anything :: pattern where
  "anything = Many (One (\<lambda>_. True))"

fun in_order :: "pattern list \<Rightarrow> pattern" where
  "in_order [] = Empty"
| "in_order (p # ps) = Seq p (in_order ps)"

lemma lang_exact [simp]: "lang (exact s) = {s}"
  by (induction s) auto

lemma star_One: "s \<in> star {[c] |c. P c} \<longleftrightarrow> list_all P s"
proof (induction s)
  case (Cons c s)
  then show ?case by (auto simp: star_Cons)
qed (auto intro: star_Nil)

lemma lang_Many_One [simp]: "lang (Many (One P)) = {s. list_all P s}"
  by (auto simp: star_One)

lemma lang_anything [simp]: "lang anything = UNIV"
  by (simp only: anything_def lang_Many_One) (simp add: list_all_iff)

end
