(* ===== verification/NodeProperties.thy ===== *)
theory NodeProperties
  imports WorkflowTypes JsText
begin

text \<open>
  The descriptions of node parameters (\<open>INodeProperties\<close> of \<open>packages/workflow/src/Interfaces.ts\<close>) and
  the decision whether a parameter is displayed (\<open>displayParameter\<close> of \<open>NodeHelpers.ts\<close>). \<open>get\<close> and
  \<open>isEqual\<close> of lodash, and the engine of regular expressions, are arguments.
\<close>

section \<open>Descriptions\<close>

datatype DisplayCondition =
    Plain jsval
  | CndEq jsval
  | CndNot jsval
  | CndGte jsval
  | CndLte jsval
  | CndGt jsval
  | CndLt jsval
  | CndBetween jsval jsval
  | CndIncludes string
  | CndStartsWith string
  | CndEndsWith string
  | CndRegex string
  | CndExists

text \<open>
  The rules under \<open>show\<close> and \<open>hide\<close>, in the order in which the object has them; \<open>hideOnCloud\<close> has no
  rules.
\<close>

type_synonym IDisplayOptions = "DisplayCondition list jsobj jsobj"

text \<open>
  A mode of a resource locator, with its checks: a regular expression and the message. A check that is
  a function of the node is not called by the code modelled here.
\<close>

record INodePropertyMode =
  mode_name :: string
  mode_validation :: "(string \<times> string) list"

text \<open>
  Of the \<open>typeOptions\<close> the code modelled here reads \<open>multipleValues\<close>, and \<open>mode\<close> and
  \<open>fieldWords.singular\<close> of \<open>resourceMapper\<close>.
\<close>

record ResourceMapperTypeOptions =
  mapper_mode :: string
  mapper_singular :: "string option"

datatype INodeProperties = INodeProperties
    (np_displayName: string)
    (np_name: string)
    (np_type: string)
    (np_default: jsval)
    (np_required: bool)
    (np_displayOptions: "IDisplayOptions option")
    (np_multipleValues: "bool option")
    (np_doNotInherit: bool)
    (np_modes: "INodePropertyMode list option")
    (np_validateType: "string option")
    (np_resourceMapper: "ResourceMapperTypeOptions option")
    (np_options: "INodePropertyOption list option")
and INodePropertyOption =
    OptionValue string jsval
  | OptionProperties INodeProperties
  | OptionCollection string "INodeProperties list"

text \<open>A parameter without options or rules.\<close>

definition plain_property :: "string \<Rightarrow> string \<Rightarrow> jsval \<Rightarrow> INodeProperties" where
  "plain_property name type def = INodeProperties name name type def False None None False None None None None"

record ParameterLib =
  lib_get :: "jsval \<Rightarrow> string \<Rightarrow> jsval"
  lib_isEqual :: "jsval \<Rightarrow> jsval \<Rightarrow> bool"
  lib_regex :: "string \<Rightarrow> jsval \<Rightarrow> bool res"

section \<open>Comparing values\<close>

text \<open>A text as a number: digits in a base, and decimals with an exponent.\<close>

definition digit_in :: "nat \<Rightarrow> char \<Rightarrow> nat option" where
  "digit_in base c =
     (let k = length (takeWhile (\<lambda>d. d \<noteq> lower_char c) ''0123456789abcdef'') in if k < base then Some k else None)"

definition digits_in :: "nat \<Rightarrow> string \<Rightarrow> int option" where
  "digits_in base s =
     (if s \<noteq> [] \<and> list_all (\<lambda>c. digit_in base c \<noteq> None) s then
        Some (fold (\<lambda>c n. int base * n + int (the (digit_in base c))) s 0)
      else None)"

definition exponent_of :: "string \<Rightarrow> int option" where
  "exponent_of s =
     (case s of
        [] \<Rightarrow> Some 0
      | c # t \<Rightarrow>
          if lower_char c \<noteq> CHR ''e'' then None
          else if take 1 t = ''-'' then map_option uminus (digits_in 10 (tl t))
          else if take 1 t = ''+'' then digits_in 10 (tl t)
          else digits_in 10 t)"

definition parse_decimal :: "string \<Rightarrow> number option" where
  "parse_decimal s =
     (let whole = takeWhile is_digit s; r = dropWhile is_digit s;
          fraction = (if take 1 r = ''.'' then takeWhile is_digit (tl r) else []);
          r = (if take 1 r = ''.'' then dropWhile is_digit (tl r) else r)
      in if whole @ fraction = [] then None
         else map_option (\<lambda>e.
           let n = int (read_nat (whole @ fraction)); k = e - int (length fraction) in
           if 0 \<le> k then Decimal (n * 10 ^ nat k) 0 else decimal n (nat (- k))) (exponent_of r))"

definition negated :: "number \<Rightarrow> number" where
  "negated n = (case n of Decimal m e \<Rightarrow> Decimal (- m) e | Infinite negative \<Rightarrow> Infinite (\<not> negative))"

definition parse_unsigned :: "string \<Rightarrow> number option" where
  "parse_unsigned s = (if s = ''Infinity'' then Some (Infinite False) else parse_decimal s)"

definition parse_number :: "string \<Rightarrow> number option" where
  "parse_number s =
     (let prefix = map lower_char (take 2 s); in_base = (\<lambda>base. map_option (\<lambda>n. Decimal n 0) (digits_in base (drop 2 s))) in
      if s = [] then Some (Decimal 0 0)
      else if prefix = ''0x'' then in_base 16
      else if prefix = ''0o'' then in_base 8
      else if prefix = ''0b'' then in_base 2
      else if hd s = CHR ''-'' then map_option negated (parse_unsigned (tl s))
      else if hd s = CHR ''+'' then parse_unsigned (tl s)
      else parse_unsigned s)"

text \<open>\<open>Number(v)\<close>, \<open>None\<close> for \<open>NaN\<close>.\<close>

definition number_of :: "jsval \<Rightarrow> number option" where
  "number_of v =
     (case v of
        JNum n \<Rightarrow> Some n
      | JBool b \<Rightarrow> Some (Decimal (if b then 1 else 0) 0)
      | JNull \<Rightarrow> Some (Decimal 0 0)
      | JUndef \<Rightarrow> None
      | _ \<Rightarrow> parse_number (trim (js_string v)))"

lemma numbers_of_texts:
  "map (\<lambda>s. number_of (JStr s)) [''1'', ''-1'', ''1.1'', ''-1.10'', ''1e3'', '' .5 '', ''0x10'', ''-Infinity'', ''A'', ''1,1''] =
     [Some (Decimal 1 0), Some (Decimal (-1) 0), Some (Decimal 11 1), Some (Decimal (-11) 1), Some (Decimal 1000 0),
      Some (Decimal 5 1), Some (Decimal 16 0), Some (Infinite True), None, None]"
  by code_simp

definition js_less :: "jsval \<Rightarrow> jsval \<Rightarrow> bool" where
  "js_less v w =
     (case (v, w) of
        (JStr s, JStr t) \<Rightarrow> str_less s t
      | _ \<Rightarrow> (case (number_of v, number_of w) of (Some i, Some j) \<Rightarrow> num_less i j | _ \<Rightarrow> False))"

definition js_less_eq :: "jsval \<Rightarrow> jsval \<Rightarrow> bool" where
  "js_less_eq v w =
     (case (v, w) of
        (JStr s, JStr t) \<Rightarrow> \<not> str_less t s
      | _ \<Rightarrow> (case (number_of v, number_of w) of (Some i, Some j) \<Rightarrow> \<not> num_less j i | _ \<Rightarrow> False))"

text \<open>The methods of strings; other values have no such method, except \<open>includes\<close> of arrays.\<close>

definition str_method :: "jsval \<Rightarrow> (string \<Rightarrow> bool) \<Rightarrow> bool res" where
  "str_method v f = (case v of JStr s \<Rightarrow> Inr (f s) | _ \<Rightarrow> Inl TypeError)"

definition contains :: "string \<Rightarrow> string \<Rightarrow> bool" where
  "contains s t = list_ex (\<lambda>k. take (length t) (drop k s) = t) [0..<Suc (length s)]"

definition starts_with :: "string \<Rightarrow> string \<Rightarrow> bool" where
  "starts_with s t = (take (length t) s = t)"

definition ends_with :: "string \<Rightarrow> string \<Rightarrow> bool" where
  "ends_with s suffix = (length suffix \<le> length s \<and> drop (length s - length suffix) s = suffix)"

section \<open>checkConditions\<close>

definition checkValue :: "ParameterLib \<Rightarrow> DisplayCondition \<Rightarrow> jsval \<Rightarrow> bool res" where
  "checkValue lib c v =
     (case c of
        Plain _ \<Rightarrow> Inr False
      | CndEq t \<Rightarrow> Inr (lib_isEqual lib v t)
      | CndNot t \<Rightarrow> Inr (\<not> lib_isEqual lib v t)
      | CndGte t \<Rightarrow> Inr (js_less_eq t v)
      | CndLte t \<Rightarrow> Inr (js_less_eq v t)
      | CndGt t \<Rightarrow> Inr (js_less t v)
      | CndLt t \<Rightarrow> Inr (js_less v t)
      | CndBetween from to \<Rightarrow> Inr (js_less_eq from v \<and> js_less_eq v to)
      | CndIncludes t \<Rightarrow>
          (case v of JArr xs \<Rightarrow> Inr (list_ex (\<lambda>x. strict_eq x (JStr t)) xs) | _ \<Rightarrow> str_method v (\<lambda>s. contains s t))
      | CndStartsWith t \<Rightarrow> str_method v (\<lambda>s. starts_with s t)
      | CndEndsWith t \<Rightarrow> str_method v (\<lambda>s. ends_with s t)
      | CndRegex t \<Rightarrow> lib_regex lib t v
      | CndExists \<Rightarrow> Inr (v \<noteq> JNull \<and> v \<noteq> JUndef \<and> v \<noteq> JStr []))"

text \<open>\<open>every\<close> and \<open>some\<close> with a predicate that may throw: they stop at the first answer.\<close>

primrec everyR :: "('a \<Rightarrow> bool res) \<Rightarrow> 'a list \<Rightarrow> bool res" where
  "everyR p [] = Inr True"
| "everyR p (x # xs) = bindR (p x) (\<lambda>b. if b then everyR p xs else Inr False)"

primrec someR :: "('a \<Rightarrow> bool res) \<Rightarrow> 'a list \<Rightarrow> bool res" where
  "someR p [] = Inr False"
| "someR p (x # xs) = bindR (p x) (\<lambda>b. if b then Inr True else someR p xs)"

definition checkCondition :: "ParameterLib \<Rightarrow> jsval list \<Rightarrow> DisplayCondition \<Rightarrow> bool res" where
  "checkCondition lib actualValues condition =
     (case condition of
        Plain v \<Rightarrow> Inr (list_ex (\<lambda>x. strict_eq x v) actualValues)
      | _ \<Rightarrow> everyR (checkValue lib condition) actualValues)"

definition checkConditions :: "ParameterLib \<Rightarrow> DisplayCondition list \<Rightarrow> jsval list \<Rightarrow> bool res" where
  "checkConditions lib conditions actualValues = someR (checkCondition lib actualValues) conditions"

section \<open>displayParameter\<close>

text \<open>The value of a resource locator stands for the locator.\<close>

definition unlocated :: "jsval \<Rightarrow> jsval" where
  "unlocated v =
     (case v of JObj ob \<Rightarrow> if js_truthy (obj_read ob ''__rl'') then obj_read ob ''value'' else v | _ \<Rightarrow> v)"

definition getPropertyValues ::
  "ParameterLib \<Rightarrow> jsval \<Rightarrow> string \<Rightarrow> number option \<Rightarrow> jsval \<Rightarrow> jsval list" where
  "getPropertyValues lib nodeValues propertyName version nodeValuesRoot =
     (let value = unlocated (
            if take 1 propertyName = ''/'' then lib_get lib nodeValuesRoot (tl propertyName)
            else if propertyName = ''@version'' then JNum (case version of None \<Rightarrow> Decimal 0 0 | Some v \<Rightarrow> v)
            else lib_get lib nodeValues propertyName)
      in case value of JArr vs \<Rightarrow> vs | _ \<Rightarrow> [value])"

definition is_expression :: "jsval \<Rightarrow> bool" where
  "is_expression v = (case v of JStr s \<Rightarrow> take 1 s = ''='' | _ \<Rightarrow> False)"

text \<open>The loops over the rules: \<open>Some b\<close> when the loop returns \<open>b\<close>.\<close>

primrec showLoop :: "ParameterLib \<Rightarrow> (string \<Rightarrow> jsval list) \<Rightarrow> DisplayCondition list jsobj \<Rightarrow> bool option res" where
  "showLoop lib valuesOf [] = Inr None"
| "showLoop lib valuesOf (rule # rules) =
     (let values = valuesOf (fst rule) in
      if list_ex is_expression values then Inr (Some True)
      else if values = [] then Inr (Some False)
      else bindR (checkConditions lib (snd rule) values) (\<lambda>met.
        if \<not> met then Inr (Some False) else showLoop lib valuesOf rules))"

primrec hideLoop :: "ParameterLib \<Rightarrow> (string \<Rightarrow> jsval list) \<Rightarrow> DisplayCondition list jsobj \<Rightarrow> bool option res" where
  "hideLoop lib valuesOf [] = Inr None"
| "hideLoop lib valuesOf (rule # rules) =
     (let values = valuesOf (fst rule) in
      if values = [] then hideLoop lib valuesOf rules
      else bindR (checkConditions lib (snd rule) values) (\<lambda>met.
        if met then Inr (Some False) else hideLoop lib valuesOf rules))"

definition displayParameter ::
  "ParameterLib \<Rightarrow> jsval \<Rightarrow> INodeProperties \<Rightarrow> number option \<Rightarrow> jsval option \<Rightarrow> bool res" where
  "displayParameter lib nodeValues parameter version nodeValuesRoot =
     (case np_displayOptions parameter of
        None \<Rightarrow> Inr True
      | Some options \<Rightarrow>
          let root = (case nodeValuesRoot of None \<Rightarrow> nodeValues | Some r \<Rightarrow> if js_truthy r then r else nodeValues);
              valuesOf = (\<lambda>name. getPropertyValues lib nodeValues name version root)
          in bindR (case map_of options ''show'' of None \<Rightarrow> Inr None | Some rules \<Rightarrow> showLoop lib valuesOf rules)
               (\<lambda>shown. case shown of
                  Some b \<Rightarrow> Inr b
                | None \<Rightarrow>
                    bindR (case map_of options ''hide'' of None \<Rightarrow> Inr None | Some rules \<Rightarrow> hideLoop lib valuesOf rules)
                      (\<lambda>hidden. Inr (case hidden of Some b \<Rightarrow> b | None \<Rightarrow> True))))"

text \<open>A rule holds when its parameter has values and they meet one of its conditions.\<close>

definition rule_met :: "ParameterLib \<Rightarrow> (string \<Rightarrow> jsval list) \<Rightarrow> string \<times> DisplayCondition list \<Rightarrow> bool" where
  "rule_met lib valuesOf rule =
     (valuesOf (fst rule) \<noteq> [] \<and> checkConditions lib (snd rule) (valuesOf (fst rule)) = Inr True)"

lemma showLoop_rules:
  "showLoop lib valuesOf rules = Inr r \<Longrightarrow> \<not> list_ex (\<lambda>rule. list_ex is_expression (valuesOf (fst rule))) rules \<Longrightarrow>
     r = (if list_all (rule_met lib valuesOf) rules then None else Some False)"
  by (induction rules) (auto simp: rule_met_def Let_def bindR_Inr_iff split: if_splits)

lemma hideLoop_rules:
  "hideLoop lib valuesOf rules = Inr r \<Longrightarrow>
     r = (if list_ex (rule_met lib valuesOf) rules then Some False else None)"
  by (induction rules) (auto simp: rule_met_def Let_def bindR_Inr_iff split: if_splits)

definition rules_of :: "INodeProperties \<Rightarrow> string \<Rightarrow> DisplayCondition list jsobj" where
  "rules_of parameter kind =
     (case np_displayOptions parameter of
        None \<Rightarrow> []
      | Some options \<Rightarrow> (case map_of options kind of None \<Rightarrow> [] | Some rules \<Rightarrow> rules))"

lemma displayParameter_eq:
  assumes "js_truthy nodeValuesRoot"
    and "valuesOf = (\<lambda>name. getPropertyValues lib nodeValues name version nodeValuesRoot)"
  shows "displayParameter lib nodeValues parameter version (Some nodeValuesRoot) =
    bindR (showLoop lib valuesOf (rules_of parameter ''show'')) (\<lambda>shown. case shown of
      Some b \<Rightarrow> Inr b
    | None \<Rightarrow> bindR (hideLoop lib valuesOf (rules_of parameter ''hide''))
        (\<lambda>hidden. Inr (case hidden of Some b \<Rightarrow> b | None \<Rightarrow> True)))"
  using assms by (simp add: displayParameter_def rules_of_def Let_def split: option.split)

text \<open>When no parameter that a \<open>show\<close> rule reads holds an expression, a parameter is displayed
  exactly if every \<open>show\<close> rule and no \<open>hide\<close> rule holds.\<close>

theorem displayParameter_rules:
  assumes "displayParameter lib nodeValues parameter version (Some nodeValuesRoot) = Inr b" "js_truthy nodeValuesRoot"
    and "valuesOf = (\<lambda>name. getPropertyValues lib nodeValues name version nodeValuesRoot)"
    and "\<not> list_ex (\<lambda>rule. list_ex is_expression (valuesOf (fst rule))) (rules_of parameter ''show'')"
  shows "b \<longleftrightarrow> list_all (rule_met lib valuesOf) (rules_of parameter ''show'') \<and>
    \<not> list_ex (rule_met lib valuesOf) (rules_of parameter ''hide'')"
proof -
  from assms(1) obtain shown where shown: "showLoop lib valuesOf (rules_of parameter ''show'') = Inr shown"
    "(case shown of Some b \<Rightarrow> Inr b | None \<Rightarrow> bindR (hideLoop lib valuesOf (rules_of parameter ''hide''))
       (\<lambda>hidden. Inr (case hidden of Some b \<Rightarrow> b | None \<Rightarrow> True))) = Inr b"
    unfolding displayParameter_eq [OF assms(2,3)] by (rule bindR_InrE)
  show ?thesis
  proof (cases shown)
    case None
    with shown(2) obtain hidden where hidden: "hideLoop lib valuesOf (rules_of parameter ''hide'') = Inr hidden"
      "b = (case hidden of Some b \<Rightarrow> b | None \<Rightarrow> True)" by (auto simp: bindR_Inr_iff)
    with showLoop_rules [OF shown(1) assms(4)] hideLoop_rules [OF hidden(1)] hidden(2) None show ?thesis by (auto split: if_splits)
  next
    case (Some c)
    with showLoop_rules [OF shown(1) assms(4)] shown(2) show ?thesis by (auto split: if_splits)
  qed
qed

text \<open>A library for examples: one name is looked up, and equality is that of values.\<close>

definition plain_lib :: ParameterLib where
  "plain_lib = \<lparr>lib_get = (\<lambda>v k. case v of JObj ob \<Rightarrow> obj_read ob k | _ \<Rightarrow> JUndef),
     lib_isEqual = (=), lib_regex = (\<lambda>_ _. Inr False)\<rparr>"

definition ruled :: "string \<Rightarrow> IDisplayOptions \<Rightarrow> INodeProperties" where
  "ruled name options = INodeProperties name name ''string'' (JStr []) False (Some options) None False None None None None"

definition shown_for_get :: INodeProperties where
  "shown_for_get = ruled ''url''
     [(''show'', [(''method'', [Plain (JStr ''GET'')])]), (''hide'', [(''@version'', [CndGte (JInt 3)])])]"

theorem displayParameter_rules_witness:
  "displayParameter plain_lib (JObj [(''method'', JStr ''GET'')]) shown_for_get (Some (Decimal 22 1))
     (Some (JObj [(''method'', JStr ''GET'')])) = Inr True"
proof -
  let ?v = "JObj [(''method'', JStr ''GET'')]"
  let ?vs = "\<lambda>name. getPropertyValues plain_lib ?v name (Some (Decimal 22 1)) ?v"
  note defs = shown_for_get_def ruled_def getPropertyValues_def unlocated_def plain_lib_def obj_read_def
    is_expression_def rules_of_def js_truthy_def
  note checks = checkConditions_def checkCondition_def checkValue_def strict_eq_def is_object_def js_less_eq_def
    number_of_def
  obtain b where b: "displayParameter plain_lib ?v shown_for_get (Some (Decimal 22 1)) (Some ?v) = Inr b"
    by (cases "displayParameter plain_lib ?v shown_for_get (Some (Decimal 22 1)) (Some ?v)")
      (simp_all add: displayParameter_def Let_def defs checks)
  have "\<not> list_ex (\<lambda>rule. list_ex is_expression (?vs (fst rule))) (rules_of shown_for_get ''show'')"
    by (simp add: defs)
  from displayParameter_rules [OF b _ refl this] have
    "b \<longleftrightarrow> list_all (rule_met plain_lib ?vs) (rules_of shown_for_get ''show'') \<and>
      \<not> list_ex (rule_met plain_lib ?vs) (rules_of shown_for_get ''hide'')" by (simp add: js_truthy_def)
  then have b by (simp add: rule_met_def defs checks)
  with b show ?thesis by simp
qed

text \<open>
  A condition on text throws when the parameter it reads has no value.
\<close>

lemma missing_text_throws:
  "displayParameter plain_lib (JObj []) (ruled ''url'' [(''show'', [(''path'', [CndStartsWith ''/''])])])
     (Some (Decimal 1 0)) None = Inl TypeError"
  by (simp add: displayParameter_def ruled_def getPropertyValues_def unlocated_def plain_lib_def obj_read_def
      is_expression_def checkConditions_def checkCondition_def checkValue_def str_method_def js_truthy_def Let_def)

end
