(* ===== verification/WorkflowConnections.thy ===== *)
theory WorkflowConnections
  imports NodeProperties
begin

text \<open>
  The \<open>Workflow\<close> object of \<open>packages/workflow/src/Workflow.ts\<close>: its state, its constructor, and
  the two indexes of its connections. The constructor receives the connections by source node
  and computes the index by destination node; the theorems say that the second is exactly the
  inverse of the first.
\<close>

section \<open>Node types and the workflow\<close>

text \<open>
  What the modelled code reads of a node type: of its description (\<open>td_\<close>) the name, the groups,
  the properties (\<open>NodeProperties\<close>), the inputs and outputs by their
  connection type, and the required inputs; and whether it has the four methods. Inputs,
  outputs and required inputs that are expressions are not modelled.
\<close>

datatype RequiredInputs = NoRequirement | RequiredCount nat | RequiredIndices "nat list"

record INodeType =
  td_name :: string
  td_group :: "string list"
  td_properties :: "INodeProperties list"
  td_inputs :: "NodeConnectionType list"
  td_outputs :: "NodeConnectionType list"
  td_requiredInputs :: RequiredInputs
  has_execute :: bool
  has_poll :: bool
  has_trigger :: bool
  has_webhook :: bool

type_synonym INodeTypes = "string \<Rightarrow> number \<Rightarrow> INodeType option"

text \<open>
  The \<open>Workflow\<close> object. Of the settings only \<open>executionOrder\<close> is read; the time zone and the
  expression evaluator are left out.
\<close>

record Workflow =
  wf_id :: "string option"
  wf_name :: "string option"
  nodes :: "INode jsobj"
  connectionsBySourceNode :: IConnections
  connectionsByDestinationNode :: IConnections
  nodeTypes :: INodeTypes
  active :: bool
  executionOrder :: "string option"
  staticData :: "jsval jsobj"
  testStaticData :: "jsval jsobj option"
  wf_pinData :: "IPinData option"

section \<open>The connections by destination node\<close>

text \<open>
  The four nested loops of \<open>__getConnectionsByDestination\<close> visit the connections in this order:
  source node, output type, output index (holes are skipped), connection.
\<close>

definition conn_entries :: "IConnections \<Rightarrow> (string \<times> string \<times> nat \<times> IConnection) list" where
  "conn_entries ic =
     concat (map (\<lambda>(s, byType).
       concat (map (\<lambda>(t, arr).
         concat (map (\<lambda>(i, cs). map (\<lambda>c. (s, t, i, c)) cs) (present arr))) byType)) ic)"

text \<open>The connections at one index; none where the index was never assigned.\<close>

definition conns_at :: "NodeInputConnections \<Rightarrow> nat \<Rightarrow> IConnection list" where
  "conns_at arr k = (case hole_get arr k of None \<Rightarrow> [] | Some cs \<Rightarrow> cs)"

definition pad_to :: "nat \<Rightarrow> NodeInputConnections \<Rightarrow> NodeInputConnections" where
  "pad_to i arr = arr @ replicate (Suc i - length arr) (Some [])"

definition add_by_destination ::
  "(string \<times> string \<times> nat \<times> IConnection) \<Rightarrow> IConnections \<Rightarrow> IConnections" where
  "add_by_destination = (\<lambda>(s, t, i, info) ret.
     (let byType = (case map_of ret (cnode info) of None \<Rightarrow> [] | Some b \<Rightarrow> b);
          arr = (case map_of byType (ctype info) of None \<Rightarrow> [] | Some a \<Rightarrow> a);
          padded = pad_to (cindex info) arr
      in obj_put (cnode info)
           (obj_put (ctype info)
             (hole_set (cindex info)
               (conns_at padded (cindex info) @ [\<lparr>cnode = s, ctype = t, cindex = i\<rparr>]) padded)
             byType)
           ret))"

definition getConnectionsByDestination :: "IConnections \<Rightarrow> IConnections" where
  "getConnectionsByDestination ic = fold add_by_destination (conn_entries ic) []"

section \<open>Looking a connection up\<close>

definition conn_list :: "IConnections \<Rightarrow> string \<Rightarrow> string \<Rightarrow> NodeInputConnections" where
  "conn_list ic n t =
     (case map_of ic n of None \<Rightarrow> [] | Some b \<Rightarrow> (case map_of b t of None \<Rightarrow> [] | Some a \<Rightarrow> a))"

text \<open>\<open>has_conn ic n t k c\<close>: connection \<open>c\<close> is listed under node \<open>n\<close>, type \<open>t\<close>, index \<open>k\<close>.\<close>

definition has_conn :: "IConnections \<Rightarrow> string \<Rightarrow> string \<Rightarrow> nat \<Rightarrow> IConnection \<Rightarrow> bool" where
  "has_conn ic n t k c = (c \<in> set (conns_at (conn_list ic n t) k))"

definition wf_connections :: "IConnections \<Rightarrow> bool" where
  "wf_connections ic = (wf_keys ic \<and> (\<forall>(n, b) \<in> set ic. wf_keys b))"

definition dense :: "IConnections \<Rightarrow> bool" where
  "dense ic = (\<forall>(n, b) \<in> set ic. \<forall>(t, a) \<in> set b. None \<notin> set a)"

lemma wf_connections_Nil [simp]: "wf_connections []"
  by (simp add: wf_connections_def wf_keys_def)

lemma wf_connections_keys: "wf_connections ic \<Longrightarrow> wf_keys ic"
  by (simp add: wf_connections_def)

lemma wf_connections_inner: "wf_connections ic \<Longrightarrow> map_of ic n = Some b \<Longrightarrow> wf_keys b"
  by (auto simp: wf_connections_def dest!: map_of_SomeD)

lemma has_conn_iff:
  "has_conn ic n t k c \<longleftrightarrow>
     (\<exists>b a cs. map_of ic n = Some b \<and> map_of b t = Some a \<and> hole_get a k = Some cs \<and> c \<in> set cs)"
  by (cases "map_of ic n"; simp add: has_conn_def conns_at_def conn_list_def split: option.split)
    (metis hole_get_Nil option.distinct(1) option.exhaust option.sel)

lemma conn_entries_iff:
  assumes "wf_connections ic"
  shows "(s, t, i, c) \<in> set (conn_entries ic) \<longleftrightarrow> has_conn ic s t i c"
proof -
  have in_map: "(n, b) \<in> set ic \<longleftrightarrow> map_of ic n = Some b" for n b
    using assms by (simp add: wf_connections_def wf_keys_def)
  have in_inner: "(t, a) \<in> set b \<longleftrightarrow> map_of b t = Some a" if "map_of ic n = Some b" for n b t a
    using wf_connections_inner [OF assms that] by (simp add: wf_keys_def)
  have "(s, t, i, c) \<in> set (conn_entries ic) \<longleftrightarrow>
    (\<exists>b a cs. (s, b) \<in> set ic \<and> (t, a) \<in> set b \<and> (i, cs) \<in> set (present a) \<and> c \<in> set cs)"
    by (simp add: conn_entries_def split_beta image_iff) (simp add: Bex_def)
  also have "\<dots> \<longleftrightarrow>
    (\<exists>b a cs. map_of ic s = Some b \<and> map_of b t = Some a \<and> hole_get a i = Some cs \<and> c \<in> set cs)"
    by (metis in_map in_inner present_iff)
  finally show ?thesis by (simp add: has_conn_iff)
qed

subsection \<open>One step of the inversion\<close>

lemma conns_at_pad [simp]: "conns_at (pad_to i arr) k = conns_at arr k"
  by (auto simp: conns_at_def pad_to_def hole_get_def nth_append split: option.split)

lemma conns_at_hole_set [simp]:
  "conns_at (hole_set i v arr) k = (if k = i then v else conns_at arr k)"
  by (simp add: conns_at_def hole_get_set)

lemma conn_list_add:
  "conn_list (add_by_destination (s, t, i, info) ret) n ty =
     (if n = cnode info \<and> ty = ctype info then
        hole_set (cindex info)
          (conns_at (conn_list ret n ty) (cindex info) @ [\<lparr>cnode = s, ctype = t, cindex = i\<rparr>])
          (pad_to (cindex info) (conn_list ret n ty))
      else conn_list ret n ty)"
  by (simp add: add_by_destination_def conn_list_def Let_def split: option.split)

lemma has_conn_add:
  "has_conn (add_by_destination (s, t, i, info) ret) n ty k c \<longleftrightarrow>
     has_conn ret n ty k c \<or>
     n = cnode info \<and> ty = ctype info \<and> k = cindex info \<and> c = \<lparr>cnode = s, ctype = t, cindex = i\<rparr>"
  by (auto simp: has_conn_def conn_list_add)

lemma wf_connections_add:
  assumes "wf_connections ret"
  shows "wf_connections (add_by_destination e ret)"
proof -
  obtain s t i info where e: "e = (s, t, i, info)" by (cases e)
  define byType where "byType = (case map_of ret (cnode info) of None \<Rightarrow> [] | Some b \<Rightarrow> b)"
  obtain a where add: "add_by_destination e ret =
      obj_put (cnode info) (obj_put (ctype info) a byType) ret"
    by (simp add: e add_by_destination_def byType_def Let_def)
  have b: "wf_keys byType"
    using assms wf_connections_inner
    by (auto simp: byType_def wf_keys_def split: option.splits)
  have wf: "wf_keys (add_by_destination e ret)"
    using assms by (simp add: add jobj.wf_put wf_connections_keys)
  moreover have "wf_keys b'" if "(n, b') \<in> set (add_by_destination e ret)" for n b'
  proof -
    from that wf have "map_of (add_by_destination e ret) n = Some b'"
      by (simp add: wf_keys_def)
    then show ?thesis
      using assms b by (auto simp: add jobj.wf_put wf_connections_inner split: if_splits)
  qed
  ultimately show ?thesis by (auto simp: wf_connections_def)
qed

lemma has_conn_fold_add:
  "has_conn (fold add_by_destination es ret) n ty k c \<longleftrightarrow>
     has_conn ret n ty k c \<or>
     (\<exists>s t i info. (s, t, i, info) \<in> set es \<and> n = cnode info \<and> ty = ctype info \<and>
        k = cindex info \<and> c = \<lparr>cnode = s, ctype = t, cindex = i\<rparr>)"
proof (induction es arbitrary: ret)
  case Nil
  then show ?case by simp
next
  case (Cons e es)
  obtain s t i info where "e = (s, t, i, info)" by (cases e)
  then show ?case by (auto simp: Cons.IH has_conn_add)
qed

lemma wf_connections_fold_add:
  "wf_connections ret \<Longrightarrow> wf_connections (fold add_by_destination es ret)"
  by (induction es arbitrary: ret) (simp_all add: wf_connections_add)

lemma has_conn_Nil [simp]: "\<not> has_conn [] n t k c"
  by (simp add: has_conn_def conns_at_def conn_list_def)

lemma wf_by_destination: "wf_connections (getConnectionsByDestination ic)"
  by (simp add: getConnectionsByDestination_def wf_connections_fold_add)

text \<open>The index by destination node is the inverse of the index by source node.\<close>

lemma has_conn_by_destination:
  assumes "wf_connections ic"
  shows "has_conn (getConnectionsByDestination ic) d it i \<lparr>cnode = s, ctype = t, cindex = out\<rparr> \<longleftrightarrow>
    has_conn ic s t out \<lparr>cnode = d, ctype = it, cindex = i\<rparr>"
proof -
  have "has_conn (getConnectionsByDestination ic) d it i \<lparr>cnode = s, ctype = t, cindex = out\<rparr> \<longleftrightarrow>
    (\<exists>info. (s, t, out, info) \<in> set (conn_entries ic) \<and> d = cnode info \<and> it = ctype info \<and>
       i = cindex info)"
    by (auto simp: getConnectionsByDestination_def has_conn_fold_add)
  also have "\<dots> \<longleftrightarrow> (s, t, out, \<lparr>cnode = d, ctype = it, cindex = i\<rparr>) \<in> set (conn_entries ic)"
  proof -
    have "info = \<lparr>cnode = d, ctype = it, cindex = i\<rparr> \<longleftrightarrow> d = cnode info \<and> it = ctype info \<and> i = cindex info"
      for info :: IConnection by (cases info) auto
    then show ?thesis by metis
  qed
  finally show ?thesis using assms by (simp add: conn_entries_iff)
qed

subsection \<open>No holes\<close>

lemma denseI:
  assumes "wf_connections ic" "\<And>n t. None \<notin> set (conn_list ic n t)"
  shows "dense ic"
proof -
  have "None \<notin> set a" if "(n, b) \<in> set ic" "(t, a) \<in> set b" for n b t a
  proof -
    from that assms(1) have "conn_list ic n t = a"
      by (auto simp: conn_list_def wf_connections_def wf_keys_def split: option.splits
          dest!: map_of_is_SomeI)
    with assms(2) show ?thesis by metis
  qed
  then show ?thesis by (auto simp: dense_def)
qed

lemma set_hole_set: "i < length xs \<Longrightarrow> set (hole_set i v xs) \<subseteq> insert (Some v) (set xs)"
  by (simp add: hole_set_def set_update_subset_insert)

lemma None_conn_list_add:
  assumes "\<And>n t. None \<notin> set (conn_list ret n t)"
  shows "None \<notin> set (conn_list (add_by_destination e ret) n t)"
proof -
  obtain s t' i info where e: "e = (s, t', i, info)" by (cases e)
  have "None \<notin> set (pad_to (cindex info) (conn_list ret n t))"
    using assms by (auto simp: pad_to_def)
  moreover have "cindex info < length (pad_to (cindex info) (conn_list ret n t))"
    by (simp add: pad_to_def)
  ultimately have "None \<notin> set (hole_set (cindex info) cs (pad_to (cindex info) (conn_list ret n t)))"
    for cs using set_hole_set by fastforce
  then have "None \<notin> set (if b then hole_set (cindex info) cs (pad_to (cindex info) (conn_list ret n t))
      else conn_list ret n t)" for b cs
    using assms by (cases b) simp_all
  then show ?thesis by (simp only: e conn_list_add not_False_eq_True)
qed

lemma None_conn_list_fold_add:
  "(\<And>n t. None \<notin> set (conn_list ret n t)) \<Longrightarrow>
     None \<notin> set (conn_list (fold add_by_destination es ret) n t)"
  by (induction es arbitrary: ret) (simp_all add: None_conn_list_add)

lemma dense_by_destination: "dense (getConnectionsByDestination ic)"
proof (rule denseI [OF wf_by_destination])
  show "None \<notin> set (conn_list (getConnectionsByDestination ic) n t)" for n t
    unfolding getConnectionsByDestination_def
    by (rule None_conn_list_fold_add) (simp add: conn_list_def)
qed

section \<open>Properties\<close>

text \<open>C26: the index by destination node that \<open>__getConnectionsByDestination\<close> computes is the exact
  inverse of the index by source node: input \<open>i\<close> of node \<open>d\<close> lists output \<open>out\<close> of node \<open>s\<close> if and
  only if output \<open>out\<close> of \<open>s\<close> lists input \<open>i\<close> of \<open>d\<close>. No connection is lost, none is made up.\<close>

theorem byDestination_inverse:
  assumes "wf_connections ic"
  shows "has_conn (getConnectionsByDestination ic) d it i \<lparr>cnode = s, ctype = t, cindex = out\<rparr> \<longleftrightarrow>
    has_conn ic s t out \<lparr>cnode = d, ctype = it, cindex = i\<rparr>"
  using assms by (rule has_conn_by_destination)

definition merge_sample :: IConnections where
  "merge_sample =
     [(''A'', [(Main, [None, Some [\<lparr>cnode = ''M'', ctype = Main, cindex = 1\<rparr>]])]),
      (''B'', [(Main, [Some [\<lparr>cnode = ''M'', ctype = Main, cindex = 0\<rparr>]])])]"

theorem byDestination_inverse_witness:
  "has_conn (getConnectionsByDestination merge_sample) ''M'' Main 1
     \<lparr>cnode = ''A'', ctype = Main, cindex = 1\<rparr>"
proof -
  have "wf_connections merge_sample"
    by (simp add: merge_sample_def wf_connections_def wf_keys_def)
  then show ?thesis
    by (subst byDestination_inverse)
      (simp_all add: merge_sample_def has_conn_def conn_list_def conns_at_def hole_get_def)
qed

text \<open>The index by destination node has no holes: every input index below the highest
  connected one has an entry (an empty list if nothing is connected to it), so the loops that
  index it with \<open>[connectionIndex]\<close> never read \<open>undefined\<close>.\<close>

theorem byDestination_dense:
  "wf_connections (getConnectionsByDestination ic) \<and> dense (getConnectionsByDestination ic)"
  by (simp add: wf_by_destination dense_by_destination)

end
