(* ===== verification/GraphReach.thy ===== *)
theory GraphReach
  imports JsPrelude
begin

text \<open>
  Reachability facts shared by all the graph searches of the program. The searches come in two
  kinds: those that copy the list of visited nodes into every recursive call and so explore every
  simple path (locale \<open>path_search\<close>), and those that share one mutable list. Both are
  specified by powers of the edge relation.
\<close>

section \<open>Walking while avoiding a set of nodes\<close>

definition avoiding :: "('n \<times> 'n) set \<Rightarrow> 'n set \<Rightarrow> ('n \<times> 'n) set" where
  "avoiding E S = {(a, b) \<in> E. b \<notin> S}"

lemma avoiding_iff: "(a, b) \<in> avoiding E S \<longleftrightarrow> (a, b) \<in> E \<and> b \<notin> S"
  by (simp add: avoiding_def)

lemma avoiding_mono: "S \<subseteq> T \<Longrightarrow> avoiding E T \<subseteq> avoiding E S"
  by (auto simp: avoiding_def)

lemma avoiding_empty [simp]: "avoiding E {} = E"
  by (auto simp: avoiding_def)

lemma relpow_mono_rel:
  fixes R S :: "('n \<times> 'n) set"
  assumes "R \<subseteq> S" and "(x, y) \<in> R ^^ k"
  shows "(x, y) \<in> S ^^ k"
  using assms(2)
proof (induction k arbitrary: y)
  case 0
  then show ?case by simp
next
  case (Suc k)
  with assms(1) show ?case by auto
qed

lemma relpow_avoiding_target: "(x, y) \<in> avoiding E S ^^ Suc k \<Longrightarrow> y \<notin> S"
  by (auto simp: avoiding_iff)

text \<open>A walk that ends away from its start can forget everything before its last visit there.\<close>

lemma last_visit:
  assumes "(y, m) \<in> avoiding E S ^^ k" "m \<noteq> y"
  shows "\<exists>j. 1 \<le> j \<and> j \<le> k \<and> (y, m) \<in> avoiding E (insert y S) ^^ j"
  using assms
proof (induction k arbitrary: m)
  case 0
  then show ?case by simp
next
  case (Suc k)
  then obtain w where w: "(y, w) \<in> avoiding E S ^^ k" "(w, m) \<in> avoiding E S" by auto
  have step: "(w, m) \<in> avoiding E (insert y S)"
    using w(2) Suc.prems(2) by (simp add: avoiding_iff)
  show ?case
  proof (cases "w = y")
    case True
    with step have "(y, m) \<in> avoiding E (insert y S) ^^ 1" by simp
    then show ?thesis by (metis One_nat_def Suc_le_mono le0 order_refl)
  next
    case False
    with Suc.IH [OF w(1)] obtain j where
      "1 \<le> j" "j \<le> k" "(y, w) \<in> avoiding E (insert y S) ^^ j" by blast
    with step have "(y, m) \<in> avoiding E (insert y S) ^^ Suc j" by auto
    with \<open>j \<le> k\<close> show ?thesis by (meson Suc_le_mono le_add2 le_SucI one_le_mult_iff \<open>1 \<le> j\<close>)
  qed
qed

text \<open>\<open>depth_ok d k\<close>: a walk of \<open>k\<close> steps is within the depth limit; \<open>-1\<close> is no limit.\<close>

definition depth_ok :: "int \<Rightarrow> nat \<Rightarrow> bool" where
  "depth_ok d k = (d = -1 \<or> int k \<le> d)"

lemma depth_ok_mono: "depth_ok d k \<Longrightarrow> j \<le> k \<Longrightarrow> depth_ok d j"
  by (auto simp: depth_ok_def)

definition within :: "('n \<times> 'n) set \<Rightarrow> int \<Rightarrow> 'n \<Rightarrow> 'n set" where
  "within R d x = {m. \<exists>k. 1 \<le> k \<and> depth_ok d k \<and> (x, m) \<in> R ^^ k}"

lemma within_unlimited: "within R (-1) x = R\<^sup>+ `` {x}"
  by (auto simp: within_def depth_ok_def trancl_power Suc_le_eq)

definition next_depth :: "int \<Rightarrow> int" where
  "next_depth d = (if d = -1 then d else d - 1)"

lemma depth_ok_Suc: "d \<noteq> 0 \<Longrightarrow> d \<ge> -1 \<Longrightarrow> depth_ok d (Suc k) \<longleftrightarrow> depth_ok (next_depth d) k"
  by (auto simp: depth_ok_def next_depth_def)

text \<open>One step of the search: through each child, avoiding that child from then on.\<close>

lemma within_avoiding_step:
  assumes "d \<noteq> 0" "d \<ge> -1"
  shows "within (avoiding E S) d x =
    (\<Union>y \<in> avoiding E S `` {x}. insert y (within (avoiding E (insert y S)) (next_depth d) y))"
    (is "?L = ?R")
proof
  show "?L \<subseteq> ?R"
  proof
    fix m
    assume "m \<in> ?L"
    then obtain k where k: "depth_ok d (Suc k)" "(x, m) \<in> avoiding E S ^^ Suc k"
      by (auto simp: within_def Suc_le_eq gr0_conv_Suc)
    then obtain y where y: "(x, y) \<in> avoiding E S" "(y, m) \<in> avoiding E S ^^ k"
      by (meson relpow_Suc_E2)
    show "m \<in> ?R"
    proof (cases "m = y")
      case True
      with y show ?thesis by auto
    next
      case False
      obtain j where j: "1 \<le> j" "j \<le> k" "(y, m) \<in> avoiding E (insert y S) ^^ j"
        using last_visit [OF y(2) False] by blast
      then have "depth_ok (next_depth d) j"
        using assms k(1) depth_ok_Suc depth_ok_mono by blast
      with j y show ?thesis by (auto simp: within_def)
    qed
  qed
next
  show "?R \<subseteq> ?L"
  proof
    fix m
    assume "m \<in> ?R"
    then obtain y where y: "(x, y) \<in> avoiding E S"
      and m: "m = y \<or> m \<in> within (avoiding E (insert y S)) (next_depth d) y" by blast
    from m show "m \<in> ?L"
    proof
      assume "m = y"
      moreover have "depth_ok d 1" using assms by (auto simp: depth_ok_def)
      ultimately show ?thesis using y by (force simp: within_def)
    next
      assume "m \<in> within (avoiding E (insert y S)) (next_depth d) y"
      then obtain k where k: "1 \<le> k" "depth_ok (next_depth d) k"
        "(y, m) \<in> avoiding E (insert y S) ^^ k" by (auto simp: within_def)
      have "(y, m) \<in> avoiding E S ^^ k"
        by (rule relpow_mono_rel [OF avoiding_mono k(3)]) auto
      then have "(x, m) \<in> avoiding E S ^^ Suc k" using y by (meson relpow_Suc_I2)
      moreover have "depth_ok d (Suc k)" using assms k depth_ok_Suc by blast
      ultimately show ?thesis unfolding within_def
        by (intro CollectI exI [of _ "Suc k"] conjI) simp_all
    qed
  qed
qed

lemma within_avoiding_self: "within (avoiding E {x}) d x = within E d x - {x}"
proof
  show "within (avoiding E {x}) d x \<subseteq> within E d x - {x}"
  proof
    fix m
    assume "m \<in> within (avoiding E {x}) d x"
    then obtain k where k: "1 \<le> k" "depth_ok d k" "(x, m) \<in> avoiding E {x} ^^ k"
      by (auto simp: within_def)
    then obtain j where "k = Suc j" by (cases k) auto
    with k(3) have "m \<notin> {x}" by (blast dest: relpow_avoiding_target)
    then have "m \<noteq> x" by simp
    moreover have "(x, m) \<in> E ^^ k"
      by (rule relpow_mono_rel [OF _ k(3)]) (auto simp: avoiding_def)
    ultimately show "m \<in> within E d x - {x}" using k by (auto simp: within_def)
  qed
next
  show "within E d x - {x} \<subseteq> within (avoiding E {x}) d x"
  proof
    fix m
    assume m: "m \<in> within E d x - {x}"
    then obtain k where k: "depth_ok d k" "(x, m) \<in> avoiding E {} ^^ k" by (auto simp: within_def)
    with m obtain j where "1 \<le> j" "j \<le> k" "(x, m) \<in> avoiding E {x} ^^ j"
      using last_visit [OF k(2)] by blast
    with k show "m \<in> within (avoiding E {x}) d x"
      by (auto simp: within_def intro: depth_ok_mono)
  qed
qed

section \<open>The contract of a search along all simple paths\<close>

text \<open>
  \<open>search x d C\<close> is the set of nodes a search returns from \<open>x\<close> with depth limit \<open>d\<close>, when the
  nodes of \<open>C\<close> lie on the path to \<open>x\<close>. Only finitely many nodes (\<open>expandable\<close>) have successors.
\<close>

locale path_search =
  fixes succs :: "'n \<Rightarrow> 'n set"
    and search :: "'n \<Rightarrow> int \<Rightarrow> 'n list \<Rightarrow> 'n set"
    and expandable :: "'n set"
  assumes finite_expandable: "finite expandable"
    and succs_expandable: "x \<notin> expandable \<Longrightarrow> succs x = {}"
    and search_stop: "d = 0 \<or> x \<in> set C \<Longrightarrow> search x d C = {}"
    and search_step: "d \<noteq> 0 \<Longrightarrow> x \<notin> set C \<Longrightarrow> search x d C =
      (\<Union>y \<in> succs x - insert x (set C). insert y (search y (next_depth d) (C @ [x])))"
begin

definition edges :: "('n \<times> 'n) set" where
  "edges = {(a, b). b \<in> succs a}"

lemma search_within_avoiding:
  assumes "d \<ge> -1" "x \<notin> set C"
  shows "search x d C = within (avoiding edges (insert x (set C))) d x"
  using assms
proof (induction "card (expandable - set C)" arbitrary: x d C rule: less_induct)
  case less
  show ?case
  proof (cases "d = 0")
    case True
    then show ?thesis by (auto simp: search_stop within_def depth_ok_def)
  next
    case False
    have succ: "avoiding edges (insert x (set C)) `` {x} = succs x - insert x (set C)"
      by (auto simp: avoiding_iff edges_def)
    have rec: "search y (next_depth d) (C @ [x]) =
        within (avoiding edges (insert y (insert x (set C)))) (next_depth d) y"
      if y: "y \<in> succs x - insert x (set C)" for y
    proof -
      have "x \<in> expandable" using y succs_expandable by blast
      then have "card (expandable - set (C @ [x])) < card (expandable - set C)"
        using less.prems finite_expandable by (intro psubset_card_mono) auto
      moreover have "next_depth d \<ge> -1" using less.prems False by (simp add: next_depth_def)
      moreover have "y \<notin> set (C @ [x])" using y by simp
      ultimately have "search y (next_depth d) (C @ [x]) =
        within (avoiding edges (insert y (set (C @ [x])))) (next_depth d) y" by (rule less.hyps)
      then show ?thesis by simp
    qed
    show ?thesis
      using False less.prems rec
      by (simp add: search_step within_avoiding_step succ)
  qed
qed

text \<open>
  A search from scratch returns exactly the other nodes within the depth limit.
\<close>

theorem search_correct: "d \<ge> -1 \<Longrightarrow> search x d [] = within edges d x - {x}"
  using search_within_avoiding [of d x "[]"] by (simp add: within_avoiding_self)

corollary search_unlimited: "search x (-1) [] = edges\<^sup>+ `` {x} - {x}"
  by (simp add: search_correct within_unlimited)

end

end
