(* ===== verification/WorkflowSearch.thy ===== *)
theory WorkflowSearch
  imports WorkflowConnections GraphReach
begin

text \<open>
  The searches of \<open>Workflow.ts\<close> that walk one of the two connection indexes without any shared
  state: \<open>getConnectedNodes\<close> (depth first, the list of checked nodes is copied into every call)
  with \<open>getChildNodes\<close> and \<open>getParentNodes\<close>, and the level-by-level \<open>searchNodesBFS\<close>.
\<close>

section \<open>Depth first: getConnectedNodes\<close>

datatype ConnectionFilter = AllTypes | AllNonMain | OneType NodeConnectionType

text \<open>
  Moving the nodes found below a child to the front: from the last to the first, the earlier
  occurrence is spliced out, then the name is unshifted.
\<close>

definition unshift_all :: "string list \<Rightarrow> string list \<Rightarrow> string list" where
  "unshift_all addNodes returnNodes = fold (\<lambda>p ret. p # remove1 p ret) (rev addNodes) returnNodes"

definition types_of :: "INodeConnections \<Rightarrow> ConnectionFilter \<Rightarrow> NodeConnectionType list" where
  "types_of byType ct =
     (case ct of
        AllTypes \<Rightarrow> map_keys byType
      | AllNonMain \<Rightarrow> filter (\<lambda>t. t \<noteq> Main) (map_keys byType)
      | OneType t \<Rightarrow> [t])"

text \<open>The connections that the two nested \<open>forEach\<close> visit; they skip holes.\<close>

definition arr_conns :: "NodeInputConnections \<Rightarrow> IConnection list" where
  "arr_conns arr = concat (map snd (present arr))"

function getConnectedNodes ::
  "IConnections \<Rightarrow> string \<Rightarrow> ConnectionFilter \<Rightarrow> int \<Rightarrow> string list \<Rightarrow> string list" where
  "getConnectedNodes ic n ct depth checked =
     (if depth = 0 then []
      else case map_of ic n of
        None \<Rightarrow> []
      | Some byType \<Rightarrow>
          fold (\<lambda>t returnNodes.
            case map_of byType t of
              None \<Rightarrow> returnNodes
            | Some arr \<Rightarrow>
                if n \<in> set checked then returnNodes
                else fold (\<lambda>c ret.
                  if cnode c \<in> set (checked @ [n]) then ret
                  else unshift_all
                    (getConnectedNodes ic (cnode c) ct (next_depth depth) (checked @ [n]))
                    (cnode c # ret)) (arr_conns arr) returnNodes)
            (types_of byType ct) [])"
  by pat_completeness auto
termination
proof (relation "measure (\<lambda>(ic, n, ct, d, checked). card (fst ` set ic - set checked))", goal_cases)
  case 1
  then show ?case by simp
next
  case (2 ic n ct depth checked byType t ret arr c ret')
  then have "n \<in> fst ` set ic - set checked" by (force dest: map_of_SomeD)
  then have "card (fst ` set ic - set (checked @ [n])) < card (fst ` set ic - set checked)"
    by (intro psubset_card_mono) auto
  then show ?case by simp
qed

declare getConnectedNodes.simps [simp del]

definition getChildNodes :: "Workflow \<Rightarrow> string \<Rightarrow> ConnectionFilter \<Rightarrow> int \<Rightarrow> string list" where
  "getChildNodes w n ct depth = getConnectedNodes (connectionsBySourceNode w) n ct depth []"

definition getParentNodes :: "Workflow \<Rightarrow> string \<Rightarrow> ConnectionFilter \<Rightarrow> int \<Rightarrow> string list" where
  "getParentNodes w n ct depth = getConnectedNodes (connectionsByDestinationNode w) n ct depth []"

subsection \<open>The graph being walked\<close>

definition type_ok :: "ConnectionFilter \<Rightarrow> NodeConnectionType \<Rightarrow> bool" where
  "type_ok ct t = (case ct of AllTypes \<Rightarrow> True | AllNonMain \<Rightarrow> t \<noteq> Main | OneType t' \<Rightarrow> t = t')"

definition neighbours :: "IConnections \<Rightarrow> ConnectionFilter \<Rightarrow> string \<Rightarrow> string set" where
  "neighbours ic ct n = {cnode c | t k c. type_ok ct t \<and> has_conn ic n t k c}"

definition conns_of_type :: "INodeConnections \<Rightarrow> NodeConnectionType \<Rightarrow> IConnection list" where
  "conns_of_type byType t = (case map_of byType t of None \<Rightarrow> [] | Some arr \<Rightarrow> arr_conns arr)"

lemma arr_conns_iff: "c \<in> set (arr_conns arr) \<longleftrightarrow> (\<exists>k. c \<in> set (conns_at arr k))"
proof -
  have "c \<in> set (arr_conns arr) \<longleftrightarrow> (\<exists>k cs. (k, cs) \<in> set (present arr) \<and> c \<in> set cs)"
    by (simp add: arr_conns_def) (metis prod.collapse snd_conv)
  also have "\<dots> \<longleftrightarrow> (\<exists>k. c \<in> set (conns_at arr k))"
    by (simp add: present_iff conns_at_def split: option.split)
      (metis option.distinct(1) option.exhaust option.sel)
  finally show ?thesis .
qed

lemma conns_of_type_iff:
  "map_of ic n = Some byType \<Longrightarrow> c \<in> set (conns_of_type byType t) \<longleftrightarrow> (\<exists>k. has_conn ic n t k c)"
  by (cases "map_of byType t")
    (simp_all add: conns_of_type_def arr_conns_iff has_conn_def conn_list_def conns_at_def)

lemma set_unshift_all [simp]: "set (unshift_all ps ret) = set ps \<union> set ret"
proof -
  have "set (p # remove1 p r) = insert p (set r)" for p :: string and r
    by (induction r) auto
  then have "set (fold (\<lambda>p ret. p # remove1 p ret) qs ret) = set qs \<union> set ret" for qs
    by (induction qs arbitrary: ret) auto
  then show ?thesis by (simp add: unshift_all_def)
qed

lemma set_fold_UN:
  "(\<And>x r. x \<in> set xs \<Longrightarrow> set (f x r) = g x \<union> set r) \<Longrightarrow>
     set (fold f xs r) = (\<Union>x \<in> set xs. g x) \<union> set r"
  by (induction xs arbitrary: r) auto

lemma fold_skip: "(\<And>x r. x \<in> set xs \<Longrightarrow> f x r = r) \<Longrightarrow> fold f xs r = r"
  by (induction xs arbitrary: r) auto

lemma types_of_ok: "t \<in> set (types_of byType ct) \<Longrightarrow> type_ok ct t"
  by (cases ct) (auto simp: types_of_def type_ok_def)

lemma types_of_complete:
  assumes "type_ok ct t" "c \<in> set (conns_of_type byType t)"
  shows "t \<in> set (types_of byType ct)"
proof -
  from assms(2) obtain arr where "map_of byType t = Some arr"
    by (cases "map_of byType t") (simp_all add: conns_of_type_def)
  then have "t \<in> set (map_keys byType)"
    by (force simp: map_keys_def dest: map_of_SomeD)
  with assms(1) show ?thesis by (cases ct) (auto simp: types_of_def type_ok_def)
qed

lemma neighbours_eq:
  assumes "map_of ic n = Some byType"
  shows "neighbours ic ct n = (\<Union>t \<in> set (types_of byType ct). cnode ` set (conns_of_type byType t))"
proof -
  have "neighbours ic ct n = {cnode c | t c. type_ok ct t \<and> c \<in> set (conns_of_type byType t)}"
    using assms by (auto simp: neighbours_def conns_of_type_iff)
  also have "\<dots> = (\<Union>t \<in> set (types_of byType ct). cnode ` set (conns_of_type byType t))"
    using types_of_ok types_of_complete by fast
  finally show ?thesis .
qed

lemma neighbours_None: "map_of ic n = None \<Longrightarrow> neighbours ic ct n = {}"
  by (auto simp: neighbours_def has_conn_def conn_list_def conns_at_def)

lemma getConnectedNodes_stop: "d = 0 \<or> n \<in> set checked \<Longrightarrow> getConnectedNodes ic n ct d checked = []"
  by (subst getConnectedNodes.simps) (auto intro!: fold_skip split: option.split)

lemma getConnectedNodes_step:
  assumes "d \<noteq> 0" "n \<notin> set checked"
  shows "set (getConnectedNodes ic n ct d checked) =
    (\<Union>y \<in> neighbours ic ct n - insert n (set checked).
       insert y (set (getConnectedNodes ic y ct (next_depth d) (checked @ [n]))))"
proof (cases "map_of ic n")
  case None
  then show ?thesis
    by (simp add: getConnectedNodes.simps [of ic n ct d checked] neighbours_None)
next
  case (Some byType)
  let ?rec = "\<lambda>y. insert y (set (getConnectedNodes ic y ct (next_depth d) (checked @ [n])))"
  let ?new = "\<lambda>y. if y \<in> insert n (set checked) then {} else ?rec y"
  let ?body = "\<lambda>c ret. if cnode c \<in> set (checked @ [n]) then ret
    else unshift_all (getConnectedNodes ic (cnode c) ct (next_depth d) (checked @ [n])) (cnode c # ret)"
  let ?types = "\<lambda>t ret. case map_of byType t of None \<Rightarrow> ret
    | Some arr \<Rightarrow> if n \<in> set checked then ret else fold ?body (arr_conns arr) ret"
  have inner: "set (fold ?body cs ret) = (\<Union>c \<in> set cs. ?new (cnode c)) \<union> set ret" for cs ret
    by (rule set_fold_UN) auto
  have outer: "set (?types t ret) = (\<Union>c \<in> set (conns_of_type byType t). ?new (cnode c)) \<union> set ret"
    for t ret
    by (cases "map_of byType t") (simp_all only: conns_of_type_def option.case assms(2) if_False inner
        list.set UN_empty Un_empty_left)
  have "getConnectedNodes ic n ct d checked = fold ?types (types_of byType ct) []"
    using assms(1) Some by (subst getConnectedNodes.simps) simp
  then have "set (getConnectedNodes ic n ct d checked) =
    (\<Union>t \<in> set (types_of byType ct). \<Union>c \<in> set (conns_of_type byType t). ?new (cnode c))"
    using set_fold_UN [of "types_of byType ct" ?types
        "\<lambda>t. \<Union>c \<in> set (conns_of_type byType t). ?new (cnode c)" "[]", OF outer] by simp
  also have "\<dots> = (\<Union>y \<in> neighbours ic ct n. ?new y)"
    by (simp only: neighbours_eq [OF Some] UN_UN_flatten UN_simps image_image)
  also have "\<dots> = (\<Union>y \<in> neighbours ic ct n - insert n (set checked). ?rec y)"
    by auto
  finally show ?thesis .
qed

interpretation connected: path_search "neighbours ic ct"
    "\<lambda>n d checked. set (getConnectedNodes ic n ct d checked)" "fst ` set ic" for ic ct
  by unfold_locales
    (simp_all add: getConnectedNodes_stop getConnectedNodes_step neighbours_None map_of_eq_None_iff)


section \<open>Breadth first: searchNodesBFS\<close>

text \<open>
  \<open>visited\<close> maps a name to the object that was queued for it, and \<open>returnConns\<close> holds the same
  objects: when a visited node is met again, the object's \<open>indicies\<close> are replaced, and the entry
  of \<open>returnConns\<close> changes with it. The model keeps the objects in \<open>visited\<close> and the
  references (the names) in \<open>returnConns\<close>.
\<close>

definition dedupe :: "'a list \<Rightarrow> 'a list" where
  "dedupe arr = rev (remdups (rev arr))"

type_synonym bfs_state = "IConnectedNode jsobj \<times> string list \<times> IConnectedNode list"

definition bfs_visit ::
  "IConnections \<Rightarrow> string \<Rightarrow> nat \<Rightarrow> IConnectedNode \<Rightarrow> bfs_state \<Rightarrow> bfs_state" where
  "bfs_visit ic source depth cur = (\<lambda>(visited, returnConns, queue).
     case map_of visited (cn_name cur) of
       Some v \<Rightarrow>
         (obj_put (cn_name cur) (v\<lparr>cn_indicies := dedupe (cn_indicies v @ cn_indicies cur)\<rparr>) visited,
          returnConns, queue)
     | None \<Rightarrow>
         (obj_put (cn_name cur) cur visited,
          (if cn_name cur \<noteq> source then returnConns @ [cn_name cur] else returnConns),
          queue @ map (\<lambda>c. \<lparr>cn_name = cnode c, cn_indicies = [cindex c], cn_depth = depth\<rparr>)
            (arr_conns (conn_list ic (cn_name cur) Main))))"

definition bfs_level ::
  "IConnections \<Rightarrow> string \<Rightarrow> nat \<Rightarrow> bfs_state \<Rightarrow> bfs_state" where
  "bfs_level ic source depth = (\<lambda>(visited, returnConns, queue).
     fold (bfs_visit ic source depth) queue (visited, returnConns, []))"

text \<open>What one level adds: every new entry of the queue comes from a newly visited node.\<close>

definition unvisited :: "IConnections \<Rightarrow> IConnectedNode jsobj \<Rightarrow> string set" where
  "unvisited ic visited = {n \<in> fst ` set ic. map_of visited n = None}"

lemma unvisited_finite [simp]: "finite (unvisited ic visited)"
  by (simp add: unvisited_def)

lemma bfs_visit_progress:
  assumes "bfs_visit ic source d cur (visited, ret, q) = (visited', ret', q')"
  shows "unvisited ic visited' \<subseteq> unvisited ic visited"
    and "q' = q \<or> unvisited ic visited' \<noteq> unvisited ic visited"
proof -
  show "unvisited ic visited' \<subseteq> unvisited ic visited"
    using assms by (auto simp: bfs_visit_def unvisited_def split: option.splits if_splits)
  show "q' = q \<or> unvisited ic visited' \<noteq> unvisited ic visited"
  proof (cases "map_of visited (cn_name cur)")
    case None
    show ?thesis
    proof (cases "map_of ic (cn_name cur)")
      case None
      with assms \<open>map_of visited (cn_name cur) = None\<close> show ?thesis
        by (auto simp: bfs_visit_def conn_list_def arr_conns_def present_def)
    next
      case (Some b)
      then have "cn_name cur \<in> unvisited ic visited"
        using None by (force simp: unvisited_def dest: map_of_SomeD)
      moreover have "cn_name cur \<notin> unvisited ic visited'"
        using assms None by (auto simp: bfs_visit_def unvisited_def)
      ultimately show ?thesis by blast
    qed
  next
    case (Some v)
    with assms show ?thesis by (simp add: bfs_visit_def)
  qed
qed

lemma bfs_fold_progress:
  assumes "fold (bfs_visit ic source d) cs (visited, ret, q) = (visited', ret', q')"
  shows "unvisited ic visited' \<subseteq> unvisited ic visited \<and>
    (q' = q \<or> unvisited ic visited' \<noteq> unvisited ic visited)"
  using assms
proof (induction cs arbitrary: visited ret q)
  case Nil
  then show ?case by simp
next
  case (Cons c cs)
  obtain v r k where step: "bfs_visit ic source d c (visited, ret, q) = (v, r, k)"
    by (metis prod_cases3)
  with Cons.prems have "fold (bfs_visit ic source d) cs (v, r, k) = (visited', ret', q')" by simp
  from Cons.IH [OF this] bfs_visit_progress [OF step] show ?case by blast
qed

function bfs_loop ::
  "IConnections \<Rightarrow> string \<Rightarrow> int \<Rightarrow> nat \<Rightarrow> bfs_state \<Rightarrow> bfs_state" where
  "bfs_loop ic source maxDepth depth (visited, returnConns, queue) =
     (if queue = [] \<or> (maxDepth \<noteq> -1 \<and> int depth > maxDepth) then (visited, returnConns, queue)
      else bfs_loop ic source maxDepth (Suc depth)
        (bfs_level ic source (Suc depth) (visited, returnConns, queue)))"
  by pat_completeness auto
termination
proof (relation "measures [\<lambda>(ic, s, m, d, v, r, q). card (unvisited ic v),
    \<lambda>(ic, s, m, d, v, r, q). if q = [] then 0 else 1]", goal_cases)
  case 1
  then show ?case by simp
next
  case (2 ic source m d v r q)
  obtain v' r' q' where level: "bfs_level ic source (Suc d) (v, r, q) = (v', r', q')"
    by (metis prod_cases3)
  then have "unvisited ic v' \<subseteq> unvisited ic v \<and> (q' = [] \<or> unvisited ic v' \<noteq> unvisited ic v)"
    using bfs_fold_progress [of ic source "Suc d" q v r "[]"] by (simp add: bfs_level_def)
  then have "card (unvisited ic v') < card (unvisited ic v) \<or> q' = [] \<and> unvisited ic v' = unvisited ic v"
    by (metis psubsetI psubset_card_mono unvisited_finite)
  with 2 level show ?case by auto
qed

declare bfs_loop.simps [simp del]

text \<open>Following the references of \<open>returnConns\<close>.\<close>

definition objects :: "IConnectedNode jsobj \<Rightarrow> string list \<Rightarrow> IConnectedNode list" where
  "objects visited refs =
     concat (map (\<lambda>m. case map_of visited m of None \<Rightarrow> [] | Some v \<Rightarrow> [v]) refs)"

definition searchNodesBFS :: "IConnections \<Rightarrow> string \<Rightarrow> int \<Rightarrow> IConnectedNode list" where
  "searchNodesBFS ic source maxDepth =
     (let (visited, returnConns, _) = bfs_loop ic source maxDepth 0
            ([], [], [\<lparr>cn_name = source, cn_indicies = [], cn_depth = 0\<rparr>])
      in objects visited returnConns)"

definition getParentNodesByDepth :: "Workflow \<Rightarrow> string \<Rightarrow> int \<Rightarrow> IConnectedNode list" where
  "getParentNodesByDepth w n maxDepth = searchNodesBFS (connectionsByDestinationNode w) n maxDepth"

subsection \<open>Correctness of the breadth-first search\<close>

text \<open>What \<open>visited\<close> records of a name, apart from the indices.\<close>

definition seen :: "IConnectedNode jsobj \<Rightarrow> string \<Rightarrow> (string \<times> nat) option" where
  "seen visited m = map_option (\<lambda>v. (cn_name v, cn_depth v)) (map_of visited m)"

abbreviation main_edges :: "IConnections \<Rightarrow> (string \<times> string) set" where
  "main_edges ic \<equiv> {(a, b). b \<in> neighbours ic (OneType Main) a}"

lemma seen_Nil [simp]: "seen [] m = None"
  by (simp add: seen_def)

lemma seen_put: "seen (obj_put n v V) m = (if m = n then Some (cn_name v, cn_depth v) else seen V m)"
  by (simp add: seen_def)

lemma main_neighbours: "cnode ` set (arr_conns (conn_list ic n Main)) = neighbours ic (OneType Main) n"
proof -
  have "cnode ` set (arr_conns (conn_list ic n Main)) =
      {cnode c | c. c \<in> set (arr_conns (conn_list ic n Main))}" by blast
  then show ?thesis by (simp add: neighbours_def type_ok_def has_conn_def arr_conns_iff) blast
qed

text \<open>One visit of the queue, seen abstractly.\<close>

lemma bfs_visit_abs:
  assumes "bfs_visit ic source d' c (V, R, q) = (V', R', q')"
  shows "seen V' m = (if seen V m = None \<and> m = cn_name c then Some (m, cn_depth c) else seen V m)"
    and "R' = (if seen V (cn_name c) = None \<and> cn_name c \<noteq> source then R @ [cn_name c] else R)"
    and "cn_name ` set q' = cn_name ` set q \<union>
      (if seen V (cn_name c) = None then neighbours ic (OneType Main) (cn_name c) else {})"
    and "\<forall>x \<in> set q. cn_depth x = d' \<Longrightarrow> \<forall>x \<in> set q'. cn_depth x = d'"
proof -
  show "seen V' m = (if seen V m = None \<and> m = cn_name c then Some (m, cn_depth c) else seen V m)"
  proof (cases "map_of V (cn_name c)")
    case None
    with assms have "V' = obj_put (cn_name c) c V" by (simp add: bfs_visit_def)
    with None show ?thesis by (auto simp: seen_put) (simp_all add: seen_def)
  next
    case (Some v)
    with assms obtain ids where "V' = obj_put (cn_name c) (v\<lparr>cn_indicies := ids\<rparr>) V"
      by (auto simp: bfs_visit_def)
    moreover have "seen V (cn_name c) = Some (cn_name v, cn_depth v)" using Some by (simp add: seen_def)
    ultimately show ?thesis by (simp add: seen_put)
  qed
  show "R' = (if seen V (cn_name c) = None \<and> cn_name c \<noteq> source then R @ [cn_name c] else R)"
    using assms by (auto simp: bfs_visit_def seen_def split: option.splits)
  show "cn_name ` set q' = cn_name ` set q \<union>
      (if seen V (cn_name c) = None then neighbours ic (OneType Main) (cn_name c) else {})"
    using assms by (cases "map_of V (cn_name c)")
      (auto simp: bfs_visit_def seen_def image_Un image_image simp flip: main_neighbours)
  show "\<forall>x \<in> set q. cn_depth x = d' \<Longrightarrow> \<forall>x \<in> set q'. cn_depth x = d'"
    using assms by (auto simp: bfs_visit_def split: option.splits)
qed

lemma bfs_fold_abs:
  assumes "fold (bfs_visit ic source d') cs (V, R, q) = (V', R', q')" "\<forall>c \<in> set cs. cn_depth c = d"
  shows "(\<forall>m. seen V' m = (if seen V m = None \<and> m \<in> cn_name ` set cs then Some (m, d) else seen V m)) \<and>
    set R' = set R \<union> {m \<in> cn_name ` set cs. seen V m = None \<and> m \<noteq> source} \<and>
    (distinct R \<and> (\<forall>m \<in> set R. seen V m \<noteq> None) \<longrightarrow> distinct R') \<and>
    cn_name ` set q' = cn_name ` set q \<union>
      (\<Union>m \<in> {m \<in> cn_name ` set cs. seen V m = None}. neighbours ic (OneType Main) m) \<and>
    ((\<forall>x \<in> set q. cn_depth x = d') \<longrightarrow> (\<forall>x \<in> set q'. cn_depth x = d'))"
  using assms
proof (induction cs arbitrary: V R q)
  case Nil
  then show ?case by auto
next
  case (Cons c cs)
  obtain V1 R1 q1 where step: "bfs_visit ic source d' c (V, R, q) = (V1, R1, q1)"
    by (metis prod_cases3)
  note abs = bfs_visit_abs [OF step]
  have rest: "fold (bfs_visit ic source d') cs (V1, R1, q1) = (V', R', q')"
    using Cons.prems step by simp
  have depth: "cn_depth c = d" "\<forall>c \<in> set cs. cn_depth c = d" using Cons.prems by simp_all
  note IH = Cons.IH [OF rest depth(2)]
  note IH1 = IH [THEN conjunct1, rule_format] and IH2 = IH [THEN conjunct2, THEN conjunct1]
    and IH3 = IH [THEN conjunct2, THEN conjunct2, THEN conjunct1]
    and IH4 = IH [THEN conjunct2, THEN conjunct2, THEN conjunct2, THEN conjunct1]
    and IH5 = IH [THEN conjunct2, THEN conjunct2, THEN conjunct2, THEN conjunct2]
  have seen1: "seen V1 m = None \<longleftrightarrow> seen V m = None \<and> m \<noteq> cn_name c" for m
    using abs(1) [of m] by (cases "seen V m") simp_all
  have goal1: "seen V' m =
      (if seen V m = None \<and> m \<in> cn_name ` set (c # cs) then Some (m, d) else seen V m)" for m
    by (cases "seen V m"; cases "m = cn_name c") (simp_all add: IH1 abs(1) depth(1))
  have goal3: "distinct R \<and> (\<forall>m \<in> set R. seen V m \<noteq> None) \<longrightarrow> distinct R'"
  proof
    assume R: "distinct R \<and> (\<forall>m \<in> set R. seen V m \<noteq> None)"
    then have "distinct R1 \<and> (\<forall>m \<in> set R1. seen V1 m \<noteq> None)"
      unfolding abs(2) seen1 by auto
    then show "distinct R'" using IH3 by simp
  qed
  have new: "{m \<in> cn_name ` set (c # cs). seen V m = None \<and> P m} =
      {m. m = cn_name c \<and> seen V m = None \<and> P m} \<union> {m \<in> cn_name ` set cs. seen V1 m = None \<and> P m}"
    for P unfolding seen1 by auto
  have "set R1 = set R \<union> {m. m = cn_name c \<and> seen V m = None \<and> m \<noteq> source}"
    unfolding abs(2) by auto
  then have goal2: "set R' = set R \<union> {m \<in> cn_name ` set (c # cs). seen V m = None \<and> m \<noteq> source}"
    unfolding IH2 new by (simp only: Un_assoc)
  have "cn_name ` set q1 = cn_name ` set q \<union>
      (\<Union>m \<in> {m. m = cn_name c \<and> seen V m = None}. neighbours ic (OneType Main) m)"
    unfolding abs(3) by auto
  then have goal4: "cn_name ` set q' = cn_name ` set q \<union>
      (\<Union>m \<in> {m \<in> cn_name ` set (c # cs). seen V m = None}. neighbours ic (OneType Main) m)"
    using new [of "\<lambda>_. True"] unfolding IH4 by (simp only: simp_thms UN_Un Un_assoc)
  have goal5: "(\<forall>x \<in> set q. cn_depth x = d') \<longrightarrow> (\<forall>x \<in> set q'. cn_depth x = d')"
    using IH5 abs(4) by blast
  show ?case using goal1 goal2 goal3 goal4 goal5 by blast
qed

text \<open>\<open>at_distance E s m k\<close>: the shortest walk from \<open>s\<close> to \<open>m\<close> has \<open>k\<close> steps.\<close>

definition at_distance :: "('n \<times> 'n) set \<Rightarrow> 'n \<Rightarrow> 'n \<Rightarrow> nat \<Rightarrow> bool" where
  "at_distance E s m k = ((s, m) \<in> E ^^ k \<and> (\<forall>j < k. (s, m) \<notin> E ^^ j))"

lemma at_distance_least: "(s, m) \<in> E ^^ k \<Longrightarrow> \<exists>j \<le> k. at_distance E s m j"
proof -
  assume k: "(s, m) \<in> E ^^ k"
  let ?j = "LEAST j. (s, m) \<in> E ^^ j"
  have "at_distance E s m ?j"
    using LeastI [of "\<lambda>j. (s, m) \<in> E ^^ j", OF k] not_less_Least
    unfolding at_distance_def by blast
  moreover have "?j \<le> k" by (rule Least_le [of "\<lambda>j. (s, m) \<in> E ^^ j", OF k])
  ultimately show ?thesis by blast
qed

definition bfs_inv :: "IConnections \<Rightarrow> string \<Rightarrow> nat \<Rightarrow> bfs_state \<Rightarrow> bool" where
  "bfs_inv ic s d = (\<lambda>(V, R, Q).
     (\<forall>m. seen V m \<noteq> None \<longleftrightarrow> (\<exists>k < d. (s, m) \<in> main_edges ic ^^ k)) \<and>
     (\<forall>m x k. seen V m = Some (x, k) \<longrightarrow> x = m \<and> at_distance (main_edges ic) s m k) \<and>
     cn_name ` set Q \<subseteq> {m. (s, m) \<in> main_edges ic ^^ d} \<and>
     {m. (s, m) \<in> main_edges ic ^^ d} \<subseteq> cn_name ` set Q \<union> {m. seen V m \<noteq> None} \<and>
     (\<forall>x \<in> set Q. cn_depth x = d) \<and>
     set R = {m. seen V m \<noteq> None} - {s} \<and> distinct R)"

lemma bfs_invD:
  assumes "bfs_inv ic s d (V, R, Q)"
  shows "seen V m \<noteq> None \<longleftrightarrow> (\<exists>k < d. (s, m) \<in> main_edges ic ^^ k)"
    and "seen V m = Some (x, k) \<Longrightarrow> x = m \<and> at_distance (main_edges ic) s m k"
    and "cn_name ` set Q \<subseteq> {m. (s, m) \<in> main_edges ic ^^ d}"
    and "{m. (s, m) \<in> main_edges ic ^^ d} \<subseteq> cn_name ` set Q \<union> {m. seen V m \<noteq> None}"
    and "\<forall>x \<in> set Q. cn_depth x = d"
    and "set R = {m. seen V m \<noteq> None} - {s}" and "distinct R"
  using assms unfolding bfs_inv_def split_conv by (elim conjE; simp only:)+

lemma bfs_inv_level:
  assumes inv: "bfs_inv ic s d (V, R, Q)"
    and level: "bfs_level ic s (Suc d) (V, R, Q) = (V', R', Q')"
  shows "bfs_inv ic s (Suc d) (V', R', Q')"
proof -
  let ?E = "main_edges ic"
  let ?names = "cn_name ` set Q"
  let ?new = "{m \<in> ?names. seen V m = None}"
  note seenV = bfs_invD(1) [OF inv] and entry = bfs_invD(2) [OF inv]
  note Q = bfs_invD(3-5) [OF inv] and R = bfs_invD(6,7) [OF inv]
  have fold: "fold (bfs_visit ic s (Suc d)) Q (V, R, []) = (V', R', Q')"
    using level by (simp add: bfs_level_def)
  note abs = bfs_fold_abs [OF fold Q(3)]
  have seen': "seen V' m = (if m \<in> ?new then Some (m, d) else seen V m)" for m
    using abs by simp
  have names': "cn_name ` set Q' = (\<Union>m \<in> ?new. neighbours ic (OneType Main) m)"
    using abs by simp
  have dom': "seen V' m \<noteq> None \<longleftrightarrow> (\<exists>k < Suc d. (s, m) \<in> ?E ^^ k)" for m
  proof -
    have "seen V' m \<noteq> None \<longleftrightarrow> m \<in> ?names \<or> seen V m \<noteq> None" by (auto simp: seen')
    also have "\<dots> \<longleftrightarrow> (s, m) \<in> ?E ^^ d \<or> seen V m \<noteq> None" using Q by blast
    finally show ?thesis unfolding seenV less_Suc_eq by blast
  qed
  have new_dist: "at_distance ?E s m d" if "m \<in> ?new" for m
    using that Q(1) seenV [of m] unfolding at_distance_def by blast
  have "?E `` {m. (s, m) \<in> ?E ^^ d} \<subseteq> cn_name ` set Q' \<union> {m. seen V' m \<noteq> None}"
  proof
    fix m
    assume "m \<in> ?E `` {m. (s, m) \<in> ?E ^^ d}"
    then obtain p where p: "(s, p) \<in> ?E ^^ d" "(p, m) \<in> ?E" by auto
    show "m \<in> cn_name ` set Q' \<union> {m. seen V' m \<noteq> None}"
    proof (cases "seen V p = None")
      case True
      then have "p \<in> ?new" using p(1) Q(2) by blast
      then show ?thesis using p(2) names' by auto
    next
      case False
      then obtain k where "k < d" "(s, p) \<in> ?E ^^ k" using seenV by blast
      then have "Suc k < Suc d" "(s, m) \<in> ?E ^^ Suc k" using p(2) by auto
      then show ?thesis using dom' by blast
    qed
  qed
  then have "{m. (s, m) \<in> ?E ^^ Suc d} \<subseteq> cn_name ` set Q' \<union> {m. seen V' m \<noteq> None}"
    by auto
  moreover have "cn_name ` set Q' \<subseteq> {m. (s, m) \<in> ?E ^^ Suc d}"
    using names' Q(1) by auto
  moreover have "set R' = {m. seen V' m \<noteq> None} - {s}" "distinct R'"
  proof -
    have "{m. seen V' m \<noteq> None} = {m. seen V m \<noteq> None} \<union> ?new" by (auto simp: seen')
    moreover have "{m \<in> ?names. seen V m = None \<and> m \<noteq> s} = ?new - {s}" by auto
    then have "set R' = set R \<union> (?new - {s})" using abs by simp
    ultimately show "set R' = {m. seen V' m \<noteq> None} - {s}" by (simp only: R(1) Un_Diff)
    have "\<forall>m \<in> set R. seen V m \<noteq> None" unfolding R(1) by simp
    then show "distinct R'" using abs R(2) by simp
  qed
  moreover have "x = m \<and> at_distance ?E s m k" if "seen V' m = Some (x, k)" for m x k
    using that entry new_dist by (auto simp: seen' split: if_splits)
  moreover have "\<forall>x \<in> set Q'. cn_depth x = Suc d" using abs by simp
  ultimately show ?thesis using dom' unfolding bfs_inv_def split_conv by blast
qed

text \<open>When the loop ends, the visited nodes are those within the depth limit.\<close>

lemma bfs_loop_result:
  assumes "bfs_inv ic s d st" "maxDepth \<ge> -1"
    and "maxDepth = -1 \<or> int d \<le> maxDepth + 1"
  shows "\<exists>V R Q D. bfs_loop ic s maxDepth d st = (V, R, Q) \<and> bfs_inv ic s D (V, R, Q) \<and>
    (\<forall>m. seen V m \<noteq> None \<longleftrightarrow> (\<exists>k. depth_ok maxDepth k \<and> (s, m) \<in> main_edges ic ^^ k))"
  using assms
proof (induction ic s maxDepth d st rule: bfs_loop.induct)
  case (1 ic s maxDepth d V R Q)
  show ?case
  proof (cases "Q = [] \<or> (maxDepth \<noteq> -1 \<and> int d > maxDepth)")
    case True
    have inv: "bfs_inv ic s d (V, R, Q)" by fact
    have "seen V m \<noteq> None \<longleftrightarrow> (\<exists>k. depth_ok maxDepth k \<and> (s, m) \<in> main_edges ic ^^ k)" for m
    proof
      assume "seen V m \<noteq> None"
      then obtain k where "k < d" "(s, m) \<in> main_edges ic ^^ k"
        using bfs_invD(1) [OF inv] by blast
      moreover have "depth_ok maxDepth k"
        using \<open>k < d\<close> "1.prems"(3) by (auto simp: depth_ok_def)
      ultimately show "\<exists>k. depth_ok maxDepth k \<and> (s, m) \<in> main_edges ic ^^ k" by blast
    next
      assume "\<exists>k. depth_ok maxDepth k \<and> (s, m) \<in> main_edges ic ^^ k"
      then obtain k where k: "depth_ok maxDepth k" "(s, m) \<in> main_edges ic ^^ k" by blast
      obtain j where j: "j \<le> k" "at_distance (main_edges ic) s m j"
        using at_distance_least [OF k(2)] by blast
      show "seen V m \<noteq> None"
      proof (cases "Q = []")
        case False
        with True have "j < d" using j(1) k(1) by (auto simp: depth_ok_def)
        then show ?thesis using bfs_invD(1) [OF inv] j(2) unfolding at_distance_def by blast
      next
        case True
        have "j < d" if "(s, m') \<in> main_edges ic ^^ j" "at_distance (main_edges ic) s m' j" for m' j
          using that
        proof (induction j arbitrary: m' rule: less_induct)
          case (less j)
          show ?case
          proof (rule ccontr)
            assume "\<not> j < d"
            then obtain i where split: "j = d + i" by (metis le_iff_add not_less)
            then obtain p where p: "(s, p) \<in> main_edges ic ^^ d" "(p, m') \<in> main_edges ic ^^ i"
              using less.prems(1) by (auto simp: relpow_add)
            have "p \<in> cn_name ` set Q \<union> {m. seen V m \<noteq> None}" using bfs_invD(4) [OF inv] p(1) by blast
            then have "seen V p \<noteq> None" using True by simp
            then obtain k where "k < d" "(s, p) \<in> main_edges ic ^^ k"
              using bfs_invD(1) [OF inv] by blast
            then have "k + i < j" "(s, m') \<in> main_edges ic ^^ (k + i)"
              using p(2) split by (auto simp: relpow_add)
            then show False using less.prems(2) by (auto simp: at_distance_def)
          qed
        qed
        with j(2) have "j < d" by (auto simp: at_distance_def)
        then show ?thesis using bfs_invD(1) [OF inv] j(2) unfolding at_distance_def by blast
      qed
    qed
    moreover have "bfs_loop ic s maxDepth d (V, R, Q) = (V, R, Q)"
      using True by (simp add: bfs_loop.simps [of ic s maxDepth d V R Q])
    ultimately show ?thesis using inv by blast
  next
    case False
    obtain V' R' Q' where level: "bfs_level ic s (Suc d) (V, R, Q) = (V', R', Q')"
      by (metis prod_cases3)
    have "bfs_inv ic s (Suc d) (V', R', Q')" by (rule bfs_inv_level [OF "1.prems"(1) level])
    moreover have "maxDepth = -1 \<or> int (Suc d) \<le> maxDepth + 1" using False by auto
    moreover have "bfs_loop ic s maxDepth d (V, R, Q) = bfs_loop ic s maxDepth (Suc d) (V', R', Q')"
      unfolding bfs_loop.simps [of ic s maxDepth d V R Q] if_not_P [OF False] level ..
    ultimately show ?thesis
      using "1.IH" [OF False] "1.prems"(2) unfolding level by presburger
  qed
qed

lemma bfs_inv_start: "bfs_inv ic s 0 ([], [], [\<lparr>cn_name = s, cn_indicies = ids, cn_depth = 0\<rparr>])"
  by (auto simp: bfs_inv_def)

lemma seen_map_of: "seen V m = Some (m, k) \<longleftrightarrow> (\<exists>v. map_of V m = Some v \<and> cn_name v = m \<and> cn_depth v = k)"
  by (auto simp: seen_def)

lemma set_objects: "set (objects V R) = {v. \<exists>m \<in> set R. map_of V m = Some v}"
  by (auto simp: objects_def split: option.splits)

lemma image_objects:
  assumes "\<And>m v. map_of V m = Some v \<Longrightarrow> cn_name v = m"
  shows "(m, k) \<in> (\<lambda>v. (cn_name v, cn_depth v)) ` set (objects V R) \<longleftrightarrow>
    m \<in> set R \<and> seen V m = Some (m, k)"
proof
  assume "(m, k) \<in> (\<lambda>v. (cn_name v, cn_depth v)) ` set (objects V R)"
  then obtain v n where v: "n \<in> set R" "map_of V n = Some v" "m = cn_name v" "k = cn_depth v"
    by (auto simp: set_objects)
  with assms have "n = m" by blast
  with v show "m \<in> set R \<and> seen V m = Some (m, k)" by (simp add: seen_def)
next
  assume m: "m \<in> set R \<and> seen V m = Some (m, k)"
  then obtain v where "map_of V m = Some v" "cn_name v = m" "cn_depth v = k"
    by (auto simp: seen_map_of)
  with m show "(m, k) \<in> (\<lambda>v. (cn_name v, cn_depth v)) ` set (objects V R)"
    by (force simp: set_objects)
qed

lemma distinct_objects:
  assumes "\<And>m v. map_of V m = Some v \<Longrightarrow> cn_name v = m" "distinct R"
  shows "distinct (map cn_name (objects V R))"
  using assms(2)
proof (induction R)
  case Nil
  then show ?case by (simp add: objects_def)
next
  case (Cons r R)
  have "cn_name ` set (objects V R) \<subseteq> set R"
    using assms(1) by (auto simp: set_objects)
  moreover have "objects V (r # R) =
      (case map_of V r of None \<Rightarrow> [] | Some v \<Rightarrow> [v]) @ objects V R"
    by (simp add: objects_def)
  ultimately show ?case
    using Cons assms(1) by (cases "map_of V r") auto
qed

section \<open>Properties\<close>

text \<open>C27: \<open>getConnectedNodes\<close> terminates on every workflow, cyclic or not, and returns exactly
  the other nodes that can be reached over connections of the requested types within the depth
  limit (\<open>-1\<close>: no limit).\<close>

theorem getConnectedNodes_reachable:
  assumes "depth \<ge> -1"
  shows "set (getConnectedNodes ic n ct depth []) =
    within {(a, b). b \<in> neighbours ic ct a} depth n - {n}"
  using connected.search_correct [OF assms] by (simp add: connected.edges_def)

definition triangle :: IConnections where
  "triangle =
     [(''A'', [(Main, [Some [\<lparr>cnode = ''B'', ctype = Main, cindex = 0\<rparr>,
                           \<lparr>cnode = ''C'', ctype = Main, cindex = 0\<rparr>]])]),
      (''B'', [(Main, [Some [\<lparr>cnode = ''C'', ctype = Main, cindex = 0\<rparr>]])])]"

theorem getConnectedNodes_reachable_witness:
  "within {(a, b). b \<in> neighbours triangle (OneType Main) a} (-1) ''A'' - {''A''} = {''B'', ''C''}"
proof -
  have "getConnectedNodes triangle ''A'' (OneType Main) (-1) [] = [''C'', ''C'', ''B'']"
    by code_simp
  then show ?thesis using getConnectedNodes_reachable [of "-1" triangle "''A''" "OneType Main"] by auto
qed

text \<open>The list of \<open>getConnectedNodes\<close> is not free of duplicates, although its inner loop
  removes a name before it adds it again: a direct connection is unshifted without that check, so
  in the triangle A to B, A to C, B to C the node C is returned twice.\<close>

theorem getConnectedNodes_duplicates:
  "\<not> distinct (getConnectedNodes triangle ''A'' (OneType Main) (-1) [])"
  by code_simp

text \<open>C28: \<open>searchNodesBFS\<close> returns each reachable node within the depth limit other than the
  source once, and the depth it reports is the length of a shortest path.\<close>

theorem searchNodesBFS_shortest:
  assumes "maxDepth \<ge> -1"
  shows "distinct (map cn_name (searchNodesBFS ic s maxDepth)) \<and>
    (\<forall>m k. (m, k) \<in> (\<lambda>v. (cn_name v, cn_depth v)) ` set (searchNodesBFS ic s maxDepth) \<longleftrightarrow>
       m \<noteq> s \<and> depth_ok maxDepth k \<and> at_distance (main_edges ic) s m k)"
proof -
  have lim: "maxDepth = -1 \<or> int 0 \<le> maxDepth + 1" using assms by simp
  obtain V R Q D where loop: "bfs_loop ic s maxDepth 0
        ([], [], [\<lparr>cn_name = s, cn_indicies = [], cn_depth = 0\<rparr>]) = (V, R, Q)"
    and inv: "bfs_inv ic s D (V, R, Q)"
    and dom: "\<forall>m. seen V m \<noteq> None \<longleftrightarrow> (\<exists>k. depth_ok maxDepth k \<and> (s, m) \<in> main_edges ic ^^ k)"
    using bfs_loop_result [OF bfs_inv_start assms lim] by blast
  have res: "searchNodesBFS ic s maxDepth = objects V R"
    by (simp add: searchNodesBFS_def loop)
  note entry = bfs_invD(2) [OF inv]
  have name: "map_of V m = Some v \<Longrightarrow> cn_name v = m" for m v
    using entry [of m "cn_name v" "cn_depth v"] by (simp add: seen_def)
  have unique: "at_distance (main_edges ic) s m k \<Longrightarrow> at_distance (main_edges ic) s m j \<Longrightarrow> j = k" for m j k
    unfolding at_distance_def by (metis nat_neq_iff)
  have "m \<in> set R \<and> seen V m = Some (m, k) \<longleftrightarrow>
      m \<noteq> s \<and> depth_ok maxDepth k \<and> at_distance (main_edges ic) s m k" for m k
  proof
    assume l: "m \<in> set R \<and> seen V m = Some (m, k)"
    then have m: "m \<noteq> s" "at_distance (main_edges ic) s m k"
      using bfs_invD(6) [OF inv] entry by auto
    obtain j where "depth_ok maxDepth j" "(s, m) \<in> main_edges ic ^^ j" using dom l by auto
    moreover then have "k \<le> j" using m(2) unfolding at_distance_def by (metis not_less)
    ultimately show "m \<noteq> s \<and> depth_ok maxDepth k \<and> at_distance (main_edges ic) s m k"
      using m depth_ok_mono by blast
  next
    assume r: "m \<noteq> s \<and> depth_ok maxDepth k \<and> at_distance (main_edges ic) s m k"
    then have "seen V m \<noteq> None" using dom unfolding at_distance_def by blast
    then obtain j where "seen V m = Some (m, j)" using entry by force
    moreover then have "j = k" using entry [of m m j] r unique by blast
    ultimately show "m \<in> set R \<and> seen V m = Some (m, k)" using r bfs_invD(6) [OF inv] by simp
  qed
  then have "(m, k) \<in> (\<lambda>v. (cn_name v, cn_depth v)) ` set (searchNodesBFS ic s maxDepth) \<longleftrightarrow>
      m \<noteq> s \<and> depth_ok maxDepth k \<and> at_distance (main_edges ic) s m k" for m k
    unfolding res using image_objects [OF name] by blast
  then show ?thesis using distinct_objects [OF name bfs_invD(7) [OF inv]] unfolding res by simp
qed

theorem searchNodesBFS_shortest_witness:
  "map (\<lambda>v. (cn_name v, cn_depth v)) (searchNodesBFS triangle ''A'' (-1)) = [(''B'', 1), (''C'', 1)] \<and>
    at_distance (main_edges triangle) ''A'' ''C'' 1"
proof -
  have run: "map (\<lambda>v. (cn_name v, cn_depth v)) (searchNodesBFS triangle ''A'' (-1)) = [(''B'', 1), (''C'', 1)]"
    by (simp add: searchNodesBFS_def bfs_loop.simps bfs_level_def bfs_visit_def triangle_def obj_put_def
        conn_list_def arr_conns_def present_def dedupe_def objects_def array_index_def is_digit_def
        digits_def)
  then have "(''C'', 1) \<in> (\<lambda>v. (cn_name v, cn_depth v)) ` set (searchNodesBFS triangle ''A'' (-1))"
    unfolding set_map [symmetric] run by simp
  then show ?thesis using run searchNodesBFS_shortest [of "-1" triangle "''A''"] by auto
qed

end
