(* ===== verification/WorkflowQueries.thy ===== *)
theory WorkflowQueries
  imports WorkflowSearch
begin

text \<open>
  The rest of the \<open>Workflow\<close> object of \<open>packages/workflow/src/Workflow.ts\<close> that only reads it or
  builds it: the constructor, the queries for nodes by their type, the checks before activation
  and execution, static data, and the search for the main parent of a sub-node. The functions of
  \<open>NodeHelpers\<close> that resolve and validate parameters are arguments of the definitions that
  call them.
\<close>

section \<open>The constructor\<close>

record WorkflowParameters =
  p_id :: "string option"
  p_name :: "string option"
  p_nodes :: "INode list"
  p_connections :: IConnections
  p_active :: "bool option"
  p_nodeTypes :: INodeTypes
  p_staticData :: "jsval jsobj option"
  p_executionOrder :: "string option"
  p_pinData :: "IPinData option"

text \<open>\<open>NodeHelpers.getNodeParameters\<close>: properties and node to the resolved parameters, or \<open>null\<close>.\<close>

type_synonym parameter_resolver = "INodeProperties list \<Rightarrow> INode \<Rightarrow> jsval jsobj option res"

definition with_default_parameters ::
  "parameter_resolver \<Rightarrow> INodeTypes \<Rightarrow> INode \<Rightarrow> INode res" where
  "with_default_parameters getNodeParameters types node =
     (case types (ntype node) (typeVersion node) of
        None \<Rightarrow> Inr node
      | Some nodeType \<Rightarrow>
          bindR (getNodeParameters (td_properties nodeType) node) (\<lambda>nodeParameters.
            Inr (node\<lparr>parameters := (case nodeParameters of None \<Rightarrow> [] | Some ps \<Rightarrow> ps)\<rparr>)))"

definition add_nodes ::
  "parameter_resolver \<Rightarrow> INodeTypes \<Rightarrow> INode list \<Rightarrow> INode jsobj res" where
  "add_nodes getNodeParameters types ns =
     foldR (\<lambda>node this_nodes.
       bindR (with_default_parameters getNodeParameters types node) (\<lambda>node'.
         Inr (obj_put (nodeName node) node' this_nodes))) ns []"

definition new_Workflow :: "parameter_resolver \<Rightarrow> WorkflowParameters \<Rightarrow> Workflow res" where
  "new_Workflow getNodeParameters p =
     bindR (add_nodes getNodeParameters (p_nodeTypes p) (p_nodes p)) (\<lambda>this_nodes.
       Inr \<lparr>wf_id = p_id p, wf_name = p_name p, nodes = this_nodes,
         connectionsBySourceNode = p_connections p,
         connectionsByDestinationNode = getConnectionsByDestination (p_connections p),
         nodeTypes = p_nodeTypes p, active = truthy (p_active p),
         executionOrder = p_executionOrder p,
         staticData = (case p_staticData p of None \<Rightarrow> [] | Some d \<Rightarrow> d),
         testStaticData = None, wf_pinData = p_pinData p\<rparr>)"

text \<open>
  The invariant of a workflow object: nodes are stored under their own names and the two
  connection indexes describe the same connections.
\<close>

definition named :: "INode jsobj \<Rightarrow> bool" where
  "named ob \<longleftrightarrow> wf_keys ob \<and> (\<forall>k n. map_of ob k = Some n \<longrightarrow> nodeName n = k)"

definition wf_workflow :: "Workflow \<Rightarrow> bool" where
  "wf_workflow w \<longleftrightarrow> named (nodes w) \<and> wf_connections (connectionsBySourceNode w) \<and>
     connectionsByDestinationNode w = getConnectionsByDestination (connectionsBySourceNode w)"

lemma named_Nil [simp]: "named []"
  by (simp add: named_def wf_keys_def)

lemma namedD: "named ob \<Longrightarrow> wf_keys ob" "named ob \<Longrightarrow> map_of ob k = Some n \<Longrightarrow> nodeName n = k"
  by (simp_all add: named_def)

lemma named_obj_put: "named ob \<Longrightarrow> nodeName n = k \<Longrightarrow> named (obj_put k n ob)"
  by (simp add: named_def jobj.wf_put)

lemma wf_workflow_name: "wf_workflow w \<Longrightarrow> map_of (nodes w) k = Some n \<Longrightarrow> nodeName n = k"
  by (auto simp: wf_workflow_def dest: namedD(2))

lemma with_default_parameters_name:
  "with_default_parameters gnp types node = Inr node' \<Longrightarrow>
     nodeName node' = nodeName node \<and> nodeRef node' = nodeRef node"
  by (auto simp: with_default_parameters_def bindR_Inr_iff split: option.splits)

text \<open>The loop of the constructor, from any starting object.\<close>

lemma add_nodes_loop:
  assumes "foldR (\<lambda>node this_nodes. bindR (with_default_parameters gnp types node) (\<lambda>node'.
      Inr (obj_put (nodeName node) node' this_nodes))) ns ob = Inr ob'" "named ob"
  shows "named ob' \<and> set (map_keys ob') = set (map_keys ob) \<union> nodeName ` set ns"
  using assms
proof (induction ns arbitrary: ob)
  case Nil
  then show ?case by simp
next
  case (Cons n ns)
  then obtain n' where n': "with_default_parameters gnp types n = Inr n'"
    and rest: "foldR (\<lambda>node this_nodes. bindR (with_default_parameters gnp types node) (\<lambda>node'.
      Inr (obj_put (nodeName node) node' this_nodes))) ns (obj_put (nodeName n) n' ob) = Inr ob'"
    by (auto simp: bindR_Inr_iff)
  have "named (obj_put (nodeName n) n' ob)"
    using Cons.prems(2) with_default_parameters_name [OF n'] by (simp add: named_obj_put)
  from Cons.IH [OF rest this] show ?case
    using jobj.keys_put [OF namedD(1) [OF Cons.prems(2)]] by simp
qed

lemma add_nodes_spec:
  "add_nodes gnp types ns = Inr ob \<Longrightarrow> named ob \<and> set (map_keys ob) = nodeName ` set ns"
  unfolding add_nodes_def by (drule add_nodes_loop) (simp_all add: map_keys_def)

lemma wf_new_Workflow:
  "new_Workflow gnp p = Inr w \<Longrightarrow> wf_connections (p_connections p) \<Longrightarrow>
     wf_workflow w \<and> set (map_keys (nodes w)) = nodeName ` set (p_nodes p)"
  using add_nodes_spec by (auto simp: new_Workflow_def bindR_Inr_iff wf_workflow_def)

section \<open>Nodes by name and by type\<close>

definition getNode :: "Workflow \<Rightarrow> string \<Rightarrow> INode option" where
  "getNode w name = (if obj_has (nodes w) name then map_of (nodes w) name else None)"

lemma getNode_eq [simp]: "getNode w name = map_of (nodes w) name"
  by (simp add: getNode_def obj_has_def)

definition getPinDataOfNode :: "Workflow \<Rightarrow> string \<Rightarrow> INodeExecutionData list option" where
  "getPinDataOfNode w name =
     (case wf_pinData w of None \<Rightarrow> None | Some pinData \<Rightarrow> map_of pinData name)"

definition queryNodes :: "Workflow \<Rightarrow> (INodeType \<Rightarrow> bool) \<Rightarrow> INode list" where
  "queryNodes w checkFunction =
     fold (\<lambda>(_, node) returnNodes.
       if disabled node = Some True then returnNodes
       else case nodeTypes w (ntype node) (typeVersion node) of
         None \<Rightarrow> returnNodes
       | Some nodeType \<Rightarrow> if checkFunction nodeType then returnNodes @ [node] else returnNodes)
       (nodes w) []"

definition getTriggerNodes :: "Workflow \<Rightarrow> INode list" where
  "getTriggerNodes w = queryNodes w has_trigger"

definition getPollNodes :: "Workflow \<Rightarrow> INode list" where
  "getPollNodes w = queryNodes w has_poll"

definition can_start :: "Workflow \<Rightarrow> string list option \<Rightarrow> INode \<Rightarrow> bool" where
  "can_start w ignoreNodeTypes node =
     (if disabled node = Some True then False
      else if (case ignoreNodeTypes of None \<Rightarrow> False | Some ts \<Rightarrow> ntype node \<in> set ts) then False
      else case nodeTypes w (ntype node) (typeVersion node) of
        None \<Rightarrow> False
      | Some nodeType \<Rightarrow> has_poll nodeType \<or> has_trigger nodeType \<or> has_webhook nodeType)"

definition checkIfWorkflowCanBeActivated :: "Workflow \<Rightarrow> string list option \<Rightarrow> bool" where
  "checkIfWorkflowCanBeActivated w ignoreNodeTypes =
     list_ex (\<lambda>(_, node). can_start w ignoreNodeTypes node) (nodes w)"

lemma queryNodes_filter:
  "queryNodes w P = filter (\<lambda>n. disabled n \<noteq> Some True \<and>
     (case nodeTypes w (ntype n) (typeVersion n) of None \<Rightarrow> False | Some t \<Rightarrow> P t)) (map_values (nodes w))"
proof -
  have "fold (\<lambda>(_, node) returnNodes.
       if disabled node = Some True then returnNodes
       else case nodeTypes w (ntype node) (typeVersion node) of
         None \<Rightarrow> returnNodes
       | Some nodeType \<Rightarrow> if P nodeType then returnNodes @ [node] else returnNodes) ns acc =
     acc @ filter (\<lambda>n. disabled n \<noteq> Some True \<and>
     (case nodeTypes w (ntype n) (typeVersion n) of None \<Rightarrow> False | Some t \<Rightarrow> P t)) (map_values ns)"
    for ns :: "INode jsobj" and acc
    by (induction ns arbitrary: acc) (auto simp: map_values_def split: option.splits)
  then show ?thesis by (simp add: queryNodes_def)
qed

section \<open>Ready for execution\<close>

text \<open>The issues of a node: its type is unknown, or what \<open>getNodeParametersIssues\<close> reports.\<close>

type_synonym issue_finder = "INodeProperties list \<Rightarrow> INode \<Rightarrow> string list option \<Rightarrow> INodeIssues option res"

definition nonempty_str :: "string option \<Rightarrow> string option" where
  "nonempty_str s = (case s of None \<Rightarrow> None | Some x \<Rightarrow> if x = [] then None else Some x)"

definition nodes_to_check :: "Workflow \<Rightarrow> string option \<Rightarrow> string option \<Rightarrow> string list" where
  "nodes_to_check w startNode destinationNode =
     (case nonempty_str destinationNode of
        Some d \<Rightarrow> getParentNodes w d (OneType Main) (-1) @ [d]
      | None \<Rightarrow> (case nonempty_str startNode of
          Some s \<Rightarrow> getChildNodes w s (OneType Main) (-1) @ [s]
        | None \<Rightarrow> []))"

definition issues_of_node ::
  "issue_finder \<Rightarrow> Workflow \<Rightarrow> string list option \<Rightarrow> INode \<Rightarrow> INodeIssues option res" where
  "issues_of_node getNodeParametersIssues w pinDataNodeNames node =
     (case nodeTypes w (ntype node) (typeVersion node) of
        None \<Rightarrow> Inr (Some (no_issues\<lparr>iss_typeUnknown := Some True\<rparr>))
      | Some nodeType \<Rightarrow> getNodeParametersIssues (td_properties nodeType) node pinDataNodeNames)"

text \<open>The body of the loop over the nodes to check.\<close>

definition check_node ::
  "issue_finder \<Rightarrow> Workflow \<Rightarrow> string list option \<Rightarrow> string \<Rightarrow> INodeIssues jsobj \<Rightarrow> INodeIssues jsobj res" where
  "check_node getNodeParametersIssues w pinDataNodeNames name workflowIssues =
     bindR (derefR (map_of (nodes w) name)) (\<lambda>node.
       if disabled node = Some True then Inr workflowIssues
       else bindR (issues_of_node getNodeParametersIssues w pinDataNodeNames node) (\<lambda>issues.
         case issues of
           None \<Rightarrow> Inr workflowIssues
         | Some nodeIssues \<Rightarrow> Inr (obj_put (nodeName node) nodeIssues workflowIssues)))"

definition checkReadyForExecution ::
  "issue_finder \<Rightarrow> Workflow \<Rightarrow> string option \<Rightarrow> string option \<Rightarrow> string list option \<Rightarrow>
   INodeIssues jsobj option res" where
  "checkReadyForExecution getNodeParametersIssues w startNode destinationNode pinDataNodeNames =
     bindR (foldR (check_node getNodeParametersIssues w pinDataNodeNames)
        (nodes_to_check w startNode destinationNode) [])
      (\<lambda>workflowIssues. Inr (if workflowIssues = [] then None else Some workflowIssues))"

section \<open>Static data\<close>

definition static_key :: "string \<Rightarrow> INode option \<Rightarrow> string res" where
  "static_key type node =
     (if type = ''global'' then Inr ''global''
      else if type = ''node'' then
        (case node of
           None \<Rightarrow> Inl (ApplicationError
             ''The request data of context type \"node\" the node parameter has to be set!'')
         | Some n \<Rightarrow> Inr (''node:'' @ nodeName n))
      else Inl (ApplicationError
        ''Unknown context type. Only `global` and `node` are supported.''))"

text \<open>The result and the workflow, whose static data may have got a new entry.\<close>

definition getStaticData :: "Workflow \<Rightarrow> string \<Rightarrow> INode option \<Rightarrow> (jsval \<times> Workflow) res" where
  "getStaticData w type node =
     bindR (static_key type node) (\<lambda>key.
       let test = (case testStaticData w of None \<Rightarrow> JUndef | Some d \<Rightarrow> obj_read d key) in
       if js_truthy test then Inr (test, w)
       else
         let w' = (if obj_read (staticData w) key = JUndef
                   then w\<lparr>staticData := obj_put key (JObj []) (staticData w)\<rparr> else w)
         in Inr (obj_read (staticData w') key, w'))"

definition setTestStaticData :: "Workflow \<Rightarrow> jsval jsobj \<Rightarrow> Workflow" where
  "setTestStaticData w d = w\<lparr>testStaticData := Some d\<rparr>"

section \<open>Properties\<close>

subsection \<open>Parents and children\<close>

lemma neighbours_by_destination:
  assumes "wf_connections ic"
  shows "s \<in> neighbours (getConnectionsByDestination ic) AllTypes d \<longleftrightarrow> d \<in> neighbours ic AllTypes s"
    (is "?l \<longleftrightarrow> ?r")
proof
  assume ?l
  then obtain t k c where c: "has_conn (getConnectionsByDestination ic) d t k c" "cnode c = s"
    by (auto simp: neighbours_def)
  then have "c = \<lparr>cnode = s, ctype = ctype c, cindex = cindex c\<rparr>" by (cases c) simp
  with c(1) have "has_conn ic s (ctype c) (cindex c) \<lparr>cnode = d, ctype = t, cindex = k\<rparr>"
    using has_conn_by_destination [OF assms, of d t k s "ctype c" "cindex c"] by metis
  then show ?r unfolding neighbours_def type_ok_def by force
next
  assume ?r
  then obtain t k c where c: "has_conn ic s t k c" "cnode c = d"
    by (auto simp: neighbours_def)
  then have "c = \<lparr>cnode = d, ctype = ctype c, cindex = cindex c\<rparr>" by (cases c) simp
  with c(1) have "has_conn (getConnectionsByDestination ic) d (ctype c) (cindex c) \<lparr>cnode = s, ctype = t, cindex = k\<rparr>"
    using has_conn_by_destination [OF assms, of d "ctype c" "cindex c" s t k] by metis
  then show ?l unfolding neighbours_def type_ok_def by force
qed

lemma edges_by_destination:
  assumes "wf_connections ic"
  shows "connected.edges (getConnectionsByDestination ic) AllTypes = (connected.edges ic AllTypes)\<inverse>"
  by (auto simp: connected.edges_def neighbours_by_destination [OF assms])

text \<open>A workflow that the constructor builds stores each node under its own name, has no node
  but the given ones, and its parents and children mirror each other: \<open>s\<close> is among the parents of
  \<open>d\<close> exactly when \<open>d\<close> is among the children of \<open>s\<close>, whatever the connection types.\<close>

theorem constructor_parents_mirror_children:
  assumes "new_Workflow getNodeParameters p = Inr w" "wf_connections (p_connections p)"
  shows "(\<forall>k n. map_of (nodes w) k = Some n \<longrightarrow> nodeName n = k) \<and>
    set (map_keys (nodes w)) = nodeName ` set (p_nodes p) \<and>
    (s \<in> set (getParentNodes w d AllTypes (-1)) \<longleftrightarrow> d \<in> set (getChildNodes w s AllTypes (-1)))"
proof -
  have w: "wf_workflow w" "set (map_keys (nodes w)) = nodeName ` set (p_nodes p)"
    "connectionsBySourceNode w = p_connections p"
    using assms wf_new_Workflow by (auto simp: new_Workflow_def bindR_Inr_iff)
  have idx: "connectionsByDestinationNode w = getConnectionsByDestination (p_connections p)"
    using w by (simp add: wf_workflow_def)
  have "s \<in> set (getParentNodes w d AllTypes (-1)) \<longleftrightarrow> d \<in> set (getChildNodes w s AllTypes (-1))"
    unfolding getParentNodes_def getChildNodes_def idx w(3) connected.search_unlimited
      edges_by_destination [OF assms(2)] trancl_converse by auto
  with w wf_workflow_name [OF w(1)] show ?thesis by blast
qed

definition sample_parameters :: WorkflowParameters where
  "sample_parameters =
     \<lparr>p_id = None, p_name = None, p_nodes = [plain_node 1 ''A'' ''x'', plain_node 2 ''B'' ''x''],
      p_connections = [(''A'', [(Main, [Some [\<lparr>cnode = ''B'', ctype = Main, cindex = 0\<rparr>]])])],
      p_active = None, p_nodeTypes = (\<lambda>_ _. None), p_staticData = None, p_executionOrder = None,
      p_pinData = None\<rparr>"

theorem constructor_parents_mirror_children_witness:
  "\<exists>w. new_Workflow (\<lambda>_ _. Inr None) sample_parameters = Inr w \<and>
     ''A'' \<in> set (getParentNodes w ''B'' AllTypes (-1))"
proof -
  let ?w = "case new_Workflow (\<lambda>_ _. Inr None) sample_parameters of Inr w \<Rightarrow> w"
  have new: "new_Workflow (\<lambda>_ _. Inr None) sample_parameters = Inr ?w"
    by (simp add: new_Workflow_def add_nodes_def with_default_parameters_def sample_parameters_def)
  have wf: "wf_connections (p_connections sample_parameters)"
    by (simp add: sample_parameters_def wf_connections_def wf_keys_def)
  have "getConnectedNodes (p_connections sample_parameters) ''A'' AllTypes (-1) [] = [''B'']"
    by code_simp
  moreover have "connectionsBySourceNode ?w = p_connections sample_parameters"
    by (simp add: new_Workflow_def add_nodes_def with_default_parameters_def sample_parameters_def)
  ultimately have "''B'' \<in> set (getChildNodes ?w ''A'' AllTypes (-1))"
    by (simp add: getChildNodes_def)
  with constructor_parents_mirror_children [OF new wf, of "''A''" "''B''"] new show ?thesis by blast
qed

subsection \<open>Activation\<close>

text \<open>A workflow can be activated exactly when one of the queries for its enabled nodes finds a
  trigger, a poll or a webhook node; ignoring node types takes exactly the nodes of those types
  out of that test.\<close>

theorem activation_needs_a_starting_node:
  "(checkIfWorkflowCanBeActivated w None \<longleftrightarrow>
     getTriggerNodes w @ getPollNodes w @ queryNodes w has_webhook \<noteq> []) \<and>
   (checkIfWorkflowCanBeActivated w (Some ts) \<longleftrightarrow>
     checkIfWorkflowCanBeActivated (w\<lparr>nodes := filter (\<lambda>(_, n). ntype n \<notin> set ts) (nodes w)\<rparr>) None)"
proof
  show "checkIfWorkflowCanBeActivated w None \<longleftrightarrow>
     getTriggerNodes w @ getPollNodes w @ queryNodes w has_webhook \<noteq> []"
    by (simp add: checkIfWorkflowCanBeActivated_def getTriggerNodes_def getPollNodes_def
        queryNodes_filter can_start_def list_ex_iff filter_empty_conv map_values_def)
      (force split: option.splits)
qed (auto simp: checkIfWorkflowCanBeActivated_def can_start_def list_ex_iff)

subsection \<open>Checks before an execution\<close>

text \<open>The check of the parameters of a node answers, whatever it finds.\<close>

definition answers :: "issue_finder \<Rightarrow> Workflow \<Rightarrow> string list option \<Rightarrow> string \<Rightarrow> bool" where
  "answers finder w pins name \<longleftrightarrow>
     (\<forall>n t. map_of (nodes w) name = Some n \<longrightarrow> disabled n \<noteq> Some True \<longrightarrow>
        nodeTypes w (ntype n) (typeVersion n) = Some t \<longrightarrow> (\<exists>i. finder (td_properties t) n pins = Inr i))"

definition issue_at ::
  "issue_finder \<Rightarrow> Workflow \<Rightarrow> string list option \<Rightarrow> string \<Rightarrow> INodeIssues option" where
  "issue_at finder w pins k =
     (case map_of (nodes w) k of
        None \<Rightarrow> None
      | Some n \<Rightarrow> if disabled n = Some True then None else projr (issues_of_node finder w pins n))"

lemma issues_of_node_answers:
  assumes "answers finder w pins name" "map_of (nodes w) name = Some n" "disabled n \<noteq> Some True"
  shows "\<exists>i. issues_of_node finder w pins n = Inr i"
  using assms by (auto simp: answers_def issues_of_node_def split: option.split)

lemma issue_at_None:
  assumes "answers finder w pins name"
  shows "issue_at finder w pins name = None \<longleftrightarrow> (\<forall>n. map_of (nodes w) name = Some n \<longrightarrow>
     disabled n \<noteq> Some True \<longrightarrow>
     (\<exists>t. nodeTypes w (ntype n) (typeVersion n) = Some t \<and> finder (td_properties t) n pins = Inr None))"
proof (cases "map_of (nodes w) name")
  case (Some n)
  show ?thesis
  proof (cases "disabled n = Some True")
    case False
    obtain i where "\<forall>t. nodeTypes w (ntype n) (typeVersion n) = Some t \<longrightarrow> finder (td_properties t) n pins = Inr i"
      using assms Some False by (cases "nodeTypes w (ntype n) (typeVersion n)") (auto simp: answers_def)
    with Some False show ?thesis
      by (cases "nodeTypes w (ntype n) (typeVersion n)") (simp_all add: issue_at_def issues_of_node_def no_issues_def)
  qed (simp add: issue_at_def Some)
qed (simp add: issue_at_def)

lemma check_node_issue_at:
  assumes "map_of (nodes w) k \<noteq> None" "named (nodes w)" "answers finder w pins k"
  shows "check_node finder w pins k issues =
    Inr (case issue_at finder w pins k of None \<Rightarrow> issues | Some i \<Rightarrow> obj_put k i issues)"
proof -
  obtain n where n: "map_of (nodes w) k = Some n" using assms(1) by auto
  then have "nodeName n = k" using assms(2) namedD(2) by blast
  then show ?thesis using n issues_of_node_answers [OF assms(3) n]
    by (auto simp: check_node_def issue_at_def split: option.split)
qed

lemma issues_loop:
  assumes "\<forall>name \<in> set names. map_of (nodes w) name \<noteq> None \<and> answers finder w pins name" "named (nodes w)"
  shows "\<exists>issues'. foldR (check_node finder w pins) names issues = Inr issues' \<and>
    (\<forall>k. map_of issues' k = (if k \<in> set names \<and> issue_at finder w pins k \<noteq> None
       then issue_at finder w pins k else map_of issues k))"
  using assms(1)
proof (induction names arbitrary: issues)
  case Nil
  then show ?case by simp
next
  case (Cons name names)
  let ?next = "case issue_at finder w pins name of None \<Rightarrow> issues | Some i \<Rightarrow> obj_put name i issues"
  have "\<forall>name \<in> set names. map_of (nodes w) name \<noteq> None \<and> answers finder w pins name" using Cons.prems by simp
  from Cons.IH [OF this, of ?next] obtain issues' where
    "foldR (check_node finder w pins) names ?next = Inr issues'"
    "\<forall>k. map_of issues' k = (if k \<in> set names \<and> issue_at finder w pins k \<noteq> None
       then issue_at finder w pins k else map_of ?next k)" by blast
  moreover have "check_node finder w pins name issues = Inr ?next"
    using Cons.prems assms(2) by (simp add: check_node_issue_at)
  ultimately show ?case by (cases "issue_at finder w pins name") auto
qed

text \<open>When every node that has to be checked exists, \<open>checkReadyForExecution\<close> returns, and it
  returns \<open>null\<close> exactly when every enabled node among the destination and its parents (or the
  start node and its children) has a known type and no parameter issues.\<close>

theorem ready_iff_no_issues:
  assumes "wf_workflow w"
    and "\<forall>name \<in> set (nodes_to_check w start dest). map_of (nodes w) name \<noteq> None \<and> answers finder w pins name"
  shows "\<exists>r. checkReadyForExecution finder w start dest pins = Inr r \<and>
    (r = None \<longleftrightarrow> (\<forall>name \<in> set (nodes_to_check w start dest). \<forall>n. map_of (nodes w) name = Some n \<longrightarrow>
       disabled n \<noteq> Some True \<longrightarrow>
       (\<exists>t. nodeTypes w (ntype n) (typeVersion n) = Some t \<and> finder (td_properties t) n pins = Inr None)))"
proof -
  let ?names = "nodes_to_check w start dest"
  have "named (nodes w)" using assms(1) by (simp add: wf_workflow_def)
  from issues_loop [OF assms(2) this, of "[]"] obtain issues where
    loop: "foldR (check_node finder w pins) ?names [] = Inr issues" and
    issues: "\<forall>k. map_of issues k = (if k \<in> set ?names \<and> issue_at finder w pins k \<noteq> None
       then issue_at finder w pins k else map_of [] k)" by blast
  have run: "checkReadyForExecution finder w start dest pins = Inr (if issues = [] then None else Some issues)"
    by (simp add: checkReadyForExecution_def loop)
  have "issues = [] \<longleftrightarrow> (\<forall>k. map_of issues k = None)"
    by (metis map_of.simps(1) map_of_eq_empty_iff ext)
  also have "\<dots> \<longleftrightarrow> (\<forall>name \<in> set ?names. issue_at finder w pins name = None)"
    using issues by auto
  also have "\<dots> \<longleftrightarrow> (\<forall>name \<in> set ?names. \<forall>n. map_of (nodes w) name = Some n \<longrightarrow>
      disabled n \<noteq> Some True \<longrightarrow>
      (\<exists>t. nodeTypes w (ntype n) (typeVersion n) = Some t \<and> finder (td_properties t) n pins = Inr None))"
    using assms(2) by (metis (no_types, lifting) issue_at_None)
  finally show ?thesis using run by simp
qed

theorem ready_iff_no_issues_witness:
  "\<exists>w. new_Workflow (\<lambda>_ _. Inr None) sample_parameters = Inr w \<and>
     (\<exists>issues. checkReadyForExecution (\<lambda>_ _ _. Inr None) w None (Some ''A'') None = Inr (Some issues))"
proof -
  let ?w = "case new_Workflow (\<lambda>_ _. Inr None) sample_parameters of Inr w \<Rightarrow> w"
  have new: "new_Workflow (\<lambda>_ _. Inr None) sample_parameters = Inr ?w"
    by (simp add: new_Workflow_def add_nodes_def with_default_parameters_def sample_parameters_def)
  have "wf_connections (p_connections sample_parameters)"
    by (simp add: sample_parameters_def wf_connections_def wf_keys_def)
  then have wf: "wf_workflow ?w" using wf_new_Workflow new by blast
  have ns: "nodes ?w = [(''A'', plain_node 1 ''A'' ''x''), (''B'', plain_node 2 ''B'' ''x'')]"
    by (simp add: new_Workflow_def add_nodes_def with_default_parameters_def sample_parameters_def
        obj_put_def array_index_def is_digit_def digits_def plain_node_def)
  have "getConnectedNodes (getConnectionsByDestination (p_connections sample_parameters)) ''A''
      (OneType Main) (-1) [] = []" by code_simp
  moreover have "connectionsByDestinationNode ?w = getConnectionsByDestination (p_connections sample_parameters)"
    by (simp add: new_Workflow_def add_nodes_def with_default_parameters_def sample_parameters_def)
  ultimately have chk: "nodes_to_check ?w None (Some ''A'') = [''A'']"
    by (simp add: nodes_to_check_def nonempty_str_def getParentNodes_def)
  have types: "nodeTypes ?w = (\<lambda>_ _. None)"
    by (simp add: new_Workflow_def add_nodes_def with_default_parameters_def sample_parameters_def)
  have "\<forall>name \<in> set (nodes_to_check ?w None (Some ''A'')). map_of (nodes ?w) name \<noteq> None \<and>
      answers (\<lambda>_ _ _. Inr None) ?w None name"
    by (simp only: chk ns) (simp add: answers_def)
  then obtain r where
    r: "checkReadyForExecution (\<lambda>_ _ _. Inr None) ?w None (Some ''A'') None = Inr r" and
    none: "r = None \<longleftrightarrow> (\<forall>name \<in> set [''A'']. \<forall>n. map_of (nodes ?w) name = Some n \<longrightarrow>
       disabled n \<noteq> Some True \<longrightarrow> False)"
    using ready_iff_no_issues [OF wf, of None "Some ''A''" "\<lambda>_ _ _. Inr None" None]
    by (simp only: chk types option.distinct(1) simp_thms) blast
  have "map_of (nodes ?w) ''A'' = Some (plain_node 1 ''A'' ''x'')" by (simp only: ns) simp
  then have "r \<noteq> None" unfolding none by (simp add: plain_node_def)
  with r new show ?thesis by blast
qed

subsection \<open>The interface to the checks of parameters\<close>

text \<open>The node exists, and when it is enabled its type is known and its parameters are described in a way
  the checks are specified for.\<close>

definition described_at ::
  "(INodeProperties list \<Rightarrow> INode \<Rightarrow> bool) \<Rightarrow> Workflow \<Rightarrow> string \<Rightarrow> bool" where
  "described_at describes w name =
     (case map_of (nodes w) name of
        None \<Rightarrow> False
      | Some n \<Rightarrow> disabled n = Some True \<or>
          (case nodeTypes w (ntype n) (typeVersion n) of None \<Rightarrow> False | Some t \<Rightarrow> describes (td_properties t) n))"

text \<open>The node is enabled and its parameters lack something.\<close>

definition lacking_at ::
  "(INodeProperties list \<Rightarrow> INode \<Rightarrow> bool) \<Rightarrow> Workflow \<Rightarrow> string \<Rightarrow> bool" where
  "lacking_at lacks w name =
     (case map_of (nodes w) name of
        None \<Rightarrow> False
      | Some n \<Rightarrow> disabled n \<noteq> Some True \<and>
          (case nodeTypes w (ntype n) (typeVersion n) of None \<Rightarrow> False | Some t \<Rightarrow> lacks (td_properties t) n))"

text \<open>The contract of \<open>getNodeParametersIssues\<close>: for the parameters it is specified for it returns, and it returns
  \<open>null\<close> exactly when nothing is lacking.\<close>

locale parameter_checker =
  fixes finder :: issue_finder
    and describes :: "INodeProperties list \<Rightarrow> INode \<Rightarrow> bool"
    and lacks :: "INodeProperties list \<Rightarrow> INode \<Rightarrow> string list option \<Rightarrow> bool"
  assumes finds: "describes ps n \<Longrightarrow> \<exists>r. finder ps n pins = Inr r \<and> (r = None \<longleftrightarrow> \<not> lacks ps n pins)"
begin

lemma described_answers:
  assumes "described_at describes w name"
  shows "answers finder w pins name" and
    "(\<forall>n. map_of (nodes w) name = Some n \<longrightarrow> disabled n \<noteq> Some True \<longrightarrow>
       (\<exists>t. nodeTypes w (ntype n) (typeVersion n) = Some t \<and> finder (td_properties t) n pins = Inr None)) \<longleftrightarrow>
     \<not> lacking_at (\<lambda>ps n. lacks ps n pins) w name"
proof -
  obtain n where n: "map_of (nodes w) name = Some n"
    using assms by (auto simp: described_at_def split: option.splits)
  have "answers finder w pins name \<and> ((disabled n \<noteq> Some True \<longrightarrow>
       (\<exists>t. nodeTypes w (ntype n) (typeVersion n) = Some t \<and> finder (td_properties t) n pins = Inr None)) \<longleftrightarrow>
     \<not> lacking_at (\<lambda>ps n. lacks ps n pins) w name)"
  proof (cases "disabled n = Some True")
    case True
    then show ?thesis by (simp add: answers_def n lacking_at_def)
  next
    case False
    with assms n obtain t where t: "nodeTypes w (ntype n) (typeVersion n) = Some t" "describes (td_properties t) n"
      by (auto simp: described_at_def split: option.splits)
    from finds [OF t(2), of pins] show ?thesis
      using n t(1) False by (auto simp: answers_def lacking_at_def)
  qed
  with n show "answers finder w pins name" and
    "(\<forall>n. map_of (nodes w) name = Some n \<longrightarrow> disabled n \<noteq> Some True \<longrightarrow>
       (\<exists>t. nodeTypes w (ntype n) (typeVersion n) = Some t \<and> finder (td_properties t) n pins = Inr None)) \<longleftrightarrow>
     \<not> lacking_at (\<lambda>ps n. lacks ps n pins) w name"
    by simp_all
qed

lemma ready_iff:
  assumes "wf_workflow w" "list_all (described_at describes w) (nodes_to_check w start dest)"
  shows "\<exists>r. checkReadyForExecution finder w start dest pins = Inr r \<and>
    (r = None \<longleftrightarrow> \<not> list_ex (lacking_at (\<lambda>ps n. lacks ps n pins) w) (nodes_to_check w start dest))"
proof -
  let ?names = "nodes_to_check w start dest"
  have described: "described_at describes w name" if "name \<in> set ?names" for name
    using that assms(2) by (simp add: list_all_iff)
  then have "map_of (nodes w) name \<noteq> None \<and> answers finder w pins name" if "name \<in> set ?names" for name
    using that described_answers(1) by (fastforce simp: described_at_def split: option.splits)
  then obtain r where r: "checkReadyForExecution finder w start dest pins = Inr r"
    "r = None \<longleftrightarrow> (\<forall>name \<in> set ?names. \<forall>n. map_of (nodes w) name = Some n \<longrightarrow> disabled n \<noteq> Some True \<longrightarrow>
       (\<exists>t. nodeTypes w (ntype n) (typeVersion n) = Some t \<and> finder (td_properties t) n pins = Inr None))"
    using ready_iff_no_issues [OF assms(1), of start dest finder pins] by blast
  have "r = None \<longleftrightarrow> (\<forall>name \<in> set ?names. \<not> lacking_at (\<lambda>ps n. lacks ps n pins) w name)"
    unfolding r(2) by (rule ball_cong [OF refl]) (rule described_answers(2) [OF described])
  with r(1) show ?thesis by (auto simp: list_ex_iff)
qed

end

subsection \<open>Static data\<close>

text \<open>\<open>getStaticData\<close> always hands out one and the same entry for one context: once it has
  returned, asking again returns the same value and changes nothing; the entries of all other
  contexts are untouched; and two different contexts (global, or the nodes by name) never share
  an entry.\<close>

theorem getStaticData_stable:
  assumes "getStaticData w type node = Inr (v, w')"
  shows "getStaticData w' type node = Inr (v, w') \<and>
    (\<exists>key. static_key type node = Inr key \<and>
      (\<forall>k. k \<noteq> key \<longrightarrow> obj_read (staticData w') k = obj_read (staticData w) k) \<and>
      (\<forall>type' node'. static_key type' node' = Inr key \<longrightarrow>
        type' = type \<and> (type = ''node'' \<longrightarrow> map_option nodeName node' = map_option nodeName node)))"
proof -
  from assms obtain key where key: "static_key type node = Inr key"
    by (auto simp: getStaticData_def bindR_Inr_iff)
  with assms have "getStaticData w' type node = Inr (v, w')"
    and "k \<noteq> key \<longrightarrow> obj_read (staticData w') k = obj_read (staticData w) k" for k
    by (auto simp: getStaticData_def Let_def obj_read_def split: if_splits)
  moreover have "static_key type' node' = Inr key \<longrightarrow>
        type' = type \<and> (type = ''node'' \<longrightarrow> map_option nodeName node' = map_option nodeName node)"
    for type' node'
    using key by (cases node; cases node') (auto simp: static_key_def split: if_splits)
  ultimately show ?thesis using key by blast
qed

definition sample_workflow :: Workflow where
  "sample_workflow =
     \<lparr>wf_id = None, wf_name = None, nodes = [(''A'', plain_node 1 ''A'' ''x'')],
      connectionsBySourceNode = [], connectionsByDestinationNode = [], nodeTypes = (\<lambda>_ _. None),
      active = False, executionOrder = None, staticData = [], testStaticData = None,
      wf_pinData = None\<rparr>"

theorem getStaticData_stable_witness:
  "\<exists>w'. getStaticData sample_workflow ''global'' None = Inr (JObj [], w') \<and>
     getStaticData w' ''global'' None = Inr (JObj [], w')"
proof -
  have "getStaticData sample_workflow ''global'' None =
      Inr (JObj [], sample_workflow\<lparr>staticData := obj_put ''global'' (JObj []) []\<rparr>)"
    by (simp add: getStaticData_def static_key_def sample_workflow_def obj_read_def js_truthy_def)
  with getStaticData_stable [OF this] show ?thesis by blast
qed

end
