(* ===== verification/WorkflowStart.thy ===== *)
theory WorkflowStart
  imports WorkflowQueries
begin

text \<open>
  The searches of \<open>Workflow.ts\<close> that share one list of checked nodes between all recursive calls:
  \<open>getHighestNode\<close>, \<open>getNodeConnectionIndexes\<close>; the choice of the start node that rests on the
  first; and the walk from a sub-node to its main parent. A connection array is read slot by slot:
  a hole is a \<open>TypeError\<close> when the loop reaches it.
\<close>

section \<open>The connections of one node\<close>

text \<open>Each connection with its position in the list of its index; \<open>None\<close> is a hole.\<close>

definition index_slots :: "IConnection list option \<Rightarrow> (nat \<times> IConnection) option list" where
  "index_slots connectionsByIndex =
     (case connectionsByIndex of None \<Rightarrow> [None] | Some cs \<Rightarrow> map Some (enumerate 0 cs))"

definition conn_slots :: "NodeInputConnections \<Rightarrow> nat option \<Rightarrow> (nat \<times> IConnection) option list" where
  "conn_slots arr nodeConnectionIndex =
     concat (map (\<lambda>(connectionIndex, connectionsByIndex).
       if nodeConnectionIndex \<noteq> None \<and> nodeConnectionIndex \<noteq> Some connectionIndex then []
       else index_slots connectionsByIndex)
       (enumerate 0 arr))"

definition arr_of :: "IConnections \<Rightarrow> string \<Rightarrow> NodeConnectionType \<Rightarrow> NodeInputConnections option" where
  "arr_of ic n t = (case map_of ic n of None \<Rightarrow> None | Some byType \<Rightarrow> map_of byType t)"

lemma arr_of_keys: "arr_of ic n t = Some arr \<Longrightarrow> n \<in> fst ` set ic"
  by (force simp: arr_of_def split: option.splits dest: map_of_SomeD)

lemma arr_of_conn_list: "conn_list ic n t = (case arr_of ic n t of None \<Rightarrow> [] | Some arr \<Rightarrow> arr)"
  by (simp add: arr_of_def conn_list_def split: option.split)

text \<open>The names of the nodes a search meets at one node.\<close>

fun slot_targets :: "(nat \<times> IConnection) option list \<Rightarrow> string set" where
  "slot_targets [] = {}"
| "slot_targets (None # ss) = slot_targets ss"
| "slot_targets (Some (i, c) # ss) = insert (cnode c) (slot_targets ss)"

definition incoming_edges :: "Workflow \<Rightarrow> NodeConnectionType \<Rightarrow> (string \<times> string) set" where
  "incoming_edges w t =
     {(a, b). b \<in> neighbours (connectionsByDestinationNode w) (OneType t) a}"

lemma slot_targets_iff: "m \<in> slot_targets ss \<longleftrightarrow> (\<exists>i c. Some (i, c) \<in> set ss \<and> cnode c = m)"
  by (induction ss rule: slot_targets.induct) auto

lemma index_slots_iff:
  "Some (j, c) \<in> set (index_slots v) \<longleftrightarrow> (\<exists>cs. v = Some cs \<and> j < length cs \<and> cs ! j = c)"
  by (cases v) (auto simp: index_slots_def in_set_enumerate_eq)

lemma conn_slots_iff:
  "Some (j, c) \<in> set (conn_slots arr idx) \<longleftrightarrow>
     (\<exists>k. (idx = None \<or> idx = Some k) \<and> j < length (conns_at arr k) \<and> conns_at arr k ! j = c)"
    (is "?l \<longleftrightarrow> ?r")
proof
  assume ?l
  then obtain k v where k: "(k, v) \<in> set (enumerate 0 arr)" "idx = None \<or> idx = Some k"
    "Some (j, c) \<in> set (index_slots v)"
    by (auto simp: conn_slots_def split: if_splits)
  then have "conns_at arr k = (case v of None \<Rightarrow> [] | Some cs \<Rightarrow> cs)"
    by (auto simp: conns_at_def hole_get_def in_set_enumerate_eq)
  with k show ?r by (auto simp: index_slots_iff)
next
  assume ?r
  then obtain k where k: "idx = None \<or> idx = Some k" "j < length (conns_at arr k)" "conns_at arr k ! j = c"
    by blast
  then have "(k, arr ! k) \<in> set (enumerate 0 arr)" "arr ! k = Some (conns_at arr k)"
    by (cases "k < length arr"; cases "arr ! k"; simp add: conns_at_def hole_get_def in_set_enumerate_eq)+
  with k show ?l unfolding conn_slots_def by (force simp: index_slots_iff)
qed

lemma hole_conn_slots: "None \<notin> set arr \<Longrightarrow> None \<notin> set (conn_slots arr idx)"
proof -
  assume arr: "None \<notin> set arr"
  have "None \<notin> set (index_slots v)" if "(k, v) \<in> set (enumerate 0 arr)" for k v
  proof -
    have "v \<in> set arr" using that by (auto simp: in_set_enumerate_eq)
    with arr have "v \<noteq> None" by metis
    then show ?thesis by (cases v) (auto simp: index_slots_def)
  qed
  then show ?thesis by (auto simp: conn_slots_def split: if_splits)
qed

lemma slot_targets_conn_slots:
  "slot_targets (conn_slots arr idx) =
     (\<Union>k \<in> {k. idx = None \<or> idx = Some k}. cnode ` set (conns_at arr k))"
proof -
  have eq: "m \<in> slot_targets (conn_slots arr idx) \<longleftrightarrow>
      (\<exists>k c. (idx = None \<or> idx = Some k) \<and> c \<in> set (conns_at arr k) \<and> cnode c = m)" for m
    unfolding slot_targets_iff conn_slots_iff by (metis in_set_conv_nth)
  have "m \<in> slot_targets (conn_slots arr idx) \<longleftrightarrow>
      m \<in> (\<Union>k \<in> {k. idx = None \<or> idx = Some k}. cnode ` set (conns_at arr k))" for m
    unfolding eq by blast
  then show ?thesis by (rule set_eqI)
qed

lemma incoming_conn_slots:
  assumes "arr_of (connectionsByDestinationNode w) n t = Some arr"
  shows "incoming_edges w t `` {n} = slot_targets (conn_slots arr None)"
proof -
  have "conn_list (connectionsByDestinationNode w) n t = arr"
    using assms by (simp add: arr_of_conn_list)
  then show ?thesis
    by (auto simp: incoming_edges_def neighbours_def has_conn_def type_ok_def slot_targets_conn_slots)
qed

lemma incoming_none:
  "arr_of (connectionsByDestinationNode w) n t = None \<Longrightarrow> incoming_edges w t `` {n} = {}"
  by (auto simp: incoming_edges_def neighbours_def has_conn_def type_ok_def arr_of_conn_list conns_at_def)

definition pending :: "Workflow \<Rightarrow> string list \<Rightarrow> string set" where
  "pending w checked = fst ` set (connectionsByDestinationNode w) - set checked"

lemma pending_finite [simp]: "finite (pending w checked)"
  by (simp add: pending_def)

lemma pending_less:
  "arr_of (connectionsByDestinationNode w) n t = Some arr \<Longrightarrow> n \<notin> set checked \<Longrightarrow>
     set (checked @ [n]) \<subseteq> set checked' \<Longrightarrow> card (pending w checked') < card (pending w checked)"
  using arr_of_keys by (intro psubset_card_mono) (fastforce simp: pending_def)+

lemma pending_mono: "set checked \<subseteq> set checked' \<Longrightarrow> card (pending w checked') \<le> card (pending w checked)"
  by (rule card_mono) (auto simp: pending_def)

section \<open>The highest nodes\<close>

text \<open>
  \<open>enterNode\<close> is the part of \<open>getHighestNode\<close> before its loop: the answer, if it returns early, or
  the connections to loop over.
\<close>

definition enterNode ::
  "Workflow \<Rightarrow> NodeConnectionType \<Rightarrow> nat option \<Rightarrow> string \<Rightarrow> string list \<Rightarrow>
   (string list + (nat \<times> IConnection) option list) res" where
  "enterNode w type nodeConnectionIndex name checked =
     bindR (derefR (map_of (nodes w) name)) (\<lambda>node.
       let currentHighest = (if disabled node = Some False then [name] else []) in
       Inr (case arr_of (connectionsByDestinationNode w) name type of
              None \<Rightarrow> Inl currentHighest
            | Some arr \<Rightarrow>
                if name \<in> set checked then Inl currentHighest
                else Inr (conn_slots arr nodeConnectionIndex)))"

definition add_missing :: "string list \<Rightarrow> string list \<Rightarrow> string list" where
  "add_missing addNodes returnNodes =
     fold (\<lambda>name ret. if name \<in> set ret then ret else ret @ [name]) addNodes returnNodes"

definition or_self :: "Workflow \<Rightarrow> string \<Rightarrow> string list \<Rightarrow> string list res" where
  "or_self w name addNodes =
     (if addNodes = [] then
        bindR (derefR (map_of (nodes w) name)) (\<lambda>node.
          Inr (if disabled node \<noteq> Some True then [name] else []))
      else Inr addNodes)"

text \<open>The loop over the connections: the nodes found so far and the shared checked nodes.\<close>

function highestLoop ::
  "Workflow \<Rightarrow> NodeConnectionType \<Rightarrow> (nat \<times> IConnection) option list \<Rightarrow> string list \<Rightarrow> string list \<Rightarrow>
   (string list \<times> string list) res" where
  "highestLoop w type [] returnNodes checked = Inr (returnNodes, checked)"
| "highestLoop w type (None # slots) returnNodes checked = Inl TypeError"
| "highestLoop w type (Some (i, connection) # slots) returnNodes checked =
     (if cnode connection \<in> set checked then highestLoop w type slots returnNodes checked
      else bindR (enterNode w type None (cnode connection) checked) (\<lambda>entered.
        bindR (case entered of
                 Inl addNodes \<Rightarrow> Inr (addNodes, checked)
               | Inr slots' \<Rightarrow> highestLoop w type slots' [] (checked @ [cnode connection]))
          (\<lambda>(addNodes, checked').
             bindR (or_self w (cnode connection) addNodes) (\<lambda>addNodes.
               highestLoop w type slots (add_missing addNodes returnNodes) checked'))))"
  by pat_completeness auto

lemma enterNode_Inr:
  "enterNode w type idx name checked = Inr (Inr slots) \<longleftrightarrow>
     map_of (nodes w) name \<noteq> None \<and> name \<notin> set checked \<and>
     (\<exists>arr. arr_of (connectionsByDestinationNode w) name type = Some arr \<and> slots = conn_slots arr idx)"
  by (cases "map_of (nodes w) name"; cases "arr_of (connectionsByDestinationNode w) name type")
    (auto simp: enterNode_def Let_def)

lemma highestLoop_grows_dom:
  "highestLoop_dom (w, type, slots, ret, checked) \<Longrightarrow>
     highestLoop w type slots ret checked = Inr (ret', checked') \<Longrightarrow> set checked \<subseteq> set checked'"
proof (induction w type slots ret checked arbitrary: ret' checked' rule: highestLoop.pinduct)
  case (1 w type ret checked)
  then show ?case by (simp add: highestLoop.psimps)
next
  case (2 w type slots ret checked)
  then show ?case by (simp add: highestLoop.psimps)
next
  case (3 w type i c slots ret checked)
  show ?case
  proof (cases "cnode c \<in> set checked")
    case True
    with 3 show ?thesis by (simp add: highestLoop.psimps)
  next
    case False
    with "3.prems" "3.hyps" obtain entered add ch add' where
      e: "enterNode w type None (cnode c) checked = Inr entered" and
      r: "(case entered of Inl addNodes \<Rightarrow> Inr (addNodes, checked)
           | Inr slots' \<Rightarrow> highestLoop w type slots' [] (checked @ [cnode c])) = Inr (add, ch)" and
      l: "highestLoop w type slots (add_missing add' ret) ch = Inr (ret', checked')" and
      o: "or_self w (cnode c) add = Inr add'"
      by (auto simp: highestLoop.psimps bindR_Inr_iff)
    have "set checked \<subseteq> set ch"
    proof (cases entered)
      case (Inl a)
      with r show ?thesis by simp
    next
      case (Inr s)
      with r "3.IH"(2) [OF False e Inr] show ?thesis by auto
    qed
    moreover have "set ch \<subseteq> set checked'"
      using "3.IH"(3) [OF False e r refl o l] by simp
    ultimately show ?thesis by blast
  qed
qed

termination highestLoop
proof (relation "measures [\<lambda>(w, t, s, r, ch). card (pending w ch), \<lambda>(w, t, s, r, ch). length s]", goal_cases)
  case 1
  then show ?case by simp
next
  case (2 w type i c slots ret checked)
  then show ?case by simp
next
  case (3 w type i c slots ret checked entered slots')
  then show ?case by (auto simp: enterNode_Inr pending_less)
next
  case (4 w type i c slots ret checked entered r add checked' add')
  have "set checked \<subseteq> set checked'"
  proof (cases entered)
    case (Inl a)
    with 4 show ?thesis by auto
  next
    case (Inr s)
    with 4 highestLoop_grows_dom [of w type s "[]" "checked @ [cnode c]" add checked']
    show ?thesis by auto
  qed
  then have "card (pending w checked') \<le> card (pending w checked)" by (rule pending_mono)
  with 4 show ?case by auto
qed

definition getHighestNode ::
  "Workflow \<Rightarrow> string \<Rightarrow> NodeConnectionType \<Rightarrow> nat option \<Rightarrow> string list res" where
  "getHighestNode w name type nodeConnectionIndex =
     bindR (enterNode w type nodeConnectionIndex name []) (\<lambda>entered.
       case entered of
         Inl currentHighest \<Rightarrow> Inr currentHighest
       | Inr slots \<Rightarrow>
           bindR (highestLoop w type slots [] [name]) (\<lambda>(returnNodes, _). Inr returnNodes))"

subsection \<open>What the loop finds\<close>

definition disabled_at :: "Workflow \<Rightarrow> string \<Rightarrow> bool" where
  "disabled_at w m = (\<exists>n. map_of (nodes w) m = Some n \<and> disabled n = Some True)"

definition enabled_at :: "Workflow \<Rightarrow> string \<Rightarrow> bool" where
  "enabled_at w m = (\<exists>n. map_of (nodes w) m = Some n \<and> disabled n \<noteq> Some True)"

lemma set_add_missing [simp]: "set (add_missing as ret) = set as \<union> set ret"
  by (induction as arbitrary: ret) (auto simp: add_missing_def)

lemma highestLoop_grows:
  "highestLoop w type slots ret checked = Inr (ret', checked') \<Longrightarrow> set checked \<subseteq> set checked'"
proof (induction w type slots ret checked arbitrary: ret' checked' rule: highestLoop.induct)
  case (1 w type ret checked)
  then show ?case by simp
next
  case (2 w type slots ret checked)
  then show ?case by simp
next
  case (3 w type i c slots ret checked)
  then show ?case
    by (cases "cnode c \<in> set checked") (fastforce simp: bindR_Inr_iff split: sum.splits)+
qed

lemma highestLoop_found:
  assumes "highestLoop w type slots ret checked = Inr (ret', checked')"
  shows "set ret \<subseteq> set ret' \<and>
    (\<forall>m \<in> set ret' - set ret. enabled_at w m \<and> m \<notin> set checked \<and>
      m \<in> (incoming_edges w type)\<^sup>* `` slot_targets slots)"
  using assms
proof (induction w type slots ret checked arbitrary: ret' checked' rule: highestLoop.induct)
  case (1 w type ret checked)
  then show ?case by simp
next
  case (2 w type slots ret checked)
  then show ?case by simp
next
  case (3 w type i c slots ret checked)
  let ?E = "incoming_edges w type"
  show ?case
  proof (cases "cnode c \<in> set checked")
    case True
    with 3 show ?thesis by auto
  next
    case False
    with "3.prems" obtain entered add ch add' where
      e: "enterNode w type None (cnode c) checked = Inr entered" and
      r: "(case entered of Inl addNodes \<Rightarrow> Inr (addNodes, checked)
           | Inr slots' \<Rightarrow> highestLoop w type slots' [] (checked @ [cnode c])) = Inr (add, ch)" and
      l: "highestLoop w type slots (add_missing add' ret) ch = Inr (ret', checked')" and
      o: "or_self w (cnode c) add = Inr add'"
      by (auto simp: bindR_Inr_iff)
    have add: "enabled_at w m \<and> m \<notin> set checked \<and> m \<in> ?E\<^sup>* `` {cnode c}" if m: "m \<in> set add" for m
    proof (cases entered)
      case (Inl a)
      with e r m False show ?thesis
        by (cases "map_of (nodes w) (cnode c)")
          (auto simp: enterNode_def Let_def enabled_at_def split: option.splits if_splits)
    next
      case (Inr s)
      then obtain arr where "arr_of (connectionsByDestinationNode w) (cnode c) type = Some arr"
        "s = conn_slots arr None" using e by (auto simp: enterNode_Inr)
      then have "slot_targets s = ?E `` {cnode c}" by (simp add: incoming_conn_slots)
      with "3.IH"(2) [OF False e Inr] r Inr m
      have "enabled_at w m \<and> m \<notin> set checked \<and> m \<in> ?E\<^sup>* `` (?E `` {cnode c})" by auto
      then show ?thesis by (auto intro: converse_rtrancl_into_rtrancl)
    qed
    have "enabled_at w m \<and> m \<notin> set checked \<and> m \<in> ?E\<^sup>* `` {cnode c}" if m: "m \<in> set add'" for m
      using add o m False by (cases "map_of (nodes w) (cnode c)")
        (auto simp: or_self_def enabled_at_def split: if_splits)
    moreover note "3.IH"(3) [OF False e r refl o l]
    moreover have "set checked \<subseteq> set ch"
      using r highestLoop_grows [of w type _ "[]" "checked @ [cnode c]"] by (auto split: sum.splits)
    moreover have "?E\<^sup>* `` slot_targets (Some (i, c) # slots) = ?E\<^sup>* `` {cnode c} \<union> ?E\<^sup>* `` slot_targets slots"
      by auto
    ultimately show ?thesis by auto
  qed
qed

text \<open>
  What the loop has seen: the targets of its slots and the parents of every node it entered. All
  of them are entered or have no parents; if the answer is empty all of them are disabled.
\<close>

lemma highestLoop_covers:
  assumes "highestLoop w type slots ret checked = Inr (ret', checked')"
  shows "(\<forall>m \<in> slot_targets slots \<union> incoming_edges w type `` (set checked' - set checked).
      (m \<in> set checked' \<or> incoming_edges w type `` {m} = {}) \<and>
      (ret' = [] \<longrightarrow> m \<in> set checked \<or> disabled_at w m)) \<and>
    (ret' = [] \<longrightarrow> (\<forall>m \<in> set checked' - set checked. disabled_at w m))"
  using assms
proof (induction w type slots ret checked arbitrary: ret' checked' rule: highestLoop.induct)
  case (1 w type ret checked)
  then show ?case by simp
next
  case (2 w type slots ret checked)
  then show ?case by simp
next
  case (3 w type i c slots ret checked)
  let ?E = "incoming_edges w type"
  show ?case
  proof (cases "cnode c \<in> set checked")
    case True
    with "3.prems" have rest: "highestLoop w type slots ret checked = Inr (ret', checked')" by simp
    from "3.IH"(1) [OF True rest] highestLoop_grows [OF rest] True show ?thesis by auto
  next
    case False
    with "3.prems" obtain entered add ch add' where
      e: "enterNode w type None (cnode c) checked = Inr entered" and
      r: "(case entered of Inl addNodes \<Rightarrow> Inr (addNodes, checked)
           | Inr slots' \<Rightarrow> highestLoop w type slots' [] (checked @ [cnode c])) = Inr (add, ch)" and
      l: "highestLoop w type slots (add_missing add' ret) ch = Inr (ret', checked')" and
      o: "or_self w (cnode c) add = Inr add'"
      by (auto simp: bindR_Inr_iff)
    have empty: "ret' = [] \<Longrightarrow> add = [] \<and> disabled_at w (cnode c)"
      using highestLoop_found [OF l] o
      by (cases "map_of (nodes w) (cnode c)")
        (auto simp: or_self_def disabled_at_def split: if_splits)
    have inner: "(\<forall>m \<in> insert (cnode c) (?E `` (set ch - set checked)).
        (m \<in> set ch \<or> ?E `` {m} = {}) \<and>
        (add = [] \<and> disabled_at w (cnode c) \<longrightarrow> m \<in> set checked \<or> disabled_at w m)) \<and>
        (add = [] \<and> disabled_at w (cnode c) \<longrightarrow> (\<forall>m \<in> set ch - set checked. disabled_at w m)) \<and>
        set checked \<subseteq> set ch"
    proof (cases entered)
      case (Inl a)
      with e False have "?E `` {cnode c} = {}"
        by (auto simp: enterNode_def Let_def bindR_Inr_iff incoming_none split: option.splits)
      with r Inl show ?thesis by auto
    next
      case (Inr s)
      then obtain arr where "arr_of (connectionsByDestinationNode w) (cnode c) type = Some arr"
        "s = conn_slots arr None" using e by (auto simp: enterNode_Inr)
      then have s: "slot_targets s = ?E `` {cnode c}" by (simp add: incoming_conn_slots)
      have run': "highestLoop w type s [] (checked @ [cnode c]) = Inr (add, ch)" using r Inr by simp
      from "3.IH"(2) [OF False e Inr run'] highestLoop_grows [OF run']
      show ?thesis unfolding s by auto
    qed
    note outer = "3.IH"(3) [OF False e r refl o l]
    have grow: "set ch \<subseteq> set checked'" by (rule highestLoop_grows [OF l])
    have seen: "ret' = [] \<longrightarrow> (\<forall>m \<in> set checked' - set checked. disabled_at w m)"
      using outer inner empty by blast
    have "(m \<in> set checked' \<or> ?E `` {m} = {}) \<and> (ret' = [] \<longrightarrow> m \<in> set checked \<or> disabled_at w m)"
      if m: "m \<in> slot_targets (Some (i, c) # slots) \<union> ?E `` (set checked' - set checked)" for m
    proof (cases "m \<in> insert (cnode c) (?E `` (set ch - set checked))")
      case True
      with inner have "m \<in> set ch \<or> ?E `` {m} = {}"
        "add = [] \<and> disabled_at w (cnode c) \<longrightarrow> m \<in> set checked \<or> disabled_at w m" by blast+
      with grow empty show ?thesis by blast
    next
      case False
      with m have "m \<in> slot_targets slots \<union> ?E `` (set checked' - set ch)" by auto
      with outer have "m \<in> set checked' \<or> ?E `` {m} = {}" "ret' = [] \<longrightarrow> m \<in> set ch \<or> disabled_at w m"
        by blast+
      moreover have "m \<in> set ch \<Longrightarrow> m \<in> set checked \<or> m \<in> set checked' - set checked" using grow by blast
      ultimately show ?thesis using seen by blast
    qed
    with seen show ?thesis by blast
  qed
qed

lemma highestLoop_total:
  assumes "None \<notin> set slots" "\<forall>m \<in> slot_targets slots. map_of (nodes w) m \<noteq> None"
    and "\<forall>n. None \<notin> set (conn_list (connectionsByDestinationNode w) n type)"
    and "\<forall>(a, b) \<in> incoming_edges w type. map_of (nodes w) b \<noteq> None"
  shows "\<exists>r. highestLoop w type slots ret checked = Inr r"
  using assms
proof (induction w type slots ret checked rule: highestLoop.induct)
  case (1 w type ret checked)
  then show ?case by simp
next
  case (2 w type slots ret checked)
  then show ?case by simp
next
  case (3 w type i c slots ret checked)
  show ?case
  proof (cases "cnode c \<in> set checked")
    case True
    with 3 show ?thesis by simp
  next
    case False
    obtain n where n: "map_of (nodes w) (cnode c) = Some n" using "3.prems"(2) by auto
    then obtain entered where e: "enterNode w type None (cnode c) checked = Inr entered"
      by (simp add: enterNode_def Let_def)
    obtain add ch where r: "(case entered of Inl addNodes \<Rightarrow> Inr (addNodes, checked)
           | Inr slots' \<Rightarrow> highestLoop w type slots' [] (checked @ [cnode c])) = Inr (add, ch)"
    proof (cases entered)
      case (Inl a)
      then show ?thesis using that by simp
    next
      case (Inr s)
      then obtain arr where arr: "arr_of (connectionsByDestinationNode w) (cnode c) type = Some arr"
        "s = conn_slots arr None" using e by (auto simp: enterNode_Inr)
      then have "None \<notin> set s" using "3.prems"(3) [rule_format, of "cnode c"]
        by (simp add: arr_of_conn_list hole_conn_slots)
      moreover have "slot_targets s = incoming_edges w type `` {cnode c}"
        using arr by (simp add: incoming_conn_slots)
      then have "\<forall>m \<in> slot_targets s. map_of (nodes w) m \<noteq> None" using "3.prems"(4) by blast
      ultimately have "\<exists>r. highestLoop w type s [] (checked @ [cnode c]) = Inr r"
        using "3.IH"(2) [OF False e Inr] "3.prems"(3,4) by blast
      then show ?thesis using that Inr by auto
    qed
    obtain add' where o: "or_self w (cnode c) add = Inr add'"
      using n that by (cases "add = []") (simp_all add: or_self_def)
    have "\<exists>r. highestLoop w type slots (add_missing add' ret) ch = Inr r"
      using "3.IH"(3) [OF False e r refl o] "3.prems" by simp
    then show ?thesis using False e r o by auto
  qed
qed

text \<open>The nodes that lead to \<open>name\<close> over connections of one type.\<close>

definition ancestors :: "Workflow \<Rightarrow> NodeConnectionType \<Rightarrow> string \<Rightarrow> string set" where
  "ancestors w t name = (incoming_edges w t)\<^sup>+ `` {name}"

definition parents_exist :: "Workflow \<Rightarrow> NodeConnectionType \<Rightarrow> bool" where
  "parents_exist w t = (\<forall>(a, b) \<in> incoming_edges w t. map_of (nodes w) b \<noteq> None)"

lemma wf_workflow_dense:
  "wf_workflow w \<Longrightarrow> None \<notin> set (conn_list (connectionsByDestinationNode w) n t)"
proof -
  assume "wf_workflow w"
  then have "connectionsByDestinationNode w = getConnectionsByDestination (connectionsBySourceNode w)"
    by (simp add: wf_workflow_def)
  moreover have "None \<notin> set (conn_list (fold add_by_destination es []) n t)" for es
    by (rule None_conn_list_fold_add) (simp add: conn_list_def)
  ultimately show ?thesis by (metis getConnectionsByDestination_def)
qed

text \<open>The index by destination node has an array only where something leads.\<close>

lemma arr_of_add:
  "arr_of (add_by_destination (s, t, i, info) ret) n ty \<noteq> None \<Longrightarrow>
     n = cnode info \<and> ty = ctype info \<or> arr_of ret n ty \<noteq> None"
  by (auto simp: add_by_destination_def arr_of_def Let_def split: option.splits if_splits)

lemma arr_of_fold_add:
  "(\<And>n t. arr_of ret n t \<noteq> None \<Longrightarrow> \<exists>k c. has_conn ret n t k c) \<Longrightarrow>
     arr_of (fold add_by_destination es ret) n t \<noteq> None \<Longrightarrow> \<exists>k c. has_conn (fold add_by_destination es ret) n t k c"
proof (induction es arbitrary: ret)
  case Nil
  then show ?case by simp
next
  case (Cons e es)
  obtain s t' i info where e: "e = (s, t', i, info)" by (cases e)
  have "\<exists>k c. has_conn (add_by_destination e ret) n t k c" if "arr_of (add_by_destination e ret) n t \<noteq> None" for n t
    using arr_of_add [OF that [unfolded e]] Cons.prems(1) [of n t] unfolding e has_conn_add by blast
  with Cons.IH [of "add_by_destination e ret"] Cons.prems(2) show ?case by simp
qed

lemma incoming_some:
  assumes "wf_workflow w" "arr_of (connectionsByDestinationNode w) n t = Some arr"
  shows "incoming_edges w t `` {n} \<noteq> {}"
proof -
  have "connectionsByDestinationNode w = fold add_by_destination (conn_entries (connectionsBySourceNode w)) []"
    using assms(1) by (simp add: wf_workflow_def getConnectionsByDestination_def)
  with arr_of_fold_add [of "[]" "conn_entries (connectionsBySourceNode w)" n t] assms(2) obtain k c
    where "has_conn (connectionsByDestinationNode w) n t k c" by (auto simp: arr_of_def)
  then show ?thesis by (auto simp: incoming_edges_def neighbours_def type_ok_def)
qed

lemma getHighestNode_spec:
  assumes wf: "wf_workflow w" "parents_exist w t" and n: "map_of (nodes w) name = Some n"
  shows "\<exists>r. getHighestNode w name t None = Inr r \<and>
    (\<forall>m \<in> set r. enabled_at w m \<and> (m \<in> ancestors w t name \<or> m = name)) \<and>
    (ancestors w t name \<noteq> {} \<longrightarrow> name \<notin> set r \<and>
      (r = [] \<longleftrightarrow> (\<forall>m \<in> ancestors w t name - {name}. disabled_at w m))) \<and>
    (ancestors w t name = {} \<longrightarrow> r = (if disabled n = Some False then [name] else []))"
proof (cases "arr_of (connectionsByDestinationNode w) name t")
  case None
  then have "incoming_edges w t `` {name} = {}" by (rule incoming_none)
  then have "ancestors w t name = {}" by (auto simp: ancestors_def elim: converse_tranclE)
  then show ?thesis using None n by (auto simp: getHighestNode_def enterNode_def Let_def enabled_at_def)
next
  case (Some arr)
  let ?E = "incoming_edges w t"
  let ?slots = "conn_slots arr None"
  have slots: "slot_targets ?slots = ?E `` {name}" using Some by (simp add: incoming_conn_slots)
  have "None \<notin> set ?slots"
    using wf_workflow_dense [OF wf(1), of name t] Some by (simp add: arr_of_conn_list hole_conn_slots)
  moreover have "\<forall>m \<in> slot_targets ?slots. map_of (nodes w) m \<noteq> None"
    using wf(2) slots unfolding parents_exist_def by blast
  ultimately obtain r ch where run: "highestLoop w t ?slots [] [name] = Inr (r, ch)"
    using highestLoop_total [of ?slots w t "[]" "[name]"] wf_workflow_dense [OF wf(1)] wf(2)
    unfolding parents_exist_def by auto
  have run': "getHighestNode w name t None = Inr r"
    using n Some run by (simp add: getHighestNode_def enterNode_def Let_def)
  have found: "enabled_at w m \<and> m \<noteq> name \<and> m \<in> ancestors w t name" if "m \<in> set r" for m
    using highestLoop_found [OF run] that unfolding slots ancestors_def
    by (auto intro: rtrancl_into_trancl2)
  moreover have "m = name \<or> disabled_at w m" if empty: "r = []" and m: "(name, m) \<in> ?E\<^sup>+" for m
  proof -
    note covers = highestLoop_covers [OF run, unfolded slots]
    have "(m \<in> set ch \<or> ?E `` {m} = {}) \<and> (m = name \<or> disabled_at w m)"
      using m
    proof (induction rule: trancl_induct)
      case (base y)
      with covers empty show ?case by auto
    next
      case (step y z)
      then have "y \<in> set ch" by blast
      then have "z \<in> ?E `` {name} \<union> ?E `` (set ch - set [name])" using step(2) by auto
      with covers empty show ?case by auto
    qed
    then show ?thesis by blast
  qed
  ultimately have "(r = [] \<longrightarrow> (\<forall>m \<in> ancestors w t name - {name}. disabled_at w m))"
    unfolding ancestors_def by blast
  moreover have "r = []" if d: "\<forall>m \<in> ancestors w t name - {name}. disabled_at w m"
  proof (rule ccontr)
    assume "r \<noteq> []"
    then have "hd r \<in> set r" by simp
    with found have e: "enabled_at w (hd r)" and "hd r \<in> ancestors w t name - {name}" by auto
    with d have "disabled_at w (hd r)" by blast
    with e show False by (auto simp: enabled_at_def disabled_at_def)
  qed
  moreover have "ancestors w t name \<noteq> {}"
    using incoming_some [OF wf(1) Some] by (auto simp: ancestors_def)
  ultimately show ?thesis using run' found by blast
qed

section \<open>The start node\<close>

definition MANUAL_CHAT_TRIGGER_LANGCHAIN_NODE_TYPE :: string where
  "MANUAL_CHAT_TRIGGER_LANGCHAIN_NODE_TYPE = ''@n8n/n8n-nodes-langchain.manualChatTrigger''"

definition STARTING_NODE_TYPES :: "string list" where
  "STARTING_NODE_TYPES =
     [''n8n-nodes-base.manualTrigger'', ''n8n-nodes-base.executeWorkflowTrigger'',
      ''n8n-nodes-base.errorTrigger'', ''n8n-nodes-base.start'']"

text \<open>\<open>Array.indexOf\<close>\<close>

fun index_from :: "int \<Rightarrow> 'a \<Rightarrow> 'a list \<Rightarrow> int" where
  "index_from i x [] = -1"
| "index_from i x (y # ys) = (if x = y then i else index_from (i + 1) x ys)"

definition indexOf :: "'a list \<Rightarrow> 'a \<Rightarrow> int" where
  "indexOf xs x = index_from 0 x xs"

text \<open>
  The first loop of \<open>__getStartNode\<close>: \<open>Some\<close> is its \<open>return\<close>. \<open>nodeNames.length === 1\<close> is the
  argument \<open>single\<close>.
\<close>

fun first_trigger :: "Workflow \<Rightarrow> bool \<Rightarrow> string list \<Rightarrow> INode option res" where
  "first_trigger w single [] = Inr None"
| "first_trigger w single (name # names) =
     bindR (derefR (map_of (nodes w) name)) (\<lambda>node.
       if single \<and> \<not> truthy (disabled node) then Inr (Some node)
       else bindR (derefR (nodeTypes w (ntype node) (typeVersion node))) (\<lambda>nodeType.
         if td_name nodeType = MANUAL_CHAT_TRIGGER_LANGCHAIN_NODE_TYPE then first_trigger w single names
         else if has_trigger nodeType \<or> has_poll nodeType then
           (if disabled node = Some True then first_trigger w single names else Inr (Some node))
         else first_trigger w single names))"

text \<open>The second loop: the enabled starting node whose type comes first in the list of types.\<close>

fun first_starting :: "Workflow \<Rightarrow> string list \<Rightarrow> INode option res" where
  "first_starting w [] = Inr None"
| "first_starting w (name # names) =
     bindR (derefR (map_of (nodes w) name)) (\<lambda>node.
       if ntype node \<in> set STARTING_NODE_TYPES then
         (if disabled node = Some True then first_starting w names else Inr (Some node))
       else first_starting w names)"

definition sortedNodeNames :: "Workflow \<Rightarrow> string list" where
  "sortedNodeNames w =
     map nodeName (sort_key (\<lambda>n. indexOf STARTING_NODE_TYPES (ntype n)) (map_values (nodes w)))"

definition startNodeAmong :: "Workflow \<Rightarrow> string list \<Rightarrow> INode option res" where
  "startNodeAmong w nodeNames =
     bindR (first_trigger w (length nodeNames = 1) nodeNames) (\<lambda>found.
       case found of
         Some node \<Rightarrow> Inr (Some node)
       | None \<Rightarrow> first_starting w (sortedNodeNames w))"

definition getStartNode :: "Workflow \<Rightarrow> string option \<Rightarrow> INode option res" where
  "getStartNode w destinationNode =
     (case nonempty_str destinationNode of
        Some destination \<Rightarrow>
          bindR (getHighestNode w destination Main None) (\<lambda>highest.
            let nodeNames = (if highest = [] then [destination] else highest) in
            bindR (startNodeAmong w nodeNames) (\<lambda>node.
              case node of
                Some n \<Rightarrow> Inr (Some n)
              | None \<Rightarrow> Inr (map_of (nodes w) (hd nodeNames))))
      | None \<Rightarrow> startNodeAmong w (map_keys (nodes w)))"

lemma first_trigger_enabled:
  "first_trigger w single names = Inr (Some n) \<Longrightarrow>
     disabled n \<noteq> Some True \<and> (\<exists>name \<in> set names. map_of (nodes w) name = Some n)"
proof (induction names)
  case Nil
  then show ?case by simp
next
  case (Cons name names)
  then obtain node where node: "map_of (nodes w) name = Some node"
    by (auto simp: bindR_Inr_iff)
  show ?case
  proof (cases "single \<and> \<not> truthy (disabled node)")
    case True
    with Cons.prems node show ?thesis by auto
  next
    case False
    with Cons.prems node obtain t where "nodeTypes w (ntype node) (typeVersion node) = Some t"
      by (auto simp: bindR_Inr_iff)
    with Cons False node show ?thesis by (auto split: if_splits)
  qed
qed

lemma first_starting_enabled:
  "first_starting w names = Inr (Some n) \<Longrightarrow>
     disabled n \<noteq> Some True \<and> ntype n \<in> set STARTING_NODE_TYPES \<and>
     (\<exists>name \<in> set names. map_of (nodes w) name = Some n)"
proof (induction names)
  case Nil
  then show ?case by simp
next
  case (Cons name names)
  then obtain node where "map_of (nodes w) name = Some node"
    by (auto simp: bindR_Inr_iff)
  with Cons show ?case by (auto split: if_splits)
qed

lemma startNodeAmong_enabled:
  "startNodeAmong w names = Inr (Some n) \<Longrightarrow>
     disabled n \<noteq> Some True \<and> (\<exists>name. map_of (nodes w) name = Some n)"
  using first_trigger_enabled first_starting_enabled
  by (fastforce simp: startNodeAmong_def bindR_Inr_iff split: option.splits)

text \<open>The two loops fail only on a name without a node or a node of an unknown type.\<close>

lemma first_trigger_total:
  "\<forall>name \<in> set names. \<exists>n. map_of (nodes w) name = Some n \<and> nodeTypes w (ntype n) (typeVersion n) \<noteq> None \<Longrightarrow>
     \<exists>r. first_trigger w single names = Inr r"
proof (induction names)
  case Nil
  then show ?case by simp
next
  case (Cons name names)
  then obtain n t where "map_of (nodes w) name = Some n" "nodeTypes w (ntype n) (typeVersion n) = Some t"
    by auto
  with Cons show ?case by auto
qed

lemma first_starting_total:
  "\<forall>name \<in> set names. map_of (nodes w) name \<noteq> None \<Longrightarrow> \<exists>r. first_starting w names = Inr r"
  by (induction names) auto

section \<open>How a node is connected to a parent\<close>

text \<open>
  \<open>indexSlots\<close> is the part of \<open>getNodeConnectionIndexes\<close> before its loop: \<open>None\<close> when it returns
  early, otherwise the connections to loop over.
\<close>

definition indexSlots ::
  "Workflow \<Rightarrow> NodeConnectionType \<Rightarrow> int \<Rightarrow> string \<Rightarrow> string list \<Rightarrow> (nat \<times> IConnection) option list option" where
  "indexSlots w type depth name checked =
     (if depth = 0 then None
      else case arr_of (connectionsByDestinationNode w) name type of
        None \<Rightarrow> None
      | Some arr \<Rightarrow> if name \<in> set checked then None else Some (conn_slots arr None))"

text \<open>The loop; \<open>depth\<close> is the depth limit for the nodes one step further.\<close>

function indexLoop ::
  "Workflow \<Rightarrow> string \<Rightarrow> NodeConnectionType \<Rightarrow> int \<Rightarrow> (nat \<times> IConnection) option list \<Rightarrow> string list \<Rightarrow>
   (INodeConnection option \<times> string list) res" where
  "indexLoop w parent type depth [] checked = Inr (None, checked)"
| "indexLoop w parent type depth (None # slots) checked = Inl TypeError"
| "indexLoop w parent type depth (Some (destIndex, connection) # slots) checked =
     (if parent = cnode connection then
        Inr (Some \<lparr>sourceIndex = cindex connection, destinationIndex = destIndex\<rparr>, checked)
      else if cnode connection \<in> set checked then indexLoop w parent type depth slots checked
      else bindR (case indexSlots w type depth (cnode connection) checked of
                    None \<Rightarrow> Inr (None, checked)
                  | Some slots' \<Rightarrow>
                      indexLoop w parent type (next_depth depth) slots' (checked @ [cnode connection]))
        (\<lambda>(outputIndex, checked').
           case outputIndex of
             Some oi \<Rightarrow> Inr (Some oi, checked')
           | None \<Rightarrow> indexLoop w parent type depth slots checked'))"
  by pat_completeness auto

lemma indexSlots_Some:
  "indexSlots w type depth name checked = Some slots \<longleftrightarrow>
     depth \<noteq> 0 \<and> name \<notin> set checked \<and>
     (\<exists>arr. arr_of (connectionsByDestinationNode w) name type = Some arr \<and> slots = conn_slots arr None)"
  by (cases "arr_of (connectionsByDestinationNode w) name type") (auto simp: indexSlots_def)

lemma indexLoop_grows_dom:
  "indexLoop_dom (w, parent, type, depth, slots, checked) \<Longrightarrow>
     indexLoop w parent type depth slots checked = Inr (r, checked') \<Longrightarrow> set checked \<subseteq> set checked'"
proof (induction w parent type depth slots checked arbitrary: r checked' rule: indexLoop.pinduct)
  case (1 w parent type depth checked)
  then show ?case by (simp add: indexLoop.psimps)
next
  case (2 w parent type depth slots checked)
  then show ?case by (simp add: indexLoop.psimps)
next
  case (3 w parent type depth i c slots checked)
  show ?case
  proof (cases "parent = cnode c \<or> cnode c \<in> set checked")
    case True
    with 3 show ?thesis by (auto simp: indexLoop.psimps split: if_splits)
  next
    case False
    then have ne: "parent \<noteq> cnode c" "cnode c \<notin> set checked" by auto
    with "3.prems" "3.hyps" obtain oi ch where
      r: "(case indexSlots w type depth (cnode c) checked of
             None \<Rightarrow> Inr (None, checked)
           | Some slots' \<Rightarrow> indexLoop w parent type (next_depth depth) slots' (checked @ [cnode c])) = Inr (oi, ch)" and
      l: "(case oi of Some oi \<Rightarrow> Inr (Some oi, ch) | None \<Rightarrow> indexLoop w parent type depth slots ch) = Inr (r, checked')"
      by (auto simp: indexLoop.psimps bindR_Inr_iff)
    have "set checked \<subseteq> set ch"
    proof (cases "indexSlots w type depth (cnode c) checked")
      case None
      with r show ?thesis by simp
    next
      case (Some s)
      with r "3.IH"(2) [OF ne Some] show ?thesis by auto
    qed
    moreover have "set ch \<subseteq> set checked'"
    proof (cases oi)
      case None
      with l "3.IH"(3) [OF ne r refl None] show ?thesis by simp
    next
      case (Some x)
      with l show ?thesis by simp
    qed
    ultimately show ?thesis by blast
  qed
qed

termination indexLoop
proof (relation "measures [\<lambda>(w, p, t, d, s, ch). card (pending w ch), \<lambda>(w, p, t, d, s, ch). length s]",
    goal_cases)
  case 1
  then show ?case by simp
next
  case (2 w parent type depth i c slots checked)
  then show ?case by simp
next
  case (3 w parent type depth i c slots checked slots')
  then show ?case by (auto simp: indexSlots_Some pending_less)
next
  case (4 w parent type depth i c slots checked r oi checked')
  have "set checked \<subseteq> set checked'"
  proof (cases "indexSlots w type depth (cnode c) checked")
    case None
    with 4 show ?thesis by auto
  next
    case (Some s)
    with 4 indexLoop_grows_dom [of w parent type "next_depth depth" s "checked @ [cnode c]" oi checked']
    show ?thesis by auto
  qed
  then have "card (pending w checked') \<le> card (pending w checked)" by (rule pending_mono)
  with 4 show ?case by auto
qed

definition getNodeConnectionIndexes ::
  "Workflow \<Rightarrow> string \<Rightarrow> string \<Rightarrow> NodeConnectionType \<Rightarrow> int \<Rightarrow> INodeConnection option res" where
  "getNodeConnectionIndexes w name parent type depth =
     (case getNode w parent of
        None \<Rightarrow> Inr None
      | Some node \<Rightarrow>
          (case indexSlots w type depth name [] of
             None \<Rightarrow> Inr None
           | Some slots \<Rightarrow>
               bindR (indexLoop w parent type (next_depth depth) slots [name])
                 (\<lambda>(outputIndex, _). Inr outputIndex)))"

lemma indexLoop_grows:
  "indexLoop w parent type depth slots checked = Inr (r, checked') \<Longrightarrow> set checked \<subseteq> set checked'"
proof (induction w parent type depth slots checked arbitrary: r checked' rule: indexLoop.induct)
  case (1 w parent type depth checked)
  then show ?case by simp
next
  case (2 w parent type depth slots checked)
  then show ?case by simp
next
  case (3 w parent type depth i c slots checked)
  show ?case
  proof (cases "parent = cnode c \<or> cnode c \<in> set checked")
    case True
    with 3 show ?thesis by (auto split: if_splits)
  next
    case False
    then have ne: "parent \<noteq> cnode c" "cnode c \<notin> set checked" by auto
    with "3.prems" obtain oi ch where
      r: "(case indexSlots w type depth (cnode c) checked of
             None \<Rightarrow> Inr (None, checked)
           | Some slots' \<Rightarrow> indexLoop w parent type (next_depth depth) slots' (checked @ [cnode c])) = Inr (oi, ch)" and
      l: "(case oi of Some oi \<Rightarrow> Inr (Some oi, ch) | None \<Rightarrow> indexLoop w parent type depth slots ch) = Inr (r, checked')"
      by (auto simp: bindR_Inr_iff)
    have "set checked \<subseteq> set ch"
    proof (cases "indexSlots w type depth (cnode c) checked")
      case None
      with r show ?thesis by simp
    next
      case (Some s)
      with r "3.IH"(2) [OF ne Some] show ?thesis by auto
    qed
    moreover have "set ch \<subseteq> set checked'"
    proof (cases oi)
      case None
      with l "3.IH"(3) [OF ne r refl None] show ?thesis by simp
    next
      case (Some x)
      with l show ?thesis by simp
    qed
    ultimately show ?thesis by blast
  qed
qed

text \<open>\<open>leads_out w type parent x m\<close>: \<open>x\<close> is where a connection from \<open>parent\<close> enters node \<open>m\<close>.\<close>

definition leads_out :: "Workflow \<Rightarrow> NodeConnectionType \<Rightarrow> string \<Rightarrow> INodeConnection \<Rightarrow> string \<Rightarrow> bool" where
  "leads_out w type parent x m \<longleftrightarrow>
     (\<exists>arr c. arr_of (connectionsByDestinationNode w) m type = Some arr \<and>
        Some (destinationIndex x, c) \<in> set (conn_slots arr None) \<and>
        cnode c = parent \<and> cindex c = sourceIndex x)"

lemma indexLoop_found:
  assumes "indexLoop w parent type depth slots checked = Inr (Some x, checked')"
  shows "(\<exists>c. Some (destinationIndex x, c) \<in> set slots \<and> cnode c = parent \<and> cindex c = sourceIndex x) \<or>
    (\<exists>m \<in> (incoming_edges w type)\<^sup>* `` slot_targets slots. leads_out w type parent x m)"
  using assms
proof (induction w parent type depth slots checked arbitrary: checked' rule: indexLoop.induct)
  case (1 w parent type depth checked)
  then show ?case by simp
next
  case (2 w parent type depth slots checked)
  then show ?case by simp
next
  case (3 w parent type depth i c slots checked)
  let ?E = "incoming_edges w type"
  have mono: "?E\<^sup>* `` slot_targets slots \<subseteq> ?E\<^sup>* `` slot_targets (Some (i, c) # slots)"
    "?E\<^sup>* `` {cnode c} \<subseteq> ?E\<^sup>* `` slot_targets (Some (i, c) # slots)" by auto
  consider "parent = cnode c" | "parent \<noteq> cnode c" "cnode c \<in> set checked"
    | "parent \<noteq> cnode c" "cnode c \<notin> set checked" by blast
  then show ?case
  proof cases
    case 1
    with "3.prems" have "x = \<lparr>sourceIndex = cindex c, destinationIndex = i\<rparr>" by auto
    with 1 show ?thesis by auto
  next
    case 2
    with "3.prems" "3.IH"(1) [OF 2] mono show ?thesis by auto
  next
    case new: 3
    with "3.prems" obtain oi ch where
      r: "(case indexSlots w type depth (cnode c) checked of
             None \<Rightarrow> Inr (None, checked)
           | Some slots' \<Rightarrow> indexLoop w parent type (next_depth depth) slots' (checked @ [cnode c])) = Inr (oi, ch)" and
      l: "(case oi of Some oi \<Rightarrow> Inr (Some oi, ch) | None \<Rightarrow> indexLoop w parent type depth slots ch) = Inr (Some x, checked')"
      by (auto simp: bindR_Inr_iff)
    show ?thesis
    proof (cases oi)
      case None
      with l "3.IH"(3) [OF new r refl None] mono show ?thesis by auto
    next
      case (Some y)
      with l have y: "oi = Some x" by simp
      with r obtain s where s: "indexSlots w type depth (cnode c) checked = Some s"
        by (cases "indexSlots w type depth (cnode c) checked") auto
      then obtain arr where arr: "arr_of (connectionsByDestinationNode w) (cnode c) type = Some arr"
        "s = conn_slots arr None" by (auto simp: indexSlots_Some)
      have st: "slot_targets s = ?E `` {cnode c}" using arr by (simp add: incoming_conn_slots)
      from "3.IH"(2) [OF new s] r s y
      have "(\<exists>c'. Some (destinationIndex x, c') \<in> set s \<and> cnode c' = parent \<and> cindex c' = sourceIndex x) \<or>
        (\<exists>m \<in> ?E\<^sup>* `` slot_targets s. leads_out w type parent x m)" by auto
      then have "\<exists>m \<in> ?E\<^sup>* `` {cnode c}. leads_out w type parent x m"
      proof
        assume "\<exists>c'. Some (destinationIndex x, c') \<in> set s \<and> cnode c' = parent \<and> cindex c' = sourceIndex x"
        then have "leads_out w type parent x (cnode c)" using arr unfolding leads_out_def by blast
        then show ?thesis by blast
      next
        assume "\<exists>m \<in> ?E\<^sup>* `` slot_targets s. leads_out w type parent x m"
        then show ?thesis unfolding st by (blast intro: converse_rtrancl_into_rtrancl)
      qed
      with mono show ?thesis by blast
    qed
  qed
qed

text \<open>Without a depth limit a search that finds nothing has met everything there is to meet.\<close>

lemma indexLoop_missed:
  assumes "indexLoop w parent type depth slots checked = Inr (None, checked')" "depth = -1"
  shows "\<forall>m \<in> slot_targets slots \<union> incoming_edges w type `` (set checked' - set checked).
    m \<noteq> parent \<and> (m \<in> set checked' \<or> incoming_edges w type `` {m} = {})"
  using assms
proof (induction w parent type depth slots checked arbitrary: checked' rule: indexLoop.induct)
  case (1 w parent type depth checked)
  then show ?case by simp
next
  case (2 w parent type depth slots checked)
  then show ?case by simp
next
  case (3 w parent type depth i c slots checked)
  let ?E = "incoming_edges w type"
  have ne: "parent \<noteq> cnode c" using "3.prems"(1) by (auto split: if_splits)
  show ?case
  proof (cases "cnode c \<in> set checked")
    case True
    with "3.prems" ne have "indexLoop w parent type depth slots checked = Inr (None, checked')" by simp
    with "3.IH"(1) [OF ne True] "3.prems"(2) True ne indexLoop_grows show ?thesis by fastforce
  next
    case False
    with "3.prems"(1) ne obtain oi ch where
      r: "(case indexSlots w type depth (cnode c) checked of
             None \<Rightarrow> Inr (None, checked)
           | Some slots' \<Rightarrow> indexLoop w parent type (next_depth depth) slots' (checked @ [cnode c])) = Inr (oi, ch)" and
      l: "(case oi of Some oi \<Rightarrow> Inr (Some oi, ch) | None \<Rightarrow> indexLoop w parent type depth slots ch) = Inr (None, checked')"
      by (auto simp: bindR_Inr_iff)
    from l have oi: "oi = None" and rest: "indexLoop w parent type depth slots ch = Inr (None, checked')"
      by (cases oi; simp)+
    note outer = "3.IH"(3) [OF ne False r refl oi rest "3.prems"(2)]
    have grow: "set ch \<subseteq> set checked'" by (rule indexLoop_grows [OF rest])
    have inner: "\<forall>m \<in> insert (cnode c) (?E `` (set ch - set checked)).
        m \<noteq> parent \<and> (m \<in> set ch \<or> ?E `` {m} = {})"
    proof (cases "indexSlots w type depth (cnode c) checked")
      case None
      with False "3.prems"(2) have "arr_of (connectionsByDestinationNode w) (cnode c) type = None"
        by (auto simp: indexSlots_def split: option.splits)
      then have "?E `` {cnode c} = {}" by (rule incoming_none)
      with r None ne show ?thesis by auto
    next
      case (Some s)
      then obtain arr where "arr_of (connectionsByDestinationNode w) (cnode c) type = Some arr"
        "s = conn_slots arr None" by (auto simp: indexSlots_Some)
      then have s: "slot_targets s = ?E `` {cnode c}" by (simp add: incoming_conn_slots)
      have run': "indexLoop w parent type (next_depth depth) s (checked @ [cnode c]) = Inr (None, ch)"
        using r Some oi by simp
      have "next_depth depth = -1" using "3.prems"(2) by (simp add: next_depth_def)
      from "3.IH"(2) [OF ne False Some run' this] indexLoop_grows [OF run'] ne
      show ?thesis unfolding s by auto
    qed
    show ?thesis
    proof
      fix m
      assume m: "m \<in> slot_targets (Some (i, c) # slots) \<union> ?E `` (set checked' - set checked)"
      show "m \<noteq> parent \<and> (m \<in> set checked' \<or> ?E `` {m} = {})"
      proof (cases "m \<in> insert (cnode c) (?E `` (set ch - set checked))")
        case True
        with inner grow show ?thesis by blast
      next
        case False
        with m have "m \<in> slot_targets slots \<union> ?E `` (set checked' - set ch)" by auto
        with outer show ?thesis by blast
      qed
    qed
  qed
qed

lemma indexLoop_total:
  assumes "None \<notin> set slots" "\<forall>n. None \<notin> set (conn_list (connectionsByDestinationNode w) n type)"
  shows "\<exists>r. indexLoop w parent type depth slots checked = Inr r"
  using assms
proof (induction w parent type depth slots checked rule: indexLoop.induct)
  case (1 w parent type depth checked)
  then show ?case by simp
next
  case (2 w parent type depth slots checked)
  then show ?case by simp
next
  case (3 w parent type depth i c slots checked)
  consider "parent = cnode c" | "parent \<noteq> cnode c" "cnode c \<in> set checked"
    | "parent \<noteq> cnode c" "cnode c \<notin> set checked" by blast
  then show ?case
  proof cases
    case 3
    obtain oi ch where
      r: "(case indexSlots w type depth (cnode c) checked of
             None \<Rightarrow> Inr (None, checked)
           | Some slots' \<Rightarrow> indexLoop w parent type (next_depth depth) slots' (checked @ [cnode c])) = Inr (oi, ch)"
    proof (cases "indexSlots w type depth (cnode c) checked")
      case None
      then show ?thesis using that by simp
    next
      case (Some s)
      then obtain arr where "arr_of (connectionsByDestinationNode w) (cnode c) type = Some arr"
        "s = conn_slots arr None" by (auto simp: indexSlots_Some)
      then have "None \<notin> set s" using "3.prems"(2) [rule_format, of "cnode c"]
        by (simp add: arr_of_conn_list hole_conn_slots)
      with "3.IH"(2) [OF 3 Some] "3.prems"(2) Some that show ?thesis by fastforce
    qed
    with 3 "3.IH"(3) [OF 3 r refl] "3.prems" show ?thesis by (cases oi) auto
  qed (use 3 in auto)
qed

lemma reaches_of_star: "p \<in> (incoming_edges w t)\<^sup>* `` (incoming_edges w t `` {n}) \<longleftrightarrow> p \<in> ancestors w t n"
  by (auto simp: ancestors_def intro: rtrancl_into_trancl2 dest: tranclD)

lemma leads_out_parent: "leads_out w t p x m \<Longrightarrow> (m, p) \<in> incoming_edges w t"
  using incoming_conn_slots by (fastforce simp: leads_out_def slot_targets_iff)

lemma getNodeConnectionIndexes_spec:
  assumes wf: "wf_workflow w" and p: "map_of (nodes w) parent \<noteq> None"
  shows "\<exists>r. getNodeConnectionIndexes w name parent t (-1) = Inr r \<and>
    (r \<noteq> None \<longleftrightarrow> parent \<in> ancestors w t name) \<and>
    (\<forall>x. r = Some x \<longrightarrow> (\<exists>m. (m = name \<or> m \<in> ancestors w t name) \<and> leads_out w t parent x m))"
proof (cases "arr_of (connectionsByDestinationNode w) name t")
  case None
  then have "incoming_edges w t `` {name} = {}" by (rule incoming_none)
  then have "ancestors w t name = {}" by (auto simp: ancestors_def elim: converse_tranclE)
  then show ?thesis using None p by (auto simp: getNodeConnectionIndexes_def indexSlots_def)
next
  case (Some arr)
  let ?E = "incoming_edges w t"
  let ?slots = "conn_slots arr None"
  have slots: "slot_targets ?slots = ?E `` {name}" using Some by (simp add: incoming_conn_slots)
  have "None \<notin> set ?slots"
    using wf_workflow_dense [OF wf(1), of name t] Some by (simp add: arr_of_conn_list hole_conn_slots)
  then obtain r ch where run: "indexLoop w parent t (-1) ?slots [name] = Inr (r, ch)"
    using indexLoop_total [of ?slots w t parent "-1" "[name]"] wf_workflow_dense [OF wf] by auto
  have res: "getNodeConnectionIndexes w name parent t (-1) = Inr r"
    using p Some run by (auto simp: getNodeConnectionIndexes_def indexSlots_def next_depth_def)
  show ?thesis
  proof (cases r)
    case None
    have "m \<noteq> parent \<and> (m \<in> set ch \<or> ?E `` {m} = {})" if m: "(name, m) \<in> ?E\<^sup>+" for m
    proof -
      note missed = indexLoop_missed [OF run [unfolded None] refl, unfolded slots]
      show ?thesis using m
      proof (induction rule: trancl_induct)
        case (base y)
        with missed show ?case by auto
      next
        case (step y z)
        then have "y \<in> set ch" by blast
        then have "z \<in> ?E `` {name} \<union> ?E `` (set ch - set [name])" using step(2) by auto
        with missed show ?case by auto
      qed
    qed
    then have "parent \<notin> ancestors w t name" by (auto simp: ancestors_def)
    with res None show ?thesis by simp
  next
    case (Some x)
    have "(\<exists>c. Some (destinationIndex x, c) \<in> set ?slots \<and> cnode c = parent \<and> cindex c = sourceIndex x) \<or>
      (\<exists>m \<in> ancestors w t name. leads_out w t parent x m)"
      using indexLoop_found [OF run [unfolded Some]] unfolding slots using reaches_of_star by blast
    then obtain m where m: "m = name \<or> m \<in> ancestors w t name" "leads_out w t parent x m"
      using \<open>arr_of (connectionsByDestinationNode w) name t = Some arr\<close> unfolding leads_out_def by blast
    then have "parent \<in> ancestors w t name"
      using leads_out_parent [OF m(2)] by (auto simp: ancestors_def)
    with res Some m show ?thesis by auto
  qed
qed

section \<open>The main parent of a sub-node\<close>

text \<open>
  \<open>NodeHelpers.getNodeOutputs\<close> for outputs given as an array; an output is its connection type.
\<close>

definition getNodeOutputs :: "INode \<Rightarrow> INodeType \<Rightarrow> NodeConnectionType list" where
  "getNodeOutputs node nodeTypeData =
     (if onError node = Some ContinueErrorOutput then td_outputs nodeTypeData @ [Main]
      else td_outputs nodeTypeData)"

text \<open>The node the walk goes on to, if it does not end at \<open>node\<close>.\<close>

definition nextMainInput :: "Workflow \<Rightarrow> INode \<Rightarrow> INode option res" where
  "nextMainInput w node =
     bindR (derefR (nodeTypes w (ntype node) (typeVersion node))) (\<lambda>nodeType.
       let outputs = getNodeOutputs node nodeType in
       if list_ex (\<lambda>output. output \<noteq> Main) outputs then
         let nonMainNodesConnected =
           concat (map (\<lambda>output. getChildNodes w (nodeName node) (OneType output) (-1)) outputs) in
         (case nonMainNodesConnected of
            [] \<Rightarrow> Inr None
          | first # _ \<Rightarrow>
              (case getNode w first of
                 None \<Rightarrow> Inl (ApplicationError (''Node \"'' @ first @ ''\" not found''))
               | Some returnNode \<Rightarrow> Inr (Some returnNode)))
       else Inr None)"

text \<open>The recursion follows the connections; nothing stops it on a cycle: \<open>None\<close> is no return.\<close>

partial_function (option) getParentMainInputNode :: "Workflow \<Rightarrow> INode \<Rightarrow> INode res option" where
  "getParentMainInputNode w node =
     (case nextMainInput w node of
        Inl e \<Rightarrow> Some (Inl e)
      | Inr None \<Rightarrow> Some (Inr node)
      | Inr (Some returnNode) \<Rightarrow> getParentMainInputNode w returnNode)"

definition main_input_step :: "Workflow \<Rightarrow> (INode \<times> INode) set" where
  "main_input_step w = {(m, n). nextMainInput w n = Inr (Some m)}"

lemma getParentMainInputNode_returns:
  assumes "wf (main_input_step w)"
  shows "\<exists>r. getParentMainInputNode w node = Some r \<and>
    (\<forall>m. r = Inr m \<longrightarrow> nextMainInput w m = Inr None \<and> (m, node) \<in> (main_input_step w)\<^sup>*)"
  using assms
proof (induction node rule: wf_induct_rule)
  case (less node)
  note unf = getParentMainInputNode.simps [of w node]
  show ?case
  proof (cases "nextMainInput w node")
    case (Inl e)
    then show ?thesis by (simp add: unf)
  next
    case (Inr nx)
    show ?thesis
    proof (cases nx)
      case None
      then show ?thesis using Inr by (auto simp: unf)
    next
      case (Some m)
      with Inr have "(m, node) \<in> main_input_step w" by (simp add: main_input_step_def)
      with less.IH [OF this] Inr Some show ?thesis
        by (auto simp: unf intro: rtrancl.rtrancl_into_rtrancl)
    qed
  qed
qed

section \<open>Properties\<close>

definition sample_type :: "bool \<Rightarrow> NodeConnectionType list \<Rightarrow> INodeType" where
  "sample_type is_trigger outputs =
     \<lparr>td_name = ''sample'', td_group = [], td_properties = [], td_inputs = [Main],
      td_outputs = outputs, td_requiredInputs = NoRequirement, has_execute = True, has_poll = False,
      has_trigger = is_trigger, has_webhook = False\<rparr>"

definition main_to :: "string \<Rightarrow> IConnection" where
  "main_to d = \<lparr>cnode = d, ctype = Main, cindex = 0\<rparr>"

definition diamond_connections :: IConnections where
  "diamond_connections =
     [(''T'', [(Main, [Some [main_to ''M'']])]),
      (''M'', [(Main, [Some [main_to ''A'', main_to ''B'']])]),
      (''A'', [(Main, [Some [main_to ''D'']])]),
      (''B'', [(Main, [Some [main_to ''D'']])])]"

definition diamond :: Workflow where
  "diamond =
     \<lparr>wf_id = None, wf_name = None,
      nodes = [(''T'', plain_node 1 ''T'' ''trigger''), (''M'', plain_node 2 ''M'' ''set''),
               (''A'', plain_node 3 ''A'' ''set''), (''B'', plain_node 4 ''B'' ''set''),
               (''D'', plain_node 5 ''D'' ''set'')],
      connectionsBySourceNode = diamond_connections,
      connectionsByDestinationNode = getConnectionsByDestination diamond_connections,
      nodeTypes = (\<lambda>ty _. Some (sample_type (ty = ''trigger'') [Main])), active = False,
      executionOrder = None, staticData = [], testStaticData = None, wf_pinData = None\<rparr>"

lemma diamond_by_destination:
  "connectionsByDestinationNode diamond =
     [(''M'', [(Main, [Some [main_to ''T'']])]), (''A'', [(Main, [Some [main_to ''M'']])]),
      (''B'', [(Main, [Some [main_to ''M'']])]), (''D'', [(Main, [Some [main_to ''A'', main_to ''B'']])])]"
proof -
  have "getConnectionsByDestination diamond_connections =
     [(''M'', [(Main, [Some [main_to ''T'']])]), (''A'', [(Main, [Some [main_to ''M'']])]),
      (''B'', [(Main, [Some [main_to ''M'']])]), (''D'', [(Main, [Some [main_to ''A'', main_to ''B'']])])]"
    by code_simp
  then show ?thesis by (simp add: diamond_def)
qed

lemma diamond_nodes:
  "nodes diamond =
     [(''T'', plain_node 1 ''T'' ''trigger''), (''M'', plain_node 2 ''M'' ''set''),
      (''A'', plain_node 3 ''A'' ''set''), (''B'', plain_node 4 ''B'' ''set''),
      (''D'', plain_node 5 ''D'' ''set'')]"
  by (simp add: diamond_def)

lemma wf_diamond: "wf_workflow diamond"
  by (auto simp: wf_workflow_def named_def diamond_def diamond_connections_def wf_keys_def
      wf_connections_def plain_node_def split: if_splits)

lemma diamond_edges: "incoming_edges diamond Main =
    {(''M'', ''T''), (''A'', ''M''), (''B'', ''M''), (''D'', ''A''), (''D'', ''B'')}"
proof -
  have "(a, b) \<in> incoming_edges diamond Main \<longleftrightarrow>
      (case arr_of (connectionsByDestinationNode diamond) a Main of None \<Rightarrow> False
       | Some arr \<Rightarrow> b \<in> slot_targets (conn_slots arr None))" for a b
    using incoming_none [of diamond a Main] incoming_conn_slots [of diamond a Main]
    by (cases "arr_of (connectionsByDestinationNode diamond) a Main") auto
  then show ?thesis
    by (auto simp: diamond_by_destination arr_of_def conn_slots_def index_slots_def main_to_def
        split: if_splits)
qed

lemma diamond_parents: "parents_exist diamond Main"
  by (simp add: parents_exist_def diamond_edges diamond_nodes)

text \<open>C30: on a well-formed workflow in which connections of a type come from existing nodes only,
  \<open>getHighestNode\<close> returns for every node of it, whatever the graph, also a cyclic one. It names only enabled
  nodes, each of them the node itself or one that leads to it. When connections of the type lead to the node,
  the answer leaves the node itself out and is empty exactly when everything else that leads to it is
  disabled; when none does, the answer is the node itself if its \<open>disabled\<close> is \<open>false\<close>, and empty if it is
  \<open>true\<close> or not set.\<close>

theorem getHighestNode_enabled_ancestors:
  assumes "wf_workflow w" "parents_exist w t" "map_of (nodes w) name = Some n"
  shows "\<exists>r. getHighestNode w name t None = Inr r \<and>
    (\<forall>m \<in> set r. enabled_at w m \<and> (m \<in> ancestors w t name \<or> m = name)) \<and>
    (ancestors w t name \<noteq> {} \<longrightarrow> name \<notin> set r \<and>
      (r = [] \<longleftrightarrow> (\<forall>m \<in> ancestors w t name - {name}. disabled_at w m))) \<and>
    (ancestors w t name = {} \<longrightarrow> r = (if disabled n = Some False then [name] else []))"
  using assms by (rule getHighestNode_spec)

theorem getHighestNode_enabled_ancestors_witness:
  "\<exists>r. getHighestNode diamond ''D'' Main None = Inr r \<and> r \<noteq> [] \<and> ''D'' \<notin> set r"
proof -
  have "map_of (nodes diamond) ''D'' = Some (plain_node 5 ''D'' ''set'')" by (simp add: diamond_nodes)
  from getHighestNode_enabled_ancestors [OF wf_diamond diamond_parents this] obtain r where
    r: "getHighestNode diamond ''D'' Main None = Inr r"
    "ancestors diamond Main ''D'' \<noteq> {} \<longrightarrow> ''D'' \<notin> set r \<and>
      (r = [] \<longleftrightarrow> (\<forall>m \<in> ancestors diamond Main ''D'' - {''D''}. disabled_at diamond m))" by (elim exE conjE)
  have "''A'' \<in> ancestors diamond Main ''D'' - {''D''}" by (auto simp: ancestors_def diamond_edges)
  moreover have "\<not> disabled_at diamond ''A''" by (simp add: disabled_at_def diamond_nodes plain_node_def)
  ultimately have "''D'' \<notin> set r" "r \<noteq> []" using r(2) by blast+
  with r(1) show ?thesis by blast
qed

text \<open>The nodes are not always the highest ones. When two branches start at the same node, the
  branch that is looked at second finds that node already checked, takes it for a dead end and
  reports its own first node: in the diamond T to M, M to A and B, A and B to D, the node B is
  returned although T and M lead to it.\<close>

theorem getHighestNode_reports_inner_node:
  "getHighestNode diamond ''D'' Main None = Inr [''T'', ''B''] \<and>
   ''T'' \<in> ancestors diamond Main ''B''"
proof
  show "getHighestNode diamond ''D'' Main None = Inr [''T'', ''B'']"
    by (simp add: getHighestNode_def enterNode_def diamond_by_destination diamond_nodes arr_of_def
        conn_slots_def index_slots_def main_to_def or_self_def add_missing_def plain_node_def)
  show "''T'' \<in> ancestors diamond Main ''B''"
  proof -
    have "(''B'', ''M'') \<in> incoming_edges diamond Main" "(''M'', ''T'') \<in> incoming_edges diamond Main"
      by (simp_all add: diamond_edges)
    then show ?thesis unfolding ancestors_def by (blast intro: trancl.intros)
  qed
qed

lemma startNodeAmong_total:
  assumes "\<forall>name \<in> set names. map_of (nodes w) name \<noteq> None" "wf_workflow w"
    and "\<forall>name n. map_of (nodes w) name = Some n \<longrightarrow> nodeTypes w (ntype n) (typeVersion n) \<noteq> None"
  shows "\<exists>r. startNodeAmong w names = Inr r"
proof -
  have "\<forall>name \<in> set names. \<exists>n. map_of (nodes w) name = Some n \<and> nodeTypes w (ntype n) (typeVersion n) \<noteq> None"
    using assms(1,3) by fastforce
  from first_trigger_total [OF this] obtain r where r: "first_trigger w (length names = 1) names = Inr r"
    by blast
  have "map_of (nodes w) (nodeName n) \<noteq> None" if "n \<in> set (map_values (nodes w))" for n
  proof -
    have "wf_keys (nodes w)" using assms(2) by (simp add: wf_workflow_def namedD)
    then obtain k where "map_of (nodes w) k = Some n"
      using \<open>n \<in> set (map_values (nodes w))\<close> by (auto simp: map_values_def wf_keys_def)
    then show ?thesis using wf_workflow_name [OF assms(2)] by auto
  qed
  then have "\<forall>name \<in> set (sortedNodeNames w). map_of (nodes w) name \<noteq> None"
    by (auto simp: sortedNodeNames_def)
  with first_starting_total [OF this] r show ?thesis
    by (cases r) (simp_all add: startNodeAmong_def)
qed

text \<open>When the types of all nodes are known and the destination or a node that leads to it is
  enabled, \<open>getStartNode\<close> returns an enabled node of the workflow.\<close>

theorem getStartNode_enabled:
  assumes wf: "wf_workflow w" "parents_exist w Main"
    and known: "\<forall>name n. map_of (nodes w) name = Some n \<longrightarrow> nodeTypes w (ntype n) (typeVersion n) \<noteq> None"
    and dest: "destination \<noteq> []" "map_of (nodes w) destination \<noteq> None"
    and enabled: "\<exists>m \<in> insert destination (ancestors w Main destination). \<not> disabled_at w m"
  shows "\<exists>n. getStartNode w (Some destination) = Inr (Some n) \<and> disabled n \<noteq> Some True \<and>
    map_of (nodes w) (nodeName n) = Some n"
proof -
  obtain dn where dn: "map_of (nodes w) destination = Some dn" using dest by blast
  from getHighestNode_spec [OF wf dn] obtain r where spec:
    "getHighestNode w destination Main None = Inr r"
    "\<forall>m \<in> set r. enabled_at w m \<and> (m \<in> ancestors w Main destination \<or> m = destination)"
    "ancestors w Main destination \<noteq> {} \<longrightarrow> destination \<notin> set r \<and>
      (r = [] \<longleftrightarrow> (\<forall>m \<in> ancestors w Main destination - {destination}. disabled_at w m))"
    by (elim exE conjE)
  then have r: "getHighestNode w destination Main None = Inr r" "\<forall>m \<in> set r. enabled_at w m"
    and empty: "ancestors w Main destination \<noteq> {} \<Longrightarrow> r = [] \<Longrightarrow>
      \<forall>m \<in> ancestors w Main destination - {destination}. disabled_at w m" by simp_all
  define names where "names = (if r = [] then [destination] else r)"
  have "\<forall>name \<in> set names. map_of (nodes w) name \<noteq> None"
    using r(2) dn by (auto simp: names_def enabled_at_def)
  from startNodeAmong_total [OF this wf(1) known] obtain s where s: "startNodeAmong w names = Inr s"
    by blast
  have "nonempty_str (Some destination) = Some destination" using dest(1) by (simp add: nonempty_str_def)
  then have "getStartNode w (Some destination) = bindR (startNodeAmong w names) (\<lambda>node.
      case node of Some n \<Rightarrow> Inr (Some n) | None \<Rightarrow> Inr (map_of (nodes w) (hd names)))"
    by (simp only: getStartNode_def option.case r(1) bindR_simps Let_def names_def)
  then have go: "getStartNode w (Some destination) =
      Inr (case s of Some n \<Rightarrow> Some n | None \<Rightarrow> map_of (nodes w) (hd names))"
    by (cases s) (simp_all only: s bindR_simps option.case)
  have self: "map_of (nodes w) (nodeName n) = Some n" if "map_of (nodes w) k = Some n" for k n
    using that wf_workflow_name [OF wf(1)] by metis
  show ?thesis
  proof (cases s)
    case (Some n)
    with s startNodeAmong_enabled obtain k where "disabled n \<noteq> Some True" "map_of (nodes w) k = Some n"
      by blast
    then show ?thesis using go Some self by auto
  next
    case None
    have "enabled_at w (hd names)"
    proof (cases "r = []")
      case True
      then have "\<forall>m \<in> ancestors w Main destination - {destination}. disabled_at w m"
        using empty by (cases "ancestors w Main destination = {}") simp_all
      then have "\<not> disabled_at w destination" using enabled by blast
      then show ?thesis using True dn by (auto simp: names_def enabled_at_def disabled_at_def)
    next
      case False
      then show ?thesis using r(2) by (simp add: names_def)
    qed
    then obtain n where "map_of (nodes w) (hd names) = Some n" "disabled n \<noteq> Some True"
      by (auto simp: enabled_at_def)
    then show ?thesis using go None self by auto
  qed
qed

theorem getStartNode_enabled_witness:
  "\<exists>n. getStartNode diamond (Some ''D'') = Inr (Some n) \<and> disabled n \<noteq> Some True"
proof -
  have "\<forall>name n. map_of (nodes diamond) name = Some n \<longrightarrow>
      nodeTypes diamond (ntype n) (typeVersion n) \<noteq> None" by (simp add: diamond_def)
  moreover have "map_of (nodes diamond) ''D'' \<noteq> None" by (simp add: diamond_nodes)
  moreover have "\<not> disabled_at diamond ''D''" by (simp add: disabled_at_def diamond_nodes plain_node_def)
  ultimately show ?thesis
    using getStartNode_enabled [OF wf_diamond diamond_parents, of "''D''"] by blast
qed

text \<open>\<open>getNodeConnectionIndexes\<close> without a depth limit always returns; it finds a connection
  exactly when the parent leads to the node over connections of the given type, and the output
  index it reports is one through which the parent really is connected: to the node itself or to
  one on the way to it.\<close>

theorem getNodeConnectionIndexes_finds_parent:
  assumes "wf_workflow w" "map_of (nodes w) parent \<noteq> None"
  shows "\<exists>r. getNodeConnectionIndexes w name parent t (-1) = Inr r \<and>
    (r \<noteq> None \<longleftrightarrow> parent \<in> ancestors w t name) \<and>
    (\<forall>x. r = Some x \<longrightarrow> (\<exists>m ty k. (m = name \<or> m \<in> ancestors w t name) \<and>
      has_conn (connectionsBySourceNode w) parent ty (sourceIndex x)
        \<lparr>cnode = m, ctype = t, cindex = k\<rparr>))"
proof -
  have "\<exists>ty k. has_conn (connectionsBySourceNode w) parent ty (sourceIndex x)
      \<lparr>cnode = m, ctype = t, cindex = k\<rparr>" if l: "leads_out w t parent x m" for x m
  proof -
    from l obtain arr c where c: "arr_of (connectionsByDestinationNode w) m t = Some arr"
      "Some (destinationIndex x, c) \<in> set (conn_slots arr None)" "cnode c = parent" "cindex c = sourceIndex x"
      unfolding leads_out_def by blast
    then obtain k where "destinationIndex x < length (conns_at arr k)" "conns_at arr k ! destinationIndex x = c"
      unfolding conn_slots_iff by blast
    then have "c \<in> set (conns_at arr k)" by (metis nth_mem)
    then have "has_conn (connectionsByDestinationNode w) m t k c"
      using c(1) by (simp add: has_conn_def arr_of_conn_list)
    moreover have "c = \<lparr>cnode = parent, ctype = ctype c, cindex = sourceIndex x\<rparr>"
      using c(3,4) by (cases c) simp
    ultimately have "has_conn (getConnectionsByDestination (connectionsBySourceNode w)) m t k
        \<lparr>cnode = parent, ctype = ctype c, cindex = sourceIndex x\<rparr>"
      using assms(1) unfolding wf_workflow_def by metis
    moreover have "wf_connections (connectionsBySourceNode w)" using assms(1) by (simp add: wf_workflow_def)
    ultimately show ?thesis using has_conn_by_destination by blast
  qed
  then have out: "(m = name \<or> m \<in> ancestors w t name) \<and> leads_out w t parent x m \<Longrightarrow>
      \<exists>m ty k. (m = name \<or> m \<in> ancestors w t name) \<and>
        has_conn (connectionsBySourceNode w) parent ty (sourceIndex x) \<lparr>cnode = m, ctype = t, cindex = k\<rparr>"
    for x m by blast
  from getNodeConnectionIndexes_spec [OF assms, of name t] obtain r where
    r: "getNodeConnectionIndexes w name parent t (-1) = Inr r" "r \<noteq> None \<longleftrightarrow> parent \<in> ancestors w t name"
    "\<forall>x. r = Some x \<longrightarrow> (\<exists>m. (m = name \<or> m \<in> ancestors w t name) \<and> leads_out w t parent x m)"
    by (elim exE conjE) simp
  show ?thesis
  proof (intro exI [of _ r] conjI allI impI)
    fix x
    assume "r = Some x"
    with r(3) obtain m where "(m = name \<or> m \<in> ancestors w t name) \<and> leads_out w t parent x m" by auto
    then show "\<exists>m ty k. (m = name \<or> m \<in> ancestors w t name) \<and>
      has_conn (connectionsBySourceNode w) parent ty (sourceIndex x) \<lparr>cnode = m, ctype = t, cindex = k\<rparr>"
      by (rule out)
  qed (rule r)+
qed

theorem getNodeConnectionIndexes_finds_parent_witness:
  "\<exists>x. getNodeConnectionIndexes diamond ''D'' ''T'' Main (-1) = Inr (Some x)"
proof -
  have "map_of (nodes diamond) ''T'' \<noteq> None" by (simp add: diamond_nodes)
  from getNodeConnectionIndexes_finds_parent [OF wf_diamond this, of "''D''" Main] obtain r where
    r: "getNodeConnectionIndexes diamond ''D'' ''T'' Main (-1) = Inr r"
      "r \<noteq> None \<longleftrightarrow> ''T'' \<in> ancestors diamond Main ''D''" by blast
  have "(''D'', ''B'') \<in> incoming_edges diamond Main" "(''B'', ''M'') \<in> incoming_edges diamond Main"
    "(''M'', ''T'') \<in> incoming_edges diamond Main" by (simp_all add: diamond_edges)
  then have "''T'' \<in> ancestors diamond Main ''D''"
    unfolding ancestors_def by (blast intro: trancl.intros)
  with r show ?thesis by blast
qed

text \<open>\<open>getParentMainInputNode\<close> returns whenever following non-main connections does not run in a
  circle, and the node it returns is one from which there is no further node to go on to, reached
  from the given node step by step.\<close>

theorem getParentMainInputNode_terminates:
  assumes "wf (main_input_step w)"
  shows "\<exists>r. getParentMainInputNode w node = Some r \<and>
    (\<forall>m. r = Inr m \<longrightarrow> nextMainInput w m = Inr None \<and> (m, node) \<in> (main_input_step w)\<^sup>*)"
  using assms by (rule getParentMainInputNode_returns)

theorem getParentMainInputNode_terminates_witness:
  "\<exists>r. getParentMainInputNode diamond (plain_node 5 ''D'' ''set'') = Some r"
proof -
  have "nextMainInput diamond n = Inr None" for n
    by (simp add: nextMainInput_def diamond_def sample_type_def getNodeOutputs_def)
  then have "main_input_step diamond = {}" by (simp add: main_input_step_def)
  then have "wf (main_input_step diamond)" by simp
  from getParentMainInputNode_terminates [OF this] show ?thesis by blast
qed

definition tool_to :: "string \<Rightarrow> IConnection" where
  "tool_to d = \<lparr>cnode = d, ctype = ''ai_tool'', cindex = 0\<rparr>"

definition tool_circle :: Workflow where
  "tool_circle =
     \<lparr>wf_id = None, wf_name = None,
      nodes = [(''X'', plain_node 1 ''X'' ''tool''), (''Y'', plain_node 2 ''Y'' ''tool'')],
      connectionsBySourceNode =
        [(''X'', [(''ai_tool'', [Some [tool_to ''Y'']])]), (''Y'', [(''ai_tool'', [Some [tool_to ''X'']])])],
      connectionsByDestinationNode =
        [(''Y'', [(''ai_tool'', [Some [tool_to ''X'']])]), (''X'', [(''ai_tool'', [Some [tool_to ''Y'']])])],
      nodeTypes = (\<lambda>_ _. Some (sample_type False [''ai_tool''])), active = False,
      executionOrder = None, staticData = [], testStaticData = None, wf_pinData = None\<rparr>"

text \<open>Two sub-nodes whose non-main outputs are connected to each other send
  \<open>getParentMainInputNode\<close> into an endless recursion: it has no result for either of them.\<close>

theorem getParentMainInputNode_diverges:
  "getParentMainInputNode tool_circle (plain_node 1 ''X'' ''tool'') = None \<and>
   getParentMainInputNode tool_circle (plain_node 2 ''Y'' ''tool'') = None"
proof -
  have x: "getConnectedNodes (connectionsBySourceNode tool_circle) ''X'' (OneType ''ai_tool'') (-1) [] = [''Y'']"
    and y: "getConnectedNodes (connectionsBySourceNode tool_circle) ''Y'' (OneType ''ai_tool'') (-1) [] = [''X'']"
    by code_simp+
  let ?X = "plain_node 1 ''X'' ''tool''" and ?Y = "plain_node 2 ''Y'' ''tool''"
  have steps: "nextMainInput tool_circle ?X = Inr (Some ?Y)" "nextMainInput tool_circle ?Y = Inr (Some ?X)"
    using x y by (simp_all add: nextMainInput_def getNodeOutputs_def getChildNodes_def tool_circle_def
        sample_type_def plain_node_def)
  have "w = tool_circle \<longrightarrow> n \<notin> {?X, ?Y}" if "getParentMainInputNode w n = Some r" for w n r
  proof (rule getParentMainInputNode.raw_induct [OF _ that])
    fix f :: "Workflow \<Rightarrow> INode \<Rightarrow> INode res option" and w n r
    assume IH: "\<And>w n r. f w n = Some r \<Longrightarrow> w = tool_circle \<longrightarrow> n \<notin> {?X, ?Y}"
      and run: "(case nextMainInput w n of Inl e \<Rightarrow> Some (Inl e) | Inr None \<Rightarrow> Some (Inr n)
        | Inr (Some m) \<Rightarrow> f w m) = Some r"
    have no: "f tool_circle ?X \<noteq> Some r" "f tool_circle ?Y \<noteq> Some r"
      using IH [of tool_circle ?X r] IH [of tool_circle ?Y r] by auto
    show "w = tool_circle \<longrightarrow> n \<notin> {?X, ?Y}"
    proof
      assume "w = tool_circle"
      with run no steps show "n \<notin> {?X, ?Y}" by auto
    qed
  qed
  then have "getParentMainInputNode tool_circle n \<noteq> Some r" if "n \<in> {?X, ?Y}" for n r
    using that by blast
  then show ?thesis by (metis insertCI not_Some_eq)
qed

end
