(* ===== verification/ExecutionState.thy ===== *)
theory ExecutionState
  imports WorkflowStart
begin

text \<open>
  The state of one execution: \<open>IRunExecutionData\<close> of \<open>Interfaces.ts\<close>, with the fields of its
  parts \<open>startData\<close>, \<open>resultData\<close> and \<open>executionData\<close> side by side, and the accesses to the
  nested objects of waiting data that \<open>packages/core/src/WorkflowExecute.ts\<close> makes. Start times,
  execution times and hints are left out.
\<close>

section \<open>The state\<close>

text \<open>The outputs of a node, and the inputs of one connection type: one slot for each index.\<close>

type_synonym outputs = "INodeExecutionData list slot list"

record StartData =
  sd_destinationNode :: "string option"
  sd_runNodeFilter :: "string list option"

text \<open>\<open>ITaskMetadata\<close> is opaque; dates are numbers.\<close>

record IRunExecutionData =
  startData :: "StartData option"
  runData :: IRunData
  pinData :: "IPinData option"
  lastNodeExecuted :: "string option"
  resultError :: "js_error option"
  nodeExecutionStack :: "IExecuteData list"
  metadata :: "jsval list jsobj option"
  waitingExecution :: IWaitingForExecution
  waitingExecutionSource :: "IWaitingForExecutionSource option"
  waitTill :: "nat option"

definition fresh_run ::
  "StartData \<Rightarrow> IRunData \<Rightarrow> IPinData option \<Rightarrow> IExecuteData list \<Rightarrow> IWaitingForExecution \<Rightarrow>
   IWaitingForExecutionSource \<Rightarrow> IRunExecutionData" where
  "fresh_run start rd pd stack waiting sources =
     \<lparr>startData = Some start, runData = rd, pinData = pd, lastNodeExecuted = None,
      resultError = None, nodeExecutionStack = stack, metadata = Some [],
      waitingExecution = waiting, waitingExecutionSource = Some sources, waitTill = None\<rparr>"

text \<open>One item without data, as the only item of the first main input.\<close>

definition empty_main :: ITaskDataConnections where
  "empty_main = [(Main, [SVal [empty_item]])]"

section \<open>Reading nested data\<close>

text \<open>\<open>x || undefined\<close> for an index: zero is not recorded.\<close>

definition or_undefined :: "nat \<Rightarrow> nat option" where
  "or_undefined i = (if i = 0 then None else Some i)"

lemma or_undefined_simps [simp, js_simps]:
  "or_undefined 0 = None"
  "or_undefined (Suc i) = Some (Suc i)"
  by (simp_all add: or_undefined_def)

definition source_of :: "string \<Rightarrow> nat \<Rightarrow> nat \<Rightarrow> ISourceData" where
  "source_of parent outputIndex runIndex =
     \<lparr>previousNode = parent, previousNodeOutput = or_undefined outputIndex,
      previousNodeRun = or_undefined runIndex\<rparr>"

definition main_inputs :: "IConnections \<Rightarrow> string \<Rightarrow> NodeInputConnections res" where
  "main_inputs byDestination name =
     bindR (derefR (map_of byDestination name)) (\<lambda>byType. derefR (map_of byType Main))"

text \<open>\<open>waitingExecution[name][index]\<close> and the same path into the sources.\<close>

definition waiting_at :: "IRunExecutionData \<Rightarrow> string \<Rightarrow> nat \<Rightarrow> ITaskDataConnections option" where
  "waiting_at s name i =
     (case map_of (waitingExecution s) name of None \<Rightarrow> None | Some runs \<Rightarrow> map_of runs i)"

definition waiting_main :: "IRunExecutionData \<Rightarrow> string \<Rightarrow> nat \<Rightarrow> outputs res" where
  "waiting_main s name i =
     bindR (derefR (waiting_at s name i)) (\<lambda>d. derefR (map_of d Main))"

definition source_at :: "IRunExecutionData \<Rightarrow> string \<Rightarrow> nat \<Rightarrow> ITaskDataConnectionsSource option" where
  "source_at s name i =
     (case waitingExecutionSource s of
        None \<Rightarrow> None
      | Some sources \<Rightarrow>
          (case map_of sources name of None \<Rightarrow> None | Some runs \<Rightarrow> map_of runs i))"

section \<open>Writing nested data\<close>

text \<open>\<open>waitingExecution[name][i] = d\<close>; the object \<open>waitingExecution[name]\<close> has to exist.\<close>

definition put_waiting ::
  "string \<Rightarrow> nat \<Rightarrow> ITaskDataConnections \<Rightarrow> IRunExecutionData \<Rightarrow> IRunExecutionData res" where
  "put_waiting name i d s =
     bindR (derefR (map_of (waitingExecution s) name)) (\<lambda>runs.
       Inr (s\<lparr>waitingExecution := obj_put name (num_put i d runs) (waitingExecution s)\<rparr>))"

definition put_source ::
  "string \<Rightarrow> nat \<Rightarrow> ITaskDataConnectionsSource \<Rightarrow> IRunExecutionData \<Rightarrow> IRunExecutionData res" where
  "put_source name i d s =
     bindR (derefR (waitingExecutionSource s)) (\<lambda>sources.
     bindR (derefR (map_of sources name)) (\<lambda>runs.
       Inr (s\<lparr>waitingExecutionSource := Some (obj_put name (num_put i d runs) sources)\<rparr>)))"

text \<open>\<open>waitingExecution[name][i].main[k] = v\<close> and the same for the sources.\<close>

definition set_waiting_input ::
  "string \<Rightarrow> nat \<Rightarrow> nat \<Rightarrow> INodeExecutionData list slot \<Rightarrow> IRunExecutionData \<Rightarrow> IRunExecutionData res" where
  "set_waiting_input name i k v s =
     bindR (derefR (waiting_at s name i)) (\<lambda>d.
     bindR (derefR (map_of d Main)) (\<lambda>m.
       put_waiting name i (obj_put Main (arr_set k v m) d) s))"

definition set_source_input ::
  "string \<Rightarrow> nat \<Rightarrow> nat \<Rightarrow> ISourceData slot \<Rightarrow> IRunExecutionData \<Rightarrow> IRunExecutionData res" where
  "set_source_input name i k v s =
     bindR (derefR (source_at s name i)) (\<lambda>d.
     bindR (derefR (map_of d Main)) (\<lambda>m.
       put_source name i (obj_put Main (arr_set k v m) d) s))"

text \<open>
  \<open>delete waitingExecution[name][i]\<close>, then the object of the node itself when it is empty; both
  for the data and for the sources.
\<close>

definition remove_waiting :: "string \<Rightarrow> nat \<Rightarrow> IRunExecutionData \<Rightarrow> IRunExecutionData res" where
  "remove_waiting name i s =
     bindR (derefR (map_of (waitingExecution s) name)) (\<lambda>runs.
     bindR (derefR (waitingExecutionSource s)) (\<lambda>sources.
     bindR (derefR (map_of sources name)) (\<lambda>source_runs.
       let runs' = AList.delete i runs;
           source_runs' = AList.delete i source_runs
       in if runs' = [] then
            Inr (s\<lparr>waitingExecution := AList.delete name (waitingExecution s),
                   waitingExecutionSource := Some (AList.delete name sources)\<rparr>)
          else
            Inr (s\<lparr>waitingExecution := obj_put name runs' (waitingExecution s),
                   waitingExecutionSource := Some (obj_put name source_runs' sources)\<rparr>))))"

end
