(* ===== verification/WorkflowRun.thy ===== *)
theory WorkflowRun
  imports ExecutionState
begin

text \<open>
  Running one node (\<open>Workflow.ts\<close>): \<open>runNode\<close> with its guards and the choice of what is run, and the
  entry points for triggers, polls and webhooks. What the functions of a node type do is an
  argument: \<open>perform\<close> answers a call with a result or an error. The calls that are made, how often and with
  which data, are part of what the definitions return. The close functions of triggers are left out.
\<close>

section \<open>Calls into a node type\<close>

datatype NodeCall =
    CallExecute INode nat "INodeExecutionData list" ITaskDataConnections
  | CallPoll INode
  | CallTrigger INode
  | CallRouting INode nat "INodeExecutionData list" ITaskDataConnections

text \<open>
  The answer to a call: \<open>data\<close> (\<open>SUndef\<close> for \<open>undefined\<close>, \<open>SNull\<close> for \<open>null\<close>) or a thrown error.
  The manual trigger response counts as the answer to \<open>CallTrigger\<close>; no response is \<open>SUndef\<close>.
\<close>

type_synonym answer = "outputs slot res"

text \<open>The calls that were made, in order, and what came of it.\<close>

type_synonym traced = "NodeCall list \<times> answer"

definition make_call :: "(NodeCall \<Rightarrow> answer) \<Rightarrow> NodeCall \<Rightarrow> traced" where
  "make_call perform c = ([c], perform c)"

definition no_call :: "answer \<Rightarrow> traced" where
  "no_call a = ([], a)"

definition then_do :: "traced \<Rightarrow> (outputs slot \<Rightarrow> traced) \<Rightarrow> traced" where
  "then_do m f =
     (case snd m of
        Inl e \<Rightarrow> m
      | Inr x \<Rightarrow> (fst m @ fst (f x), snd (f x)))"

section \<open>runNode\<close>

definition slot_list :: "'a list slot \<Rightarrow> 'a list option" where
  "slot_list v = (case v of SVal xs \<Rightarrow> Some xs | _ \<Rightarrow> None)"

text \<open>The data a disabled node passes through: that of its first main input.\<close>

definition pass_through :: "ITaskDataConnections \<Rightarrow> outputs slot" where
  "pass_through inputData =
     (case map_of inputData Main of
        None \<Rightarrow> SUndef
      | Some m \<Rightarrow>
          if m = [] then SUndef
          else if arr_get m 0 = SNull then SUndef
          else SVal [arr_get m 0])"

text \<open>
  The input the node works on. \<open>inputData.main\<close> has to exist in execution order v1, where the first
  input with items is taken; \<open>Inr None\<close> means that there is no data, so the node does not run.
  An input that is \<open>null\<close> or missing has no \<open>length\<close>.
\<close>

definition connectionInputData ::
  "string option \<Rightarrow> ITaskDataConnections \<Rightarrow> INodeExecutionData list option res" where
  "connectionInputData order inputData =
     (let first = (case map_of inputData Main of
            None \<Rightarrow> SVal []
          | Some m \<Rightarrow> if m = [] then SVal [] else arr_get m 0) in
      bindR
        (if order = Some ''v1'' then
           bindR (derefR (map_of inputData Main)) (\<lambda>m.
             Inr (case filter (\<lambda>d. case d of SVal items \<Rightarrow> items \<noteq> [] | _ \<Rightarrow> False) m of
                    [] \<Rightarrow> first
                  | d # _ \<Rightarrow> d))
         else Inr first)
        (\<lambda>chosen. bindR (derefR (slot_list chosen)) (\<lambda>items.
           Inr (if items = [] then None else Some items))))"

text \<open>\<open>executeOnce\<close>: only the first item of every input.\<close>

definition first_items :: "ITaskDataConnections \<Rightarrow> ITaskDataConnections" where
  "first_items inputData =
     map (\<lambda>(name, m).
       (name, map (\<lambda>d. case d of SVal items \<Rightarrow> SVal (take 1 items) | _ \<Rightarrow> d) m)) inputData"

text \<open>The error of an execution that failed already is thrown again.\<close>

definition failed_before :: "IRunExecutionData \<Rightarrow> INode \<Rightarrow> js_error option" where
  "failed_before s node =
     (if lastNodeExecuted s = Some (nodeName node) then
        (case resultError s of
           None \<Rightarrow> None
         | Some (NodeError m) \<Rightarrow> Some (NodeError m)
         | Some e \<Rightarrow> Some (PlainError (error_message e)))
      else None)"

definition main_slot :: "ITaskDataConnections \<Rightarrow> outputs slot" where
  "main_slot inputData = (case map_of inputData Main of None \<Rightarrow> SUndef | Some m \<Rightarrow> SVal m)"

text \<open>\<open>runTrigger\<close>: the guards, then the call.\<close>

definition runTrigger :: "(NodeCall \<Rightarrow> answer) \<Rightarrow> Workflow \<Rightarrow> INode \<Rightarrow> traced" where
  "runTrigger perform w node =
     (case nodeTypes w (ntype node) (typeVersion node) of
        None \<Rightarrow> no_call (Inl (ApplicationError ''Node with unknown node type''))
      | Some nodeType \<Rightarrow>
          if \<not> has_trigger nodeType then
            no_call (Inl (ApplicationError ''Node type does not have a trigger function defined''))
          else make_call perform (CallTrigger node))"

definition runPoll :: "(NodeCall \<Rightarrow> answer) \<Rightarrow> Workflow \<Rightarrow> INode \<Rightarrow> traced" where
  "runPoll perform w node =
     (case nodeTypes w (ntype node) (typeVersion node) of
        None \<Rightarrow> no_call (Inl (ApplicationError ''Node with unknown node type''))
      | Some nodeType \<Rightarrow>
          if \<not> has_poll nodeType then
            no_call (Inl (ApplicationError ''Node type does not have a poll function defined''))
          else make_call perform (CallPoll node))"

text \<open>What is run, once there is input data and no earlier error.\<close>

definition dispatch ::
  "(NodeCall \<Rightarrow> answer) \<Rightarrow> string \<Rightarrow> Workflow \<Rightarrow> INode \<Rightarrow> INodeType \<Rightarrow> nat \<Rightarrow> INodeExecutionData list \<Rightarrow>
   ITaskDataConnections \<Rightarrow> traced" where
  "dispatch perform mode w node nodeType runIndex items inputData =
     (if has_execute nodeType then make_call perform (CallExecute node runIndex items inputData)
      else if has_poll nodeType then
        (if mode = ''manual'' then make_call perform (CallPoll node) else no_call (Inr (main_slot inputData)))
      else if has_trigger nodeType then
        (if mode = ''manual'' then
           then_do (runTrigger perform w node) (\<lambda>response.
             no_call (Inr (case response of SVal out \<Rightarrow> if out = [] then SNull else SVal out | _ \<Rightarrow> SNull)))
         else no_call (Inr (main_slot inputData)))
      else if has_webhook nodeType then no_call (Inr (main_slot inputData))
      else make_call perform (CallRouting node runIndex items inputData))"

definition runNodeCalls ::
  "(NodeCall \<Rightarrow> answer) \<Rightarrow> string \<Rightarrow> Workflow \<Rightarrow> IExecuteData \<Rightarrow> IRunExecutionData \<Rightarrow> nat \<Rightarrow> traced" where
  "runNodeCalls perform mode w d s runIndex =
     (let node = ed_node d; inputData = ed_data d in
      if disabled node = Some True then no_call (Inr (pass_through inputData))
      else case nodeTypes w (ntype node) (typeVersion node) of
        None \<Rightarrow> no_call (Inl (ApplicationError ''Node type is unknown so cannot run it''))
      | Some nodeType \<Rightarrow>
          (case (if has_execute nodeType \<or>
                    \<not> has_poll nodeType \<and> \<not> has_trigger nodeType \<and> \<not> has_webhook nodeType
                 then connectionInputData (executionOrder w) inputData
                 else Inr (Some [])) of
             Inl e \<Rightarrow> no_call (Inl e)
           | Inr None \<Rightarrow> no_call (Inr SUndef)
           | Inr (Some items) \<Rightarrow>
               (case failed_before s node of
                  Some e \<Rightarrow> no_call (Inl e)
                | None \<Rightarrow>
                    dispatch perform mode w node nodeType runIndex items
                      (if executeOnce node = Some True then first_items inputData else inputData))))"

definition runNode ::
  "(NodeCall \<Rightarrow> answer) \<Rightarrow> string \<Rightarrow> Workflow \<Rightarrow> IExecuteData \<Rightarrow> IRunExecutionData \<Rightarrow> nat \<Rightarrow> answer" where
  "runNode perform mode w d s runIndex = snd (runNodeCalls perform mode w d s runIndex)"

section \<open>Webhooks\<close>

text \<open>
  \<open>runWebhookMethod\<close> with the webhook methods of the node types as an argument: \<open>None\<close> if there is
  no such function, else what it answers. A node of unknown type has no \<open>webhookMethods\<close> to read.
  The workflow's node is looked up by name; without it nothing is done.
\<close>

datatype WebhookSetupMethodNames = CheckExists | CreateWebhook | DeleteWebhook

type_synonym webhook_methods = "INode \<Rightarrow> string \<Rightarrow> WebhookSetupMethodNames \<Rightarrow> bool res option"

definition runWebhookMethod ::
  "webhook_methods \<Rightarrow> Workflow \<Rightarrow> WebhookSetupMethodNames \<Rightarrow> string \<Rightarrow> string \<Rightarrow>
   WebhookSetupMethodNames list \<Rightarrow> (bool option \<times> WebhookSetupMethodNames list) res" where
  "runWebhookMethod methods w m nodeN description calls =
     (case getNode w nodeN of
        None \<Rightarrow> Inr (None, calls)
      | Some node \<Rightarrow>
          bindR (derefR (nodeTypes w (ntype node) (typeVersion node))) (\<lambda>_.
            case methods node description m of
              None \<Rightarrow> Inr (None, calls)
            | Some answer \<Rightarrow> bindR answer (\<lambda>b. Inr (Some b, calls @ [m]))))"

definition createWebhookIfNotExists ::
  "webhook_methods \<Rightarrow> Workflow \<Rightarrow> string \<Rightarrow> string \<Rightarrow> WebhookSetupMethodNames list \<Rightarrow>
   WebhookSetupMethodNames list res" where
  "createWebhookIfNotExists methods w nodeN description calls =
     bindR (runWebhookMethod methods w CheckExists nodeN description calls)
       (\<lambda>(webhookExists, calls).
          if webhookExists = Some True then Inr calls
          else bindR (runWebhookMethod methods w CreateWebhook nodeN description calls)
            (\<lambda>(_, calls). Inr calls))"

definition deleteWebhook ::
  "webhook_methods \<Rightarrow> Workflow \<Rightarrow> string \<Rightarrow> string \<Rightarrow> WebhookSetupMethodNames list \<Rightarrow>
   WebhookSetupMethodNames list res" where
  "deleteWebhook methods w nodeN description calls =
     bindR (runWebhookMethod methods w DeleteWebhook nodeN description calls) (\<lambda>(_, calls). Inr calls)"

text \<open>\<open>runWebhook\<close>: the guards, then the webhook function of the node, given by its answer.\<close>

definition runWebhook :: "(INode \<Rightarrow> 'r res) \<Rightarrow> Workflow \<Rightarrow> INode \<Rightarrow> 'r res" where
  "runWebhook webhook w node =
     (case nodeTypes w (ntype node) (typeVersion node) of
        None \<Rightarrow> Inl (ApplicationError ''Unknown node type of webhook node'')
      | Some nodeType \<Rightarrow>
          if \<not> has_webhook nodeType then
            Inl (ApplicationError ''Node does not have any webhooks defined'')
          else webhook node)"

section \<open>Properties\<close>

text \<open>
  The items a node works on: those of the first main input, in execution order v1 those of the first main
  input that has items.
\<close>

definition works_on :: "string option \<Rightarrow> ITaskDataConnections \<Rightarrow> INodeExecutionData list \<Rightarrow> bool" where
  "works_on order inputData items \<longleftrightarrow> items \<noteq> [] \<and>
     (\<exists>before after. map_of inputData Main = Some (before @ SVal items # after) \<and>
       (if order = Some ''v1'' then \<forall>xs. SVal xs \<in> set before \<longrightarrow> xs = [] else before = []))"

lemma no_items: "(\<forall>u \<in> set us. \<not> (case u of SVal items \<Rightarrow> items \<noteq> [] | _ \<Rightarrow> False)) \<longleftrightarrow>
    (\<forall>xs. SVal xs \<in> set us \<longrightarrow> xs = [])"
  by (auto split: slot.splits)

lemma first_with_items:
  assumes "items \<noteq> []"
  shows "(\<exists>ds. filter (\<lambda>d. case d of SVal items \<Rightarrow> items \<noteq> [] | _ \<Rightarrow> False) m = SVal items # ds) \<longleftrightarrow>
    (\<exists>before after. m = before @ SVal items # after \<and> (\<forall>xs. SVal xs \<in> set before \<longrightarrow> xs = []))"
  unfolding filter_eq_Cons_iff no_items using assms by auto

lemma connectionInputData_iff:
  "connectionInputData order inputData = Inr (Some items) \<longleftrightarrow> works_on order inputData items"
proof (cases "map_of inputData Main")
  case None
  then show ?thesis by (auto simp: connectionInputData_def Let_def slot_list_def works_on_def)
next
  case (Some m)
  let ?has = "\<lambda>d. case d of SVal items \<Rightarrow> items \<noteq> [] | _ \<Rightarrow> False"
  let ?first = "if m = [] then SVal [] else arr_get m 0"
  have first: "?first = SVal items \<longleftrightarrow> (\<exists>after. m = SVal items # after)" if "items \<noteq> []"
    using that by (cases m) (auto simp: arr_get_def slot_read_def split: slot.splits)
  have chosen: "connectionInputData order inputData = Inr (Some items) \<longleftrightarrow> items \<noteq> [] \<and>
      (if order = Some ''v1'' then case filter ?has m of [] \<Rightarrow> ?first | d # _ \<Rightarrow> d else ?first) = SVal items"
    using Some by (auto simp: connectionInputData_def Let_def bindR_Inr_iff slot_list_def split: slot.splits)
  show ?thesis
  proof (cases "items = []")
    case True
    then show ?thesis unfolding chosen by (simp add: works_on_def)
  next
    case False
    have "(case filter ?has m of [] \<Rightarrow> ?first | d # _ \<Rightarrow> d) = SVal items \<longleftrightarrow> (\<exists>ds. filter ?has m = SVal items # ds)"
    proof (cases "filter ?has m")
      case Nil
      then have "\<not> ?has (SVal items)" if "m = SVal items # after" for after using that by (cases "items = []") simp_all
      with Nil first [OF False] False show ?thesis by auto
    qed simp
    with False Some chosen first [OF False] first_with_items [OF False, of m] show ?thesis by (auto simp: works_on_def)
  qed
qed

text \<open>Which call is due for a node that is enabled and did not fail before.\<close>

definition input_of :: "IExecuteData \<Rightarrow> ITaskDataConnections" where
  "input_of d = (if executeOnce (ed_node d) = Some True then first_items (ed_data d) else ed_data d)"

definition is_due :: "string \<Rightarrow> Workflow \<Rightarrow> IExecuteData \<Rightarrow> nat \<Rightarrow> INodeType \<Rightarrow> NodeCall \<Rightarrow> bool" where
  "is_due mode w d runIndex nodeType c =
     (case c of
        CallExecute node i items input \<Rightarrow> has_execute nodeType \<and>
          node = ed_node d \<and> i = runIndex \<and> works_on (executionOrder w) (ed_data d) items \<and> input = input_of d
      | CallPoll node \<Rightarrow> has_poll nodeType \<and> \<not> has_execute nodeType \<and> mode = ''manual'' \<and> node = ed_node d
      | CallTrigger node \<Rightarrow> has_trigger nodeType \<and> \<not> has_execute nodeType \<and> \<not> has_poll nodeType \<and>
          mode = ''manual'' \<and> node = ed_node d
      | CallRouting node i items input \<Rightarrow>
          \<not> has_execute nodeType \<and> \<not> has_poll nodeType \<and> \<not> has_trigger nodeType \<and> \<not> has_webhook nodeType \<and>
          node = ed_node d \<and> i = runIndex \<and> works_on (executionOrder w) (ed_data d) items \<and> input = input_of d)"

text \<open>The answer to the call is the answer of the node; what a trigger emits may be nothing.\<close>

definition answer_to :: "(NodeCall \<Rightarrow> answer) \<Rightarrow> NodeCall \<Rightarrow> answer" where
  "answer_to perform c =
     (case c of
        CallTrigger _ \<Rightarrow> bindR (perform c) (\<lambda>v. Inr (case v of SVal out \<Rightarrow> if out = [] then SNull else v | _ \<Rightarrow> SNull))
      | _ \<Rightarrow> perform c)"

lemma runTrigger_known:
  "nodeTypes w (ntype node) (typeVersion node) = Some nodeType \<Longrightarrow> has_trigger nodeType \<Longrightarrow>
     runTrigger perform w node = ([CallTrigger node], perform (CallTrigger node))"
  by (simp add: runTrigger_def make_call_def)

lemma dispatch_calls:
  assumes "nodeTypes w (ntype node) (typeVersion node) = Some nodeType"
  shows "dispatch perform mode w node nodeType runIndex items input =
    (if has_execute nodeType then
       ([CallExecute node runIndex items input], answer_to perform (CallExecute node runIndex items input))
     else if has_poll nodeType \<and> mode = ''manual'' then ([CallPoll node], answer_to perform (CallPoll node))
     else if \<not> has_poll nodeType \<and> has_trigger nodeType \<and> mode = ''manual'' then
       ([CallTrigger node], answer_to perform (CallTrigger node))
     else if has_poll nodeType \<or> has_trigger nodeType \<or> has_webhook nodeType then ([], Inr (main_slot input))
     else ([CallRouting node runIndex items input], answer_to perform (CallRouting node runIndex items input)))"
  using runTrigger_known [OF assms]
  by (auto simp: dispatch_def make_call_def no_call_def then_do_def answer_to_def bindR_def split: sum.split slot.split)

text \<open>The calls of a node that is enabled, of a known type, and did not fail before.\<close>

lemma runNodeCalls_due:
  assumes "disabled (ed_node d) \<noteq> Some True" "failed_before s (ed_node d) = None"
    and "nodeTypes w (ntype (ed_node d)) (typeVersion (ed_node d)) = Some nodeType"
  shows "runNodeCalls perform mode w d s runIndex =
    (let items = connectionInputData (executionOrder w) (ed_data d) in
     if (has_execute nodeType \<or> \<not> has_poll nodeType \<and> \<not> has_trigger nodeType \<and> \<not> has_webhook nodeType) \<and>
        \<not> (\<exists>xs. items = Inr (Some xs)) then ([], bindR items (\<lambda>_. Inr SUndef))
     else dispatch perform mode w (ed_node d) nodeType runIndex
       (if has_execute nodeType \<or> \<not> has_poll nodeType \<and> \<not> has_trigger nodeType \<and> \<not> has_webhook nodeType
        then (case items of Inr (Some xs) \<Rightarrow> xs | _ \<Rightarrow> []) else []) (input_of d))"
  using assms
  by (auto simp: runNodeCalls_def input_of_def no_call_def Let_def split: sum.splits option.splits)

lemma runNodeCalls_one:
  assumes "disabled (ed_node d) \<noteq> Some True" "failed_before s (ed_node d) = None"
    and nt: "nodeTypes w (ntype (ed_node d)) (typeVersion (ed_node d)) = Some nodeType"
  shows "(\<exists>c0. (\<forall>perform. runNodeCalls perform mode w d s runIndex = ([c0], answer_to perform c0)) \<and>
      (\<forall>c. is_due mode w d runIndex nodeType c \<longleftrightarrow> c = c0)) \<or>
    (\<exists>a. (\<forall>perform. runNodeCalls perform mode w d s runIndex = ([], a)) \<and>
      (\<forall>c. \<not> is_due mode w d runIndex nodeType c))"
proof -
  note due = runNodeCalls_due [OF assms] dispatch_calls [OF nt]
  have works: "works_on (executionOrder w) (ed_data d) items \<longleftrightarrow>
      connectionInputData (executionOrder w) (ed_data d) = Inr (Some items)" for items
    by (rule connectionInputData_iff [symmetric])
  consider (execute) "has_execute nodeType"
    | (poll) "\<not> has_execute nodeType" "has_poll nodeType"
    | (trigger) "\<not> has_execute nodeType" "\<not> has_poll nodeType" "has_trigger nodeType"
    | (webhook) "\<not> has_execute nodeType" "\<not> has_poll nodeType" "\<not> has_trigger nodeType" "has_webhook nodeType"
    | (routing) "\<not> has_execute nodeType" "\<not> has_poll nodeType" "\<not> has_trigger nodeType" "\<not> has_webhook nodeType"
    by blast
  then show ?thesis
  proof cases
    case execute
    then show ?thesis
      by (cases "\<exists>xs. connectionInputData (executionOrder w) (ed_data d) = Inr (Some xs)")
        (auto simp: due is_due_def works Let_def split: NodeCall.split)
  next
    case poll
    then show ?thesis
      by (cases "mode = ''manual''") (auto simp: due is_due_def Let_def split: NodeCall.split)
  next
    case trigger
    then show ?thesis
      by (cases "mode = ''manual''") (auto simp: due is_due_def Let_def split: NodeCall.split)
  next
    case webhook
    then show ?thesis by (auto simp: due is_due_def Let_def split: NodeCall.split)
  next
    case routing
    then show ?thesis
      by (cases "\<exists>xs. connectionInputData (executionOrder w) (ed_data d) = Inr (Some xs)")
        (auto simp: due is_due_def works Let_def split: NodeCall.split)
  qed
qed

lemma runNodeCalls_none:
  assumes "disabled (ed_node d) = Some True \<or> failed_before s (ed_node d) \<noteq> None \<or>
    nodeTypes w (ntype (ed_node d)) (typeVersion (ed_node d)) = None"
  shows "\<exists>a. \<forall>perform. runNodeCalls perform mode w d s runIndex = ([], a)"
  using assms
  by (cases "disabled (ed_node d) = Some True"; cases "nodeTypes w (ntype (ed_node d)) (typeVersion (ed_node d))";
      cases "failed_before s (ed_node d)"; cases "connectionInputData (executionOrder w) (ed_data d)")
    (auto simp: runNodeCalls_def no_call_def Let_def split: option.splits)

text \<open>C25: \<open>runNode\<close> makes at most one call into the node type. It makes one exactly if the node is enabled,
  its type is known, its execution did not fail before, and the call is due: with an execute function, or with
  none of the functions of a node (then by its routing), when there are items, which are those of the first
  main input, or in execution order v1 of the first main input that has items; without an execute function
  the poll function, or else the trigger function, but in manual mode only. An execute or routing call gets
  these items and the whole input, of which only the first item of every input with \<open>executeOnce\<close>. What the
  node answers is the answer, except that a trigger that emits nothing answers \<open>null\<close>; without a call the
  answer does not depend on what nodes do.\<close>

theorem runNode_calls:
  fixes d :: IExecuteData
  defines "node \<equiv> ed_node d"
  shows "case runNodeCalls perform mode w d s runIndex of (calls, answer) \<Rightarrow>
    length calls \<le> 1 \<and>
    (\<forall>c. c \<in> set calls \<longleftrightarrow> disabled node \<noteq> Some True \<and> failed_before s node = None \<and>
      (\<exists>nodeType. nodeTypes w (ntype node) (typeVersion node) = Some nodeType \<and> is_due mode w d runIndex nodeType c)) \<and>
    (\<forall>c \<in> set calls. answer = answer_to perform c) \<and>
    (calls = [] \<longrightarrow> (\<forall>perform'. runNodeCalls perform' mode w d s runIndex = ([], answer))) \<and>
    runNode perform mode w d s runIndex = answer"
proof (cases "disabled node = Some True \<or> failed_before s node \<noteq> None \<or>
    nodeTypes w (ntype node) (typeVersion node) = None")
  case True
  from runNodeCalls_none [OF True [unfolded node_def], of mode runIndex] obtain a where
    "\<And>perform. runNodeCalls perform mode w d s runIndex = ([], a)" by blast
  with True show ?thesis by (auto simp: runNode_def)
next
  case False
  then obtain nodeType where nt: "nodeTypes w (ntype node) (typeVersion node) = Some nodeType" by auto
  from False runNodeCalls_one [of d s w nodeType mode runIndex] nt show ?thesis
    by (auto simp: node_def runNode_def)
qed

definition sample_state :: IRunExecutionData where
  "sample_state = fresh_run \<lparr>sd_destinationNode = None, sd_runNodeFilter = None\<rparr> [] None [] [] []"

definition sample_job :: IExecuteData where
  "sample_job = \<lparr>ed_node = plain_node 5 ''D'' ''set'', ed_data = empty_main, ed_source = None\<rparr>"

theorem runNode_calls_witness:
  "runNodeCalls (\<lambda>_. Inr SNull) ''manual'' diamond sample_job sample_state 0 =
     ([CallExecute (ed_node sample_job) 0 [empty_item] empty_main], Inr SNull)"
proof -
  obtain calls answer where run: "runNodeCalls (\<lambda>_. Inr SNull) ''manual'' diamond sample_job sample_state 0 = (calls, answer)"
    by (cases "runNodeCalls (\<lambda>_. Inr SNull) ''manual'' diamond sample_job sample_state 0")
  let ?c = "CallExecute (ed_node sample_job) 0 [empty_item] empty_main"
  obtain nodeType where
    type: "nodeTypes diamond (ntype (ed_node sample_job)) (typeVersion (ed_node sample_job)) = Some nodeType"
    and "has_execute nodeType"
    by (auto simp: diamond_def sample_job_def plain_node_def sample_type_def)
  have "disabled (ed_node sample_job) \<noteq> Some True" "failed_before sample_state (ed_node sample_job) = None"
    by (simp_all add: sample_job_def plain_node_def failed_before_def sample_state_def fresh_run_def)
  moreover have "is_due ''manual'' diamond sample_job 0 nodeType ?c"
    by (simp add: is_due_def works_on_def input_of_def sample_job_def plain_node_def empty_main_def diamond_def
        \<open>has_execute nodeType\<close>)
  ultimately have "?c \<in> set calls" "length calls \<le> 1" "\<forall>c \<in> set calls. answer = answer_to (\<lambda>_. Inr SNull) c"
    using runNode_calls [where perform = "\<lambda>_. Inr SNull" and mode = "''manual''" and w = diamond and d = sample_job
        and s = sample_state and runIndex = 0] type
    by (auto simp: run)
  then have "calls = [?c]" "answer = Inr SNull"
    by (cases calls; auto simp: answer_to_def)+
  with run show ?thesis by simp
qed

text \<open>\<open>createWebhookIfNotExists\<close> asks before it creates: it makes at most the two calls, in this
  order, and it creates the webhook exactly when the node has a create function and the answer to
  the first call was not yes.\<close>

theorem createWebhook_asks_first:
  assumes "createWebhookIfNotExists methods w nodeN description [] = Inr calls"
  shows "calls \<in> {[], [CheckExists], [CreateWebhook], [CheckExists, CreateWebhook]} \<and>
    (CreateWebhook \<in> set calls \<longleftrightarrow> (\<exists>node. getNode w nodeN = Some node \<and>
      methods node description CreateWebhook \<noteq> None \<and>
      methods node description CheckExists \<noteq> Some (Inr True)))"
proof (cases "map_of (nodes w) nodeN")
  case None
  with assms show ?thesis by (simp add: createWebhookIfNotExists_def runWebhookMethod_def)
next
  case (Some node)
  show ?thesis
  proof (cases "methods node description CheckExists")
    case None
    with assms Some show ?thesis
      by (cases "nodeTypes w (ntype node) (typeVersion node)";
          cases "methods node description CreateWebhook")
        (auto simp: createWebhookIfNotExists_def runWebhookMethod_def bindR_Inr_iff)
  next
    case exists: (Some a)
    show ?thesis
    proof (cases a)
      case (Inl e)
      with assms Some exists show ?thesis
        by (auto simp: createWebhookIfNotExists_def runWebhookMethod_def bindR_Inr_iff)
    next
      case (Inr b)
      with assms Some exists show ?thesis
        by (cases b; cases "methods node description CreateWebhook")
          (auto simp: createWebhookIfNotExists_def runWebhookMethod_def bindR_Inr_iff)
    qed
  qed
qed

theorem createWebhook_asks_first_witness:
  "CreateWebhook \<in> set [CheckExists, CreateWebhook] \<and>
   createWebhookIfNotExists (\<lambda>_ _ m. Some (Inr (m \<noteq> CheckExists))) diamond ''D'' ''default'' [] =
     Inr [CheckExists, CreateWebhook]"
proof -
  have run: "createWebhookIfNotExists (\<lambda>_ _ m. Some (Inr (m \<noteq> CheckExists))) diamond ''D'' ''default'' [] =
      Inr [CheckExists, CreateWebhook]"
    by (simp add: createWebhookIfNotExists_def runWebhookMethod_def diamond_def)
  from createWebhook_asks_first [OF run] run show ?thesis by simp
qed

end
