(* ===== verification/ExecutionQueue.thy ===== *)
theory ExecutionQueue
  imports ExecutionState
begin

text \<open>
  The queue side of \<open>packages/core/src/WorkflowExecute.ts\<close>: the stack of nodes that can run and the
  table of nodes that wait for more input. \<open>addNodeToBeExecuted\<close> receives one output of a node that
  ran and either puts the connected node on the stack or records the data under
  \<open>waitingExecution\<close>. A connection whose source node does not exist is reported when the node is
  put on the stack, not when it is taken off; the loop has looked for it before it calls
  \<open>addNodeToBeExecuted\<close> (\<open>destinationKnown\<close>), so that this makes no difference there.
\<close>

section \<open>Small operations\<close>

text \<open>
  \<open>get(runData, [node, runIndex, 'data', 'main', index])\<close>: \<open>undefined\<close> where the path ends early.
\<close>

definition run_output :: "IRunData \<Rightarrow> string \<Rightarrow> nat \<Rightarrow> nat \<Rightarrow> INodeExecutionData list slot" where
  "run_output rd name runIndex index =
     (case map_of rd name of
        None \<Rightarrow> SUndef
      | Some runs \<Rightarrow>
          if length runs \<le> runIndex then SUndef
          else case task_data (runs ! runIndex) of
            None \<Rightarrow> SUndef
          | Some d \<Rightarrow> (case map_of d Main of None \<Rightarrow> SUndef | Some m \<Rightarrow> arr_get m index))"

fun incomingConnectionIsEmpty :: "IRunData \<Rightarrow> IConnection list \<Rightarrow> nat \<Rightarrow> bool res" where
  "incomingConnectionIsEmpty rd [] runIndex = Inr True"
| "incomingConnectionIsEmpty rd (inputConnection # inputConnections) runIndex =
     (case run_output rd (cnode inputConnection) runIndex (cindex inputConnection) of
        SNull \<Rightarrow> Inl TypeError
      | SVal items \<Rightarrow>
          if items \<noteq> [] then Inr False else incomingConnectionIsEmpty rd inputConnections runIndex
      | _ \<Rightarrow> incomingConnectionIsEmpty rd inputConnections runIndex)"

definition with_sources :: "IRunExecutionData \<Rightarrow> IRunExecutionData" where
  "with_sources s =
     (case waitingExecutionSource s of
        None \<Rightarrow> s\<lparr>waitingExecutionSource := Some []\<rparr>
      | Some _ \<Rightarrow> s)"

definition prepareWaitingToExecution ::
  "string \<Rightarrow> nat \<Rightarrow> nat \<Rightarrow> IRunExecutionData \<Rightarrow> IRunExecutionData res" where
  "prepareWaitingToExecution name numberOfConnections runIndex s =
     bindR (put_waiting name runIndex [(Main, replicate numberOfConnections SNull)] (with_sources s))
       (put_source name runIndex [(Main, replicate numberOfConnections SNull)])"

text \<open>\<open>nodeExecutionStack[enqueueFn](item)\<close>: to the front in execution order v1, else to the end.\<close>

definition enqueue :: "Workflow \<Rightarrow> IExecuteData \<Rightarrow> IRunExecutionData \<Rightarrow> IRunExecutionData" where
  "enqueue w item s =
     s\<lparr>nodeExecutionStack :=
         (if executionOrder w = Some ''v1'' then item # nodeExecutionStack s
          else nodeExecutionStack s @ [item])\<rparr>"

definition forceInputNodeExecution :: "Workflow \<Rightarrow> bool" where
  "forceInputNodeExecution w = (executionOrder w \<noteq> Some ''v1'')"

section \<open>A node with several inputs\<close>

text \<open>The entry of the waiting node that has no data yet for the input, if there is one.\<close>

fun first_without ::
  "nat \<Rightarrow> (nat \<times> ITaskDataConnections) list \<Rightarrow> nat option res" where
  "first_without k [] = Inr None"
| "first_without k ((i, d) # runs) =
     bindR (derefR (map_of d Main)) (\<lambda>m.
       case arr_get m k of
         SVal _ \<Rightarrow> first_without k runs
       | _ \<Rightarrow> Inr (Some i))"

text \<open>
  Which entry takes the new data: the state, the index of the entry, and whether the node was
  waiting before.
\<close>

definition chooseWaiting ::
  "Workflow \<Rightarrow> IConnection \<Rightarrow> IRunExecutionData \<Rightarrow> (IRunExecutionData \<times> nat \<times> bool) res" where
  "chooseWaiting w c s0 =
     (let s1 = with_sources s0;
          nodeWasWaiting = (map_of (waitingExecution s1) (cnode c) \<noteq> None);
          s2 = (if nodeWasWaiting then s1
                else s1\<lparr>waitingExecution := obj_put (cnode c) [] (waitingExecution s1),
                        waitingExecutionSource :=
                          map_option (obj_put (cnode c) []) (waitingExecutionSource s1)\<rparr>)
      in bindR (derefR (map_of (waitingExecution s2) (cnode c))) (\<lambda>runs.
         bindR (first_without (cindex c) runs) (\<lambda>found.
           case found of
             Some i \<Rightarrow> Inr (s2, i, nodeWasWaiting)
           | None \<Rightarrow>
               bindR (main_inputs (connectionsByDestinationNode w) (cnode c)) (\<lambda>inputs.
               bindR (prepareWaitingToExecution (cnode c) (length inputs) (length runs) s2) (\<lambda>s3.
                 Inr (s3, length runs, nodeWasWaiting))))))"

text \<open>The new data; \<open>nodeSuccessData === null\<close> is \<open>None\<close>.\<close>

definition addWaitingData ::
  "IConnection \<Rightarrow> nat \<Rightarrow> string \<Rightarrow> outputs option \<Rightarrow> nat \<Rightarrow> nat \<Rightarrow> IRunExecutionData \<Rightarrow>
   IRunExecutionData res" where
  "addWaitingData c outputIndex parent nodeSuccessData runIndex i s =
     (case nodeSuccessData of
        None \<Rightarrow>
          bindR (set_waiting_input (cnode c) i (cindex c) SNull s)
            (set_source_input (cnode c) i (cindex c) SNull)
      | Some out \<Rightarrow>
          bindR (set_waiting_input (cnode c) i (cindex c) (arr_get out outputIndex) s)
            (set_source_input (cnode c) i (cindex c) (SVal (source_of parent outputIndex runIndex))))"

definition allDataFound :: "outputs \<Rightarrow> bool" where
  "allDataFound m = list_all (\<lambda>d. d \<noteq> SNull) m"

text \<open>A complete entry goes to the stack and leaves the table.\<close>

definition completeWaiting ::
  "Workflow \<Rightarrow> IConnection \<Rightarrow> nat \<Rightarrow> IRunExecutionData \<Rightarrow> IRunExecutionData res" where
  "completeWaiting w c i s =
     bindR (derefR (waiting_at s (cnode c) i)) (\<lambda>d.
     bindR (derefR (map_of (nodes w) (cnode c))) (\<lambda>node.
       remove_waiting (cnode c) i
         (enqueue w \<lparr>ed_node = node, ed_data = d, ed_source = source_at s (cnode c) i\<rparr> s)))"

section \<open>Forcing the other inputs to run\<close>

definition checkOutputNodes :: "Workflow \<Rightarrow> string \<Rightarrow> string list res" where
  "checkOutputNodes w parent =
     bindR (main_inputs (connectionsBySourceNode w) parent) (\<lambda>arr.
       Inr (map cnode (concat (map snd (present arr)))))"

text \<open>
  The search for the node to add: from the input node up through its parents, until one of them
  is processed already (\<open>nodeToAdd\<close> stays) or will be processed anyway (no node).
\<close>

fun searchNodeToAdd ::
  "string \<Rightarrow> string list \<Rightarrow> string list \<Rightarrow> IRunData \<Rightarrow> string list \<Rightarrow> string \<Rightarrow> string option" where
  "searchNodeToAdd inputNode outputNodes stackNodes rd [] nodeToAdd = Some nodeToAdd"
| "searchNodeToAdd inputNode outputNodes stackNodes rd (parentNode # parentNodes) nodeToAdd =
     (if inputNode \<noteq> parentNode \<and> parentNode \<in> set outputNodes then None
      else if parentNode \<in> set stackNodes then None
      else if map_of rd parentNode \<noteq> None then Some nodeToAdd
      else searchNodeToAdd inputNode outputNodes stackNodes rd parentNodes parentNode)"

definition main_input0 :: "Workflow \<Rightarrow> string \<Rightarrow> IConnection list res" where
  "main_input0 w name =
     bindR (main_inputs (connectionsByDestinationNode w) name) (\<lambda>arr. derefR (hole_get arr 0))"

definition needsEmptyItem :: "Workflow \<Rightarrow> IRunData \<Rightarrow> string \<Rightarrow> nat \<Rightarrow> bool res" where
  "needsEmptyItem w rd name runIndex =
     (if map_of (connectionsByDestinationNode w) name = None then Inr True
      else bindR (main_input0 w name) (\<lambda>cs. incomingConnectionIsEmpty rd cs runIndex))"

text \<open>\<open>nodeSuccessData[outputIndex].length === 0\<close>\<close>

definition output_is_empty :: "outputs option \<Rightarrow> nat \<Rightarrow> bool res" where
  "output_is_empty nodeSuccessData outputIndex =
     bindR (derefR nodeSuccessData) (\<lambda>out.
       case arr_get out outputIndex of SVal items \<Rightarrow> Inr (items = []) | _ \<Rightarrow> Inl TypeError)"

text \<open>One connection into the waiting node: run its source node, if nothing else will.\<close>

definition forceInput ::
  "Workflow \<Rightarrow> string \<Rightarrow> nat \<Rightarrow> outputs option \<Rightarrow> nat \<Rightarrow> string list \<Rightarrow> IConnection \<Rightarrow>
   IRunExecutionData \<Rightarrow> IRunExecutionData res" where
  "forceInput w parent outputIndex nodeSuccessData runIndex outputNodes inputData s =
     (if cnode inputData = parent then Inr s
      else
        let stackNodes = map (\<lambda>d. nodeName (ed_node d)) (nodeExecutionStack s) in
        bindR (if cnode inputData \<in> set outputNodes then
                 bindR (main_input0 w (cnode inputData)) (\<lambda>cs.
                   incomingConnectionIsEmpty (runData s) cs runIndex)
               else Inr True) (\<lambda>go_on.
          if \<not> go_on then Inr s
          else if cnode inputData \<in> set stackNodes then Inr s
          else if map_of (runData s) (cnode inputData) \<noteq> None then Inr s
          else if \<not> forceInputNodeExecution w then Inr s
          else
            let parentNodes = rev (getParentNodes w (cnode inputData) (OneType Main) (-1) @ [cnode inputData]);
                found = searchNodeToAdd (cnode inputData) outputNodes stackNodes (runData s)
                          parentNodes (cnode inputData);
                parentNodesNodeToAdd = (case found of None \<Rightarrow> []
                  | Some n \<Rightarrow> getParentNodes w n (OneType Main) (-1))
            in bindR (if parent \<in> set parentNodesNodeToAdd then output_is_empty nodeSuccessData outputIndex
                      else Inr False) (\<lambda>notRun.
                 case (if notRun then None else found) of
                   None \<Rightarrow> Inr s
                 | Some nodeToAdd \<Rightarrow>
                     bindR (needsEmptyItem w (runData s) nodeToAdd runIndex) (\<lambda>addEmptyItem.
                       if \<not> addEmptyItem then Inr s
                       else bindR (derefR (getNode w nodeToAdd)) (\<lambda>node.
                         Inr (enqueue w
                           \<lparr>ed_node = node, ed_data = empty_main,
                            ed_source = Some [(Main, [SVal (source_of parent outputIndex runIndex)])]\<rparr> s))))))"

definition forceInputs ::
  "Workflow \<Rightarrow> IConnection \<Rightarrow> string \<Rightarrow> nat \<Rightarrow> outputs option \<Rightarrow> nat \<Rightarrow> IRunExecutionData \<Rightarrow>
   IRunExecutionData res" where
  "forceInputs w c parent outputIndex nodeSuccessData runIndex s =
     bindR (checkOutputNodes w parent) (\<lambda>outputNodes.
     bindR (main_inputs (connectionsByDestinationNode w) (cnode c)) (\<lambda>inputs.
       foldR (\<lambda>input s. bindR (derefR input) (\<lambda>cs.
           foldR (forceInput w parent outputIndex nodeSuccessData runIndex outputNodes) cs s))
         inputs s))"

section \<open>addNodeToBeExecuted\<close>

text \<open>
  The end of the function: the data array of the waiting entry (or a new one) with the new data;
  still incomplete data is written back, after the entry has been prepared again, and complete
  data goes to the stack. \<open>waiting\<close> is the index of the entry when data is still missing.
\<close>

definition connectionDataArray ::
  "IConnection \<Rightarrow> nat \<Rightarrow> outputs option \<Rightarrow> nat option \<Rightarrow> IRunExecutionData \<Rightarrow> outputs" where
  "connectionDataArray c outputIndex nodeSuccessData waiting s =
     (let arr = (case (case waiting of None \<Rightarrow> None
                       | Some i \<Rightarrow> (case waiting_at s (cnode c) i of None \<Rightarrow> None | Some d \<Rightarrow> map_of d Main)) of
                   None \<Rightarrow> replicate (Suc (cindex c)) SNull
                 | Some m \<Rightarrow> m)
      in arr_set (cindex c)
           (case nodeSuccessData of None \<Rightarrow> SNull | Some out \<Rightarrow> arr_get out outputIndex) arr)"

definition keepWaiting ::
  "Workflow \<Rightarrow> IConnection \<Rightarrow> nat \<Rightarrow> string \<Rightarrow> nat \<Rightarrow> nat \<Rightarrow> outputs \<Rightarrow> IRunExecutionData \<Rightarrow>
   IRunExecutionData res" where
  "keepWaiting w c outputIndex parent runIndex i arr s =
     bindR (main_inputs (connectionsByDestinationNode w) (cnode c)) (\<lambda>inputs.
     bindR (prepareWaitingToExecution (cnode c) (length inputs) i s) (\<lambda>s.
     bindR (put_waiting (cnode c) i [(Main, arr)] s)
       (set_source_input (cnode c) i (cindex c) (SVal (source_of parent outputIndex runIndex)))))"

definition runDirectly ::
  "Workflow \<Rightarrow> IConnection \<Rightarrow> nat \<Rightarrow> string \<Rightarrow> nat \<Rightarrow> outputs \<Rightarrow> IRunExecutionData \<Rightarrow>
   IRunExecutionData res" where
  "runDirectly w c outputIndex parent runIndex arr s =
     bindR (derefR (map_of (nodes w) (cnode c))) (\<lambda>node.
       Inr (enqueue w
         \<lparr>ed_node = node, ed_data = [(Main, arr)],
          ed_source = Some [(Main, [SVal (source_of parent outputIndex runIndex)])]\<rparr> s))"

definition addNodeToBeExecuted ::
  "Workflow \<Rightarrow> IConnection \<Rightarrow> nat \<Rightarrow> string \<Rightarrow> outputs option \<Rightarrow> nat \<Rightarrow> IRunExecutionData \<Rightarrow>
   IRunExecutionData res" where
  "addNodeToBeExecuted w c outputIndex parent nodeSuccessData runIndex s =
     bindR (main_inputs (connectionsByDestinationNode w) (cnode c)) (\<lambda>inputs.
       if length inputs > 1 then
         bindR (chooseWaiting w c s) (\<lambda>(s, i, nodeWasWaiting).
         bindR (addWaitingData c outputIndex parent nodeSuccessData runIndex i s) (\<lambda>s.
         bindR (waiting_main s (cnode c) i) (\<lambda>m.
           if allDataFound m then completeWaiting w c i s
           else
             bindR (if nodeWasWaiting then Inr s
                    else forceInputs w c parent outputIndex nodeSuccessData runIndex s) (\<lambda>s.
               keepWaiting w c outputIndex parent runIndex i
                 (connectionDataArray c outputIndex nodeSuccessData (Some i) s) s))))
       else
         runDirectly w c outputIndex parent runIndex
           (connectionDataArray c outputIndex nodeSuccessData None s) s)"

section \<open>The table of waiting nodes\<close>

text \<open>
  The invariant: a node is in the table only with entries, the entries are numbered, and each of
  them still misses the data of an input.
\<close>

definition entry_ok :: "ITaskDataConnections \<Rightarrow> bool" where
  "entry_ok d = (\<exists>m. map_of d Main = Some m \<and> SNull \<in> set m)"

definition waiting_inv :: "IRunExecutionData \<Rightarrow> bool" where
  "waiting_inv s \<longleftrightarrow> wf_keys (waitingExecution s) \<and>
     (\<forall>name runs. map_of (waitingExecution s) name = Some runs \<longrightarrow>
        wf_nums runs \<and> runs \<noteq> [] \<and> (\<forall>i d. map_of runs i = Some d \<longrightarrow> entry_ok d))"

text \<open>The invariant except for one entry, which is being filled.\<close>

definition filling_inv :: "IRunExecutionData \<Rightarrow> string \<Rightarrow> nat \<Rightarrow> bool" where
  "filling_inv s name i \<longleftrightarrow> wf_keys (waitingExecution s) \<and>
     (\<forall>n runs. map_of (waitingExecution s) n = Some runs \<longrightarrow>
        wf_nums runs \<and> (n \<noteq> name \<longrightarrow> runs \<noteq> []) \<and>
        (\<forall>j d. map_of runs j = Some d \<longrightarrow> (n, j) \<noteq> (name, i) \<longrightarrow> entry_ok d))"

lemma filling_inv_weaken: "waiting_inv s \<Longrightarrow> filling_inv s name i"
  by (simp add: waiting_inv_def filling_inv_def)

lemma put_waiting_Inr:
  "put_waiting name i d s = Inr s' \<longleftrightarrow> (\<exists>runs. map_of (waitingExecution s) name = Some runs \<and>
     s' = s\<lparr>waitingExecution := obj_put name (num_put i d runs) (waitingExecution s)\<rparr>)"
  by (auto simp: put_waiting_def bindR_Inr_iff)

lemma put_source_Inr:
  "put_source name i d s = Inr s' \<Longrightarrow> \<exists>src. s' = s\<lparr>waitingExecutionSource := src\<rparr>"
  by (auto simp: put_source_def bindR_Inr_iff)

lemma set_source_input_Inr:
  "set_source_input name i k v s = Inr s' \<Longrightarrow> \<exists>src. s' = s\<lparr>waitingExecutionSource := src\<rparr>"
  by (auto simp: set_source_input_def bindR_Inr_iff dest: put_source_Inr)

lemma waiting_inv_source [simp]: "waiting_inv (s\<lparr>waitingExecutionSource := src\<rparr>) = waiting_inv s"
  by (simp add: waiting_inv_def)

lemma filling_inv_source [simp]:
  "filling_inv (s\<lparr>waitingExecutionSource := src\<rparr>) name i = filling_inv s name i"
  by (simp add: filling_inv_def)

lemma with_sources_cases: "\<exists>src. with_sources s = s\<lparr>waitingExecutionSource := src\<rparr>"
proof (cases "waitingExecutionSource s")
  case None
  then show ?thesis by (auto simp: with_sources_def)
next
  case (Some x)
  then have "with_sources s = s\<lparr>waitingExecutionSource := Some x\<rparr>" by (simp add: with_sources_def)
  then show ?thesis by blast
qed

lemma filling_inv_with_sources [simp]: "filling_inv (with_sources s) name i = filling_inv s name i"
  using with_sources_cases [of s] by (metis filling_inv_source)

lemma waiting_with_sources [simp]: "waitingExecution (with_sources s) = waitingExecution s"
  by (simp add: with_sources_def split: option.split)

lemma num_put_nonempty [simp]: "num_put i v ob \<noteq> []"
  by (cases ob) (auto split: prod.splits if_splits)

lemma filling_inv_put:
  assumes "put_waiting name i d s = Inr s'" "filling_inv s name i"
  shows "filling_inv s' name i \<and> waiting_at s' name i = Some d \<and> (entry_ok d \<longrightarrow> waiting_inv s')"
proof -
  from assms(1) obtain runs where runs: "map_of (waitingExecution s) name = Some runs"
    and s': "s' = s\<lparr>waitingExecution := obj_put name (num_put i d runs) (waitingExecution s)\<rparr>"
    by (auto simp: put_waiting_Inr)
  from assms(2) have wf: "wf_keys (waitingExecution s)" and nums: "wf_nums runs"
    and entries: "\<And>j e. map_of runs j = Some e \<Longrightarrow> j \<noteq> i \<Longrightarrow> entry_ok e"
    and others: "\<And>n rs. map_of (waitingExecution s) n = Some rs \<Longrightarrow> n \<noteq> name \<Longrightarrow>
      wf_nums rs \<and> rs \<noteq> [] \<and> (\<forall>j e. map_of rs j = Some e \<longrightarrow> entry_ok e)"
    unfolding filling_inv_def using runs by auto
  have put: "wf_nums (num_put i d runs)" "map_of (num_put i d runs) j = (if j = i then Some d else map_of runs j)" for j
    using nums by (simp_all add: jnum.wf_put jnum.look_put)
  have look: "map_of (waitingExecution s') n = (if n = name then Some (num_put i d runs) else map_of (waitingExecution s) n)" for n
    by (simp add: s')
  have wf': "wf_keys (waitingExecution s')" using wf by (simp add: s' jobj.wf_put)
  have "filling_inv s' name i"
    unfolding filling_inv_def
  proof (intro conjI allI impI wf')
    fix n rs
    assume rs: "map_of (waitingExecution s') n = Some rs"
    show "wf_nums rs" using rs look put(1) others by (cases "n = name") auto
    show "rs \<noteq> []" if "n \<noteq> name" using rs look others that by simp
    show "entry_ok e" if "map_of rs j = Some e" "(n, j) \<noteq> (name, i)" for j e
      using rs look others entries put(2) that by (cases "n = name") auto
  qed
  moreover have "waiting_at s' name i = Some d" by (simp add: waiting_at_def look put(2))
  moreover have "waiting_inv s'" if "entry_ok d"
    unfolding waiting_inv_def
  proof (intro conjI allI impI wf')
    fix n rs
    assume rs: "map_of (waitingExecution s') n = Some rs"
    show "wf_nums rs" using rs look put(1) others by (cases "n = name") auto
    show "rs \<noteq> []" using rs look others by (cases "n = name") auto
    show "entry_ok e" if "map_of rs j = Some e" for j e
      using rs look others entries put(2) that \<open>entry_ok d\<close> by (cases "n = name"; cases "j = i") auto
  qed
  ultimately show ?thesis by blast
qed

lemma remove_waiting_Inr:
  assumes "remove_waiting name i s = Inr s'"
  shows "\<exists>runs. map_of (waitingExecution s) name = Some runs \<and> waitingExecution s' =
    (if AList.delete i runs = [] then AList.delete name (waitingExecution s)
     else obj_put name (AList.delete i runs) (waitingExecution s))"
proof -
  from assms obtain runs sources source_runs where
    runs: "map_of (waitingExecution s) name = Some runs" "waitingExecutionSource s = Some sources"
      "map_of sources name = Some source_runs"
    by (auto simp: remove_waiting_def bindR_Inr_iff)
  with assms show ?thesis
    by (cases "AList.delete i runs = []") (auto simp: remove_waiting_def Let_def)
qed

lemma filling_inv_remove:
  assumes "remove_waiting name i s = Inr s'" "filling_inv s name i"
  shows "waiting_inv s'"
proof -
  from remove_waiting_Inr [OF assms(1)] obtain runs where
    runs: "map_of (waitingExecution s) name = Some runs" and
    s': "waitingExecution s' = (if AList.delete i runs = [] then AList.delete name (waitingExecution s)
      else obj_put name (AList.delete i runs) (waitingExecution s))" by blast
  from assms(2) have wf: "wf_keys (waitingExecution s)" and nums: "wf_nums runs"
    and entries: "\<And>j e. map_of runs j = Some e \<Longrightarrow> j \<noteq> i \<Longrightarrow> entry_ok e"
    and others: "\<And>n rs. map_of (waitingExecution s) n = Some rs \<Longrightarrow> n \<noteq> name \<Longrightarrow>
      wf_nums rs \<and> rs \<noteq> [] \<and> (\<forall>j e. map_of rs j = Some e \<longrightarrow> entry_ok e)"
    unfolding filling_inv_def using runs by auto
  have del: "wf_nums (AList.delete i runs)" using nums by (rule jnum.wf_del)
  have look: "map_of (waitingExecution s') n =
      (if n = name then (if AList.delete i runs = [] then None else Some (AList.delete i runs))
       else map_of (waitingExecution s) n)" for n
    by (simp add: s')
  have wf': "wf_keys (waitingExecution s')" using wf by (simp add: s' jobj.wf_put jobj.wf_del)
  show ?thesis
    unfolding waiting_inv_def
  proof (intro conjI allI impI wf')
    fix n rs
    assume rs: "map_of (waitingExecution s') n = Some rs"
    show "wf_nums rs" using rs look del others by (cases "n = name") (auto split: if_splits)
    show "rs \<noteq> []" using rs look others by (cases "n = name") (auto split: if_splits)
    show "entry_ok e" if "map_of rs j = Some e" for j e
      using rs look others entries that by (cases "n = name"; cases "j = i") (auto split: if_splits)
  qed
qed

subsection \<open>addNodeToBeExecuted keeps the invariant\<close>

lemma enqueue_waiting [simp]: "waitingExecution (enqueue w d s) = waitingExecution s"
  "waitingExecutionSource (enqueue w d s) = waitingExecutionSource s"
  "runData (enqueue w d s) = runData s"
  by (simp_all add: enqueue_def)

lemma same_waiting:
  "waitingExecution s' = waitingExecution s \<Longrightarrow>
     filling_inv s' name i = filling_inv s name i \<and> waiting_inv s' = waiting_inv s \<and>
     waiting_at s' name i = waiting_at s name i"
  by (simp add: filling_inv_def waiting_inv_def waiting_at_def)

lemma prepare_filling:
  assumes "prepareWaitingToExecution name n i s = Inr s'" "filling_inv s name i"
  shows "filling_inv s' name i \<and> waiting_at s' name i = Some [(Main, replicate n SNull)]"
proof -
  from assms(1) obtain t where
    t: "put_waiting name i [(Main, replicate n SNull)] (with_sources s) = Inr t"
      "put_source name i [(Main, replicate n SNull)] t = Inr s'"
    by (auto simp: prepareWaitingToExecution_def bindR_Inr_iff)
  have "waitingExecution s' = waitingExecution t" using put_source_Inr [OF t(2)] by auto
  moreover have "filling_inv t name i \<and> waiting_at t name i = Some [(Main, replicate n SNull)]"
    using filling_inv_put [OF t(1)] assms(2) by simp
  ultimately show ?thesis using same_waiting by metis
qed

lemma filling_inv_new:
  assumes "waiting_inv s" "map_of (waitingExecution s) name = None"
  shows "filling_inv (s\<lparr>waitingExecution := obj_put name [] (waitingExecution s),
    waitingExecutionSource := src\<rparr>) name i"
  using assms by (auto simp: waiting_inv_def filling_inv_def jobj.wf_put wf_nums_def)

lemma chooseWaiting_filling:
  assumes "chooseWaiting w c s = Inr (s', i, was)" "waiting_inv s"
  shows "filling_inv s' (cnode c) i"
proof -
  let ?s1 = "with_sources s"
  define s2 where "s2 = (if map_of (waitingExecution ?s1) (cnode c) \<noteq> None then ?s1
    else ?s1\<lparr>waitingExecution := obj_put (cnode c) [] (waitingExecution ?s1),
      waitingExecutionSource := map_option (obj_put (cnode c) []) (waitingExecutionSource ?s1)\<rparr>)"
  have inv1: "waiting_inv ?s1" using assms(2) with_sources_cases [of s] by (metis waiting_inv_source)
  have inv2: "filling_inv s2 (cnode c) j" for j
    using filling_inv_weaken [OF inv1] filling_inv_new [OF inv1] by (auto simp: s2_def)
  from assms(1) obtain runs found where
    found: "map_of (waitingExecution s2) (cnode c) = Some runs" "first_without (cindex c) runs = Inr found"
    and rest: "(case found of
             Some i \<Rightarrow> Inr (s2, i, map_of (waitingExecution ?s1) (cnode c) \<noteq> None)
           | None \<Rightarrow>
               bindR (main_inputs (connectionsByDestinationNode w) (cnode c)) (\<lambda>inputs.
               bindR (prepareWaitingToExecution (cnode c) (length inputs) (length runs) s2) (\<lambda>s3.
                 Inr (s3, length runs, map_of (waitingExecution ?s1) (cnode c) \<noteq> None)))) = Inr (s', i, was)"
    unfolding chooseWaiting_def Let_def s2_def [symmetric] by (auto simp only: bindR_Inr_iff derefR_Inr_iff)
  show ?thesis
  proof (cases found)
    case None
    with rest obtain n where
      "prepareWaitingToExecution (cnode c) n (length runs) s2 = Inr s'" "i = length runs"
      by (auto simp: bindR_Inr_iff)
    with prepare_filling inv2 show ?thesis by blast
  next
    case (Some j)
    with rest inv2 show ?thesis by simp
  qed
qed

lemma set_waiting_input_filling:
  assumes "set_waiting_input name i k v s = Inr s'" "filling_inv s name i"
  shows "filling_inv s' name i \<and> (\<exists>m. waiting_main s' name i = Inr (arr_set k v m))"
proof -
  from assms(1) obtain d m where
    d: "map_of d Main = Some m" "put_waiting name i (obj_put Main (arr_set k v m) d) s = Inr s'"
    by (auto simp: set_waiting_input_def bindR_Inr_iff)
  from filling_inv_put [OF d(2) assms(2)] show ?thesis by (auto simp: waiting_main_def)
qed

text \<open>The value that a connection carries.\<close>

definition carried :: "outputs option \<Rightarrow> nat \<Rightarrow> INodeExecutionData list slot" where
  "carried nodeSuccessData outputIndex =
     (case nodeSuccessData of None \<Rightarrow> SNull | Some out \<Rightarrow> arr_get out outputIndex)"

lemma addWaitingData_filling:
  assumes "addWaitingData c outputIndex parent data runIndex i s = Inr s'" "filling_inv s (cnode c) i"
  shows "filling_inv s' (cnode c) i \<and>
    (\<exists>m. waiting_main s' (cnode c) i = Inr (arr_set (cindex c) (carried data outputIndex) m))"
proof -
  from assms(1) obtain t src where
    t: "set_waiting_input (cnode c) i (cindex c) (carried data outputIndex) s = Inr t"
      "set_source_input (cnode c) i (cindex c) src t = Inr s'"
    by (cases data) (auto simp: addWaitingData_def carried_def bindR_Inr_iff)
  from set_source_input_Inr [OF t(2)] have w: "waitingExecution s' = waitingExecution t" by auto
  have "waiting_main s' (cnode c) i = waiting_main t (cnode c) i"
    using same_waiting [OF w] by (simp add: waiting_main_def)
  with set_waiting_input_filling [OF t(1) assms(2)] same_waiting [OF w] show ?thesis by auto
qed

lemma forceInput_waiting:
  "forceInput w parent outputIndex data runIndex outputNodes inputData s = Inr s' \<Longrightarrow>
     waitingExecution s' = waitingExecution s"
  by (auto simp: forceInput_def Let_def bindR_Inr_iff split: if_splits option.splits)

lemma forceInputs_waiting:
  assumes "forceInputs w c parent outputIndex data runIndex s = Inr s'"
  shows "waitingExecution s' = waitingExecution s"
proof -
  from assms obtain outputNodes inputs where run:
    "foldR (\<lambda>input s. bindR (derefR input) (\<lambda>cs.
        foldR (forceInput w parent outputIndex data runIndex outputNodes) cs s)) inputs s = Inr s'"
    by (auto simp: forceInputs_def bindR_Inr_iff)
  show ?thesis
  proof (rule foldR_invariant [OF run, where P = "\<lambda>t. waitingExecution t = waitingExecution s"])
    fix input u v
    assume u: "waitingExecution u = waitingExecution s"
      and "bindR (derefR input) (\<lambda>cs.
        foldR (forceInput w parent outputIndex data runIndex outputNodes) cs u) = Inr v"
    then obtain cs where "foldR (forceInput w parent outputIndex data runIndex outputNodes) cs u = Inr v"
      by (auto simp: bindR_Inr_iff)
    then show "waitingExecution v = waitingExecution s"
      by (rule foldR_invariant [where P = "\<lambda>t. waitingExecution t = waitingExecution s"])
        (use u forceInput_waiting in auto)
  qed simp
qed

lemma arr_set_idem: "arr_set k v (arr_set k v m) = arr_set k v m"
  by (auto simp: arr_set_def list_update_append)

lemma keepWaiting_inv:
  assumes "keepWaiting w c outputIndex parent runIndex i arr s = Inr s'" "filling_inv s (cnode c) i"
    and "SNull \<in> set arr"
  shows "waiting_inv s' \<and> waiting_main s' (cnode c) i = Inr arr"
proof -
  from assms(1) obtain n t u src where
    t: "prepareWaitingToExecution (cnode c) n i s = Inr t" "put_waiting (cnode c) i [(Main, arr)] t = Inr u"
      "set_source_input (cnode c) i (cindex c) src u = Inr s'"
    by (auto simp: keepWaiting_def bindR_Inr_iff)
  from prepare_filling [OF t(1) assms(2)] filling_inv_put [OF t(2)]
  have "waiting_inv u \<and> waiting_main u (cnode c) i = Inr arr"
    using assms(3) by (auto simp: entry_ok_def waiting_main_def)
  moreover have w: "waitingExecution s' = waitingExecution u" using set_source_input_Inr [OF t(3)] by auto
  ultimately show ?thesis using same_waiting [OF w] by (simp add: waiting_main_def)
qed

lemma addNodeToBeExecuted_inv:
  assumes "addNodeToBeExecuted w c outputIndex parent data runIndex s = Inr s'" "waiting_inv s"
  shows "waiting_inv s'"
proof -
  from assms(1) obtain inputs where inputs: "main_inputs (connectionsByDestinationNode w) (cnode c) = Inr inputs"
    by (auto simp: addNodeToBeExecuted_def bindR_Inr_iff)
  show ?thesis
  proof (cases "length inputs > 1")
    case False
    with assms(1) inputs have
      "runDirectly w c outputIndex parent runIndex (connectionDataArray c outputIndex data None s) s = Inr s'"
      by (simp add: addNodeToBeExecuted_def)
    then have "waitingExecution s' = waitingExecution s" by (auto simp: runDirectly_def bindR_Inr_iff)
    then show ?thesis using assms(2) same_waiting by blast
  next
    case True
    with assms(1) inputs obtain t i was u m where
      t: "chooseWaiting w c s = Inr (t, i, was)" and
      u: "addWaitingData c outputIndex parent data runIndex i t = Inr u" and
      m: "waiting_main u (cnode c) i = Inr m" and
      rest: "(if allDataFound m then completeWaiting w c i u
           else bindR (if was then Inr u else forceInputs w c parent outputIndex data runIndex u) (\<lambda>s.
               keepWaiting w c outputIndex parent runIndex i
                 (connectionDataArray c outputIndex data (Some i) s) s)) = Inr s'"
      by (auto simp: addNodeToBeExecuted_def bindR_Inr_iff)
    have fill: "filling_inv u (cnode c) i" and arr: "\<exists>m0. m = arr_set (cindex c) (carried data outputIndex) m0"
      using addWaitingData_filling [OF u chooseWaiting_filling [OF t assms(2)]] m by auto
    show ?thesis
    proof (cases "allDataFound m")
      case True
      with rest obtain d node where
        "remove_waiting (cnode c) i (enqueue w \<lparr>ed_node = node, ed_data = d,
          ed_source = source_at u (cnode c) i\<rparr> u) = Inr s'"
        by (auto simp: completeWaiting_def bindR_Inr_iff)
      then show ?thesis
        by (rule filling_inv_remove) (use fill same_waiting enqueue_waiting(1) in blast)
    next
      case False
      with rest obtain v where
        v: "(if was then Inr u else forceInputs w c parent outputIndex data runIndex u) = Inr v" and
        keep: "keepWaiting w c outputIndex parent runIndex i
          (connectionDataArray c outputIndex data (Some i) v) v = Inr s'"
        by (auto simp: bindR_Inr_iff)
      have same: "waitingExecution v = waitingExecution u"
        using v forceInputs_waiting by (auto split: if_splits)
      have "waiting_main v (cnode c) i = Inr m"
        using m same_waiting [OF same] by (simp add: waiting_main_def)
      then have "connectionDataArray c outputIndex data (Some i) v = arr_set (cindex c) (carried data outputIndex) m"
        by (auto simp: connectionDataArray_def carried_def waiting_main_def bindR_Inr_iff Let_def)
      then have "connectionDataArray c outputIndex data (Some i) v = m" using arr arr_set_idem by metis
      moreover have "SNull \<in> set m" using False by (auto simp: allDataFound_def list_all_iff)
      moreover have "filling_inv v (cnode c) i" using fill same_waiting [OF same] by blast
      ultimately show ?thesis using keepWaiting_inv [OF keep] by simp
    qed
  qed
qed

section \<open>What is delivered is kept\<close>

definition stack_within :: "IRunExecutionData \<Rightarrow> IRunExecutionData \<Rightarrow> bool" where
  "stack_within s s' \<longleftrightarrow> set (nodeExecutionStack s) \<subseteq> set (nodeExecutionStack s')"

lemma stack_within_trans: "stack_within s t \<Longrightarrow> stack_within t u \<Longrightarrow> stack_within s u"
  by (auto simp: stack_within_def)

lemma stack_within_enqueue: "stack_within s (enqueue w d s)"
  by (auto simp: stack_within_def enqueue_def)

lemma stack_within_same: "nodeExecutionStack s' = nodeExecutionStack s \<Longrightarrow> stack_within s s'"
  by (simp add: stack_within_def)

lemma stack_put_waiting: "put_waiting name i d s = Inr s' \<Longrightarrow> nodeExecutionStack s' = nodeExecutionStack s"
  by (auto simp: put_waiting_Inr)

lemma stack_put_source: "put_source name i d s = Inr s' \<Longrightarrow> nodeExecutionStack s' = nodeExecutionStack s"
  by (auto dest: put_source_Inr)

lemma stack_set_source: "set_source_input name i k v s = Inr s' \<Longrightarrow> nodeExecutionStack s' = nodeExecutionStack s"
  by (auto dest: set_source_input_Inr)

lemma stack_set_waiting: "set_waiting_input name i k v s = Inr s' \<Longrightarrow> nodeExecutionStack s' = nodeExecutionStack s"
  by (auto simp: set_waiting_input_def bindR_Inr_iff dest: stack_put_waiting)

lemma stack_with_sources [simp]: "nodeExecutionStack (with_sources s) = nodeExecutionStack s"
  by (simp add: with_sources_def split: option.split)

lemma stack_prepare:
  "prepareWaitingToExecution name n i s = Inr s' \<Longrightarrow> nodeExecutionStack s' = nodeExecutionStack s"
  by (auto simp: prepareWaitingToExecution_def bindR_Inr_iff dest!: stack_put_waiting stack_put_source)

lemma stack_choose: "chooseWaiting w c s = Inr (s', i, was) \<Longrightarrow> nodeExecutionStack s' = nodeExecutionStack s"
  by (auto simp: chooseWaiting_def Let_def bindR_Inr_iff split: option.splits if_splits dest!: stack_prepare)

lemma stack_addData:
  "addWaitingData c outputIndex parent data runIndex i s = Inr s' \<Longrightarrow>
     nodeExecutionStack s' = nodeExecutionStack s"
  by (cases data)
    (auto simp: addWaitingData_def bindR_Inr_iff dest!: stack_set_waiting stack_set_source)

lemma stack_keep:
  "keepWaiting w c outputIndex parent runIndex i arr s = Inr s' \<Longrightarrow>
     nodeExecutionStack s' = nodeExecutionStack s"
  by (auto simp: keepWaiting_def bindR_Inr_iff dest!: stack_prepare stack_put_waiting stack_set_source)

lemma stack_remove:
  assumes "remove_waiting name i s = Inr s'"
  shows "nodeExecutionStack s' = nodeExecutionStack s"
proof -
  from assms obtain runs sources source_runs where
    "map_of (waitingExecution s) name = Some runs" "waitingExecutionSource s = Some sources"
      "map_of sources name = Some source_runs"
    by (auto simp: remove_waiting_def bindR_Inr_iff)
  with assms show ?thesis
    by (cases "AList.delete i runs = []") (auto simp: remove_waiting_def Let_def)
qed

lemma stack_forceInput:
  "forceInput w parent outputIndex data runIndex outputNodes inputData s = Inr s' \<Longrightarrow> stack_within s s'"
  by (auto simp: forceInput_def Let_def bindR_Inr_iff stack_within_enqueue stack_within_same
      split: if_splits option.splits)

lemma stack_forceInputs:
  assumes "forceInputs w c parent outputIndex data runIndex s = Inr s'"
  shows "stack_within s s'"
proof -
  from assms obtain outputNodes inputs where run:
    "foldR (\<lambda>input s. bindR (derefR input) (\<lambda>cs.
        foldR (forceInput w parent outputIndex data runIndex outputNodes) cs s)) inputs s = Inr s'"
    by (auto simp: forceInputs_def bindR_Inr_iff)
  show ?thesis
  proof (rule foldR_invariant [OF run, where P = "stack_within s"])
    fix input u v
    assume u: "stack_within s u"
      and "bindR (derefR input) (\<lambda>cs.
        foldR (forceInput w parent outputIndex data runIndex outputNodes) cs u) = Inr v"
    then obtain cs where "foldR (forceInput w parent outputIndex data runIndex outputNodes) cs u = Inr v"
      by (auto simp: bindR_Inr_iff)
    then show "stack_within s v"
      by (rule foldR_invariant [where P = "stack_within s"])
        (use u stack_forceInput stack_within_trans in blast)+
  qed (simp add: stack_within_def)
qed

lemma arr_get_arr_set [simp]: "arr_get (arr_set k v m) k = slot_read v"
  by (simp add: arr_get_set)

lemma slot_read_carried [simp]: "slot_read (carried data k) = carried data k"
  by (simp add: carried_def split: option.split)

lemma addNodeToBeExecuted_delivers:
  assumes "addNodeToBeExecuted w c outputIndex parent data runIndex s = Inr s'" "waiting_inv s"
  shows "stack_within s s' \<and>
    ((\<exists>i m. waiting_main s' (cnode c) i = Inr m \<and> arr_get m (cindex c) = carried data outputIndex) \<or>
     (\<exists>d m. d \<in> set (nodeExecutionStack s') \<and> map_of (nodes w) (cnode c) = Some (ed_node d) \<and>
        map_of (ed_data d) Main = Some m \<and> arr_get m (cindex c) = carried data outputIndex))"
proof -
  let ?v = "carried data outputIndex"
  from assms(1) obtain inputs where inputs: "main_inputs (connectionsByDestinationNode w) (cnode c) = Inr inputs"
    by (auto simp: addNodeToBeExecuted_def bindR_Inr_iff)
  show ?thesis
  proof (cases "length inputs > 1")
    case False
    let ?arr = "connectionDataArray c outputIndex data None s"
    from False assms(1) inputs have
      "runDirectly w c outputIndex parent runIndex ?arr s = Inr s'"
      by (simp add: addNodeToBeExecuted_def)
    then obtain node where node: "map_of (nodes w) (cnode c) = Some node" and
      s': "s' = enqueue w \<lparr>ed_node = node, ed_data = [(Main, ?arr)],
          ed_source = Some [(Main, [SVal (source_of parent outputIndex runIndex)])]\<rparr> s"
      by (auto simp: runDirectly_def bindR_Inr_iff)
    have "arr_get ?arr (cindex c) = ?v" by (simp add: connectionDataArray_def carried_def Let_def split: option.split)
    with node s' stack_within_enqueue show ?thesis
      by (intro conjI disjI2) (auto simp: enqueue_def)
  next
    case True
    with assms(1) inputs obtain t i was u m where
      t: "chooseWaiting w c s = Inr (t, i, was)" and
      u: "addWaitingData c outputIndex parent data runIndex i t = Inr u" and
      m: "waiting_main u (cnode c) i = Inr m" and
      rest: "(if allDataFound m then completeWaiting w c i u
           else bindR (if was then Inr u else forceInputs w c parent outputIndex data runIndex u) (\<lambda>s.
               keepWaiting w c outputIndex parent runIndex i
                 (connectionDataArray c outputIndex data (Some i) s) s)) = Inr s'"
      by (auto simp: addNodeToBeExecuted_def bindR_Inr_iff)
    have su: "stack_within s u" using stack_choose [OF t] stack_addData [OF u] by (simp add: stack_within_def)
    have fill: "filling_inv u (cnode c) i" and get: "arr_get m (cindex c) = ?v"
      using addWaitingData_filling [OF u chooseWaiting_filling [OF t assms(2)]] m by auto
    show ?thesis
    proof (cases "allDataFound m")
      case True
      with rest obtain d node where
        d: "waiting_at u (cnode c) i = Some d" "map_of (nodes w) (cnode c) = Some node" and
        rem: "remove_waiting (cnode c) i (enqueue w \<lparr>ed_node = node, ed_data = d,
          ed_source = source_at u (cnode c) i\<rparr> u) = Inr s'"
        by (auto simp: completeWaiting_def bindR_Inr_iff)
      have "map_of d Main = Some m" using m d by (simp add: waiting_main_def)
      moreover have "nodeExecutionStack s' = nodeExecutionStack (enqueue w \<lparr>ed_node = node, ed_data = d,
          ed_source = source_at u (cnode c) i\<rparr> u)" by (rule stack_remove [OF rem])
      ultimately show ?thesis using su d get
        by (intro conjI disjI2) (auto simp: enqueue_def stack_within_def)
    next
      case False
      with rest obtain v where
        v: "(if was then Inr u else forceInputs w c parent outputIndex data runIndex u) = Inr v" and
        keep: "keepWaiting w c outputIndex parent runIndex i
          (connectionDataArray c outputIndex data (Some i) v) v = Inr s'"
        by (auto simp: bindR_Inr_iff)
      have sv: "stack_within s v"
        using v su stack_forceInputs stack_within_trans by (auto split: if_splits)
      have same: "waitingExecution v = waitingExecution u"
        using v forceInputs_waiting by (auto split: if_splits)
      have "waiting_main v (cnode c) i = Inr m"
        using m same_waiting [OF same] by (simp add: waiting_main_def)
      then have arr: "connectionDataArray c outputIndex data (Some i) v = arr_set (cindex c) ?v m"
        by (auto simp: connectionDataArray_def carried_def waiting_main_def bindR_Inr_iff Let_def)
      have "\<exists>m0. m = arr_set (cindex c) ?v m0"
        using addWaitingData_filling [OF u chooseWaiting_filling [OF t assms(2)]] m by auto
      with arr have arr': "connectionDataArray c outputIndex data (Some i) v = m" using arr_set_idem by metis
      have "SNull \<in> set m" using False by (auto simp: allDataFound_def list_all_iff)
      moreover have "filling_inv v (cnode c) i" using fill same_waiting [OF same] by blast
      ultimately have "waiting_main s' (cnode c) i = Inr m" using keepWaiting_inv [OF keep] arr' by simp
      moreover have "stack_within s s'" using sv stack_keep [OF keep] by (simp add: stack_within_def)
      ultimately show ?thesis using get by blast
    qed
  qed
qed

section \<open>Properties\<close>

definition merge_connections :: "string list \<Rightarrow> IConnections" where
  "merge_connections sources =
     map (\<lambda>(i, s). (s, [(Main, [Some [\<lparr>cnode = ''M'', ctype = Main, cindex = i\<rparr>]])])) (enumerate 0 sources)"

definition merge_workflow :: "string list \<Rightarrow> Workflow" where
  "merge_workflow sources =
     \<lparr>wf_id = None, wf_name = None,
      nodes = (''M'', plain_node 0 ''M'' ''merge'') #
        map (\<lambda>(i, s). (s, plain_node (Suc i) s ''set'')) (enumerate 0 sources),
      connectionsBySourceNode = merge_connections sources,
      connectionsByDestinationNode = getConnectionsByDestination (merge_connections sources),
      nodeTypes = (\<lambda>_ _. Some (sample_type False [Main])), active = False,
      executionOrder = Some ''v1'', staticData = [], testStaticData = None, wf_pinData = None\<rparr>"

definition start_state :: IRunExecutionData where
  "start_state = fresh_run \<lparr>sd_destinationNode = None, sd_runNodeFilter = None\<rparr> [] None [] [] []"

definition item :: "string \<Rightarrow> INodeExecutionData" where
  "item s = \<lparr>json = [(''v'', JStr s)], item_error = JUndef, pairedItem = None\<rparr>"

text \<open>\<open>deliver sources k r x\<close>: run \<open>r\<close> of the \<open>k\<close>-th source delivers the item \<open>x\<close> to the merge node.\<close>

definition deliver ::
  "string list \<Rightarrow> nat \<Rightarrow> nat \<Rightarrow> string \<Rightarrow> IRunExecutionData \<Rightarrow> IRunExecutionData res" where
  "deliver sources k r x s =
     addNodeToBeExecuted (merge_workflow sources) \<lparr>cnode = ''M'', ctype = Main, cindex = k\<rparr> 0
       (sources ! k) (Some [SVal [item x]]) r s"

text \<open>With three inputs the source of the first is lost. Each delivery that leaves the entry
  incomplete prepares it again, which clears the sources recorded before; when the third input
  arrives, the node runs with the data of all three inputs but without the source of the first.\<close>

theorem third_input_loses_source:
  "bindR (deliver [''A'', ''B'', ''C''] 0 0 ''a'' start_state) (\<lambda>s.
   bindR (deliver [''A'', ''B'', ''C''] 1 0 ''b'' s) (\<lambda>s.
   bindR (deliver [''A'', ''B'', ''C''] 2 0 ''c'' s) (\<lambda>s.
     Inr (map (\<lambda>d. (nodeName (ed_node d), ed_data d, ed_source d)) (nodeExecutionStack s))))) =
   Inr [(''M'', [(Main, [SVal [item ''a''], SVal [item ''b''], SVal [item ''c'']])],
     Some [(Main, [SNull, SVal (source_of ''B'' 0 0), SVal (source_of ''C'' 0 0)])])]"
  by code_simp

text \<open>A new entry is numbered by how many entries there are, so it can replace one that is still
  waiting. A delivers twice and B once: the first entry is complete and leaves, the second keeps
  number 1. When A delivers again, the number of entries is 1, and the second item of A is gone:
  it is neither waiting nor on the stack.\<close>

theorem new_entry_overwrites_waiting:
  "bindR (deliver [''A'', ''B''] 0 0 ''a0'' start_state) (\<lambda>s.
   bindR (deliver [''A'', ''B''] 0 1 ''a1'' s) (\<lambda>s.
   bindR (deliver [''A'', ''B''] 1 0 ''b0'' s) (\<lambda>s.
   bindR (deliver [''A'', ''B''] 0 2 ''a2'' s) (\<lambda>s.
     Inr (waitingExecution s, map ed_data (nodeExecutionStack s)))))) =
   Inr ([(''M'', [(1, [(Main, [SVal [item ''a2''], SNull])])])],
     [[(Main, [SVal [item ''a0''], SVal [item ''b0'']])]])"
  by code_simp

text \<open>C9: what a connection delivers is kept: after \<open>addNodeToBeExecuted\<close> the data of the output is
  the data of its input either in a waiting entry of the connected node or in an item for that node
  on the stack; and nothing that was on the stack is taken off.\<close>

theorem delivered_data_is_kept:
  assumes "addNodeToBeExecuted w c outputIndex parent (Some out) runIndex s = Inr s'" "waiting_inv s"
  shows "set (nodeExecutionStack s) \<subseteq> set (nodeExecutionStack s') \<and>
    ((\<exists>i m. waiting_main s' (cnode c) i = Inr m \<and> arr_get m (cindex c) = arr_get out outputIndex) \<or>
     (\<exists>d m. d \<in> set (nodeExecutionStack s') \<and> map_of (nodes w) (cnode c) = Some (ed_node d) \<and>
        map_of (ed_data d) Main = Some m \<and> arr_get m (cindex c) = arr_get out outputIndex))"
  using addNodeToBeExecuted_delivers [OF assms] by (simp add: carried_def stack_within_def)

theorem delivered_data_is_kept_witness:
  "\<exists>s. deliver [''A'', ''B''] 0 0 ''x'' start_state = Inr s \<and>
     ((\<exists>i m. waiting_main s ''M'' i = Inr m \<and> arr_get m 0 = SVal [item ''x'']) \<or>
      (\<exists>d m. d \<in> set (nodeExecutionStack s) \<and> map_of (ed_data d) Main = Some m \<and>
         arr_get m 0 = SVal [item ''x'']))"
proof -
  have inv: "waiting_inv start_state" by (simp add: waiting_inv_def start_state_def fresh_run_def wf_keys_def)
  have "case deliver [''A'', ''B''] 0 0 ''x'' start_state of Inl _ \<Rightarrow> False | Inr _ \<Rightarrow> True"
    by code_simp
  then obtain s where s: "deliver [''A'', ''B''] 0 0 ''x'' start_state = Inr s"
    by (cases "deliver [''A'', ''B''] 0 0 ''x'' start_state") simp_all
  have "arr_get [SVal [item ''x'']] 0 = SVal [item ''x'']" by (simp add: arr_get_def)
  with delivered_data_is_kept [OF s [unfolded deliver_def] inv] s show ?thesis by auto
qed

end
