(* ===== verification/NodeAttempt.thy ===== *)
theory NodeAttempt
  imports WorkflowRun ExecutionQueue
begin

text \<open>
  One node of the execution loop of \<open>packages/core/src/WorkflowExecute.ts\<close>: preparing its input,
  the retry loop around \<open>runNode\<close>, and what is done to the data it returns: routing error items
  to the error output, completing \<open>pairedItem\<close>, \<open>alwaysOutputData\<close>. The values of the local
  variables of the loop (\<open>nodeSuccessData\<close>, \<open>tryIndex\<close>, \<open>executionError\<close>) are passed on explicitly.
\<close>

section \<open>The environment\<close>

text \<open>
  What lies outside an iteration of the loop: the mode, the answers of the node (by the number of
  the attempt), the time until which the node asks to wait, the data proxy that finds the input
  item of an item, whether the execution has been cancelled or has timed out when the iteration
  begins, and the hooks that fail.
\<close>

datatype Hook = WorkflowExecuteBefore | NodeExecuteBefore string | NodeExecuteAfter string | WorkflowExecuteAfter

record Env =
  env_mode :: string
  env_perform :: "nat \<Rightarrow> NodeCall \<Rightarrow> answer"
  env_waitTill :: "nat \<Rightarrow> IExecuteData \<Rightarrow> nat option"
  env_pairedItem :: "ISourceData \<Rightarrow> IPairedItemData \<Rightarrow> INodeExecutionData option res"
  env_stopped :: bool
  env_hook :: "Hook \<Rightarrow> js_error option"

section \<open>The input of the node\<close>

definition pair_item :: "nat \<Rightarrow> nat \<Rightarrow> INodeExecutionData \<Rightarrow> INodeExecutionData" where
  "pair_item inputIndex itemIndex i =
     i\<lparr>pairedItem := Some (PairedOne \<lparr>pi_item = itemIndex, pi_input = or_undefined inputIndex, pi_sourceOverwrite = None\<rparr>)\<rparr>"

text \<open>\<open>input.map\<close> throws where an input is \<open>undefined\<close> instead of \<open>null\<close>.\<close>

definition undefinedInput :: "ITaskDataConnections \<Rightarrow> bool" where
  "undefinedInput data = list_ex (\<lambda>(inputName, inputs). SUndef \<in> set inputs) data"

text \<open>\<open>newTaskDataConnections\<close>: every item is paired with itself; \<open>null\<close> inputs and holes stay.\<close>

definition pairInput :: "ITaskDataConnections \<Rightarrow> ITaskDataConnections" where
  "pairInput data =
     map (\<lambda>(inputName, inputs).
       (inputName, map (\<lambda>(inputIndex, input).
          case input of
            SVal items \<Rightarrow> SVal (map (\<lambda>(itemIndex, i). pair_item inputIndex itemIndex i) (enumerate 0 items))
          | other \<Rightarrow> other) (enumerate 0 inputs))) data"

text \<open>
  Whether all inputs that need data have it. The comparison with the length of the array is the one
  of the source: it lets an array through that ends just before the input.
\<close>

fun checkInputs :: "Workflow \<Rightarrow> IExecuteData \<Rightarrow> nat list \<Rightarrow> bool res" where
  "checkInputs w d [] = Inr True"
| "checkInputs w d (connectionIndex # ks) =
     bindR (getHighestNode w (nodeName (ed_node d)) Main (Some connectionIndex)) (\<lambda>highest.
       if highest = [] then checkInputs w d ks
       else case map_of (ed_data d) Main of
         None \<Rightarrow> Inr False
       | Some m \<Rightarrow>
           if forceInputNodeExecution w \<and>
              (length m < connectionIndex \<or> arr_get m connectionIndex = SNull) then Inr False
           else checkInputs w d ks)"

definition inputsReady :: "Workflow \<Rightarrow> IExecuteData \<Rightarrow> bool res" where
  "inputsReady w d =
     (case arr_of (connectionsByDestinationNode w) (nodeName (ed_node d)) Main of
        None \<Rightarrow> Inr True
      | Some inputConnections \<Rightarrow> checkInputs w d [0..<length inputConnections])"

definition maxTriesOf :: "INode \<Rightarrow> nat" where
  "maxTriesOf node =
     (if retryOnFail node = Some True then
        nat (min 5 (max 2 (case maxTries node of None \<Rightarrow> 3 | Some n \<Rightarrow> if n = 0 then 3 else n)))
      else 1)"

definition waitBetween :: "INode \<Rightarrow> nat" where
  "waitBetween node =
     (if retryOnFail node = Some True then
        nat (min 5000 (max 0 (case waitBetweenTries node of None \<Rightarrow> 1000 | Some n \<Rightarrow> if n = 0 then 1000 else n)))
      else 0)"

section \<open>The error output\<close>

text \<open>The error an item carries (falsy if none), and the item, whose \<open>error\<close> property is cleared.\<close>

definition errorOfItem :: "INodeExecutionData \<Rightarrow> jsval \<times> INodeExecutionData" where
  "errorOfItem i =
     (if js_truthy (item_error i) then (item_error i, i\<lparr>item_error := JUndef\<rparr>)
      else if js_truthy (obj_read (json i) ''error'') \<and> length (json i) = 1 then
        (obj_read (json i) ''error'', i)
      else if js_truthy (obj_read (json i) ''error'') \<and> js_truthy (obj_read (json i) ''message'') \<and>
              length (json i) = 2 then
        (obj_read (json i) ''error'', i)
      else (JUndef, i))"

definition pairedItemData :: "INodeExecutionData \<Rightarrow> IPairedItemData option" where
  "pairedItemData i =
     (case pairedItem i of
        None \<Rightarrow> None
      | Some (PairedNumber _) \<Rightarrow> None
      | Some (PairedOne p) \<Rightarrow> Some p
      | Some (PairedMany ps) \<Rightarrow> (case ps of [] \<Rightarrow> None | p # _ \<Rightarrow> Some p))"

text \<open>An item with an error, with the data of the input item it came from, when that is known.\<close>

definition errorItem :: "Env \<Rightarrow> IExecuteData \<Rightarrow> INodeExecutionData \<Rightarrow> INodeExecutionData res" where
  "errorItem env d i =
     (case ed_source d of
        None \<Rightarrow> Inr i
      | Some source \<Rightarrow>
          (case pairedItemData i of
             None \<Rightarrow> Inr i
           | Some p \<Rightarrow>
               bindR (derefR (map_of source Main)) (\<lambda>sources.
               case arr_get sources (case pi_input p of None \<Rightarrow> 0 | Some k \<Rightarrow> k) of
                 SVal sourceData \<Rightarrow>
                   bindR (env_pairedItem env sourceData p) (\<lambda>constPairedItem.
                     case constPairedItem of
                       None \<Rightarrow> Inr i
                     | Some c \<Rightarrow> Inr (i\<lparr>json := spread (json c) (json i)\<rparr>))
               | _ \<Rightarrow> Inl TypeError)))"

text \<open>
  The items of one output, taken from its end: those without an error stay, the others go to the
  error items.
\<close>

definition routeItem ::
  "Env \<Rightarrow> IExecuteData \<Rightarrow> INodeExecutionData \<Rightarrow> INodeExecutionData list \<times> INodeExecutionData list \<Rightarrow>
   (INodeExecutionData list \<times> INodeExecutionData list) res" where
  "routeItem env d i = (\<lambda>(successItems, errorItems).
     let (errorData, i) = errorOfItem i in
     if js_truthy errorData then
       bindR (errorItem env d i) (\<lambda>e. Inr (successItems, errorItems @ [e]))
     else Inr (successItems @ [i], errorItems))"

definition routeItems ::
  "Env \<Rightarrow> IExecuteData \<Rightarrow> INodeExecutionData list \<Rightarrow> INodeExecutionData list \<Rightarrow>
   (INodeExecutionData list \<times> INodeExecutionData list) res" where
  "routeItems env d items errorItems = foldR (routeItem env d) (rev items) ([], errorItems)"

definition items_at :: "outputs \<Rightarrow> nat \<Rightarrow> INodeExecutionData list" where
  "items_at out k = (case arr_get out k of SVal items \<Rightarrow> items | _ \<Rightarrow> [])"

definition routeOutput ::
  "Env \<Rightarrow> IExecuteData \<Rightarrow> nat \<Rightarrow> outputs \<times> INodeExecutionData list \<Rightarrow>
   (outputs \<times> INodeExecutionData list) res" where
  "routeOutput env d outputIndex = (\<lambda>(out, errorItems).
     bindR (routeItems env d (items_at out outputIndex) errorItems) (\<lambda>(successItems, errorItems).
       Inr (arr_set outputIndex (SVal successItems) out, errorItems)))"

text \<open>
  \<open>mainOutputs\<close> counts the error output, so it is at least one. The arrays of the outputs are taken to be
  arrays of their own: \<open>pop\<close> also empties the input of the node, or another output, if it is the same array.
\<close>

definition routeOutputs :: "Env \<Rightarrow> IExecuteData \<Rightarrow> nat \<Rightarrow> outputs \<Rightarrow> outputs res" where
  "routeOutputs env d mainOutputs out =
     bindR (foldR (routeOutput env d) [0..<mainOutputs - 1] (out, []))
       (\<lambda>(out, errorItems). Inr (arr_set (mainOutputs - 1) (SVal errorItems) out))"

definition errorOutput :: "Env \<Rightarrow> Workflow \<Rightarrow> IExecuteData \<Rightarrow> outputs \<Rightarrow> outputs res" where
  "errorOutput env w d out =
     (if onError (ed_node d) = Some ContinueErrorOutput then
        bindR (derefR (nodeTypes w (ntype (ed_node d)) (typeVersion (ed_node d)))) (\<lambda>nodeType.
          routeOutputs env d (length (filter (\<lambda>t. t = Main) (getNodeOutputs (ed_node d) nodeType))) out)
      else Inr out)"

section \<open>Completing pairedItem\<close>

text \<open>The items of one output, and whether the loop over all outputs was left.\<close>

fun fixItems ::
  "bool \<Rightarrow> bool \<Rightarrow> nat \<Rightarrow> INodeExecutionData list \<Rightarrow> INodeExecutionData list \<times> bool" where
  "fixItems single same index [] = ([], False)"
| "fixItems single same index (i # items) =
     (if pairedItem i = None \<and> \<not> single \<and> \<not> same then (i # items, True)
      else
        let i' = (if pairedItem i \<noteq> None then i
                  else i\<lparr>pairedItem := Some (PairedOne
                    \<lparr>pi_item = (if single then 0 else index), pi_input = None, pi_sourceOverwrite = None\<rparr>)\<rparr>);
            (items', left) = fixItems single same (Suc index) items
        in (i' # items', left))"

fun fixOutputs :: "bool \<Rightarrow> bool \<Rightarrow> outputs \<Rightarrow> outputs res" where
  "fixOutputs single same [] = Inr []"
| "fixOutputs single same (SNull # out) = bindR (fixOutputs single same out) (\<lambda>out'. Inr (SNull # out'))"
| "fixOutputs single same (SUndef # out) = Inl TypeError"
| "fixOutputs single same (SHole # out) = Inl TypeError"
| "fixOutputs single same (SVal items # out) =
     (case fixItems single same 0 items of
        (items', left) \<Rightarrow>
          if left then Inr (SVal items' # out)
          else bindR (fixOutputs single same out) (\<lambda>out'. Inr (SVal items' # out')))"

definition slot_length :: "'a list slot \<Rightarrow> nat option" where
  "slot_length v = map_option length (slot_list v)"

definition fixPairedItems :: "IExecuteData \<Rightarrow> outputs \<Rightarrow> outputs res" where
  "fixPairedItems d out =
     (if out = [] then Inr out
      else bindR (derefR (map_of (ed_data d) Main)) (\<lambda>m.
        let single = (length m = 1 \<and> slot_length (arr_get m 0) = Some 1) in
        bindR (if length out = 1 \<and> length m = 1 then
                 bindR (derefR (slot_length (arr_get out 0))) (\<lambda>n. Inr (slot_length (arr_get m 0) = Some n))
               else Inr False) (\<lambda>same. fixOutputs single same out)))"

section \<open>alwaysOutputData\<close>

definition pairedWithAll :: "outputs \<Rightarrow> IPairedItemData list" where
  "pairedWithAll m =
     concat (map (\<lambda>(inputIndex, inputData).
       case inputData of
         SVal items \<Rightarrow> map (\<lambda>itemIndex. \<lparr>pi_item = itemIndex, pi_input = Some inputIndex, pi_sourceOverwrite = None\<rparr>) [0..<length items]
       | _ \<Rightarrow> []) (enumerate 0 m))"

text \<open>
  \<open>nodeSuccessData === null || nodeSuccessData[0][0] === undefined\<close>: reading the first output of
  an array that does not have it throws.
\<close>

definition noFirstItem :: "outputs option \<Rightarrow> bool res" where
  "noFirstItem nodeSuccessData =
     (case nodeSuccessData of
        None \<Rightarrow> Inr True
      | Some out \<Rightarrow> (case arr_get out 0 of SVal items \<Rightarrow> Inr (items = []) | _ \<Rightarrow> Inl TypeError))"

definition alwaysOutput :: "IExecuteData \<Rightarrow> outputs option \<Rightarrow> outputs option res" where
  "alwaysOutput d nodeSuccessData =
     bindR (noFirstItem nodeSuccessData) (\<lambda>empty.
       if empty \<and> alwaysOutputData (ed_node d) = Some True then
         bindR (derefR (map_of (ed_data d) Main)) (\<lambda>m.
           Inr (Some (arr_set 0
             (SVal [empty_item\<lparr>pairedItem := Some (PairedMany (pairedWithAll m))\<rparr>])
             (case nodeSuccessData of None \<Rightarrow> [] | Some out \<Rightarrow> out))))
       else Inr nodeSuccessData)"

section \<open>One attempt\<close>

text \<open>
  The local variables: \<open>nodeSuccessData\<close> (\<open>undefined\<close>, \<open>null\<close> or data), the counter of the loop,
  the execution state. The attempt ends with an error, with \<open>continue executionLoop\<close> (\<open>Skip\<close>), or
  with \<open>break\<close> (\<open>Done\<close>).
\<close>

datatype AttemptEnd = Failed js_error | Skip | Done

record Attempt =
  at_data :: "outputs slot"
  at_index :: nat
  at_state :: IRunExecutionData
  at_end :: AttemptEnd

definition hasErrorItem :: "outputs slot \<Rightarrow> bool" where
  "hasErrorItem nodeSuccessData =
     (case nodeSuccessData of
        SVal out \<Rightarrow>
          (case arr_get out 0 of
             SVal (i # _) \<Rightarrow> obj_read (json i) ''error'' \<noteq> JUndef
           | _ \<Rightarrow> False)
      | _ \<Rightarrow> False)"

definition asked_to_wait :: "Env \<Rightarrow> nat \<Rightarrow> IExecuteData \<Rightarrow> IRunExecutionData \<Rightarrow> IRunExecutionData" where
  "asked_to_wait env tryIndex d s =
     (case env_waitTill env tryIndex d of None \<Rightarrow> s | Some t \<Rightarrow> s\<lparr>waitTill := Some t\<rparr>)"

text \<open>The repeated runs of a node that continued on failure; their data is not kept.\<close>

fun rerun ::
  "(nat \<Rightarrow> answer) \<Rightarrow> (nat \<Rightarrow> IRunExecutionData \<Rightarrow> IRunExecutionData) \<Rightarrow> nat \<Rightarrow> nat \<Rightarrow>
   IRunExecutionData \<Rightarrow> nat \<times> js_error option \<times> IRunExecutionData" where
  "rerun run asks tryIndex 0 s = (tryIndex, None, s)"
| "rerun run asks tryIndex (Suc left) s =
     (case run (Suc tryIndex) of
        Inl e \<Rightarrow> (tryIndex, Some e, asks (Suc tryIndex) s)
      | Inr _ \<Rightarrow> rerun run asks (Suc tryIndex) left (asks (Suc tryIndex) s))"

lemma rerun_index: "rerun run asks tryIndex left s = (t, r) \<Longrightarrow> tryIndex \<le> t \<and> t \<le> tryIndex + left"
  by (induction run asks tryIndex left s rule: rerun.induct) (fastforce split: sum.splits)+

text \<open>Everything after the node has answered with \<open>data\<close>.\<close>

definition afterRun ::
  "IExecuteData \<Rightarrow> nat \<Rightarrow> outputs slot \<Rightarrow> IRunExecutionData \<Rightarrow> Attempt" where
  "afterRun d tryIndex nsd s =
     (let fixed = (case nsd of SVal out \<Rightarrow> bindR (fixPairedItems d out) (\<lambda>out. Inr (SVal out))
                   | other \<Rightarrow> Inr other) in
      case fixed of
        Inl e \<Rightarrow> \<lparr>at_data = nsd, at_index = tryIndex, at_state = s, at_end = Failed e\<rparr>
      | Inr nsd \<Rightarrow>
          let s = (if nsd = SUndef then s else s\<lparr>lastNodeExecuted := Some (nodeName (ed_node d))\<rparr>) in
          (case alwaysOutput d (slot_list nsd) of
             Inl e \<Rightarrow> \<lparr>at_data = (if nsd = SUndef then SNull else nsd), at_index = tryIndex, at_state = s,
               at_end = Failed e\<rparr>
           | Inr None \<Rightarrow> \<lparr>at_data = SNull, at_index = tryIndex, at_state = s,
               at_end = (if waitTill s = None then Skip else Done)\<rparr>
           | Inr (Some out) \<Rightarrow> \<lparr>at_data = SVal out, at_index = tryIndex, at_state = s, at_end = Done\<rparr>))"

text \<open>The pinned data of the node, unless the node is disabled.\<close>

definition pinnedData :: "IRunExecutionData \<Rightarrow> INode \<Rightarrow> INodeExecutionData list option" where
  "pinnedData s node =
     (case pinData s of
        None \<Rightarrow> None
      | Some pd \<Rightarrow> if truthy (disabled node) then None else map_of pd (nodeName node))"

definition attempt ::
  "Env \<Rightarrow> Workflow \<Rightarrow> IExecuteData \<Rightarrow> nat \<Rightarrow> nat \<Rightarrow> nat \<Rightarrow> outputs slot \<Rightarrow> IRunExecutionData \<Rightarrow> Attempt" where
  "attempt env w d runIndex mt tryIndex nsd s =
     (let run = (\<lambda>t. runNode (env_perform env t) (env_mode env) w d s runIndex)
      in case pinnedData s (ed_node d) of
        Some nodePinData \<Rightarrow> afterRun d tryIndex (SVal [SVal nodePinData]) s
      | None \<Rightarrow>
          let s' = asked_to_wait env tryIndex d s in
          (case run tryIndex of
             Inl e \<Rightarrow> \<lparr>at_data = nsd, at_index = tryIndex, at_state = s', at_end = Failed e\<rparr>
           | Inr data \<Rightarrow>
               (case (if hasErrorItem data then
                        rerun run (\<lambda>t. asked_to_wait env t d) tryIndex (mt - 1 - tryIndex) s'
                      else (tryIndex, None, s')) of
                  (t, Some e, s') \<Rightarrow> \<lparr>at_data = data, at_index = t, at_state = s', at_end = Failed e\<rparr>
                | (t, None, s') \<Rightarrow>
                    (case (case data of SVal out \<Rightarrow> bindR (errorOutput env w d out) (\<lambda>out. Inr (SVal out))
                           | other \<Rightarrow> Inr other) of
                       Inl e \<Rightarrow> \<lparr>at_data = data, at_index = t, at_state = s', at_end = Failed e\<rparr>
                     | Inr data \<Rightarrow> afterRun d t data s'))))"

lemma afterRun_index [simp]: "at_index (afterRun d t nsd s) = t"
  by (simp add: afterRun_def Let_def split: sum.split option.split)

lemma attempt_index: "tryIndex \<le> at_index (attempt env w d runIndex mt tryIndex nsd s)"
  using rerun_index
  by (fastforce simp: attempt_def Let_def split: option.splits sum.splits prod.splits)

section \<open>All attempts\<close>

text \<open>
  The loop over the attempts. An error is kept until the next attempt begins; the attempt that
  follows one that failed starts with the data that was left. The last error is the result when
  all attempts are used up.
\<close>

function tryLoop ::
  "Env \<Rightarrow> Workflow \<Rightarrow> IExecuteData \<Rightarrow> nat \<Rightarrow> nat \<Rightarrow> nat \<Rightarrow> outputs slot \<Rightarrow> js_error option \<Rightarrow>
   IRunExecutionData \<Rightarrow> Attempt" where
  "tryLoop env w d runIndex mt tryIndex nsd err s =
     (if tryIndex < mt then
        let a = attempt env w d runIndex mt tryIndex nsd s in
        (case at_end a of
           Failed e \<Rightarrow>
             tryLoop env w d runIndex mt (Suc (at_index a)) (at_data a) (Some e)
               ((at_state a)\<lparr>lastNodeExecuted := Some (nodeName (ed_node d))\<rparr>)
         | _ \<Rightarrow> a)
      else \<lparr>at_data = nsd, at_index = tryIndex, at_state = s,
             at_end = (case err of None \<Rightarrow> Done | Some e \<Rightarrow> Failed e)\<rparr>)"
  by pat_completeness auto
termination
  by (relation "measure (\<lambda>(env, w, d, runIndex, mt, tryIndex, nsd, err, s). mt - tryIndex)")
    (auto simp: le_imp_less_Suc attempt_index less_Suc_eq_le intro!: diff_less_mono2
      intro: le_less_trans [OF attempt_index])

declare tryLoop.simps [simp del]

section \<open>Properties\<close>

lemma maxTriesOf_range:
  "(retryOnFail node = Some True \<longrightarrow> 2 \<le> maxTriesOf node \<and> maxTriesOf node \<le> 5) \<and>
   (retryOnFail node \<noteq> Some True \<longrightarrow> maxTriesOf node = 1)"
  by (auto simp: maxTriesOf_def nat_le_iff le_nat_iff split: option.split)

lemma maxTriesOf_pos [simp]: "0 < maxTriesOf node"
  using maxTriesOf_range [of node] by (cases "retryOnFail node = Some True") auto

definition failing :: "INodeExecutionData \<Rightarrow> bool" where
  "failing i = js_truthy (fst (errorOfItem i))"

lemma routeItem_Inr:
  assumes "routeItem env d i (ss, es) = Inr (ss', es')"
  shows "if failing i then ss' = ss \<and> (\<exists>e. es' = es @ [e]) else ss' = ss @ [i] \<and> es' = es"
  using assms
  by (auto simp: routeItem_def failing_def bindR_Inr_iff case_prod_beta Let_def errorOfItem_def split: if_splits)

lemma foldR_routeItem:
  assumes "foldR (routeItem env d) xs (ss, es) = Inr (success, errors)"
  shows "success = ss @ filter (\<lambda>i. \<not> failing i) xs \<and>
    (\<exists>es'. errors = es @ es' \<and> length es' = length (filter failing xs))"
  using assms
proof (induction xs arbitrary: ss es)
  case Nil
  then show ?case by simp
next
  case (Cons i xs)
  then obtain ss' es' where step: "routeItem env d i (ss, es) = Inr (ss', es')"
    and rest: "foldR (routeItem env d) xs (ss', es') = Inr (success, errors)"
    by (auto simp: bindR_Inr_iff)
  from Cons.IH [OF rest] routeItem_Inr [OF step] show ?case by (cases "failing i") auto
qed

lemma routeItems_result:
  assumes "routeItems env d items es = Inr (success, errors)"
  shows "success = rev (filter (\<lambda>i. \<not> failing i) items) \<and>
    (\<exists>es'. errors = es @ es' \<and> length es' = length (filter failing items))"
  using foldR_routeItem [OF assms [unfolded routeItems_def]] by (simp flip: rev_filter)

lemma routeOutputs_loop:
  assumes "foldR (routeOutput env d) [0..<m] (out, []) = Inr (out', errors)"
  shows "(\<forall>k. arr_get out' k = (if k < m then SVal (rev (filter (\<lambda>i. \<not> failing i) (items_at out k)))
      else arr_get out k)) \<and>
    length errors = (\<Sum>k<m. length (filter failing (items_at out k)))"
  using assms
proof (induction m arbitrary: out' errors)
  case 0
  then show ?case by simp
next
  case (Suc m)
  then obtain out1 errors1 where first: "foldR (routeOutput env d) [0..<m] (out, []) = Inr (out1, errors1)"
    and "routeOutput env d m (out1, errors1) = Inr (out', errors)"
    by (auto simp: foldR_append bindR_Inr_iff)
  then obtain success where routed: "routeItems env d (items_at out1 m) errors1 = Inr (success, errors)"
    and out': "out' = arr_set m (SVal success) out1"
    by (auto simp: routeOutput_def bindR_Inr_iff)
  note IH = Suc.IH [OF first]
  then have "items_at out1 m = items_at out m" by (simp add: items_at_def)
  with routeItems_result [OF routed] IH show ?case by (auto simp: out' arr_get_set)
qed

text \<open>C13: with an error output, every other main output keeps exactly its items without an error, in
  reverse order, and the error output holds one item for each item with an error.\<close>

theorem routeOutputs_splits:
  assumes "routeOutputs env d (Suc m) out = Inr out'"
  shows "(\<forall>k < m. arr_get out' k = SVal (rev (filter (\<lambda>i. \<not> failing i) (items_at out k)))) \<and>
    length (items_at out' m) = (\<Sum>k<m. length (filter failing (items_at out k)))"
proof -
  from assms obtain out1 errors where "foldR (routeOutput env d) [0..<m] (out, []) = Inr (out1, errors)"
    and "out' = arr_set m (SVal errors) out1"
    by (auto simp: routeOutputs_def bindR_Inr_iff)
  with routeOutputs_loop [of env d m out out1 errors] show ?thesis
    by (simp add: items_at_def arr_get_set)
qed

lemma rerun_asks: "rerun run asks t left s = (t', r, s') \<Longrightarrow> (\<And>k u. P u \<Longrightarrow> P (asks k u)) \<Longrightarrow> P s \<Longrightarrow> P s'"
  by (induction run asks t left s rule: rerun.induct) (auto split: sum.splits)

text \<open>The state after a number of attempts that failed.\<close>

fun after_tries :: "Env \<Rightarrow> IExecuteData \<Rightarrow> IRunExecutionData \<Rightarrow> nat \<Rightarrow> IRunExecutionData" where
  "after_tries env d s 0 = s"
| "after_tries env d s (Suc t) =
     (asked_to_wait env t d (after_tries env d s t))\<lparr>lastNodeExecuted := Some (nodeName (ed_node d))\<rparr>"

lemma asked_to_wait_fields [simp]:
  "pinData (asked_to_wait env t d s) = pinData s"
  "runData (asked_to_wait env t d s) = runData s"
  "nodeExecutionStack (asked_to_wait env t d s) = nodeExecutionStack s"
  "startData (asked_to_wait env t d s) = startData s"
  "waitingExecution (asked_to_wait env t d s) = waitingExecution s"
  "waitingExecutionSource (asked_to_wait env t d s) = waitingExecutionSource s"
  by (simp_all add: asked_to_wait_def split: option.split)

lemma after_tries_pinData [simp]: "pinData (after_tries env d s t) = pinData s"
  by (induction t) simp_all

lemma pinnedData_after_tries [simp]: "pinnedData (after_tries env d s t) node = pinnedData s node"
  by (simp add: pinnedData_def)

lemma tryLoop_failed_tries:
  assumes "pinnedData s (ed_node d) = None" "k < mt"
    and "\<And>t. t \<le> k \<Longrightarrow>
      runNode (env_perform env t) (env_mode env) w d (after_tries env d s t) runIndex = Inl (es t)"
  shows "tryLoop env w d runIndex mt 0 nsd None s =
    tryLoop env w d runIndex mt (Suc k) nsd (Some (es k)) (after_tries env d s (Suc k))"
  using assms(2,3)
proof (induction k)
  case 0
  then show ?case using assms(1)
    by (subst tryLoop.simps) (simp add: attempt_def Let_def 0(2) [of 0, simplified])
next
  case (Suc k)
  then have "tryLoop env w d runIndex mt 0 nsd None s =
      tryLoop env w d runIndex mt (Suc k) nsd (Some (es k)) (after_tries env d s (Suc k))" by simp
  also have "\<dots> = tryLoop env w d runIndex mt (Suc (Suc k)) nsd (Some (es (Suc k))) (after_tries env d s (Suc (Suc k)))"
    using Suc.prems assms(1) Suc.prems(2) [of "Suc k"]
    by (subst tryLoop.simps) (simp add: attempt_def Let_def pinnedData_def)
  finally show ?case .
qed

definition error_item :: INodeExecutionData where
  "error_item = empty_item\<lparr>json := [(''error'', JStr ''down'')]\<rparr>"

text \<open>C12: the retry loop. When the attempts before number \<open>k\<close> fail and that one does not, the result is
  that of attempt \<open>k\<close>, whatever errors came before; when all attempts fail, the node has failed
  with the last error and is recorded as the last node executed.\<close>

theorem tryLoop_retries:
  assumes "pinnedData s (ed_node d) = None" "0 < k" "k \<le> mt"
    and fails: "\<And>t. t < k \<Longrightarrow>
      runNode (env_perform env t) (env_mode env) w d (after_tries env d s t) runIndex = Inl (es t)"
  shows "(k = mt \<longrightarrow> at_end (tryLoop env w d runIndex mt 0 SNull None s) = Failed (es (k - 1)) \<and>
      lastNodeExecuted (at_state (tryLoop env w d runIndex mt 0 SNull None s)) = Some (nodeName (ed_node d))) \<and>
    (k < mt \<and> (\<forall>e. at_end (attempt env w d runIndex mt k SNull (after_tries env d s k)) \<noteq> Failed e) \<longrightarrow>
      tryLoop env w d runIndex mt 0 SNull None s =
        attempt env w d runIndex mt k SNull (after_tries env d s k))"
proof -
  obtain j where k: "k = Suc j" using assms(2) by (cases k) auto
  have all: "tryLoop env w d runIndex mt 0 SNull None s =
      tryLoop env w d runIndex mt k SNull (Some (es j)) (after_tries env d s k)"
    unfolding k using assms k by (intro tryLoop_failed_tries) auto
  show ?thesis
  proof (cases "k < mt")
    case True
    then show ?thesis
      by (simp add: all tryLoop.simps [of _ _ _ _ _ k] Let_def split: AttemptEnd.split)
  next
    case False
    then have "tryLoop env w d runIndex mt 0 SNull None s =
      \<lparr>at_data = SNull, at_index = k, at_state = after_tries env d s k, at_end = Failed (es j)\<rparr>"
      by (simp add: all tryLoop.simps [of _ _ _ _ _ k])
    with False k show ?thesis by auto
  qed
qed

lemma attempt_index_less:
  "tryIndex < mt \<Longrightarrow> at_index (attempt env w d runIndex mt tryIndex nsd s) < mt"
  using rerun_index [of _ _ tryIndex "mt - 1 - tryIndex"]
  by (fastforce simp: attempt_def Let_def split: option.splits sum.splits prod.splits)

lemma tryLoop_index:
  "tryIndex \<le> mt \<Longrightarrow> at_index (tryLoop env w d runIndex mt tryIndex nsd err s) \<le> mt"
proof (induction env w d runIndex mt tryIndex nsd err s rule: tryLoop.induct)
  case (1 env w d runIndex mt tryIndex nsd err s)
  let ?a = "attempt env w d runIndex mt tryIndex nsd s"
  show ?case
  proof (cases "tryIndex < mt")
    case True
    with attempt_index_less have "at_index ?a < mt" by blast
    with 1(1) [OF True refl] True show ?thesis
      by (subst tryLoop.simps) (simp add: Let_def split: AttemptEnd.split)
  next
    case False
    with 1 show ?thesis by (subst tryLoop.simps) simp
  qed
qed

text \<open>The number of attempts is bounded: one for a node that does not retry, at least two and at most
  five for one that does, repeated runs after a failure that the node continued on included.\<close>

theorem attempts_bounded:
  "at_index (tryLoop env w d runIndex (maxTriesOf node) 0 SNull None s) \<le> maxTriesOf node \<and>
   maxTriesOf node \<in> (if retryOnFail node = Some True then {2..5} else {1})"
  using maxTriesOf_range [of node] by (auto simp: tryLoop_index)

definition sample_env :: "(nat \<Rightarrow> NodeCall \<Rightarrow> answer) \<Rightarrow> Env" where
  "sample_env perform =
     \<lparr>env_mode = ''manual'', env_perform = perform, env_waitTill = (\<lambda>_ _. None),
      env_pairedItem = (\<lambda>_ _. Inr None), env_stopped = False, env_hook = (\<lambda>_. None)\<rparr>"

lemma sample_env_simps [simp]:
  "env_mode (sample_env f) = ''manual''" "env_perform (sample_env f) = f"
  "env_waitTill (sample_env f) = (\<lambda>_ _. None)" "env_stopped (sample_env f) = False"
  "env_hook (sample_env f) = (\<lambda>_. None)" "env_pairedItem (sample_env f) = (\<lambda>_ _. Inr None)"
  by (simp_all add: sample_env_def)

definition failing_times :: "nat \<Rightarrow> nat \<Rightarrow> NodeCall \<Rightarrow> answer" where
  "failing_times k t call = (if t < k then Inl (NodeError ''down'') else Inr (SVal [SVal [empty_item]]))"

definition retrying_job :: IExecuteData where
  "retrying_job =
     \<lparr>ed_node = (plain_node 5 ''D'' ''set'')\<lparr>retryOnFail := Some True\<rparr>, ed_data = empty_main, ed_source = None\<rparr>"

lemma retrying_job_run:
  "resultError s = None \<Longrightarrow>
   runNode perform m diamond retrying_job s 0 = perform (CallExecute (ed_node retrying_job) 0 [empty_item] empty_main)"
  by (simp add: runNode_def runNodeCalls_def make_call_def retrying_job_def diamond_def sample_type_def plain_node_def empty_main_def
      connectionInputData_def slot_list_def arr_get_def failed_before_def dispatch_def Let_def)

lemma sample_tries [simp]: "resultError (after_tries (sample_env f) d sample_state t) = None"
  by (induction t) (simp_all add: asked_to_wait_def sample_state_def fresh_run_def)

theorem tryLoop_retries_witness:
  "at_end (tryLoop (sample_env (failing_times 3)) diamond retrying_job 0 3 0 SNull None sample_state) =
     Failed (NodeError ''down'') \<and>
   tryLoop (sample_env (failing_times 2)) diamond retrying_job 0 3 0 SNull None sample_state =
     attempt (sample_env (failing_times 2)) diamond retrying_job 0 3 2 SNull
       (after_tries (sample_env (failing_times 2)) retrying_job sample_state 2)"
proof -
  have pin: "pinnedData sample_state n = None" for n
    by (simp add: pinnedData_def sample_state_def fresh_run_def)
  let ?a = "attempt (sample_env (failing_times 2)) diamond retrying_job 0 3 2 SNull
       (after_tries (sample_env (failing_times 2)) retrying_job sample_state 2)"
  have "at_end ?a = Done"
    by (simp add: attempt_def Let_def pin retrying_job_run failing_times_def hasErrorItem_def
        empty_item_def arr_get_def obj_read_def errorOutput_def afterRun_def asked_to_wait_def)
      (simp add: retrying_job_def plain_node_def fixPairedItems_def empty_main_def slot_length_def
        slot_list_def arr_get_def alwaysOutput_def noFirstItem_def)
  then show ?thesis
    using tryLoop_retries [of sample_state retrying_job 3 3 "sample_env (failing_times 3)" diamond 0
        "\<lambda>_. NodeError ''down''"]
      tryLoop_retries [of sample_state retrying_job 2 3 "sample_env (failing_times 2)" diamond 0
        "\<lambda>_. NodeError ''down''"]
    by (simp add: pin retrying_job_run failing_times_def)
qed

text \<open>The repeated runs of a node that continued on failure have no effect on the data: it is the
  data of the first run, whatever the later ones return.\<close>

theorem reruns_are_discarded:
  assumes "pinnedData s (ed_node d) = None" "runNode (env_perform env 0) (env_mode env) w d s runIndex = Inr data"
    and "\<And>t. t < mt \<Longrightarrow> \<exists>later. runNode (env_perform env t) (env_mode env) w d s runIndex = Inr later"
    and "env_waitTill env = (\<lambda>_ _. None)"
  shows "at_data (attempt env w d runIndex mt 0 nsd s) = at_data (attempt env w d runIndex 1 0 nsd s) \<and>
    at_end (attempt env w d runIndex mt 0 nsd s) = at_end (attempt env w d runIndex 1 0 nsd s)"
proof -
  have "\<exists>t'. rerun (\<lambda>t. runNode (env_perform env t) (env_mode env) w d s runIndex)
      (\<lambda>t. asked_to_wait env t d) t k s = (t', None, s)" if "t + k < mt" for t k
    using that
  proof (induction k arbitrary: t)
    case 0
    then show ?case by simp
  next
    case (Suc k)
    then obtain later where "runNode (env_perform env (Suc t)) (env_mode env) w d s runIndex = Inr later"
      using assms(3) [of "Suc t"] by auto
    with Suc.IH [of "Suc t"] Suc.prems assms(4) show ?case by (simp add: asked_to_wait_def)
  qed
  from this [of 0 "mt - 1"] obtain t' where "mt = 0 \<or> rerun (\<lambda>t. runNode (env_perform env t) (env_mode env) w d s runIndex)
      (\<lambda>t. asked_to_wait env t d) 0 (mt - 1) s = (t', None, s)" by (cases mt) auto
  with assms show ?thesis
    by (auto simp: attempt_def Let_def asked_to_wait_def afterRun_def split: sum.split option.split)
qed

text \<open>The first run reports an error item, the later ones do not.\<close>

definition recovering :: "nat \<Rightarrow> NodeCall \<Rightarrow> answer" where
  "recovering t call = Inr (SVal [SVal [if t = 0 then error_item else empty_item]])"

theorem reruns_are_discarded_witness:
  "at_data (attempt (sample_env recovering) diamond retrying_job 0 3 0 SNull sample_state) =
     at_data (attempt (sample_env recovering) diamond retrying_job 0 1 0 SNull sample_state)"
proof -
  have "pinnedData sample_state n = None" for n
    by (simp add: pinnedData_def sample_state_def fresh_run_def)
  moreover have "resultError sample_state = None" by (simp add: sample_state_def fresh_run_def)
  ultimately show ?thesis
    using reruns_are_discarded [of sample_state retrying_job "sample_env recovering" diamond 0 _ 3 SNull]
    by (simp add: retrying_job_run recovering_def)
qed

theorem routeOutputs_splits_witness:
  "\<exists>out'. routeOutputs (sample_env recovering) retrying_job 2 [SVal [empty_item, error_item, error_item]] = Inr out' \<and>
    length (items_at out' 1) = 2 \<and> arr_get out' 0 = SVal [empty_item]"
proof -
  have f: "failing error_item" "\<not> failing empty_item"
    by (simp_all add: failing_def errorOfItem_def error_item_def empty_item_def obj_read_def js_truthy_def)
  obtain out' where out': "routeOutputs (sample_env recovering) retrying_job (Suc 1)
      [SVal [empty_item, error_item, error_item]] = Inr out'"
    using f by (auto simp: routeOutputs_def routeOutput_def routeItems_def items_at_def arr_get_def
        routeItem_def errorItem_def failing_def retrying_job_def case_prod_beta Let_def)
  with f routeOutputs_splits [OF out'] show ?thesis
    by (auto simp: items_at_def arr_get_def numeral_2_eq_2)
qed

subsection \<open>Completing the data\<close>

lemma fixItems_single:
  "fixItems True same k items =
    (map (\<lambda>i. if pairedItem i = None then i\<lparr>pairedItem := Some (PairedOne \<lparr>pi_item = 0, pi_input = None, pi_sourceOverwrite = None\<rparr>)\<rparr> else i)
       items, False)"
  by (induction items arbitrary: k) auto

lemma fixItems_same:
  "fixItems False True k items =
    (map (\<lambda>(n, i). if pairedItem i = None then i\<lparr>pairedItem := Some (PairedOne \<lparr>pi_item = n, pi_input = None, pi_sourceOverwrite = None\<rparr>)\<rparr> else i)
       (enumerate k items), False)"
  by (induction items arbitrary: k) auto

definition paired_with :: "nat \<Rightarrow> INodeExecutionData \<Rightarrow> INodeExecutionData" where
  "paired_with n i =
     (if pairedItem i = None then i\<lparr>pairedItem := Some (PairedOne \<lparr>pi_item = n, pi_input = None, pi_sourceOverwrite = None\<rparr>)\<rparr> else i)"

lemma fixOutputs_single:
  "fixOutputs True same out = Inr out' \<Longrightarrow>
   length out' = length out \<and>
   (\<forall>k < length out. arr_get out' k = (case arr_get out k of SVal items \<Rightarrow> SVal (map (paired_with 0) items) | v \<Rightarrow> v))"
proof (induction out arbitrary: out')
  case Nil
  then show ?case by simp
next
  case (Cons v out)
  show ?case
  proof (cases v)
    case SUndef
    with Cons.prems show ?thesis by simp
  next
    case SHole
    with Cons.prems show ?thesis by simp
  next
    case SNull
    with Cons.prems obtain r where r: "fixOutputs True same out = Inr r" "out' = SNull # r"
      by (auto simp: bindR_Inr_iff)
    with Cons.IH [OF r(1)] SNull show ?thesis by (auto simp: arr_get_def nth_Cons split: nat.split)
  next
    case (SVal items)
    with Cons.prems obtain r where r: "fixOutputs True same out = Inr r"
      "out' = SVal (map (paired_with 0) items) # r"
      by (auto simp: bindR_Inr_iff fixItems_single paired_with_def [abs_def])
    with Cons.IH [OF r(1)] SVal show ?thesis by (auto simp: arr_get_def nth_Cons split: nat.split)
  qed
qed

text \<open>A node with one input and one item on it: every item it returns is paired with that item,
  unless the node paired it itself, and nothing else about the data changes.\<close>

theorem single_input_pairs_everything:
  assumes "map_of (ed_data d) Main = Some [SVal [i]]" "fixPairedItems d out = Inr out'"
  shows "length out' = length out \<and>
    (\<forall>k < length out. arr_get out' k = (case arr_get out k of SVal items \<Rightarrow> SVal (map (paired_with 0) items) | v \<Rightarrow> v))"
proof (cases "out = []")
  case False
  with assms obtain same where "fixOutputs True same out = Inr out'"
    by (auto simp: fixPairedItems_def Let_def arr_get_def slot_length_def slot_list_def bindR_Inr_iff)
  then show ?thesis by (rule fixOutputs_single)
qed (use assms in \<open>simp add: fixPairedItems_def\<close>)

theorem single_input_pairs_everything_witness:
  "fixPairedItems retrying_job [SVal [error_item, error_item], SNull] =
     Inr [SVal [paired_with 0 error_item, paired_with 0 error_item], SNull]"
proof -
  have d: "map_of (ed_data retrying_job) Main = Some [SVal [empty_item]]"
    by (simp add: retrying_job_def empty_main_def)
  obtain out' where out': "fixPairedItems retrying_job [SVal [error_item, error_item], SNull] = Inr out'"
    by (auto simp: fixPairedItems_def d Let_def arr_get_def slot_length_def slot_list_def fixItems_single)
  from single_input_pairs_everything [OF d out'] show ?thesis
    by (cases "out' = []") (auto simp: out' arr_get_def less_Suc_eq intro!: nth_equalityI)
qed

definition merge_job :: "outputs \<Rightarrow> IExecuteData" where
  "merge_job m = \<lparr>ed_node = plain_node 9 ''M'' ''merge'', ed_data = [(Main, m)], ed_source = None\<rparr>"

definition forcing_workflow :: Workflow where
  "forcing_workflow = (merge_workflow [''A'', ''B''])\<lparr>executionOrder := None\<rparr>"

text \<open>The test whether an input has its data compares the length of the array with \<open><\<close>, so a
  node whose second input has no entry at all counts as ready, although a parent leads to it.\<close>

theorem missing_input_counts_as_ready:
  "inputsReady forcing_workflow (merge_job [SVal [empty_item]]) = Inr True \<and>
   inputsReady forcing_workflow (merge_job [SVal [empty_item], SNull]) = Inr False"
  by code_simp

end
