(* ===== verification/WorkflowRename.thy ===== *)
theory WorkflowRename
  imports WorkflowQueries
begin

text \<open>
  Renaming a node (\<open>Workflow.ts\<close>): the references to it in the expressions of all parameters, its
  entry among the nodes, and both ends of its connections. The regular expressions of the code
  are a fixed part, the escaped old name and a fixed part; \<open>regex_literal\<close> reads the escaped name
  back, and \<open>expand_template\<close> is the replacement template of \<open>String.replace\<close>.
\<close>

section \<open>Escaping\<close>

text \<open>\<open>CHR 0x5C\<close> is the backslash, \<open>CHR 0x27\<close> the single and \<open>CHR 0x22\<close> the double quote.\<close>

definition BACKSLASH_ESCAPABLE_CHARS :: "char list" where
  "BACKSLASH_ESCAPABLE_CHARS = ''.*+?^${}()|[]'' @ [CHR 0x5C]"

definition backslashEscape :: "string \<Rightarrow> string" where
  "backslashEscape name =
     concat (map (\<lambda>c. if c \<in> set BACKSLASH_ESCAPABLE_CHARS then [CHR 0x5C, c] else [c]) name)"

definition dollarEscape :: "string \<Rightarrow> string" where
  "dollarEscape name = concat (map (\<lambda>c. if c = CHR ''$'' then ''$$'' else [c]) name)"

definition hasDotNotationBannedChar :: "string \<Rightarrow> bool" where
  "hasDotNotationBannedChar name =
     ((case name of [] \<Rightarrow> False | c # _ \<Rightarrow> is_digit c) \<or>
      list_ex (\<lambda>c. c \<in> set ('' `!@#$%^&*()_+-=[]{};:|,.<>?~'' @ [CHR 0x5C, CHR 0x27, CHR 0x22])) name)"

text \<open>The text that a regular expression without operators matches; \<open>None\<close> if it has one.\<close>

fun regex_literal :: "string \<Rightarrow> string option" where
  "regex_literal [] = Some []"
| "regex_literal [c] = (if c \<in> set BACKSLASH_ESCAPABLE_CHARS then None else Some [c])"
| "regex_literal (c # d # r) =
     (if c = CHR 0x5C then map_option (Cons d) (regex_literal r)
      else if c \<in> set BACKSLASH_ESCAPABLE_CHARS then None
      else map_option (Cons c) (regex_literal (d # r)))"

text \<open>
  A replacement template: \<open>$$\<close> is a dollar sign, \<open>$1\<close> to \<open>$9\<close> a group, if there is one. The templates
  of the code have no other dollar sign.
\<close>

fun expand_template :: "string list \<Rightarrow> string \<Rightarrow> string" where
  "expand_template groups [] = []"
| "expand_template groups [c] = [c]"
| "expand_template groups (c # d # r) =
     (if c = CHR ''$'' \<and> d = CHR ''$'' then CHR ''$'' # expand_template groups r
      else if c = CHR ''$'' \<and> is_digit d \<and> 1 \<le> digit_val d \<and> digit_val d \<le> length groups then
        groups ! (digit_val d - 1) @ expand_template groups r
      else c # expand_template groups (d # r))"

section \<open>Replacing references\<close>

text \<open>The first of several alternatives at the start of a text, with what follows it.\<close>

fun first_match :: "string list \<Rightarrow> string \<Rightarrow> (string \<times> string) option" where
  "first_match [] s = None"
| "first_match (p # ps) s =
     (if take (length p) s = p then Some (p, drop (length p) s) else first_match ps s)"

fun str_includes :: "string \<Rightarrow> string \<Rightarrow> bool" where
  "str_includes [] sub = (sub = [])"
| "str_includes (c # s) sub = (take (length sub) (c # s) = sub \<or> str_includes s sub)"

text \<open>
  \<open>replace_with m k s\<close> scans \<open>s\<close> from left to right, skipping \<open>k\<close> characters of the last match;
  \<open>m\<close> is a match at the start of a text: the replacement and the number of characters it takes.
\<close>

fun replace_with :: "(string \<Rightarrow> (string \<times> nat) option) \<Rightarrow> nat \<Rightarrow> string \<Rightarrow> string" where
  "replace_with m k [] = []"
| "replace_with m (Suc k) (c # s) = replace_with m k s"
| "replace_with m 0 (c # s) =
     (case m (c # s) of
        None \<Rightarrow> c # replace_with m 0 s
      | Some (new, len) \<Rightarrow> new @ replace_with m (len - 1) s)"

text \<open>A match of \<open>(pre)name(post)\<close>, replaced by \<open>$1newName$2\<close>.\<close>

definition match_reference ::
  "string list \<Rightarrow> string \<Rightarrow> string list \<Rightarrow> string \<Rightarrow> string \<Rightarrow> (string \<times> nat) option" where
  "match_reference pres oldName posts newName s =
     (case first_match pres s of
        None \<Rightarrow> None
      | Some (pre, rest) \<Rightarrow>
          (case regex_literal (backslashEscape oldName) of
             None \<Rightarrow> None
           | Some name \<Rightarrow>
               (case first_match [name] rest of
                  None \<Rightarrow> None
                | Some (_, rest) \<Rightarrow>
                    (case first_match posts rest of
                       None \<Rightarrow> None
                     | Some (post, _) \<Rightarrow>
                         Some (expand_template [pre, post] (''$1'' @ dollarEscape newName @ ''$2''),
                           length pre + length name + length post)))))"

text \<open>A match of \<open>.newName( |\.)\<close>: the unescaped dot is any character but a line break.\<close>

definition match_dotted :: "string \<Rightarrow> string \<Rightarrow> (string \<times> nat) option" where
  "match_dotted newName s =
     (case s of
        [] \<Rightarrow> None
      | c # rest \<Rightarrow>
          if c = CHR 0x0A \<or> c = CHR 0x0D then None
          else case regex_literal (backslashEscape newName) of
            None \<Rightarrow> None
          | Some name \<Rightarrow>
              (case first_match [name] rest of
                 None \<Rightarrow> None
               | Some (_, rest) \<Rightarrow>
                   (case first_match ['' '', ''.''] rest of
                      None \<Rightarrow> None
                    | Some (post, _) \<Rightarrow>
                        Some (expand_template [post]
                            (''['' @ [CHR 0x22] @ dollarEscape newName @ [CHR 0x22] @ '']$1''),
                          Suc (length name + length post)))))"

definition quoted :: "string \<Rightarrow> string list" where
  "quoted s = [s @ [CHR 0x27], s @ [CHR 0x22]]"

definition closing :: "string \<Rightarrow> string list" where
  "closing s = [CHR 0x27 # s, CHR 0x22 # s]"

definition setNewName :: "string list \<Rightarrow> string \<Rightarrow> string list \<Rightarrow> string \<Rightarrow> string \<Rightarrow> string" where
  "setNewName pres oldName posts newName expression =
     replace_with (match_reference pres oldName posts newName) 0 expression"

definition renameInExpression :: "string \<Rightarrow> string \<Rightarrow> string \<Rightarrow> string" where
  "renameInExpression currentName newName s0 =
     (if str_includes s0 currentName then
        let s1 = (if str_includes s0 ''$('' then
                    setNewName (quoted ''$('') currentName (closing '')'') newName s0 else s0);
            s2 = (if str_includes s1 ''$node['' then
                    setNewName (quoted ''$node['') currentName (closing '']'') newName s1 else s1);
            s3 = (if str_includes s2 ''$node.'' then
                    let t = setNewName [''$node.''] currentName [''.'', []] newName s2 in
                    if hasDotNotationBannedChar newName then replace_with (match_dotted newName) 0 t else t
                  else s2)
        in if str_includes s3 ''$items('' then
             setNewName (quoted ''$items('') currentName (closing '','' @ closing '')'') newName s3
           else s3
      else s0)"

fun renameNodeInParameterValue :: "string \<Rightarrow> string \<Rightarrow> bool \<Rightarrow> jsval \<Rightarrow> jsval" where
  "renameNodeInParameterValue cur new hasRenamableContent JUndef = JUndef"
| "renameNodeInParameterValue cur new hasRenamableContent (JBool b) = JBool b"
| "renameNodeInParameterValue cur new hasRenamableContent (JNum i) = JNum i"
| "renameNodeInParameterValue cur new hasRenamableContent (JStr s) =
     JStr (if take 1 s = ''='' \<or> hasRenamableContent then renameInExpression cur new s else s)"
| "renameNodeInParameterValue cur new hasRenamableContent (JArr vs) =
     JArr (map (renameNodeInParameterValue cur new False) vs)"
| "renameNodeInParameterValue cur new hasRenamableContent JNull = JObj []"
| "renameNodeInParameterValue cur new hasRenamableContent (JObj ob) =
     JObj (map (\<lambda>(k, v). (k, renameNodeInParameterValue cur new hasRenamableContent v)) ob)"

section \<open>Renaming the node\<close>

definition NODES_WITH_RENAMABLE_CONTENT :: "string list" where
  "NODES_WITH_RENAMABLE_CONTENT =
     [''n8n-nodes-base.code'', ''n8n-nodes-base.function'', ''n8n-nodes-base.functionItem'',
      ''n8n-nodes-base.aiTransform'']"

text \<open>Moving an entry of an object to another key; with equal keys the entry is lost.\<close>

definition move_key :: "string \<Rightarrow> string \<Rightarrow> ('v \<Rightarrow> 'v) \<Rightarrow> 'v jsobj \<Rightarrow> 'v jsobj" where
  "move_key cur new f ob =
     (case map_of ob cur of
        None \<Rightarrow> ob
      | Some v \<Rightarrow> AList.delete cur (obj_put new (f v) ob))"

definition rename_parameters :: "string \<Rightarrow> string \<Rightarrow> INode \<Rightarrow> INode" where
  "rename_parameters cur new node =
     (let ps = (case renameNodeInParameterValue cur new False (JObj (parameters node)) of
                  JObj ps \<Rightarrow> ps | _ \<Rightarrow> []);
          ps' = (if ntype node \<in> set NODES_WITH_RENAMABLE_CONTENT then
                   obj_put ''jsCode''
                     (renameNodeInParameterValue cur new True (obj_read ps ''jsCode'')) ps
                 else ps)
      in node\<lparr>parameters := ps'\<rparr>)"

definition rename_target :: "string \<Rightarrow> string \<Rightarrow> IConnection \<Rightarrow> IConnection" where
  "rename_target cur new c = (if cnode c = cur then c\<lparr>cnode := new\<rparr> else c)"

definition rename_targets :: "string \<Rightarrow> string \<Rightarrow> IConnections \<Rightarrow> IConnections" where
  "rename_targets cur new ic =
     map (\<lambda>(s, byType). (s, map (\<lambda>(t, arr).
       (t, map (map_option (map (rename_target cur new))) arr)) byType)) ic"

definition renameNode :: "Workflow \<Rightarrow> string \<Rightarrow> string \<Rightarrow> Workflow" where
  "renameNode w currentName newName =
     (let ns = move_key currentName newName (\<lambda>n. n\<lparr>nodeName := newName\<rparr>) (nodes w);
          ns' = map (\<lambda>(k, n). (k, rename_parameters currentName newName n)) ns;
          source = move_key currentName newName (\<lambda>b. b) (connectionsBySourceNode w);
          source' = rename_targets currentName newName source
      in w\<lparr>nodes := ns', connectionsBySourceNode := source',
           connectionsByDestinationNode := getConnectionsByDestination source'\<rparr>)"

section \<open>The escapes are undone\<close>

lemma regex_literal_ordinary:
  "c \<notin> set BACKSLASH_ESCAPABLE_CHARS \<Longrightarrow> regex_literal (c # s) = map_option (Cons c) (regex_literal s)"
  by (cases s) (auto simp: BACKSLASH_ESCAPABLE_CHARS_def)

lemma regex_literal_backslashEscape [simp]: "regex_literal (backslashEscape s) = Some s"
proof (induction s)
  case Nil
  then show ?case by (simp add: backslashEscape_def)
next
  case (Cons c s)
  show ?case
  proof (cases "c \<in> set BACKSLASH_ESCAPABLE_CHARS")
    case True
    then have "backslashEscape (c # s) = CHR 0x5C # c # backslashEscape s" by (simp add: backslashEscape_def)
    with Cons show ?thesis by simp
  next
    case False
    then have "backslashEscape (c # s) = c # backslashEscape s" by (simp add: backslashEscape_def)
    with Cons False show ?thesis by (simp add: regex_literal_ordinary)
  qed
qed

lemma expand_template_ordinary:
  "c \<noteq> CHR ''$'' \<Longrightarrow> expand_template gs (c # s) = c # expand_template gs s"
  by (cases s) simp_all

lemma expand_template_dollarEscape:
  "expand_template gs (dollarEscape s @ r) = s @ expand_template gs r"
  by (induction s) (auto simp: dollarEscape_def expand_template_ordinary)

lemma expand_reference:
  "expand_template [pre, post] (''$1'' @ dollarEscape s @ ''$2'') = pre @ s @ post"
proof -
  have "expand_template [pre, post] (''$1'' @ t) = pre @ expand_template [pre, post] t" for t
    by (simp add: is_digit_def digit_val_def digits_def)
  moreover have "expand_template [pre, post] ''$2'' = post"
    by (simp add: is_digit_def digit_val_def digits_def)
  ultimately show ?thesis by (simp add: expand_template_dollarEscape)
qed

text \<open>Escaping is exact: the pattern built from a node name matches that name literally, whatever
  special characters it has, and the replacement puts the new name between the two groups as it
  is, dollar signs included.\<close>

theorem rename_escapes_roundtrip:
  "regex_literal (backslashEscape oldName) = Some oldName \<and>
   expand_template [pre, post] (''$1'' @ dollarEscape newName @ ''$2'') = pre @ newName @ post"
  by (simp only: regex_literal_backslashEscape expand_reference simp_thms)

section \<open>The renamed workflow\<close>

lemma map_of_move_key:
  assumes "cur \<noteq> new" "map_of ob new = None"
  shows "map_of (move_key cur new f ob) k =
    (if k = cur then None else if k = new then map_option f (map_of ob cur) else map_of ob k)"
  using assms by (cases "map_of ob cur") (auto simp: move_key_def)

lemma wf_keys_move_key: "wf_keys ob \<Longrightarrow> wf_keys (move_key cur new f ob)"
  by (cases "map_of ob cur") (simp_all add: move_key_def jobj.wf_put jobj.wf_del)

lemma set_move_key:
  "wf_keys ob \<Longrightarrow> (k, v) \<in> set (move_key cur new (\<lambda>b. b) ob) \<Longrightarrow> v \<in> snd ` set ob"
proof -
  assume wf: "wf_keys ob" and "(k, v) \<in> set (move_key cur new (\<lambda>b. b) ob)"
  then have "map_of (move_key cur new (\<lambda>b. b) ob) k = Some v"
    using wf_keys_move_key [OF wf, of cur new "\<lambda>b. b"] by (simp add: wf_keys_def)
  then obtain k' where "map_of ob k' = Some v"
    by (cases "map_of ob cur") (auto simp: move_key_def split: if_splits)
  then show ?thesis by (force dest: map_of_SomeD)
qed

lemma conn_list_move_key:
  "cur \<noteq> new \<Longrightarrow> map_of ic new = None \<Longrightarrow> conn_list (move_key cur new (\<lambda>b. b) ic) n t =
     (if n = cur then [] else conn_list ic (if n = new then cur else n) t)"
  by (simp add: conn_list_def map_of_move_key option.map_ident)

lemma conn_list_rename_targets:
  "conn_list (rename_targets cur new ic) n t =
     map (map_option (map (rename_target cur new))) (conn_list ic n t)"
  by (simp add: conn_list_def rename_targets_def map_of_map split: option.split)

lemma conns_at_map: "conns_at (map (map_option (map f)) arr) k = map f (conns_at arr k)"
  by (simp add: conns_at_def hole_get_def split: option.split)

lemma has_conn_renamed:
  assumes "cur \<noteq> new" "map_of ic new = None"
  shows "has_conn (rename_targets cur new (move_key cur new (\<lambda>b. b) ic)) s t k c' \<longleftrightarrow>
    s \<noteq> cur \<and> (\<exists>c. has_conn ic (if s = new then cur else s) t k c \<and> c' = rename_target cur new c)"
  by (auto simp: has_conn_def conn_list_rename_targets conns_at_map conn_list_move_key [OF assms])
    (auto simp: conns_at_def)

lemma wf_rename_targets:
  assumes "wf_connections ic"
  shows "wf_connections (rename_targets cur new (move_key cur new (\<lambda>b. b) ic))"
proof -
  let ?m = "move_key cur new (\<lambda>b. b) ic"
  have wf: "wf_keys ic" "\<And>b. b \<in> snd ` set ic \<Longrightarrow> wf_keys b"
    using assms by (auto simp: wf_connections_def)
  have "wf_keys ?m" by (rule wf_keys_move_key [OF wf(1)])
  moreover have "wf_keys b" if "(n, b) \<in> set ?m" for n b
    using set_move_key [OF wf(1) that] wf(2) by blast
  ultimately show ?thesis
    by (auto simp: wf_connections_def rename_targets_def wf_keys_def comp_def case_prod_beta)
qed

text \<open>A value that renaming may change: it holds \<open>null\<close>, or a text in which the old name occurs.\<close>

fun affected :: "string \<Rightarrow> jsval \<Rightarrow> bool" where
  "affected cur (JStr s) = str_includes s cur"
| "affected cur JNull = True"
| "affected cur (JArr vs) = list_ex (affected cur) vs"
| "affected cur (JObj ob) = list_ex (\<lambda>(k, v). affected cur v) ob"
| "affected cur v = False"

lemma rename_unaffected: "\<not> affected cur v \<Longrightarrow> renameNodeInParameterValue cur new content v = v"
proof (induction cur new content v rule: renameNodeInParameterValue.induct)
  case (5 cur new content vs)
  then show ?case by (auto simp: list_ex_iff intro: map_idI)
next
  case (7 cur new content ob)
  then show ?case by (auto simp: list_ex_iff case_prod_beta intro!: map_idI)
qed (simp_all add: renameInExpression_def)

text \<open>
  The parameters of a renamed workflow: each value is rewritten, the code of a node with code once more as a
  whole; parameters that renaming does not affect are the same.
\<close>

definition parameters_follow :: "string \<Rightarrow> string \<Rightarrow> INode \<Rightarrow> INode \<Rightarrow> bool" where
  "parameters_follow cur new n n' \<longleftrightarrow>
     (\<forall>key. obj_read (parameters n') key =
        (let v = renameNodeInParameterValue cur new False (obj_read (parameters n) key) in
         if key = ''jsCode'' \<and> ntype n \<in> set NODES_WITH_RENAMABLE_CONTENT
         then renameNodeInParameterValue cur new True v else v)) \<and>
     (\<not> affected cur (JObj (parameters n)) \<and>
        (ntype n \<in> set NODES_WITH_RENAMABLE_CONTENT \<longrightarrow> map_of (parameters n) ''jsCode'' \<noteq> None) \<longrightarrow>
      parameters n' = parameters n)"

lemma update_same: "map_of ob k = Some v \<Longrightarrow> AList.update k v ob = ob"
  by (induction ob) auto

lemma obj_put_same: "map_of ob k = Some v \<Longrightarrow> obj_put k v ob = ob"
  by (simp add: obj_put_def update_same)

lemma rename_parameters_fields:
  "rename_parameters cur new n = n\<lparr>parameters := parameters (rename_parameters cur new n)\<rparr>"
  by (simp add: rename_parameters_def Let_def)

lemma rename_parameters_follow:
  assumes "parameters m = parameters n" "ntype m = ntype n"
  shows "parameters_follow cur new n (rename_parameters cur new m)"
proof -
  let ?ps = "map (\<lambda>(k, v). (k, renameNodeInParameterValue cur new False v)) (parameters n)"
  have read: "obj_read ?ps key = renameNodeInParameterValue cur new False (obj_read (parameters n) key)" for key
    by (cases "map_of (parameters n) key") (simp_all add: obj_read_def map_of_map)
  have ps: "parameters (rename_parameters cur new m) =
      (if ntype n \<in> set NODES_WITH_RENAMABLE_CONTENT then
         obj_put ''jsCode'' (renameNodeInParameterValue cur new True (obj_read ?ps ''jsCode'')) ?ps else ?ps)"
    using assms by (simp add: rename_parameters_def Let_def)
  have same: "?ps = parameters n" if "\<not> affected cur (JObj (parameters n))"
    using that rename_unaffected by (auto simp: list_ex_iff intro!: map_idI)
  have code: "obj_put ''jsCode'' (renameNodeInParameterValue cur new True (obj_read (parameters n) ''jsCode''))
      (parameters n) = parameters n"
    if "\<not> affected cur (JObj (parameters n))" "map_of (parameters n) ''jsCode'' = Some v" for v
  proof -
    have "\<not> affected cur v" using that map_of_SomeD [OF that(2)] by (auto simp: list_ex_iff)
    with that(2) show ?thesis by (simp add: obj_read_def rename_unaffected obj_put_same)
  qed
  have "obj_read (parameters (rename_parameters cur new m)) key =
      (let v = renameNodeInParameterValue cur new False (obj_read (parameters n) key) in
       if key = ''jsCode'' \<and> ntype n \<in> set NODES_WITH_RENAMABLE_CONTENT
       then renameNodeInParameterValue cur new True v else v)" for key
    using read [of key] read [of "''jsCode''"] by (auto simp: ps obj_read_def [of "obj_put _ _ _"] obj_read_def [of ?ps] Let_def)
  moreover have "parameters (rename_parameters cur new m) = parameters n"
    if "\<not> affected cur (JObj (parameters n))"
      "ntype n \<in> set NODES_WITH_RENAMABLE_CONTENT \<longrightarrow> map_of (parameters n) ''jsCode'' \<noteq> None"
    unfolding ps same [OF that(1)] using code [OF that(1)] that(2) by auto
  ultimately show ?thesis unfolding parameters_follow_def by blast
qed

text \<open>C29: renaming a node to a free name keeps the workflow well formed. The same nodes are found, the renamed
  one under its new name, with nothing changed but this name and the parameters; in the parameters each value
  is rewritten, the code of a node with code once more as a whole, and they are the same when none of
  them is \<open>null\<close> or a text in which the old name occurs (and a node with code has its code). A connection is
  there exactly when the old workflow had it, with the new name at either end in place of the old one.
  The index by destination node follows.\<close>

theorem renameNode_isomorphic:
  assumes wf: "wf_workflow w" and fresh: "cur \<noteq> new" "map_of (nodes w) new = None"
    "map_of (connectionsBySourceNode w) new = None"
  shows "wf_workflow (renameNode w cur new) \<and>
    (\<forall>k. case getNode (renameNode w cur new) k of
        None \<Rightarrow> k = cur \<or> getNode w (if k = new then cur else k) = None
      | Some n' \<Rightarrow> k \<noteq> cur \<and> (\<exists>n. getNode w (if k = new then cur else k) = Some n \<and>
          n' = n\<lparr>nodeName := k, parameters := parameters n'\<rparr> \<and> parameters_follow cur new n n')) \<and>
    (\<forall>s t i c'. has_conn (connectionsBySourceNode (renameNode w cur new)) s t i c' \<longleftrightarrow>
      s \<noteq> cur \<and> (\<exists>c. has_conn (connectionsBySourceNode w) (if s = new then cur else s) t i c \<and>
        c' = rename_target cur new c))"
proof -
  let ?f = "\<lambda>n. n\<lparr>nodeName := new\<rparr>"
  let ?moved = "move_key cur new ?f (nodes w)"
  have ns: "map_of (nodes (renameNode w cur new)) k = map_option (rename_parameters cur new) (map_of ?moved k)" for k
    by (simp add: renameNode_def Let_def map_of_map)
  have ref: "nodeRef (rename_parameters cur new n) = nodeRef n \<and> nodeName (rename_parameters cur new n) = nodeName n"
    for n by (simp add: rename_parameters_def Let_def)
  have named: "named (nodes w)" using wf by (simp add: wf_workflow_def)
  then have "wf_keys ?moved" "\<And>k n. map_of ?moved k = Some n \<Longrightarrow> nodeName n = k"
    using fresh(1,2) namedD by (auto simp: wf_keys_move_key map_of_move_key split: if_splits)
  then have "named (nodes (renameNode w cur new))"
    using ref ns by (auto simp: named_def renameNode_def Let_def wf_keys_def comp_def case_prod_beta)
  moreover have src: "connectionsBySourceNode (renameNode w cur new) =
      rename_targets cur new (move_key cur new (\<lambda>b. b) (connectionsBySourceNode w))"
    by (simp add: renameNode_def Let_def)
  moreover have "wf_connections (rename_targets cur new (move_key cur new (\<lambda>b. b) (connectionsBySourceNode w)))"
    using wf by (simp add: wf_rename_targets wf_workflow_def)
  moreover have "connectionsByDestinationNode (renameNode w cur new) =
      getConnectionsByDestination (connectionsBySourceNode (renameNode w cur new))"
    by (simp add: renameNode_def Let_def)
  ultimately have wf': "wf_workflow (renameNode w cur new)" by (simp add: wf_workflow_def)
  have found: "case getNode (renameNode w cur new) k of
      None \<Rightarrow> k = cur \<or> getNode w (if k = new then cur else k) = None
    | Some n' \<Rightarrow> k \<noteq> cur \<and> (\<exists>n. getNode w (if k = new then cur else k) = Some n \<and>
        n' = n\<lparr>nodeName := k, parameters := parameters n'\<rparr> \<and> parameters_follow cur new n n')" for k
  proof (cases "k \<noteq> cur \<and> map_of (nodes w) (if k = new then cur else k) \<noteq> None")
    case True
    then obtain n where n: "map_of (nodes w) (if k = new then cur else k) = Some n" by auto
    have "nodeName n = (if k = new then cur else k)" using namedD(2) [OF named n] .
    then have "map_of ?moved k = Some (n\<lparr>nodeName := k\<rparr>)"
      using True n by (auto simp: map_of_move_key [OF fresh(1,2)] split: if_splits)
    then have "getNode (renameNode w cur new) k = Some (rename_parameters cur new (n\<lparr>nodeName := k\<rparr>))" by (simp add: ns)
    moreover have "parameters_follow cur new n (rename_parameters cur new (n\<lparr>nodeName := k\<rparr>))"
      by (rule rename_parameters_follow) simp_all
    moreover note rename_parameters_fields [of cur new "n\<lparr>nodeName := k\<rparr>"]
    ultimately show ?thesis using True n by auto
  next
    case False
    then show ?thesis by (auto simp: ns map_of_move_key [OF fresh(1,2)])
  qed
  show ?thesis unfolding src using wf' found has_conn_renamed [OF fresh(1,3)] by blast
qed

text \<open>A node whose expression names A, and A.\<close>

definition referring_workflow :: Workflow where
  "referring_workflow = sample_workflow\<lparr>nodes := [(''A'', plain_node 1 ''A'' ''set''),
     (''C'', (plain_node 2 ''C'' ''set'')\<lparr>disabled := Some True, parameters := [(''v'', JStr ''=$node.A.json'')]\<rparr>)]\<rparr>"

theorem renameNode_isomorphic_witness:
  "wf_workflow (renameNode referring_workflow ''A'' ''B'') \<and>
   (\<exists>n'. getNode (renameNode referring_workflow ''A'' ''B'') ''C'' = Some n' \<and> disabled n' = Some True \<and>
      obj_read (parameters n') ''v'' = JStr ''=$node.B.json'')"
proof -
  have wf: "wf_workflow referring_workflow"
    by (auto simp: wf_workflow_def named_def referring_workflow_def sample_workflow_def wf_keys_def plain_node_def
        getConnectionsByDestination_def conn_entries_def)
  have fresh: "map_of (nodes referring_workflow) ''B'' = None"
    "map_of (connectionsBySourceNode referring_workflow) ''B'' = None" and "''A'' \<noteq> ''B''"
    by (simp_all add: referring_workflow_def sample_workflow_def plain_node_def)
  note iso = renameNode_isomorphic [OF wf \<open>''A'' \<noteq> ''B''\<close> fresh]
  have "getNode referring_workflow ''C'' \<noteq> None" by (simp add: referring_workflow_def)
  with iso [THEN conjunct2, THEN conjunct1, rule_format, of "''C''"] obtain n n' where
    n: "getNode referring_workflow ''C'' = Some n" "getNode (renameNode referring_workflow ''A'' ''B'') ''C'' = Some n'"
    "n' = n\<lparr>nodeName := ''C'', parameters := parameters n'\<rparr>" "parameters_follow ''A'' ''B'' n n'"
    by (cases "getNode (renameNode referring_workflow ''A'' ''B'') ''C''") auto
  have old: "disabled n = Some True" "ntype n = ''set''" "obj_read (parameters n) ''v'' = JStr ''=$node.A.json''"
    using n(1) by (auto simp: referring_workflow_def plain_node_def obj_read_def)
  have "disabled n' = disabled n" by (subst n(3)) simp
  moreover have "renameNodeInParameterValue ''A'' ''B'' False (JStr ''=$node.A.json'') = JStr ''=$node.B.json''"
    by code_simp
  with n(4) old have "obj_read (parameters n') ''v'' = JStr ''=$node.B.json''" by (simp add: parameters_follow_def)
  ultimately show ?thesis using iso [THEN conjunct1] n(2) old(1) by metis
qed

text \<open>Renaming a node to the name it has deletes it, together with its outgoing connections: the
  entry is copied to itself and then removed.\<close>

theorem renameNode_to_itself_deletes:
  "map_of (nodes (renameNode w name name)) name = None \<and>
   map_of (connectionsBySourceNode (renameNode w name name)) name = None"
proof -
  have gone: "map_of (move_key name name f ob) name = None" for f :: "'v \<Rightarrow> 'v" and ob
    by (cases "map_of ob name") (simp_all add: move_key_def)
  show ?thesis
    by (simp add: renameNode_def Let_def rename_targets_def map_of_map gone)
qed

text \<open>What the rewriting of expressions does besides its purpose. A reference in dot notation is
  rewritten when the old name is only the beginning of the name it refers to; the repair of dot
  notation for a new name with a special character eats the character in front of any other
  occurrence of that name; and a \<open>null\<close> parameter becomes an empty object.\<close>

theorem rename_expression_side_effects:
  "renameInExpression ''A'' ''B'' ''=$node.A1.json'' = ''=$node.B1.json'' \<and>
   renameInExpression ''A'' ''B C'' ''=$node.A.json + B C .'' =
     ''=$node['' @ [CHR 0x22] @ ''B C'' @ [CHR 0x22] @ ''].json +['' @ [CHR 0x22] @ ''B C'' @ [CHR 0x22] @ ''] .'' \<and>
   renameNodeInParameterValue ''A'' ''B'' False (JObj [(''x'', JNull)]) = JObj [(''x'', JObj [])]"
  by code_simp

end
