(* ===== verification/ExecutionLoop.thy ===== *)
theory ExecutionLoop
  imports NodeAttempt WorkflowRename "HOL-Library.Product_Lexorder"
begin

text \<open>
  The execution loop (\<open>processRunExecutionData\<close> of \<open>packages/core/src/WorkflowExecute.ts\<close>): one
  iteration takes a node off the stack, runs it, records what it returned and puts the connected
  nodes on the stack or among the waiting ones; at the end of an iteration that leaves the stack
  empty, a waiting node that can run with the data it has is put on the stack. The variables that
  live across iterations are the fields of \<open>LoopState\<close>.
\<close>

section \<open>The state of the loop\<close>

text \<open>
  \<open>ls_error\<close> is \<open>executionError\<close>, \<open>ls_lastTry\<close> is \<open>lastExecutionTry\<close>, \<open>ls_canceled\<close> tells whether
  \<open>status\<close> is \<open>canceled\<close> (it is \<open>running\<close> otherwise), and \<open>ls_hooks\<close> lists the hooks that were run.
\<close>

record LoopState =
  ls_data :: IRunExecutionData
  ls_error :: "js_error option"
  ls_lastTry :: string
  ls_canceled :: bool
  ls_hooks :: "Hook list"

text \<open>
  An iteration ends with \<open>continue\<close>, with \<open>break\<close> or \<open>return\<close>, or with an error that nothing in the
  loop catches.
\<close>

datatype StepResult = Again LoopState | Finished LoopState | Rejected js_error LoopState

definition run_hook :: "Env \<Rightarrow> Hook \<Rightarrow> LoopState \<Rightarrow> (LoopState \<Rightarrow> StepResult) \<Rightarrow> StepResult" where
  "run_hook env h ls k =
     (let ls = ls\<lparr>ls_hooks := ls_hooks ls @ [h]\<rparr> in
      case env_hook env h of None \<Rightarrow> k ls | Some e \<Rightarrow> Rejected e ls)"

definition guarded :: "LoopState \<Rightarrow> 'a res \<Rightarrow> ('a \<Rightarrow> StepResult) \<Rightarrow> StepResult" where
  "guarded ls m k = (case m of Inl e \<Rightarrow> Rejected e ls | Inr x \<Rightarrow> k x)"

lemma guarded_simps [simp]:
  "guarded ls (Inl e) k = Rejected e ls"
  "guarded ls (Inr x) k = k x"
  by (simp_all add: guarded_def)

definition with_data :: "LoopState \<Rightarrow> IRunExecutionData \<Rightarrow> LoopState" where
  "with_data ls s = ls\<lparr>ls_data := s\<rparr>"

section \<open>Recording a run\<close>

definition runIndexOf :: "IRunExecutionData \<Rightarrow> string \<Rightarrow> nat" where
  "runIndexOf s name = (case map_of (runData s) name of None \<Rightarrow> 0 | Some runs \<Rightarrow> length runs)"

definition executionTry :: "string \<Rightarrow> nat \<Rightarrow> string" where
  "executionTry name runIndex = name @ '':'' @ show_nat runIndex"

definition ensureRuns :: "string \<Rightarrow> IRunExecutionData \<Rightarrow> IRunExecutionData" where
  "ensureRuns name s =
     (if map_of (runData s) name = None then s\<lparr>runData := obj_put name [] (runData s)\<rparr> else s)"

definition pushRun :: "string \<Rightarrow> ITaskData \<Rightarrow> IRunExecutionData \<Rightarrow> IRunExecutionData" where
  "pushRun name td s =
     s\<lparr>runData := obj_put name
       ((case map_of (runData s) name of None \<Rightarrow> [] | Some runs \<Rightarrow> runs) @ [td]) (runData s)\<rparr>"

text \<open>The sources of an item on the stack always have an entry for the main inputs.\<close>

definition taskDataOf :: "IExecuteData \<Rightarrow> js_error option \<Rightarrow> ITaskData" where
  "taskDataOf d err =
     \<lparr>executionStatus = (if err = None then Success else StatusError), task_data = None, task_error = err,
      task_source = (case ed_source d of None \<Rightarrow> []
        | Some source \<Rightarrow> (case map_of source Main of None \<Rightarrow> [] | Some m \<Rightarrow> m)),
      task_metadata = JUndef\<rparr>"

definition continuesOnFail :: "INode \<Rightarrow> bool" where
  "continuesOnFail node =
     (continueOnFail node = Some True \<or>
      onError node = Some ContinueRegularOutput \<or> onError node = Some ContinueErrorOutput)"

text \<open>The input of a node that failed is passed on, if it has any.\<close>

definition passOn :: "IExecuteData \<Rightarrow> outputs slot \<Rightarrow> outputs slot" where
  "passOn d nodeSuccessData =
     (case map_of (ed_data d) Main of
        None \<Rightarrow> nodeSuccessData
      | Some m \<Rightarrow>
          if m \<noteq> [] \<and> arr_get m 0 \<noteq> SNull then SVal [arr_get m 0] else nodeSuccessData)"

fun mapR :: "('a \<Rightarrow> 'e + 'b) \<Rightarrow> 'a list \<Rightarrow> 'e + 'b list" where
  "mapR f [] = Inr []"
| "mapR f (x # xs) = bindR (f x) (\<lambda>y. bindR (mapR f xs) (\<lambda>ys. Inr (y # ys)))"

text \<open>A property read on a value: \<open>undefined\<close> and \<open>null\<close> have none.\<close>

definition js_member :: "jsval \<Rightarrow> string \<Rightarrow> jsval res" where
  "js_member v k =
     (case v of JUndef \<Rightarrow> Inl TypeError | JNull \<Rightarrow> Inl TypeError | JObj ob \<Rightarrow> Inr (obj_read ob k) | _ \<Rightarrow> Inr JUndef)"

definition mergeError :: "INodeExecutionData \<Rightarrow> INodeExecutionData res" where
  "mergeError i =
     (if obj_read (json i) ''$error'' \<noteq> JUndef \<and> obj_read (json i) ''$json'' \<noteq> JUndef then
        bindR (js_member (obj_read (json i) ''$error'') ''message'') (\<lambda>m.
          Inr (i\<lparr>item_error := obj_read (json i) ''$error'', json := [(''error'', m)]\<rparr>))
      else if item_error i \<noteq> JUndef then
        bindR (js_member (item_error i) ''message'') (\<lambda>m. Inr (i\<lparr>json := [(''error'', m)]\<rparr>))
      else Inr i)"

definition mergeErrors :: "outputs slot \<Rightarrow> outputs res" where
  "mergeErrors nodeSuccessData =
     bindR (derefR (slot_list nodeSuccessData)) (mapR (\<lambda>execution.
       bindR (derefR (slot_list execution)) (\<lambda>items. bindR (mapR mergeError items) (\<lambda>items. Inr (SVal items)))))"

section \<open>The connected nodes\<close>

definition outgoing :: "Workflow \<Rightarrow> string \<Rightarrow> (nat \<times> IConnection) list" where
  "outgoing w name =
     (case arr_of (connectionsBySourceNode w) name Main of
        None \<Rightarrow> []
      | Some arr \<Rightarrow> concat (map (\<lambda>(k, cs). map (Pair k) cs) (present arr)))"

definition destinationKnown :: "Workflow \<Rightarrow> IConnection \<Rightarrow> unit res" where
  "destinationKnown w c =
     (if map_of (nodes w) (cnode c) = None then Inl (ApplicationError ''Destination node not found'')
      else Inr ())"

definition getsData :: "Workflow \<Rightarrow> outputs \<Rightarrow> nat \<times> IConnection \<Rightarrow> bool" where
  "getsData w out = (\<lambda>(k, c).
     case arr_get out k of
       SVal items \<Rightarrow> items \<noteq> [] \<or> 0 < cindex c \<and> forceInputNodeExecution w
     | _ \<Rightarrow> False)"

definition positionOf :: "Workflow \<Rightarrow> IConnection \<Rightarrow> int \<times> int" where
  "positionOf w c = (case getNode w (cnode c) of None \<Rightarrow> (0, 0) | Some node \<Rightarrow> position node)"

text \<open>
  \<open>nodesToAdd.sort\<close>: lower nodes first, of those at one height the ones more to the right. The
  comparison never answers that the second position is further right; a sort that is stable and
  asks only whether one element has to stand before another, as that of V8 does, does not notice.
\<close>

definition topLeftLast :: "Workflow \<Rightarrow> (nat \<times> IConnection) list \<Rightarrow> (nat \<times> IConnection) list" where
  "topLeftLast w xs =
     sort_key (\<lambda>x. (- snd (positionOf w (snd x)), - fst (positionOf w (snd x)))) xs"

definition addChild ::
  "Workflow \<Rightarrow> string \<Rightarrow> outputs \<Rightarrow> nat \<Rightarrow> nat \<times> IConnection \<Rightarrow> IRunExecutionData \<Rightarrow> IRunExecutionData res" where
  "addChild w name out runIndex = (\<lambda>(k, c). addNodeToBeExecuted w c k name (Some out) runIndex)"

definition addChildren ::
  "Workflow \<Rightarrow> string \<Rightarrow> outputs \<Rightarrow> nat \<Rightarrow> IRunExecutionData \<Rightarrow> IRunExecutionData res" where
  "addChildren w name out runIndex s =
     (if executionOrder w = Some ''v1'' then
        bindR (mapR (\<lambda>x. destinationKnown w (snd x)) (outgoing w name)) (\<lambda>_.
          foldR (addChild w name out runIndex)
            (topLeftLast w (filter (getsData w out) (outgoing w name))) s)
      else
        foldR (\<lambda>x s. bindR (destinationKnown w (snd x)) (\<lambda>_.
            if getsData w out x then addChild w name out runIndex x s else Inr s))
          (outgoing w name) s)"

section \<open>Waiting nodes that can run\<close>

text \<open>The number of the first entry in that order.\<close>

fun firstRunIndex :: "nat list \<Rightarrow> nat option" where
  "firstRunIndex [] = None"
| "firstRunIndex (i # is) =
     (case firstRunIndex is of
        None \<Rightarrow> Some i
      | Some j \<Rightarrow> if str_less (show_nat j) (show_nat i) then Some j else Some i)"

definition requiredInputsOf :: "Workflow \<Rightarrow> INode \<Rightarrow> RequiredInputs res" where
  "requiredInputsOf w node =
     (if executionOrder w = Some ''v1'' then
        bindR (derefR (nodeTypes w (ntype node) (typeVersion node))) (\<lambda>nodeType.
          Inr (td_requiredInputs nodeType))
      else Inr NoRequirement)"

definition allInputsRequired :: "RequiredInputs \<Rightarrow> nat \<Rightarrow> bool" where
  "allInputsRequired requiredInputs numberOfInputs =
     (case requiredInputs of
        NoRequirement \<Rightarrow> False
      | RequiredCount n \<Rightarrow> n = numberOfInputs
      | RequiredIndices is \<Rightarrow> length is = numberOfInputs)"

text \<open>Neither \<open>map\<close> nor \<open>filter\<close> sees a hole, but \<open>undefined\<close> is not \<open>null\<close>.\<close>

definition inputsWithData :: "outputs \<Rightarrow> nat list" where
  "inputsWithData m = map fst (filter (\<lambda>(_, v). v \<noteq> SNull \<and> v \<noteq> SHole) (enumerate 0 m))"

definition requirementMet :: "RequiredInputs \<Rightarrow> outputs \<Rightarrow> bool" where
  "requirementMet requiredInputs m =
     (case requiredInputs of
        NoRequirement \<Rightarrow> True
      | RequiredCount n \<Rightarrow> n \<le> length (inputsWithData m)
      | RequiredIndices is \<Rightarrow> set is \<subseteq> set (inputsWithData m))"

text \<open>\<open>taskDataMain\<close>: inputs that never got data are empty arrays.\<close>

definition taskDataMain :: "outputs \<Rightarrow> outputs" where
  "taskDataMain m = map (\<lambda>v. if v = SNull then SVal [] else v) m"

text \<open>\<open>undefined\<close> has no \<open>length\<close>.\<close>

definition hasItems :: "outputs \<Rightarrow> bool res" where
  "hasItems m =
     (if SUndef \<in> set m then Inl TypeError
      else Inr (list_ex (\<lambda>v. case v of SVal items \<Rightarrow> items \<noteq> [] | _ \<Rightarrow> False) m))"

text \<open>The waiting entry goes to the end of the stack, with an array for each input.\<close>

definition pushWaiting :: "Workflow \<Rightarrow> string \<Rightarrow> INode \<Rightarrow> nat \<Rightarrow> outputs \<Rightarrow> IRunExecutionData \<Rightarrow> IRunExecutionData res" where
  "pushWaiting w name checkNode i m s =
     bindR (derefR (nodeTypes w (ntype checkNode) (typeVersion checkNode))) (\<lambda>nodeType.
     bindR (derefR (waitingExecutionSource s)) (\<lambda>sources.
     bindR (derefR (map_of sources name)) (\<lambda>_.
       Inr (s\<lparr>nodeExecutionStack := nodeExecutionStack s @
         [\<lparr>ed_node = checkNode,
           ed_data = [(Main, m @ replicate (length (td_inputs nodeType) - length m) (SVal []))],
           ed_source = source_at s name i\<rparr>]\<rparr>))))"

text \<open>
  One waiting node: it is passed over, or its first entry is taken (it had items), or its first
  entry was empty and is removed.
\<close>

datatype WaitingStep = PassOver | Taken IRunExecutionData | Removed IRunExecutionData

definition tryWaiting :: "Workflow \<Rightarrow> string list \<Rightarrow> string \<Rightarrow> IRunExecutionData \<Rightarrow> WaitingStep res" where
  "tryWaiting w waitingNodes name s =
     (case getNode w name of
        None \<Rightarrow> Inr PassOver
      | Some checkNode \<Rightarrow>
          bindR (requiredInputsOf w checkNode) (\<lambda>requiredInputs.
          if allInputsRequired requiredInputs
               (case nodeTypes w (ntype checkNode) (typeVersion checkNode) of
                  None \<Rightarrow> 0 | Some nodeType \<Rightarrow> length (td_inputs nodeType)) then Inr PassOver
          else if list_ex (\<lambda>p. p \<in> set waitingNodes) (getParentNodes w name (OneType Main) (-1)) then Inr PassOver
          else
            bindR (derefR (map_of (waitingExecution s) name)) (\<lambda>runs.
            bindR (derefR (firstRunIndex (map fst runs))) (\<lambda>i.
            bindR (waiting_main s name i) (\<lambda>m.
            if \<not> requirementMet requiredInputs m then Inr PassOver
            else bindR (hasItems (taskDataMain m)) (\<lambda>found.
            if found then
              bindR (pushWaiting w name checkNode i (taskDataMain m) s) (\<lambda>s.
              bindR (remove_waiting name i s) (\<lambda>s. Inr (Taken s)))
            else bindR (remove_waiting name i s) (\<lambda>s. Inr (Removed s))))))))"

fun scanWaiting :: "Workflow \<Rightarrow> string list \<Rightarrow> string list \<Rightarrow> IRunExecutionData \<Rightarrow> WaitingStep res" where
  "scanWaiting w waitingNodes [] s = Inr PassOver"
| "scanWaiting w waitingNodes (name # names) s =
     bindR (tryWaiting w waitingNodes name s) (\<lambda>r.
       case r of PassOver \<Rightarrow> scanWaiting w waitingNodes names s | _ \<Rightarrow> Inr r)"

definition waitingEntries :: "IRunExecutionData \<Rightarrow> nat" where
  "waitingEntries s = (\<Sum>(name, runs) \<leftarrow> waitingExecution s. Suc (length runs))"

lemma waitingEntries_pushWaiting:
  "pushWaiting w name node i m s = Inr s' \<Longrightarrow>
   waitingExecution s' = waitingExecution s \<and> waitingExecutionSource s' = waitingExecutionSource s"
  by (auto simp: pushWaiting_def bindR_Inr_iff)

lemma sum_update:
  fixes f :: "'a \<Rightarrow> nat"
  shows "map_of m k = Some v \<Longrightarrow> f v' < f v \<Longrightarrow>
    (\<Sum>(_, r) \<leftarrow> AList.update k v' m. f r) < (\<Sum>(_, r) \<leftarrow> m. f r)"
  by (induction m) (auto split: if_splits)

lemma sum_delete:
  fixes f :: "'a \<Rightarrow> nat"
  shows "(\<Sum>(_, r) \<leftarrow> AList.delete k m. f r) \<le> (\<Sum>(_, r) \<leftarrow> m. f r)"
  by (induction m) (auto simp: AList.delete_eq)

lemma sum_delete_less:
  fixes f :: "'a \<Rightarrow> nat"
  shows "map_of m k = Some v \<Longrightarrow> 0 < f v \<Longrightarrow> (\<Sum>(_, r) \<leftarrow> AList.delete k m. f r) < (\<Sum>(_, r) \<leftarrow> m. f r)"
proof (induction m)
  case Nil
  then show ?case by simp
next
  case (Cons p m)
  then show ?case using sum_delete [of f k m] by (cases p) (auto simp: AList.delete_eq)
qed

lemma length_delete_less: "map_of runs i = Some d \<Longrightarrow> length (AList.delete i runs) < length runs"
proof -
  assume "map_of runs i = Some d"
  then have "(i, d) \<in> set runs" by (rule map_of_SomeD)
  then show ?thesis unfolding AList.delete_eq by (rule length_filter_less) simp
qed

lemma remove_waiting_entries:
  assumes "remove_waiting name i s = Inr s'" "waiting_at s name i = Some d"
  shows "waitingEntries s' < waitingEntries s"
proof -
  obtain runs where runs: "map_of (waitingExecution s) name = Some runs" "map_of runs i = Some d"
    using assms(2) by (auto simp: waiting_at_def split: option.splits)
  define f where "f = (\<lambda>runs :: (nat \<times> ITaskDataConnections) list. Suc (length runs))"
  have sum: "waitingEntries t = (\<Sum>(_, r) \<leftarrow> waitingExecution t. f r)" for t
    by (simp add: waitingEntries_def f_def)
  have "f (AList.delete i runs) < f runs" using length_delete_less [OF runs(2)] by (simp add: f_def)
  from sum_update [of _ _ _ f, OF runs(1) this] sum_delete_less [of _ _ _ f, OF runs(1)] assms(1) runs(1)
  show ?thesis
    by (auto simp: remove_waiting_def Let_def bindR_Inr_iff sum obj_put_def f_def split: if_splits)
qed

lemma tryWaiting_removed:
  "tryWaiting w waitingNodes name s = Inr (Removed s') \<Longrightarrow> waitingEntries s' < waitingEntries s"
  by (auto simp: tryWaiting_def bindR_Inr_iff waiting_main_def split: option.splits if_splits
      intro: remove_waiting_entries)

lemma scanWaiting_removed:
  "scanWaiting w waitingNodes names s = Inr (Removed s') \<Longrightarrow> waitingEntries s' < waitingEntries s"
proof (induction names)
  case Nil
  then show ?case by simp
next
  case (Cons name names)
  then obtain r where r: "tryWaiting w waitingNodes name s = Inr r"
    "(case r of PassOver \<Rightarrow> scanWaiting w waitingNodes names s | _ \<Rightarrow> Inr r) = Inr (Removed s')"
    by (auto simp: bindR_Inr_iff)
  with Cons.IH tryWaiting_removed show ?case by (cases r) auto
qed

text \<open>
  After an empty entry was removed the search begins again with the nodes that still wait. Each
  removal leaves fewer entries, so the search ends.
\<close>

function executeWaiting :: "Workflow \<Rightarrow> IRunExecutionData \<Rightarrow> IRunExecutionData res" where
  "executeWaiting w s =
     (case scanWaiting w (map_keys (waitingExecution s)) (map_keys (waitingExecution s)) s of
        Inl e \<Rightarrow> Inl e
      | Inr PassOver \<Rightarrow> Inr s
      | Inr (Taken s') \<Rightarrow> Inr s'
      | Inr (Removed s') \<Rightarrow> executeWaiting w s')"
  by pat_completeness auto
termination
  by (relation "measure (\<lambda>(w, s). waitingEntries s)") (auto dest: scanWaiting_removed)

declare executeWaiting.simps [simp del]

definition resumeWaiting :: "Workflow \<Rightarrow> IRunExecutionData \<Rightarrow> IRunExecutionData res" where
  "resumeWaiting w s = (if nodeExecutionStack s = [] then executeWaiting w s else Inr s)"

section \<open>One iteration\<close>

definition isDestination :: "IRunExecutionData \<Rightarrow> string \<Rightarrow> bool" where
  "isDestination s name =
     (case startData s of
        None \<Rightarrow> False
      | Some start \<Rightarrow> name \<noteq> [] \<and> sd_destinationNode start = Some name)"

text \<open>The node returned data: it is recorded, and the connected nodes are added.\<close>

definition keepData ::
  "Env \<Rightarrow> Workflow \<Rightarrow> IExecuteData \<Rightarrow> nat \<Rightarrow> outputs slot \<Rightarrow> ITaskData \<Rightarrow> LoopState \<Rightarrow> StepResult" where
  "keepData env w d runIndex nodeSuccessData td ls =
     (let name = nodeName (ed_node d) in
      guarded ls (mergeErrors nodeSuccessData) (\<lambda>out.
      let ls = with_data ls (pushRun name (td\<lparr>task_data := Some [(Main, out)]\<rparr>) (ls_data ls)) in
      if waitTill (ls_data ls) \<noteq> None then
        run_hook env (NodeExecuteAfter name) ls (\<lambda>ls.
          Finished (with_data ls ((ls_data ls)\<lparr>nodeExecutionStack := d # nodeExecutionStack (ls_data ls)\<rparr>)))
      else if isDestination (ls_data ls) name then
        run_hook env (NodeExecuteAfter name) ls Again
      else
        guarded ls (addChildren w name out runIndex (ls_data ls)) (\<lambda>s.
        run_hook env (NodeExecuteAfter name) (with_data ls s) (\<lambda>ls.
        guarded ls (resumeWaiting w (ls_data ls)) (\<lambda>s. Again (with_data ls s))))))"

definition isAbortError :: "js_error option \<Rightarrow> bool" where
  "isAbortError e = (map_option error_message e = Some ''AbortError'')"

text \<open>The node failed and the workflow does not go on: the node goes back on the stack.\<close>

definition stopWithError :: "Env \<Rightarrow> IExecuteData \<Rightarrow> ITaskData \<Rightarrow> js_error \<Rightarrow> LoopState \<Rightarrow> StepResult" where
  "stopWithError env d td e ls =
     (let name = nodeName (ed_node d);
          s = pushRun name td (ls_data ls);
          ls = ls\<lparr>ls_data := s\<lparr>nodeExecutionStack := d # nodeExecutionStack s\<rparr>, ls_error := Some e\<rparr>
      in if isAbortError (Some e) then Finished ls
         else run_hook env (NodeExecuteAfter name) ls Finished)"

definition finishNode ::
  "Env \<Rightarrow> Workflow \<Rightarrow> IExecuteData \<Rightarrow> nat \<Rightarrow> outputs slot \<Rightarrow> js_error option \<Rightarrow> LoopState \<Rightarrow> StepResult" where
  "finishNode env w d runIndex nodeSuccessData err ls =
     (let ls = (with_data ls (ensureRuns (nodeName (ed_node d)) (ls_data ls)))\<lparr>ls_error := err\<rparr>;
          td = taskDataOf d err
      in case err of
        None \<Rightarrow> keepData env w d runIndex nodeSuccessData td ls
      | Some e \<Rightarrow>
          if continuesOnFail (ed_node d) then keepData env w d runIndex (passOn d nodeSuccessData) td ls
          else stopWithError env d td e ls)"

definition filteredOut :: "IRunExecutionData \<Rightarrow> string \<Rightarrow> bool" where
  "filteredOut s name =
     (case startData s of
        None \<Rightarrow> False
      | Some start \<Rightarrow> (case sd_runNodeFilter start of None \<Rightarrow> False | Some names \<Rightarrow> name \<notin> set names))"

text \<open>The iteration from the choice of the run index on.\<close>

definition runStep :: "Env \<Rightarrow> Workflow \<Rightarrow> IExecuteData \<Rightarrow> LoopState \<Rightarrow> StepResult" where
  "runStep env w d ls =
     (let name = nodeName (ed_node d);
          runIndex = runIndexOf (ls_data ls) name;
          currentExecutionTry = executionTry name runIndex
      in if currentExecutionTry = ls_lastTry ls then
           Rejected (ApplicationError ''Stopped execution because it seems to be in an endless loop'') ls
         else if filteredOut (ls_data ls) name then Again ls
         else guarded ls (inputsReady w d) (\<lambda>ready.
           if \<not> ready then
             Again (ls\<lparr>ls_data := (ls_data ls)\<lparr>nodeExecutionStack := nodeExecutionStack (ls_data ls) @ [d]\<rparr>,
                       ls_lastTry := currentExecutionTry\<rparr>)
           else
             let a = tryLoop env w d runIndex (maxTriesOf (ed_node d)) 0 SNull None (ls_data ls);
                 ls = with_data ls (at_state a)
             in case at_end a of
               Skip \<Rightarrow> Again ls
             | Done \<Rightarrow> finishNode env w d runIndex (at_data a) None ls
             | Failed e \<Rightarrow> finishNode env w d runIndex (at_data a) (Some e) ls))"

definition paired :: "IExecuteData \<Rightarrow> IExecuteData" where
  "paired job = job\<lparr>ed_data := pairInput (ed_data job)\<rparr>"

definition step :: "Env \<Rightarrow> Workflow \<Rightarrow> LoopState \<Rightarrow> StepResult" where
  "step env w ls =
     (case nodeExecutionStack (ls_data ls) of
        [] \<Rightarrow> Finished ls
      | job # rest \<Rightarrow>
          if ls_canceled ls \<or> env_stopped env then Finished (ls\<lparr>ls_canceled := True\<rparr>)
          else
            let ls = ls\<lparr>ls_data := (ls_data ls)\<lparr>nodeExecutionStack := rest\<rparr>, ls_error := None\<rparr> in
            if undefinedInput (ed_data job) then Rejected TypeError ls
            else run_hook env (NodeExecuteBefore (nodeName (ed_node job))) ls (runStep env w (paired job)))"

text \<open>
  The loop. The environment of each iteration is its own; a workflow with a cycle can run for
  ever, so the number of iterations is bounded by the first argument, and \<open>None\<close> means that it was
  used up.
\<close>

fun execLoop :: "nat \<Rightarrow> (nat \<Rightarrow> Env) \<Rightarrow> Workflow \<Rightarrow> LoopState \<Rightarrow> StepResult option" where
  "execLoop 0 envs w ls = None"
| "execLoop (Suc fuel) envs w ls =
     (case step (envs 0) w ls of
        Again ls' \<Rightarrow> execLoop fuel (\<lambda>k. envs (Suc k)) w ls'
      | r \<Rightarrow> Some r)"

end
