(* ===== verification/QueueProgress.thy ===== *)
theory QueueProgress
  imports ExecutionLoop "HOL-Library.Multiset"
begin

text \<open>
  What the operations of the queue do to the parts of the execution state they are not about
  (nothing, \<open>frame\<close>), and to the work that is left (\<open>advances\<close>): seen as a multiset of ranks of the
  nodes on the stack and in the table of waiting nodes, it grows only by ranks below a bound. Both
  are proved once for each operation and used for the loop.
\<close>

section \<open>The work that is left\<close>

definition frame :: "IRunExecutionData \<Rightarrow> IRunExecutionData" where
  "frame s = s\<lparr>nodeExecutionStack := [], waitingExecution := [], waitingExecutionSource := None\<rparr>"

lemma frame_updates [simp]:
  "frame (s\<lparr>nodeExecutionStack := x\<rparr>) = frame s"
  "frame (s\<lparr>waitingExecution := y\<rparr>) = frame s"
  "frame (s\<lparr>waitingExecutionSource := z\<rparr>) = frame s"
  by (simp_all add: frame_def)

lemma frame_fields:
  assumes "frame s' = frame s"
  shows "runData s' = runData s" "startData s' = startData s" "pinData s' = pinData s"
    "waitTill s' = waitTill s" "lastNodeExecuted s' = lastNodeExecuted s" "metadata s' = metadata s"
    "resultError s' = resultError s"
proof -
  have "f (frame s') = f (frame s)" for f :: "IRunExecutionData \<Rightarrow> 'x" using assms by simp
  from this [of runData] this [of startData] this [of pinData] this [of waitTill]
    this [of lastNodeExecuted] this [of metadata] this [of resultError]
  show "runData s' = runData s" "startData s' = startData s" "pinData s' = pinData s"
    "waitTill s' = waitTill s" "lastNodeExecuted s' = lastNodeExecuted s" "metadata s' = metadata s"
    "resultError s' = resultError s"
    by (simp_all add: frame_def)
qed

definition stack_work :: "(string \<Rightarrow> nat) \<Rightarrow> IExecuteData list \<Rightarrow> nat multiset" where
  "stack_work rk stack = mset (map (\<lambda>d. rk (nodeName (ed_node d))) stack)"

definition waiting_work :: "(string \<Rightarrow> nat) \<Rightarrow> IWaitingForExecution \<Rightarrow> nat multiset" where
  "waiting_work rk table = (\<Sum>(name, runs) \<leftarrow> table. replicate_mset (length runs) (rk name))"

definition work :: "(string \<Rightarrow> nat) \<Rightarrow> IRunExecutionData \<Rightarrow> nat multiset" where
  "work rk s = stack_work rk (nodeExecutionStack s) + waiting_work rk (waitingExecution s)"

lemma waiting_work_simps [simp]:
  "waiting_work rk [] = {#}"
  "waiting_work rk ((name, runs) # table) = replicate_mset (length runs) (rk name) + waiting_work rk table"
  "waiting_work rk (xs @ ys) = waiting_work rk xs + waiting_work rk ys"
  by (simp_all add: waiting_work_def)

lemma stack_work_simps [simp]:
  "stack_work rk [] = {#}"
  "stack_work rk (d # ds) = add_mset (rk (nodeName (ed_node d))) (stack_work rk ds)"
  "stack_work rk (xs @ ys) = stack_work rk xs + stack_work rk ys"
  by (simp_all add: stack_work_def)

lemma waiting_work_update:
  "map_of table name = Some runs \<Longrightarrow>
   waiting_work rk (AList.update name runs' table) + replicate_mset (length runs) (rk name) =
   waiting_work rk table + replicate_mset (length runs') (rk name)"
  by (induction table) (auto split: if_splits)

lemma waiting_work_insert_index:
  "waiting_work rk (insert_index i name runs table) =
   waiting_work rk table + replicate_mset (length runs) (rk name)"
  by (induction table) (auto split: option.splits)

lemma waiting_work_new:
  "map_of table name = None \<Longrightarrow>
   waiting_work rk (obj_put name runs table) = waiting_work rk table + replicate_mset (length runs) (rk name)"
  by (auto simp: obj_put_def waiting_work_insert_index split: option.split)

lemma waiting_work_delete_le: "waiting_work rk (AList.delete name table) \<subseteq># waiting_work rk table"
  by (induction table) (auto simp: subset_mset.add_increasing)

lemma waiting_work_delete:
  "map_of table name = Some runs \<Longrightarrow>
   waiting_work rk (AList.delete name table) + replicate_mset (length runs) (rk name) \<subseteq># waiting_work rk table"
proof (induction table)
  case Nil
  then show ?case by simp
next
  case (Cons p table)
  then show ?case using waiting_work_delete_le [of rk name table]
    by (cases p) (auto simp: ac_simps)
qed

lemma length_num_put: "length (num_put i v ob) \<le> Suc (length ob)"
  by (induction ob) auto

lemma replicate_mset_mono: "a \<le> b \<Longrightarrow> replicate_mset a x \<subseteq># replicate_mset b x"
  by (auto intro!: mset_subset_eqI)

section \<open>Progress\<close>

definition has_main :: "IExecuteData \<Rightarrow> bool" where
  "has_main d = (map_of (ed_data d) Main \<noteq> None)"

definition advances :: "(string \<Rightarrow> nat) \<Rightarrow> nat \<Rightarrow> IRunExecutionData \<Rightarrow> IRunExecutionData \<Rightarrow> bool" where
  "advances rk n s s' =
     (frame s' = frame s \<and> (\<exists>K. work rk s' \<subseteq># work rk s + K \<and> (\<forall>k \<in># K. k < n)) \<and>
      (\<forall>d \<in> set (nodeExecutionStack s'). d \<in> set (nodeExecutionStack s) \<or> has_main d))"

lemma advancesI:
  assumes "frame s' = frame s" "work rk s' \<subseteq># work rk s + K" "\<And>k. k \<in># K \<Longrightarrow> k < n"
    "\<And>d. d \<in> set (nodeExecutionStack s') \<Longrightarrow> d \<in> set (nodeExecutionStack s) \<or> has_main d"
  shows "advances rk n s s'"
  using assms by (auto simp: advances_def)

lemma advances_refl [simp, intro]: "advances rk n s s"
  by (rule advancesI [where K = "{#}"]) simp_all

lemma advances_trans [trans]:
  assumes "advances rk n s t" "advances rk n t u"
  shows "advances rk n s u"
proof -
  from assms obtain K L where K: "work rk t \<subseteq># work rk s + K" "\<forall>k \<in># K. k < n"
    and L: "work rk u \<subseteq># work rk t + L" "\<forall>k \<in># L. k < n"
    by (auto simp: advances_def)
  have "work rk u \<subseteq># work rk s + (K + L)"
    using subset_mset.order_trans [OF L(1) subset_mset.add_right_mono [OF K(1)]] by (simp add: ac_simps)
  with assms K L show ?thesis
    by (intro advancesI [where K = "K + L"]) (auto simp: advances_def)
qed

lemma advances_sources [simp]: "advances rk n s (s\<lparr>waitingExecutionSource := src\<rparr>)"
  by (rule advancesI [where K = "{#}"]) (simp_all add: work_def)

lemma advances_with_sources: "advances rk n s (with_sources s)"
  using with_sources_cases [of s] by auto

lemma advances_put_source: "put_source name i d s = Inr s' \<Longrightarrow> advances rk n s s'"
  by (auto dest: put_source_Inr)

lemma advances_set_source: "set_source_input name i k v s = Inr s' \<Longrightarrow> advances rk n s s'"
  by (auto dest: set_source_input_Inr)

lemma advances_table:
  assumes "frame s' = frame s" "nodeExecutionStack s' = nodeExecutionStack s"
    "waiting_work rk (waitingExecution s') \<subseteq># waiting_work rk (waitingExecution s) + replicate_mset j (rk name)"
    "rk name < n"
  shows "advances rk n s s'"
  using assms by (intro advancesI [where K = "replicate_mset j (rk name)"]) (auto simp: work_def ac_simps split: if_splits)

lemma advances_put_waiting:
  assumes "put_waiting name i d s = Inr s'" "rk name < n"
  shows "advances rk n s s'"
proof -
  from assms(1) obtain runs where runs: "map_of (waitingExecution s) name = Some runs"
    and s': "s' = s\<lparr>waitingExecution := obj_put name (num_put i d runs) (waitingExecution s)\<rparr>"
    by (auto simp: put_waiting_Inr)
  have eq: "waiting_work rk (waitingExecution s') + replicate_mset (length runs) (rk name) =
      waiting_work rk (waitingExecution s) + replicate_mset (length (num_put i d runs)) (rk name)"
    using waiting_work_update [OF runs, of rk "num_put i d runs"] runs by (simp add: s' obj_put_def)
  have "waiting_work rk (waitingExecution s') + replicate_mset (length runs) (rk name) \<subseteq>#
      (waiting_work rk (waitingExecution s) + replicate_mset 1 (rk name)) + replicate_mset (length runs) (rk name)"
    using replicate_mset_mono [OF length_num_put, of i d runs "rk name"] by (simp add: eq ac_simps)
  then have "waiting_work rk (waitingExecution s') \<subseteq># waiting_work rk (waitingExecution s) + replicate_mset 1 (rk name)"
    by (simp only: subset_mset.add_le_cancel_right)
  with assms(2) show ?thesis
    by (intro advances_table [where j = 1 and name = name]) (simp_all add: s')
qed

lemma advances_set_waiting:
  "set_waiting_input name i k v s = Inr s' \<Longrightarrow> rk name < n \<Longrightarrow> advances rk n s s'"
  by (auto simp: set_waiting_input_def bindR_Inr_iff intro: advances_put_waiting)

lemma advances_prepare:
  assumes "prepareWaitingToExecution name k i s = Inr s'" "rk name < n"
  shows "advances rk n s s'"
proof -
  from assms(1) obtain t where t: "put_waiting name i [(Main, replicate k SNull)] (with_sources s) = Inr t"
      "put_source name i [(Main, replicate k SNull)] t = Inr s'"
    by (auto simp: prepareWaitingToExecution_def bindR_Inr_iff)
  have "advances rk n s (with_sources s)" by (rule advances_with_sources)
  also have "advances rk n (with_sources s) t" using t(1) assms(2) by (rule advances_put_waiting)
  also have "advances rk n t s'" using t(2) by (rule advances_put_source)
  finally show ?thesis .
qed

lemma advances_new_table:
  "map_of (waitingExecution s) name = None \<Longrightarrow>
   advances rk n s (s\<lparr>waitingExecution := obj_put name [] (waitingExecution s), waitingExecutionSource := src\<rparr>)"
  by (intro advancesI [where K = "{#}"]) (simp_all add: work_def waiting_work_new)

lemma advances_choose:
  assumes "chooseWaiting w c s = Inr (s', i, was)" "rk (cnode c) < n"
  shows "advances rk n s s'"
proof -
  let ?s1 = "with_sources s"
  define s2 where "s2 = (if map_of (waitingExecution ?s1) (cnode c) \<noteq> None then ?s1
    else ?s1\<lparr>waitingExecution := obj_put (cnode c) [] (waitingExecution ?s1),
             waitingExecutionSource := map_option (obj_put (cnode c) []) (waitingExecutionSource ?s1)\<rparr>)"
  have s2: "advances rk n s s2"
    using advances_with_sources [of rk n s] advances_new_table [of ?s1 "cnode c" rk n]
    unfolding s2_def by (auto intro: advances_trans)
  have "s' = s2 \<or> (\<exists>k j. prepareWaitingToExecution (cnode c) k j s2 = Inr s')"
    using assms(1) unfolding chooseWaiting_def Let_def s2_def [symmetric]
    by (auto simp: bindR_Inr_iff split: option.splits)
  with s2 advances_prepare assms(2) show ?thesis by (blast intro: advances_trans)
qed

lemma advances_addData:
  assumes "addWaitingData c outputIndex parent data runIndex i s = Inr s'" "rk (cnode c) < n"
  shows "advances rk n s s'"
proof -
  from assms(1) obtain t v src where "set_waiting_input (cnode c) i (cindex c) v s = Inr t"
    "set_source_input (cnode c) i (cindex c) src t = Inr s'"
    by (cases data) (auto simp: addWaitingData_def bindR_Inr_iff)
  then show ?thesis using assms(2) by (blast intro: advances_trans advances_set_waiting advances_set_source)
qed

lemma advances_keep:
  assumes "keepWaiting w c outputIndex parent runIndex i arr s = Inr s'" "rk (cnode c) < n"
  shows "advances rk n s s'"
proof -
  from assms(1) obtain k t u src where "prepareWaitingToExecution (cnode c) k i s = Inr t"
    "put_waiting (cnode c) i [(Main, arr)] t = Inr u" "set_source_input (cnode c) i (cindex c) src u = Inr s'"
    by (auto simp: keepWaiting_def bindR_Inr_iff)
  then show ?thesis using assms(2)
    by (blast intro: advances_trans advances_prepare advances_put_waiting advances_set_source)
qed

lemma advances_enqueue:
  assumes "rk (nodeName (ed_node d)) < n" "has_main d"
  shows "advances rk n s (enqueue w d s)"
  using assms
  by (intro advancesI [where K = "{#rk (nodeName (ed_node d))#}"]) (auto simp: enqueue_def work_def split: if_splits)

text \<open>Removing an entry frees its work, even when the entry is put on the stack at the same time.\<close>

lemma work_remove_waiting:
  assumes "remove_waiting name i s = Inr s'" "waiting_at s name i = Some d"
  shows "waiting_work rk (waitingExecution s') + {#rk name#} \<subseteq># waiting_work rk (waitingExecution s)"
proof -
  from remove_waiting_Inr [OF assms(1)] obtain runs where
    runs: "map_of (waitingExecution s) name = Some runs" and
    s': "waitingExecution s' = (if AList.delete i runs = [] then AList.delete name (waitingExecution s)
      else obj_put name (AList.delete i runs) (waitingExecution s))" by blast
  have "map_of runs i = Some d" using assms(2) runs by (simp add: waiting_at_def)
  then have len: "length (AList.delete i runs) < length runs" by (rule length_delete_less)
  show ?thesis
  proof (cases "AList.delete i runs = []")
    case True
    have "{#rk name#} \<subseteq># replicate_mset (length runs) (rk name)"
      using replicate_mset_mono [of 1 "length runs" "rk name"] len by simp
    then have "waiting_work rk (AList.delete name (waitingExecution s)) + {#rk name#} \<subseteq>#
        waiting_work rk (AList.delete name (waitingExecution s)) + replicate_mset (length runs) (rk name)"
      by (rule subset_mset.add_left_mono)
    also note waiting_work_delete [OF runs, of rk]
    finally show ?thesis using True by (simp add: s')
  next
    case False
    have eq: "waiting_work rk (waitingExecution s') + replicate_mset (length runs) (rk name) =
        waiting_work rk (waitingExecution s) + replicate_mset (length (AList.delete i runs)) (rk name)"
      using waiting_work_update [OF runs, of rk "AList.delete i runs"] runs False by (simp add: s' obj_put_def)
    have "replicate_mset (Suc (length (AList.delete i runs))) (rk name) \<subseteq># replicate_mset (length runs) (rk name)"
      using len by (intro replicate_mset_mono) simp
    then have "(waiting_work rk (waitingExecution s') + {#rk name#}) + replicate_mset (length (AList.delete i runs)) (rk name) \<subseteq>#
        waiting_work rk (waitingExecution s) + replicate_mset (length (AList.delete i runs)) (rk name)"
      using subset_mset.add_left_mono [of "replicate_mset (Suc (length (AList.delete i runs))) (rk name)" _
          "waiting_work rk (waitingExecution s')"] by (simp add: ac_simps flip: eq)
    then show ?thesis by (simp only: subset_mset.add_le_cancel_right)
  qed
qed

lemma frame_remove_waiting: "remove_waiting name i s = Inr s' \<Longrightarrow> frame s' = frame s"
  by (auto simp: remove_waiting_def Let_def bindR_Inr_iff frame_def split: if_splits)

lemma advances_remove:
  assumes "remove_waiting name i s = Inr s'" "waiting_at s name i = Some d"
  shows "advances rk n s s'"
proof -
  have "waiting_work rk (waitingExecution s') \<subseteq># waiting_work rk (waitingExecution s)"
    by (rule subset_mset.order_trans [OF _ work_remove_waiting [OF assms, of rk]]) simp
  then show ?thesis
    using frame_remove_waiting [OF assms(1)] stack_remove [OF assms(1)]
    by (intro advancesI [where K = "{#}"]) (auto simp: work_def)
qed

section \<open>The queue in execution order v1\<close>

lemma forceInput_v1:
  "executionOrder w = Some ''v1'' \<Longrightarrow>
   forceInput w parent outputIndex data runIndex outputNodes inputData s = Inr s' \<Longrightarrow> s' = s"
  by (auto simp: forceInput_def Let_def bindR_Inr_iff forceInputNodeExecution_def split: if_splits)

text \<open>
  In execution order v1 no input is forced. In the other order any node can be put on the stack, so
  the bound has to be above all ranks.
\<close>

definition bounded :: "Workflow \<Rightarrow> (string \<Rightarrow> nat) \<Rightarrow> nat \<Rightarrow> bool" where
  "bounded w rk n = (executionOrder w = Some ''v1'' \<or> (\<forall>name. rk name < n))"

lemma advances_forceInput:
  assumes "bounded w rk n" "forceInput w parent outputIndex data runIndex outputNodes inputData s = Inr s'"
  shows "advances rk n s s'"
proof (cases "executionOrder w = Some ''v1''")
  case True
  with assms(2) forceInput_v1 show ?thesis by blast
next
  case False
  with assms show ?thesis
    by (auto simp: forceInput_def Let_def bindR_Inr_iff bounded_def has_main_def empty_main_def
        intro!: advances_enqueue split: if_splits option.splits)
qed

lemma advances_forceInputs:
  assumes "bounded w rk n" "forceInputs w c parent outputIndex data runIndex s = Inr s'"
  shows "advances rk n s s'"
proof -
  from assms(2) obtain outputNodes inputs where run:
    "foldR (\<lambda>input s. bindR (derefR input) (\<lambda>cs.
        foldR (forceInput w parent outputIndex data runIndex outputNodes) cs s)) inputs s = Inr s'"
    by (auto simp: forceInputs_def bindR_Inr_iff)
  show ?thesis
  proof (rule foldR_invariant [OF run, where P = "advances rk n s"])
    fix input u v
    assume u: "advances rk n s u" and step: "bindR (derefR input) (\<lambda>cs.
        foldR (forceInput w parent outputIndex data runIndex outputNodes) cs u) = Inr v"
    then obtain cs where "foldR (forceInput w parent outputIndex data runIndex outputNodes) cs u = Inr v"
      by (auto simp: bindR_Inr_iff)
    then show "advances rk n s v"
      by (rule foldR_invariant [where P = "advances rk n s"])
        (use u advances_forceInput [OF assms(1)] advances_trans in blast)+
  qed simp
qed

lemma advances_complete:
  assumes "completeWaiting w c i s = Inr s'" "waiting_main s (cnode c) i = Inr m"
    "named (nodes w)" "rk (cnode c) < n"
  shows "advances rk n s s'"
proof -
  from assms(1) obtain d node where d: "waiting_at s (cnode c) i = Some d" "map_of (nodes w) (cnode c) = Some node"
    "remove_waiting (cnode c) i (enqueue w \<lparr>ed_node = node, ed_data = d, ed_source = source_at s (cnode c) i\<rparr> s) = Inr s'"
    by (auto simp: completeWaiting_def bindR_Inr_iff)
  let ?s = "enqueue w \<lparr>ed_node = node, ed_data = d, ed_source = source_at s (cnode c) i\<rparr> s"
  have "nodeName node = cnode c" using d(2) assms(3) by (rule namedD [rotated])
  then have "advances rk n s ?s"
    using assms d by (intro advances_enqueue) (auto simp: has_main_def waiting_main_def bindR_Inr_iff)
  also have "advances rk n ?s s'"
    using d by (intro advances_remove [OF d(3)]) (simp add: waiting_at_def)
  finally show ?thesis .
qed

lemma advances_runDirectly:
  assumes "runDirectly w c outputIndex parent runIndex arr s = Inr s'" "named (nodes w)" "rk (cnode c) < n"
  shows "advances rk n s s'"
proof -
  from assms(1) obtain node where node: "map_of (nodes w) (cnode c) = Some node"
    "s' = enqueue w \<lparr>ed_node = node, ed_data = [(Main, arr)],
      ed_source = Some [(Main, [SVal (source_of parent outputIndex runIndex)])]\<rparr> s"
    by (auto simp: runDirectly_def bindR_Inr_iff)
  then have "nodeName node = cnode c" using assms(2) namedD by blast
  then show ?thesis using node assms by (auto simp: has_main_def intro!: advances_enqueue)
qed

lemma advances_addNode:
  assumes "bounded w rk n" "named (nodes w)" "rk (cnode c) < n"
    and "addNodeToBeExecuted w c outputIndex parent data runIndex s = Inr s'"
  shows "advances rk n s s'"
proof -
  from assms(4) obtain inputs where inputs: "main_inputs (connectionsByDestinationNode w) (cnode c) = Inr inputs"
    by (auto simp: addNodeToBeExecuted_def bindR_Inr_iff)
  show ?thesis
  proof (cases "length inputs > 1")
    case False
    with assms inputs show ?thesis by (auto simp: addNodeToBeExecuted_def intro: advances_runDirectly)
  next
    case True
    with assms(4) inputs obtain t i was u m where
      t: "chooseWaiting w c s = Inr (t, i, was)" and
      u: "addWaitingData c outputIndex parent data runIndex i t = Inr u" and
      m: "waiting_main u (cnode c) i = Inr m" and
      rest: "(if allDataFound m then completeWaiting w c i u
        else bindR (if was then Inr u else forceInputs w c parent outputIndex data runIndex u)
          (\<lambda>s. keepWaiting w c outputIndex parent runIndex i
                (connectionDataArray c outputIndex data (Some i) s) s)) = Inr s'"
      by (auto simp: addNodeToBeExecuted_def bindR_Inr_iff)
    have "advances rk n s t" using t assms(3) by (rule advances_choose)
    also have "advances rk n t u" using u assms(3) by (rule advances_addData)
    also have "advances rk n u s'"
    proof (cases "allDataFound m")
      case True
      with rest m assms(2,3) show ?thesis by (auto intro: advances_complete)
    next
      case False
      with rest obtain v arr where v: "v = u \<or> forceInputs w c parent outputIndex data runIndex u = Inr v"
        "keepWaiting w c outputIndex parent runIndex i arr v = Inr s'"
        by (auto simp: bindR_Inr_iff split: if_splits)
      then have "advances rk n u v" using advances_forceInputs [OF assms(1)] by blast
      moreover have "advances rk n v s'" using v(2) assms(3) by (rule advances_keep)
      ultimately show ?thesis by (rule advances_trans)
    qed
    finally show ?thesis .
  qed
qed

text \<open>\<open>rk\<close> falls along the main connections.\<close>

definition falling :: "(string \<Rightarrow> nat) \<Rightarrow> Workflow \<Rightarrow> bool" where
  "falling rk w = (\<forall>name. \<forall>x \<in> set (outgoing w name). rk (cnode (snd x)) < rk name)"

lemma advances_addChild:
  assumes "bounded w rk n" "named (nodes w)" "rk (cnode (snd x)) < n"
    and "addChild w name out runIndex x s = Inr s'"
  shows "advances rk n s s'"
  using advances_addNode [OF assms(1-3)] assms(4) by (auto simp: addChild_def case_prod_beta)

lemma advances_addChildren:
  assumes "bounded w rk n" "named (nodes w)" "\<And>x. x \<in> set (outgoing w name) \<Longrightarrow> rk (cnode (snd x)) < n"
    and "addChildren w name out runIndex s = Inr s'"
  shows "advances rk n s s'"
proof (cases "executionOrder w = Some ''v1''")
  case True
  with assms(4) have "foldR (addChild w name out runIndex)
      (topLeftLast w (filter (getsData w out) (outgoing w name))) s = Inr s'"
    by (auto simp: addChildren_def bindR_Inr_iff)
  then show ?thesis
  proof (rule foldR_invariant [where P = "advances rk n s"])
    fix x u v
    assume "x \<in> set (topLeftLast w (filter (getsData w out) (outgoing w name)))"
    then have "rk (cnode (snd x)) < n" using assms(3) by (auto simp: topLeftLast_def)
    moreover assume "addChild w name out runIndex x u = Inr v" "advances rk n s u"
    ultimately show "advances rk n s v" using advances_addChild [OF assms(1,2)] advances_trans by blast
  qed simp
next
  case False
  with assms(4) have "foldR (\<lambda>x s. bindR (destinationKnown w (snd x)) (\<lambda>_.
      if getsData w out x then addChild w name out runIndex x s else Inr s)) (outgoing w name) s = Inr s'"
    by (simp add: addChildren_def)
  then show ?thesis
  proof (rule foldR_invariant [where P = "advances rk n s"])
    fix x u v
    assume x: "x \<in> set (outgoing w name)" and u: "advances rk n s u"
      and "bindR (destinationKnown w (snd x)) (\<lambda>_.
        if getsData w out x then addChild w name out runIndex x u else Inr u) = Inr v"
    then have "v = u \<or> addChild w name out runIndex x u = Inr v" by (auto simp: bindR_Inr_iff split: if_splits)
    with u advances_addChild [OF assms(1,2) assms(3) [OF x]] advances_trans show "advances rk n s v" by blast
  qed simp
qed

lemma frame_addChildren:
  assumes "addChildren w name out runIndex s = Inr s'" "named (nodes w)"
  shows "frame s' = frame s"
  using advances_addChildren [of w "\<lambda>_. 0" 1, OF _ assms(2) _ assms(1)]
  by (simp add: bounded_def advances_def)

lemma advances_tryWaiting:
  assumes "tryWaiting w waitingNodes name s = Inr r" "named (nodes w)" "r = Taken s' \<or> r = Removed s'"
  shows "advances rk n s s'"
proof -
  from assms(1,3) obtain node i m t where
    node: "getNode w name = Some node" and m: "waiting_main s name i = Inr m" and
    t: "t = s \<or> pushWaiting w name node i (taskDataMain m) s = Inr t" and
    rem: "remove_waiting name i t = Inr s'"
    by (auto simp: tryWaiting_def bindR_Inr_iff split: option.splits if_splits)
  obtain d where d: "waiting_at s name i = Some d" using m by (auto simp: waiting_main_def bindR_Inr_iff)
  from t show ?thesis
  proof
    assume "t = s"
    with rem d show ?thesis by (auto intro: advances_remove)
  next
    assume "pushWaiting w name node i (taskDataMain m) s = Inr t"
    then obtain arr src where tt: "t = s\<lparr>nodeExecutionStack := nodeExecutionStack s @
        [\<lparr>ed_node = node, ed_data = [(Main, arr)], ed_source = src\<rparr>]\<rparr>"
      by (auto simp: pushWaiting_def bindR_Inr_iff)
    have "nodeName node = name" using node assms(2) by (auto simp: getNode_def intro: namedD)
    then have "work rk s' \<subseteq># work rk s"
      using work_remove_waiting [OF rem, of d rk] stack_remove [OF rem] d
      by (simp add: work_def tt waiting_at_def ac_simps)
    then show ?thesis using frame_remove_waiting [OF rem] stack_remove [OF rem]
      by (intro advancesI [where K = "{#}"]) (auto simp: tt has_main_def)
  qed
qed

lemma advances_scanWaiting:
  assumes "scanWaiting w waitingNodes names s = Inr r" "named (nodes w)" "r = Taken s' \<or> r = Removed s'"
  shows "advances rk n s s'"
  using assms(1)
proof (induction names)
  case Nil
  with assms(3) show ?case by auto
next
  case (Cons name names)
  then obtain q where q: "tryWaiting w waitingNodes name s = Inr q"
    "(case q of PassOver \<Rightarrow> scanWaiting w waitingNodes names s | _ \<Rightarrow> Inr q) = Inr r"
    by (auto simp: bindR_Inr_iff)
  then show ?case using Cons.IH advances_tryWaiting [OF q(1) assms(2)] assms(3) by (cases q) auto
qed

lemma advances_executeWaiting:
  "executeWaiting w s = Inr s' \<Longrightarrow> named (nodes w) \<Longrightarrow> advances rk n s s'"
proof (induction w s rule: executeWaiting.induct)
  case (1 w s)
  let ?scan = "scanWaiting w (map_keys (waitingExecution s)) (map_keys (waitingExecution s)) s"
  show ?case
  proof (cases ?scan)
    case (Inl e)
    with 1(2) show ?thesis by (subst (asm) executeWaiting.simps) simp
  next
    case (Inr r)
    show ?thesis
    proof (cases r)
      case PassOver
      with Inr 1(2) show ?thesis by (subst (asm) executeWaiting.simps) auto
    next
      case (Taken t)
      with Inr 1(2) have "t = s'" by (subst (asm) executeWaiting.simps) simp
      then show ?thesis using advances_scanWaiting [OF Inr 1(3)] Taken by blast
    next
      case (Removed t)
      with Inr 1(2) have "executeWaiting w t = Inr s'" by (subst (asm) executeWaiting.simps) simp
      then have "advances rk n t s'" using 1(1) [OF Inr Removed] 1(3) by blast
      moreover have "advances rk n s t" using advances_scanWaiting [OF Inr 1(3)] Removed by blast
      ultimately show ?thesis by (rule advances_trans [rotated])
    qed
  qed
qed

lemma frame_resumeWaiting:
  "resumeWaiting w s = Inr s' \<Longrightarrow> named (nodes w) \<Longrightarrow> frame s' = frame s"
  using advances_executeWaiting [of w s s' "\<lambda>_. 0" 0]
  by (auto simp: resumeWaiting_def advances_def split: if_splits)

lemma advances_resumeWaiting:
  "resumeWaiting w s = Inr s' \<Longrightarrow> named (nodes w) \<Longrightarrow> advances rk n s s'"
  by (auto simp: resumeWaiting_def advances_executeWaiting split: if_splits)

end
