(* ===== verification/LoopTransitions.thy ===== *)
theory LoopTransitions
  imports QueueProgress
begin

text \<open>
  The loop as a transition system on the execution state: what an iteration may do to the stack,
  the waiting nodes and the run data, whatever the nodes answer, the hooks do and however often a
  node is tried. \<open>step_refines\<close> shows that every iteration of the model of the code is such a
  transition; invariants and termination are proved for the transitions.
\<close>

section \<open>The transitions\<close>

definition recordRun :: "string \<Rightarrow> ITaskData \<Rightarrow> IRunExecutionData \<Rightarrow> IRunExecutionData" where
  "recordRun name td s = pushRun name td (ensureRuns name s)"

text \<open>What running a node does to the state: it can ask to wait, and it can be the last node executed.\<close>

definition touched :: "IRunExecutionData \<Rightarrow> IRunExecutionData \<Rightarrow> bool" where
  "touched s t = (\<exists>wait last. t = s\<lparr>waitTill := wait, lastNodeExecuted := last\<rparr>)"

text \<open>A run is recorded with the sources of the job.\<close>

definition run_of_job :: "IExecuteData \<Rightarrow> ITaskData \<Rightarrow> bool" where
  "run_of_job job td = (task_source td = task_source (taskDataOf job None))"

inductive transition :: "Workflow \<Rightarrow> IRunExecutionData \<Rightarrow> IRunExecutionData \<Rightarrow> bool" for w where
  skipped: "nodeExecutionStack s = job # rest \<Longrightarrow> filteredOut s (nodeName (ed_node job)) \<Longrightarrow>
    transition w s (s\<lparr>nodeExecutionStack := rest\<rparr>)"
| requeued: "nodeExecutionStack s = job # rest \<Longrightarrow> \<not> filteredOut s (nodeName (ed_node job)) \<Longrightarrow>
    inputsReady w (paired job) = Inr False \<Longrightarrow>
    transition w s (s\<lparr>nodeExecutionStack := rest @ [paired job]\<rparr>)"
| no_data: "nodeExecutionStack s = job # rest \<Longrightarrow> \<not> filteredOut s (nodeName (ed_node job)) \<Longrightarrow>
    touched (s\<lparr>nodeExecutionStack := rest\<rparr>) t \<Longrightarrow> transition w s t"
| arrived: "nodeExecutionStack s = job # rest \<Longrightarrow> \<not> filteredOut s (nodeName (ed_node job)) \<Longrightarrow>
    touched (s\<lparr>nodeExecutionStack := rest\<rparr>) t \<Longrightarrow> isDestination s (nodeName (ed_node job)) \<Longrightarrow> run_of_job job td \<Longrightarrow>
    transition w s (recordRun (nodeName (ed_node job)) td t)"
| went_on: "nodeExecutionStack s = job # rest \<Longrightarrow> \<not> filteredOut s (nodeName (ed_node job)) \<Longrightarrow>
    touched (s\<lparr>nodeExecutionStack := rest\<rparr>) t \<Longrightarrow> \<not> isDestination s (nodeName (ed_node job)) \<Longrightarrow>
    addChildren w (nodeName (ed_node job)) out runIndex (recordRun (nodeName (ed_node job)) td t) = Inr u \<Longrightarrow>
    resumeWaiting w u = Inr v \<Longrightarrow> run_of_job job td \<Longrightarrow> runIndex = runIndexOf s (nodeName (ed_node job)) \<Longrightarrow>
    transition w s v"

inductive_cases transition_elim: "transition w s t"

lemma touched_refl: "touched s s"
  unfolding touched_def by (rule exI [of _ "waitTill s"], rule exI [of _ "lastNodeExecuted s"]) simp

lemma touched_trans: "touched s t \<Longrightarrow> touched t u \<Longrightarrow> touched s u"
  by (auto simp: touched_def) blast

lemma touched_last [simp]: "touched s (s\<lparr>lastNodeExecuted := x\<rparr>)"
  unfolding touched_def by (rule exI [of _ "waitTill s"]) auto

lemma touched_wait [simp]: "touched s (asked_to_wait env t d s)"
proof (cases "env_waitTill env t d")
  case None
  then show ?thesis by (simp add: asked_to_wait_def touched_refl)
next
  case (Some x)
  then show ?thesis unfolding touched_def
    by (intro exI [of _ "Some x"] exI [of _ "lastNodeExecuted s"]) (simp add: asked_to_wait_def)
qed

lemma touched_fields:
  "touched s t \<Longrightarrow> nodeExecutionStack t = nodeExecutionStack s \<and> waitingExecution t = waitingExecution s \<and>
   waitingExecutionSource t = waitingExecutionSource s \<and> runData t = runData s \<and> startData t = startData s \<and>
   pinData t = pinData s \<and> metadata t = metadata s"
  by (auto simp: touched_def)

lemma touched_rerun:
  assumes "rerun run (\<lambda>t. asked_to_wait env t d) t k s = (t', e, s')"
  shows "touched s s'"
  by (rule rerun_asks [OF assms, where P = "touched s"]) (blast intro: touched_trans touched_wait touched_refl)+

lemma touched_afterRun: "touched s (at_state (afterRun d t nsd s))"
  by (simp add: afterRun_def Let_def touched_refl split: sum.split option.split)

lemma touched_attempt: "touched s (at_state (attempt env w d runIndex mt t nsd s))"
proof (cases "pinnedData s (ed_node d)")
  case (Some items)
  then show ?thesis by (simp add: attempt_def Let_def touched_afterRun)
next
  case None
  let ?run = "\<lambda>t. runNode (env_perform env t) (env_mode env) w d s runIndex"
  let ?s = "asked_to_wait env t d s"
  show ?thesis
  proof (cases "?run t")
    case (Inl e)
    with None show ?thesis by (simp add: attempt_def Let_def)
  next
    case (Inr data)
    obtain t' e s' where r: "(if hasErrorItem data then
        rerun ?run (\<lambda>t. asked_to_wait env t d) t (mt - 1 - t) ?s else (t, None, ?s)) = (t', e, s')"
      by (metis prod_cases3)
    then have "touched ?s s'" by (auto split: if_splits intro: touched_rerun touched_refl)
    then have "touched s s'" using touched_trans touched_wait by blast
    moreover have "touched s' (at_state (afterRun d t' x s'))" for x by (rule touched_afterRun)
    ultimately show ?thesis
      using None Inr r touched_trans by (auto simp: attempt_def Let_def split: option.split sum.split)
  qed
qed

lemma touched_tryLoop: "touched s (at_state (tryLoop env w d runIndex mt t nsd err s))"
proof (induction env w d runIndex mt t nsd err s rule: tryLoop.induct)
  case (1 env w d runIndex mt t nsd err s)
  let ?a = "attempt env w d runIndex mt t nsd s"
  have a: "touched s (at_state ?a)" by (rule touched_attempt)
  show ?case
  proof (cases "t < mt")
    case False
    then show ?thesis by (subst tryLoop.simps) (simp add: touched_refl)
  next
    case True
    show ?thesis
    proof (cases "at_end ?a")
      case (Failed e)
      have "touched s ((at_state ?a)\<lparr>lastNodeExecuted := Some (nodeName (ed_node d))\<rparr>)"
        using a touched_last touched_trans by blast
      with 1 [OF True refl Failed] Failed True show ?thesis
        by (subst tryLoop.simps) (auto simp: Let_def intro: touched_trans)
    qed (use a True in \<open>subst tryLoop.simps, simp add: Let_def\<close>)+
  qed
qed

section \<open>The loop refines the transitions\<close>

lemma run_hook_Again:
  "run_hook env h ls k = Again ls' \<longleftrightarrow>
     env_hook env h = None \<and> k (ls\<lparr>ls_hooks := ls_hooks ls @ [h]\<rparr>) = Again ls'"
  by (simp add: run_hook_def Let_def split: option.split)

lemma guarded_Again: "guarded ls m k = Again ls' \<longleftrightarrow> (\<exists>x. m = Inr x \<and> k x = Again ls')"
  by (simp add: guarded_def split: sum.split)

lemma with_data_simps [simp]:
  "ls_data (with_data ls s) = s" "ls_hooks (with_data ls s) = ls_hooks ls"
  "ls_error (with_data ls s) = ls_error ls" "ls_lastTry (with_data ls s) = ls_lastTry ls"
  "ls_canceled (with_data ls s) = ls_canceled ls"
  by (simp_all add: with_data_def)

lemmas again_simps = run_hook_Again guarded_Again

lemma pushRun_fields [simp]:
  "nodeExecutionStack (pushRun name td s) = nodeExecutionStack s"
  "waitingExecution (pushRun name td s) = waitingExecution s"
  "startData (pushRun name td s) = startData s" "waitTill (pushRun name td s) = waitTill s"
  by (simp_all add: pushRun_def)

lemma ensureRuns_fields [simp]:
  "nodeExecutionStack (ensureRuns name s) = nodeExecutionStack s"
  "waitingExecution (ensureRuns name s) = waitingExecution s"
  "startData (ensureRuns name s) = startData s" "waitTill (ensureRuns name s) = waitTill s"
  by (simp_all add: ensureRuns_def)

lemma isDestination_startData: "startData s = startData t \<Longrightarrow> isDestination s name = isDestination t name"
  by (simp add: isDestination_def)

lemma keepData_Again:
  assumes "keepData env w d runIndex nsd td ls = Again ls'"
  shows "\<exists>td'. task_source td' = task_source td \<and> (if isDestination (ls_data ls) (nodeName (ed_node d))
    then ls_data ls' = pushRun (nodeName (ed_node d)) td' (ls_data ls)
    else \<exists>out u. addChildren w (nodeName (ed_node d)) out runIndex
          (pushRun (nodeName (ed_node d)) td' (ls_data ls)) = Inr u \<and>
        resumeWaiting w u = Inr (ls_data ls'))"
proof -
  have dest: "isDestination (pushRun name td' s) x = isDestination s x" for name td' s x
    by (rule isDestination_startData) simp
  show ?thesis
  proof (cases "isDestination (ls_data ls) (nodeName (ed_node d))")
    case True
    with assms show ?thesis
      by (auto simp: keepData_def Let_def again_simps dest split: if_splits intro!: exI [of _ "td\<lparr>task_data := _\<rparr>"])
  next
    case False
    with assms obtain out u where
      "addChildren w (nodeName (ed_node d)) out runIndex
        (pushRun (nodeName (ed_node d)) (td\<lparr>task_data := Some [(Main, out)]\<rparr>) (ls_data ls)) = Inr u"
      "resumeWaiting w u = Inr (ls_data ls')"
      by (auto simp: keepData_def Let_def again_simps dest split: if_splits)
    with False show ?thesis by (intro exI [of _ "td\<lparr>task_data := Some [(Main, out)]\<rparr>"]) auto
  qed
qed

lemma stopWithError_not_Again: "stopWithError env d td e ls \<noteq> Again ls'"
  by (simp add: stopWithError_def Let_def again_simps)

lemma finishNode_Again:
  assumes "finishNode env w d runIndex nsd err ls = Again ls'"
  shows "\<exists>td'. run_of_job d td' \<and> (if isDestination (ls_data ls) (nodeName (ed_node d))
    then ls_data ls' = recordRun (nodeName (ed_node d)) td' (ls_data ls)
    else \<exists>out u. addChildren w (nodeName (ed_node d)) out runIndex
          (recordRun (nodeName (ed_node d)) td' (ls_data ls)) = Inr u \<and>
        resumeWaiting w u = Inr (ls_data ls'))"
proof -
  let ?ls = "(with_data ls (ensureRuns (nodeName (ed_node d)) (ls_data ls)))\<lparr>ls_error := err\<rparr>"
  obtain nsd' td where "keepData env w d runIndex nsd' td ?ls = Again ls'" "run_of_job d td"
    unfolding run_of_job_def taskDataOf_def using assms stopWithError_not_Again by (auto simp: finishNode_def taskDataOf_def Let_def split: option.splits if_splits)
  moreover have "isDestination (ensureRuns name s) x = isDestination s x" for name s x
    by (rule isDestination_startData) simp
  ultimately show ?thesis using keepData_Again [of env w d runIndex nsd' td ?ls ls']
    by (cases "isDestination (ls_data ls) (nodeName (ed_node d))") (auto simp: recordRun_def run_of_job_def)
qed

lemma filteredOut_startData: "startData s = startData t \<Longrightarrow> filteredOut s name = filteredOut t name"
  by (simp add: filteredOut_def)

lemma paired_node [simp]: "ed_node (paired job) = ed_node job" "ed_source (paired job) = ed_source job"
  by (simp_all add: paired_def)

lemma step_transition:
  assumes "step env w ls = Again ls'"
  shows "transition w (ls_data ls) (ls_data ls')"
proof -
  let ?s = "ls_data ls"
  obtain job rest where stack: "nodeExecutionStack ?s = job # rest"
    using assms by (auto simp: step_def Let_def split: list.splits)
  define s0 where "s0 = ?s\<lparr>nodeExecutionStack := rest\<rparr>"
  let ?name = "nodeName (ed_node job)"
  from assms stack obtain ls0 where run: "runStep env w (paired job) ls0 = Again ls'" and ls0: "ls_data ls0 = s0"
    by (auto simp: step_def Let_def s0_def again_simps split: if_splits)
  have same: "filteredOut s0 ?name = filteredOut ?s ?name" "isDestination s0 ?name = isDestination ?s ?name"
    by (simp_all add: s0_def filteredOut_def isDestination_def)
  show ?thesis
  proof (cases "filteredOut ?s ?name")
    case True
    with run same ls0 have "ls_data ls' = s0" by (auto simp: runStep_def Let_def split: if_splits)
    with stack True show ?thesis by (auto simp: s0_def intro: transition.skipped)
  next
    case False
    with run same ls0 obtain ready where ready: "inputsReady w (paired job) = Inr ready"
      by (auto simp: runStep_def Let_def again_simps split: if_splits)
    show ?thesis
    proof (cases ready)
      case False
      with run same ls0 \<open>\<not> filteredOut ?s ?name\<close> ready have "ls_data ls' = s0\<lparr>nodeExecutionStack := rest @ [paired job]\<rparr>"
        by (auto simp: runStep_def Let_def again_simps s0_def split: if_splits)
      with stack False \<open>\<not> filteredOut ?s ?name\<close> ready show ?thesis
        by (auto simp: s0_def intro: transition.requeued)
    next
      case True
      let ?index = "runIndexOf s0 ?name"
      let ?a = "tryLoop env w (paired job) ?index (maxTriesOf (ed_node job)) 0 SNull None s0"
      have t: "touched s0 (at_state ?a)" by (rule touched_tryLoop)
      have dest: "isDestination (at_state ?a) ?name = isDestination ?s ?name"
        using touched_fields [OF t] same(2) by (simp add: isDestination_def)
      from run same ls0 \<open>\<not> filteredOut ?s ?name\<close> ready True have
        "ls_data ls' = at_state ?a \<or>
         (\<exists>nsd err. finishNode env w (paired job) ?index nsd err (with_data ls0 (at_state ?a)) = Again ls')"
        by (auto simp: runStep_def Let_def again_simps split: if_splits AttemptEnd.splits)
      then show ?thesis
      proof
        assume "ls_data ls' = at_state ?a"
        with stack \<open>\<not> filteredOut ?s ?name\<close> t show ?thesis by (auto simp: s0_def intro: transition.no_data)
      next
        assume "\<exists>nsd err. finishNode env w (paired job) ?index nsd err (with_data ls0 (at_state ?a)) = Again ls'"
        then obtain nsd err where "finishNode env w (paired job) ?index nsd err (with_data ls0 (at_state ?a)) = Again ls'"
          by blast
        from finishNode_Again [OF this] obtain td where td: "run_of_job job td" and
          "if isDestination ?s ?name then ls_data ls' = recordRun ?name td (at_state ?a)
           else \<exists>out u. addChildren w ?name out ?index (recordRun ?name td (at_state ?a)) = Inr u \<and>
             resumeWaiting w u = Inr (ls_data ls')"
          by (cases "isDestination ?s ?name") (auto simp: dest run_of_job_def taskDataOf_def)
        moreover have "?index = runIndexOf ?s ?name" by (simp add: s0_def runIndexOf_def)
        ultimately show ?thesis using stack \<open>\<not> filteredOut ?s ?name\<close> t
          by (auto simp: s0_def split: if_splits intro: transition.arrived transition.went_on)
      qed
    qed
  qed
qed

section \<open>Termination\<close>

lemma recordRun_fields [simp]:
  "nodeExecutionStack (recordRun name td s) = nodeExecutionStack s"
  "waitingExecution (recordRun name td s) = waitingExecution s"
  "startData (recordRun name td s) = startData s"
  by (simp_all add: recordRun_def)

lemma work_same:
  "nodeExecutionStack t = nodeExecutionStack s \<Longrightarrow> waitingExecution t = waitingExecution s \<Longrightarrow> work rk t = work rk s"
  by (simp add: work_def)

lemma advances_work:
  "advances rk n s t \<Longrightarrow> \<exists>K. work rk t \<subseteq># work rk s + K \<and> (\<forall>k \<in># K. k < n)"
  by (simp add: advances_def)

lemma map_of_pairInput: "map_of (pairInput data) name = None \<longleftrightarrow> map_of data name = None"
  by (induction data) (auto simp: pairInput_def)

lemma has_main_paired [simp]: "has_main (paired job) = has_main job"
  by (simp add: has_main_def paired_def map_of_pairInput)

lemma checkInputs_v1:
  assumes "executionOrder w = Some ''v1''" "has_main d"
  shows "checkInputs w d ks \<noteq> Inr False"
proof (induction ks)
  case Nil
  then show ?case by simp
next
  case (Cons k ks)
  with assms show ?case
    by (auto simp: bindR_Inr_iff has_main_def forceInputNodeExecution_def split: if_splits option.splits)
qed

lemma inputsReady_v1: "executionOrder w = Some ''v1'' \<Longrightarrow> has_main d \<Longrightarrow> inputsReady w d \<noteq> Inr False"
  by (simp add: inputsReady_def checkInputs_v1 split: option.split)

text \<open>In execution order v1 every transition leaves less work, when ranks fall along the connections.\<close>

lemma transition_work:
  assumes "transition w s t" "executionOrder w = Some ''v1''" "named (nodes w)" "falling rk w"
    and "\<forall>d \<in> set (nodeExecutionStack s). has_main d"
  shows "(work rk t, work rk s) \<in> mult less_than \<and> (\<forall>d \<in> set (nodeExecutionStack t). has_main d)"
proof -
  have less: "(work rk t, work rk s) \<in> mult less_than"
    if s: "work rk s = add_mset n W" and sub: "work rk t \<subseteq># W + K" and low: "\<forall>k \<in># K. k < n" for n W K
  proof -
    obtain R where R: "W + K = work rk t + R" using sub by (metis mset_subset_eq_exists_conv)
    have "(work rk t, work rk t + R) \<in> (mult less_than)\<^sup>=" 
      by (cases "R = {#}") (use one_step_implies_mult [of R "{#}" less_than "work rk t"] in auto)
    moreover have "(W + K, W + {#n#}) \<in> mult less_than"
      using low by (intro one_step_implies_mult) auto
    ultimately show ?thesis using R s by (auto intro: trans_mult [THEN transD] simp: less_than_def)
  qed
  show ?thesis using assms(1)
  proof cases
    case (skipped job rest)
    have "work rk s = add_mset (rk (nodeName (ed_node job))) (work rk t)"
      using skipped by (simp add: work_def)
    from less [OF this, of "{#}"] skipped assms(5) show ?thesis by simp
  next
    case (requeued job rest)
    with inputsReady_v1 [OF assms(2), of "paired job"] assms(5) show ?thesis by simp
  next
    case (no_data job rest)
    have "work rk s = add_mset (rk (nodeName (ed_node job))) (work rk t)"
      using no_data touched_fields [OF no_data(3)] by (simp add: work_def)
    from less [OF this, of "{#}"] no_data touched_fields [OF no_data(3)] assms(5) show ?thesis by simp
  next
    case (arrived job rest t' td)
    have "work rk s = add_mset (rk (nodeName (ed_node job))) (work rk t)"
      using arrived touched_fields [OF arrived(4)] by (simp add: work_def)
    from less [OF this, of "{#}"] arrived touched_fields [OF arrived(4)] assms(5) show ?thesis by simp
  next
    case (went_on job rest t' out runIndex td u)
    let ?n = "rk (nodeName (ed_node job))"
    let ?r = "recordRun (nodeName (ed_node job)) td t'"
    have "advances rk ?n ?r u" using assms(2-4) went_on(5)
      by (intro advances_addChildren) (auto simp: bounded_def falling_def)
    moreover have "advances rk ?n u t" using went_on(6) assms(3) by (rule advances_resumeWaiting)
    ultimately have adv: "advances rk ?n ?r t" by (rule advances_trans)
    have s: "work rk s = add_mset ?n (work rk ?r)"
      using went_on touched_fields [OF went_on(3)] by (simp add: work_def)
    from advances_work [OF adv] less [OF s] have "(work rk t, work rk s) \<in> mult less_than" by blast
    moreover have "\<forall>d \<in> set (nodeExecutionStack t). has_main d"
      using adv went_on touched_fields [OF went_on(3)] assms(5) by (auto simp: advances_def)
    ultimately show ?thesis ..
  qed
qed

lemma execLoop_enough_fuel:
  assumes "executionOrder w = Some ''v1''" "named (nodes w)" "falling rk w"
    and "\<forall>d \<in> set (nodeExecutionStack (ls_data ls)). has_main d"
  shows "\<exists>fuel r. execLoop fuel envs w ls = Some r"
  using assms(4)
proof (induction "work rk (ls_data ls)" arbitrary: ls envs rule: wf_induct_rule [OF wf_mult [OF wf_less_than]])
  case 1
  show ?case
  proof (cases "step (envs 0) w ls")
    case (Again ls')
    from transition_work [OF step_transition [OF Again] assms(1-3) 1(2)] 1(1)
    obtain fuel r where "execLoop fuel (\<lambda>k. envs (Suc k)) w ls' = Some r" by blast
    with Again have "execLoop (Suc fuel) envs w ls = Some r" by simp
    then show ?thesis by blast
  next
    case (Finished ls')
    then have "execLoop (Suc 0) envs w ls = Some (Finished ls')" by simp
    then show ?thesis by blast
  next
    case (Rejected e ls')
    then have "execLoop (Suc 0) envs w ls = Some (Rejected e ls')" by simp
    then show ?thesis by blast
  qed
qed

section \<open>The runs\<close>

definition runs_of :: "IRunExecutionData \<Rightarrow> string \<Rightarrow> ITaskData list" where
  "runs_of s name = (case map_of (runData s) name of None \<Rightarrow> [] | Some runs \<Rightarrow> runs)"

lemma runs_of_recordRun:
  "runs_of (recordRun name td s) = (runs_of s)(name := runs_of s name @ [td])"
  by (auto simp: runs_of_def recordRun_def pushRun_def ensureRuns_def fun_eq_iff split: option.split)

lemma runs_of_stack [simp]: "runs_of (s\<lparr>nodeExecutionStack := x\<rparr>) = runs_of s"
  by (simp add: runs_of_def [abs_def])

lemma runs_of_touched: "touched s t \<Longrightarrow> runs_of t = runs_of s"
  by (auto simp: touched_def runs_of_def [abs_def])

lemma runs_of_frame: "frame t = frame s \<Longrightarrow> runs_of t = runs_of s"
  by (drule frame_fields(1)) (simp add: runs_of_def [abs_def])

lemma startData_touched: "touched s t \<Longrightarrow> startData t = startData s"
  by (auto simp: touched_def)

lemma transition_runs:
  assumes "transition w s t" "named (nodes w)"
  shows "startData t = startData s \<and>
    (runs_of t = runs_of s \<or>
     (\<exists>job rest td. nodeExecutionStack s = job # rest \<and> \<not> filteredOut s (nodeName (ed_node job)) \<and>
        runs_of t = (runs_of s)(nodeName (ed_node job) := runs_of s (nodeName (ed_node job)) @ [td])))"
  using assms(1)
proof cases
  case (no_data job rest)
  then show ?thesis using runs_of_touched [OF no_data(3)] startData_touched [OF no_data(3)] by simp
next
  case (arrived job rest t' td)
  have "runs_of t' = runs_of s" "startData t' = startData s"
    using runs_of_touched [OF arrived(4)] startData_touched [OF arrived(4)] by simp_all
  then show ?thesis using arrived(1-3) by (auto simp: runs_of_recordRun)
next
  case (went_on job rest t' out runIndex td u)
  have t': "runs_of t' = runs_of s" "startData t' = startData s"
    using runs_of_touched [OF went_on(3)] startData_touched [OF went_on(3)] by simp_all
  have "frame t = frame (recordRun (nodeName (ed_node job)) td t')"
    using frame_addChildren [OF went_on(5) assms(2)] frame_resumeWaiting [OF went_on(6) assms(2)] by simp
  from frame_fields(2) [OF this] runs_of_frame [OF this] t' have "startData t = startData s"
    "runs_of t = runs_of (recordRun (nodeName (ed_node job)) td t')" by simp_all
  with went_on(1,2) t' show ?thesis by (auto simp: runs_of_recordRun)
qed simp_all

section \<open>Properties\<close>

text \<open>C2: refinement: every iteration of the loop that goes on is a transition of the abstract system,
  whatever the nodes answer, the hooks do, and however often the node is tried.\<close>

theorem step_refines: "step env w ls = Again ls' \<Longrightarrow> transition w (ls_data ls) (ls_data ls')"
  by (rule step_transition)

definition diamond_v1 :: Workflow where
  "diamond_v1 = diamond\<lparr>executionOrder := Some ''v1''\<rparr>"

definition passing :: "nat \<Rightarrow> NodeCall \<Rightarrow> answer" where
  "passing t call = Inr (SVal [SVal [empty_item]])"

definition diamond_job :: "string \<Rightarrow> nat \<Rightarrow> IExecuteData" where
  "diamond_job name r = \<lparr>ed_node = plain_node r name ''set'', ed_data = empty_main, ed_source = None\<rparr>"

definition diamond_state :: "string \<Rightarrow> nat \<Rightarrow> LoopState" where
  "diamond_state name r =
     \<lparr>ls_data = sample_state\<lparr>nodeExecutionStack := [diamond_job name r]\<rparr>, ls_error = None,
      ls_lastTry = [], ls_canceled = False, ls_hooks = []\<rparr>"

theorem step_refines_witness:
  "\<exists>t. transition diamond_v1 (ls_data (diamond_state ''D'' 5)) t \<and> length (runs_of t ''D'') = 1"
proof -
  have "case step (sample_env passing) diamond_v1 (diamond_state ''D'' 5) of
      Again ls \<Rightarrow> length (runs_of (ls_data ls) ''D'') = 1 | _ \<Rightarrow> False"
    by code_simp
  then obtain ls where "step (sample_env passing) diamond_v1 (diamond_state ''D'' 5) = Again ls"
    "length (runs_of (ls_data ls) ''D'') = 1"
    by (auto split: StepResult.splits)
  with step_refines show ?thesis by blast
qed

text \<open>C1: termination: in execution order v1, when no main connections run in a circle (some rank falls
  along each of them), the loop ends from every stack of nodes with main data, whatever the nodes
  answer.\<close>

theorem execLoop_terminates:
  assumes "executionOrder w = Some ''v1''" "named (nodes w)" "falling rk w"
    and "\<forall>d \<in> set (nodeExecutionStack (ls_data ls)). has_main d"
  shows "\<exists>fuel r. execLoop fuel envs w ls = Some r"
  using assms by (rule execLoop_enough_fuel)

definition diamond_rank :: "string \<Rightarrow> nat" where
  "diamond_rank name = (if name = ''T'' then 3 else if name = ''M'' then 2
     else if name = ''A'' \<or> name = ''B'' then 1 else 0)"

theorem execLoop_terminates_witness:
  "\<exists>fuel r. execLoop fuel (\<lambda>_. sample_env passing) diamond_v1 (diamond_state ''T'' 1) = Some r"
proof (rule execLoop_terminates [where rk = diamond_rank])
  show "named (nodes diamond_v1)"
    by (auto simp: named_def wf_keys_def diamond_v1_def diamond_def plain_node_def)
  show "falling diamond_rank diamond_v1"
    by (auto simp: falling_def outgoing_def arr_of_def diamond_v1_def diamond_def diamond_connections_def
        diamond_rank_def main_to_def present_def split: if_splits)
qed (simp_all add: diamond_v1_def diamond_state_def diamond_job_def has_main_def empty_main_def)

lemma runs_stay:
  assumes "(transition w)\<^sup>*\<^sup>* s t" "named (nodes w)"
  shows "\<exists>more. runs_of t name = runs_of s name @ more \<and> (filteredOut s name \<longrightarrow> more = []) \<and>
    startData t = startData s"
  using assms(1)
proof (induction rule: rtranclp_induct)
  case base
  then show ?case by simp
next
  case (step t u)
  then obtain more where more: "runs_of t name = runs_of s name @ more" "filteredOut s name \<longrightarrow> more = []"
    "startData t = startData s" by blast
  have same: "filteredOut t n = filteredOut s n" for n using more(3) by (simp add: filteredOut_def)
  from transition_runs [OF step.hyps(2) assms(2)] have u: "startData u = startData t" and
    "runs_of u = runs_of t \<or> (\<exists>n td. \<not> filteredOut t n \<and> runs_of u = (runs_of t)(n := runs_of t n @ [td]))"
    by auto
  then have "\<exists>x. runs_of u name = runs_of t name @ x \<and> (filteredOut t name \<longrightarrow> x = [])" by auto
  then show ?case using more same [of name] u by auto
qed

text \<open>C3: the record of runs only grows: after any number of iterations the runs of a node that were
  recorded are still there, in their place, and a node that the filter leaves out gets no runs.\<close>

theorem runs_only_grow:
  assumes "(transition w)\<^sup>*\<^sup>* s t" "named (nodes w)"
  shows "\<exists>more. runs_of t name = runs_of s name @ more \<and> (filteredOut s name \<longrightarrow> more = []) \<and>
    startData t = startData s"
  using assms by (rule runs_stay)

definition filtered_state :: IRunExecutionData where
  "filtered_state = (ls_data (diamond_state ''D'' 5))
     \<lparr>startData := Some \<lparr>sd_destinationNode = Some ''A'', sd_runNodeFilter = Some [''M'', ''A'']\<rparr>\<rparr>"

theorem runs_only_grow_witness:
  "runs_of (filtered_state\<lparr>nodeExecutionStack := []\<rparr>) ''D'' = runs_of filtered_state ''D'' \<and>
   transition diamond_v1 filtered_state (filtered_state\<lparr>nodeExecutionStack := []\<rparr>)"
proof -
  have out: "filteredOut filtered_state ''D''" by (simp add: filteredOut_def filtered_state_def)
  have t: "transition diamond_v1 filtered_state (filtered_state\<lparr>nodeExecutionStack := []\<rparr>)"
    by (rule transition.skipped [of _ "diamond_job ''D'' 5"])
      (use out in \<open>simp_all add: filtered_state_def diamond_state_def diamond_job_def plain_node_def\<close>)
  have "named (nodes diamond_v1)"
    by (auto simp: named_def wf_keys_def diamond_v1_def diamond_def plain_node_def)
  with runs_only_grow [OF r_into_rtranclp [of "transition diamond_v1", OF t], of "''D''"] out t show ?thesis by auto
qed

end
