(* ===== verification/LoopProperties.thy ===== *)
theory LoopProperties
  imports LoopTransitions "HOL-Library.Sublist"
begin

text \<open>
  Properties of single iterations of the loop: how it stops, in which order connected nodes are put
  on the stack, and which waiting node runs when the stack is empty.
\<close>

section \<open>Stopping\<close>

lemma run_hook_Finished:
  "run_hook env h ls k = Finished ls' \<longleftrightarrow>
     env_hook env h = None \<and> k (ls\<lparr>ls_hooks := ls_hooks ls @ [h]\<rparr>) = Finished ls'"
  by (simp add: run_hook_def Let_def split: option.split)

lemma guarded_Finished: "guarded ls m k = Finished ls' \<longleftrightarrow> (\<exists>x. m = Inr x \<and> k x = Finished ls')"
  by (simp add: guarded_def split: sum.split)

lemmas finished_simps = run_hook_Finished guarded_Finished

lemma runs_of_ensureRuns [simp]: "runs_of (ensureRuns name s) = runs_of s"
  by (auto simp: runs_of_def ensureRuns_def fun_eq_iff)

lemma runs_of_pushRun: "runs_of (pushRun name td s) = (runs_of s)(name := runs_of s name @ [td])"
  by (auto simp: runs_of_def pushRun_def fun_eq_iff split: option.split)

lemma waitTill_stack [simp]: "waitTill (s\<lparr>nodeExecutionStack := x\<rparr>) = waitTill s"
  by simp

lemma keepData_Finished:
  assumes "keepData env w d runIndex nsd td ls = Finished ls'"
  shows "nodeExecutionStack (ls_data ls') = d # nodeExecutionStack (ls_data ls) \<and>
    waitTill (ls_data ls') \<noteq> None \<and>
    (\<exists>td'. runs_of (ls_data ls') = (runs_of (ls_data ls))
      (nodeName (ed_node d) := runs_of (ls_data ls) (nodeName (ed_node d)) @ [td']))"
  using assms
  by (auto simp: keepData_def Let_def finished_simps runs_of_pushRun split: if_splits)

lemma stopWithError_Finished:
  assumes "stopWithError env d td e ls = Finished ls'"
  shows "nodeExecutionStack (ls_data ls') = d # nodeExecutionStack (ls_data ls) \<and> ls_error ls' = Some e \<and>
    runs_of (ls_data ls') = (runs_of (ls_data ls))
      (nodeName (ed_node d) := runs_of (ls_data ls) (nodeName (ed_node d)) @ [td])"
  using assms
  by (auto simp: stopWithError_def Let_def finished_simps runs_of_pushRun split: if_splits)

definition failed_run :: "IExecuteData \<Rightarrow> js_error \<Rightarrow> ITaskData \<Rightarrow> bool" where
  "failed_run d e td =
     (executionStatus td = StatusError \<and> task_error td = Some e \<and> task_data td = None \<and>
      \<not> continuesOnFail (ed_node d))"

definition stopped_at :: "IExecuteData \<Rightarrow> IRunExecutionData \<Rightarrow> LoopState \<Rightarrow> bool" where
  "stopped_at d s ls' =
     (nodeExecutionStack (ls_data ls') = d # nodeExecutionStack s \<and>
      (\<exists>td. runs_of (ls_data ls') = (runs_of s)(nodeName (ed_node d) := runs_of s (nodeName (ed_node d)) @ [td]) \<and>
        (waitTill (ls_data ls') \<noteq> None \<or> (\<exists>e. ls_error ls' = Some e \<and> failed_run d e td))))"

lemma finishNode_Finished:
  assumes "finishNode env w d runIndex nsd err ls = Finished ls'"
  shows "stopped_at d (ls_data ls) ls'"
proof -
  let ?ls = "(with_data ls (ensureRuns (nodeName (ed_node d)) (ls_data ls)))\<lparr>ls_error := err\<rparr>"
  show ?thesis
  proof (cases "\<exists>e. err = Some e \<and> \<not> continuesOnFail (ed_node d)")
    case True
    then obtain e where e: "err = Some e" "\<not> continuesOnFail (ed_node d)" by blast
    with assms have "stopWithError env d (taskDataOf d err) e ?ls = Finished ls'"
      by (simp add: finishNode_def Let_def)
    from stopWithError_Finished [OF this] e show ?thesis
      by (auto simp: stopped_at_def failed_run_def taskDataOf_def)
  next
    case False
    with assms obtain nsd' where "keepData env w d runIndex nsd' (taskDataOf d err) ?ls = Finished ls'"
      by (auto simp: finishNode_def Let_def split: option.splits)
    from keepData_Finished [OF this] show ?thesis by (auto simp: stopped_at_def)
  qed
qed

lemma step_stops_resumable:
  assumes "step env w ls = Finished ls'" "nodeExecutionStack (ls_data ls) = job # rest" "\<not> ls_canceled ls'"
  shows "stopped_at (paired job) ((ls_data ls)\<lparr>nodeExecutionStack := rest\<rparr>) ls'"
proof -
  define s0 where "s0 = (ls_data ls)\<lparr>nodeExecutionStack := rest\<rparr>"
  from assms obtain ls0 where run: "runStep env w (paired job) ls0 = Finished ls'" and ls0: "ls_data ls0 = s0"
    by (auto simp: step_def Let_def s0_def finished_simps split: if_splits)
  let ?name = "nodeName (ed_node job)"
  let ?a = "tryLoop env w (paired job) (runIndexOf s0 ?name) (maxTriesOf (ed_node job)) 0 SNull None s0"
  from run ls0 obtain nsd err where
    "finishNode env w (paired job) (runIndexOf s0 ?name) nsd err (with_data ls0 (at_state ?a)) = Finished ls'"
    by (auto simp: runStep_def Let_def finished_simps split: if_splits AttemptEnd.splits)
  from finishNode_Finished [OF this] have "stopped_at (paired job) (at_state ?a) ls'" by simp
  moreover have t: "touched s0 (at_state ?a)" by (rule touched_tryLoop)
  ultimately show ?thesis
    using runs_of_touched [OF t] touched_fields [OF t] by (simp add: stopped_at_def s0_def)
qed

text \<open>C4: when the loop stops before the stack is empty and was not cancelled, it can be taken up
  again: the node that was being run is back on top of the stack, its run has been recorded, and
  either the execution waits or the node has failed and does not continue on failure.\<close>

theorem stopped_execution_can_resume:
  assumes "step env w ls = Finished ls'" "nodeExecutionStack (ls_data ls) = job # rest" "\<not> ls_canceled ls'"
  shows "stopped_at (paired job) ((ls_data ls)\<lparr>nodeExecutionStack := rest\<rparr>) ls'"
  using assms by (rule step_stops_resumable)

theorem stopped_execution_can_resume_witness:
  "\<exists>ls'. stopped_at (paired (diamond_job ''D'' 5)) sample_state ls'"
proof -
  have "case step (sample_env (failing_times 9)) diamond_v1 (diamond_state ''D'' 5) of
      Finished ls \<Rightarrow> \<not> ls_canceled ls | _ \<Rightarrow> False"
    by code_simp
  then obtain ls' where ls': "step (sample_env (failing_times 9)) diamond_v1 (diamond_state ''D'' 5) = Finished ls'"
    "\<not> ls_canceled ls'"
    by (auto split: StepResult.splits)
  have "nodeExecutionStack (ls_data (diamond_state ''D'' 5)) = [diamond_job ''D'' 5]"
    by (simp add: diamond_state_def)
  from stopped_execution_can_resume [OF ls'(1) this ls'(2)]
  have "stopped_at (paired (diamond_job ''D'' 5)) sample_state ls'"
    by (simp add: diamond_state_def sample_state_def fresh_run_def)
  then show ?thesis ..
qed

section \<open>Waiting entries stay incomplete\<close>

lemma waiting_inv_addChildren:
  assumes "addChildren w name out runIndex s = Inr s'" "waiting_inv s"
  shows "waiting_inv s'"
proof -
  have one: "waiting_inv v" if "addChild w name out runIndex x u = Inr v" "waiting_inv u" for x u v
    using that by (cases x) (auto simp: addChild_def intro: addNodeToBeExecuted_inv)
  show ?thesis
  proof (cases "executionOrder w = Some ''v1''")
    case True
    with assms(1) have "foldR (addChild w name out runIndex)
        (topLeftLast w (filter (getsData w out) (outgoing w name))) s = Inr s'"
      by (auto simp: addChildren_def bindR_Inr_iff)
    then show ?thesis by (rule foldR_invariant [where P = waiting_inv]) (use one assms(2) in blast)+
  next
    case False
    with assms(1) have "foldR (\<lambda>x s. bindR (destinationKnown w (snd x)) (\<lambda>_.
            if getsData w out x then addChild w name out runIndex x s else Inr s)) (outgoing w name) s = Inr s'"
      by (simp add: addChildren_def)
    then show ?thesis
      by (rule foldR_invariant [where P = waiting_inv]) (use one assms(2) in \<open>auto simp: bindR_Inr_iff split: if_splits\<close>)
  qed
qed

lemma waiting_inv_tryWaiting:
  assumes "tryWaiting w waitingNodes name s = Inr r" "waiting_inv s"
  shows "(\<forall>t. r = Removed t \<or> r = Taken t \<longrightarrow> waiting_inv t)"
proof (intro allI impI)
  fix t assume t: "r = Removed t \<or> r = Taken t"
  have "\<exists>u i. remove_waiting name i u = Inr t \<and> waitingExecution u = waitingExecution s"
    using assms(1) t waitingEntries_pushWaiting
    by (auto simp: tryWaiting_def bindR_Inr_iff split: option.splits if_splits)
  then obtain u i where u: "remove_waiting name i u = Inr t" "waitingExecution u = waitingExecution s" by blast
  with assms(2) same_waiting [OF u(2)] filling_inv_weaken [of u name i] have "filling_inv u name i" by blast
  with u(1) show "waiting_inv t" by (rule filling_inv_remove)
qed

lemma waiting_inv_scanWaiting:
  assumes "scanWaiting w waitingNodes names s = Inr r" "waiting_inv s"
  shows "(\<forall>t. r = Removed t \<or> r = Taken t \<longrightarrow> waiting_inv t)"
  using assms
proof (induction names)
  case (Cons name names)
  then obtain q where q: "tryWaiting w waitingNodes name s = Inr q"
    "(case q of PassOver \<Rightarrow> scanWaiting w waitingNodes names s | _ \<Rightarrow> Inr q) = Inr r"
    by (auto simp: bindR_Inr_iff)
  with Cons waiting_inv_tryWaiting [OF q(1)] show ?case by (cases q) auto
qed auto

lemma waiting_inv_executeWaiting:
  "executeWaiting w s = Inr s' \<Longrightarrow> waiting_inv s \<Longrightarrow> waiting_inv s'"
proof (induction w s rule: executeWaiting.induct)
  case (1 w s)
  let ?scan = "scanWaiting w (map_keys (waitingExecution s)) (map_keys (waitingExecution s)) s"
  from 1(2) obtain r where r: "?scan = Inr r"
    by (subst (asm) executeWaiting.simps) (cases ?scan, auto)
  note inv = waiting_inv_scanWaiting [OF r 1(3)]
  show ?case
  proof (cases r)
    case PassOver
    with r 1(2,3) show ?thesis by (subst (asm) executeWaiting.simps) simp
  next
    case (Taken t)
    with r 1(2) have "t = s'" by (subst (asm) executeWaiting.simps) simp
    with inv Taken show ?thesis by blast
  next
    case (Removed t)
    with r 1(2) have "executeWaiting w t = Inr s'" by (subst (asm) executeWaiting.simps) simp
    with 1(1) [OF r Removed] inv Removed show ?thesis by blast
  qed
qed

lemma waiting_inv_resumeWaiting: "resumeWaiting w s = Inr s' \<Longrightarrow> waiting_inv s \<Longrightarrow> waiting_inv s'"
  by (auto simp: resumeWaiting_def intro: waiting_inv_executeWaiting split: if_splits)

lemma waiting_inv_transition:
  assumes "transition w s t" "waiting_inv s"
  shows "waiting_inv t"
  using assms(1)
proof cases
  case (went_on job rest t' out runIndex td u)
  have "waitingExecution (recordRun (nodeName (ed_node job)) td t') = waitingExecution s"
    using touched_fields [OF went_on(3)] by simp
  with assms(2) same_waiting have "waiting_inv (recordRun (nodeName (ed_node job)) td t')" by blast
  with waiting_inv_addChildren [OF went_on(5)] waiting_inv_resumeWaiting [OF went_on(6)] show ?thesis by blast
qed (use assms(2) touched_fields in \<open>auto simp: waiting_inv_def\<close>)

lemma waiting_stopped: "finishNode env w d runIndex nsd err ls = Finished ls' \<Longrightarrow>
    waitingExecution (ls_data ls') = waitingExecution (ls_data ls)"
  by (auto simp: finishNode_def keepData_def stopWithError_def Let_def finished_simps pushRun_def ensureRuns_def
      split: option.splits if_splits)

lemma waiting_step_Finished:
  assumes "step env w ls = Finished ls'"
  shows "waitingExecution (ls_data ls') = waitingExecution (ls_data ls)"
proof (cases "nodeExecutionStack (ls_data ls)")
  case Nil
  with assms show ?thesis by (simp add: step_def)
next
  case (Cons job rest)
  show ?thesis
  proof (cases "ls_canceled ls \<or> env_stopped env")
    case True
    with assms Cons show ?thesis by (auto simp: step_def)
  next
    case False
    with assms Cons obtain ls0 where run: "runStep env w (paired job) ls0 = Finished ls'"
      and ls0: "ls_data ls0 = (ls_data ls)\<lparr>nodeExecutionStack := rest\<rparr>"
      by (auto simp: step_def Let_def finished_simps split: if_splits)
    let ?a = "tryLoop env w (paired job) (runIndexOf (ls_data ls0) (nodeName (ed_node job)))
      (maxTriesOf (ed_node job)) 0 SNull None (ls_data ls0)"
    from run obtain nsd err where
      "finishNode env w (paired job) (runIndexOf (ls_data ls0) (nodeName (ed_node job))) nsd err
        (with_data ls0 (at_state ?a)) = Finished ls'"
      by (auto simp: runStep_def Let_def finished_simps split: if_splits AttemptEnd.splits)
    from waiting_stopped [OF this] touched_fields [OF touched_tryLoop] ls0 show ?thesis by simp
  qed
qed

section \<open>The order of the connected nodes\<close>

definition topLeft :: "IExecuteData \<Rightarrow> int \<times> int" where
  "topLeft d = (snd (position (ed_node d)), fst (position (ed_node d)))"

definition single_input :: "Workflow \<Rightarrow> IConnection \<Rightarrow> bool" where
  "single_input w c =
     (case main_inputs (connectionsByDestinationNode w) (cnode c) of Inl _ \<Rightarrow> True | Inr inputs \<Rightarrow> length inputs \<le> 1)"

text \<open>In execution order v1 no inputs are forced: a connection adds its node, or its data waits.\<close>

lemma forceInputs_v1:
  assumes "executionOrder w = Some ''v1''" "forceInputs w c parent outputIndex data runIndex s = Inr s'"
  shows "s' = s"
proof -
  have one: "forceInput w parent outputIndex data runIndex outputNodes input u = Inr v \<Longrightarrow> v = u" for outputNodes input u v
    using assms(1) by (auto simp: forceInput_def Let_def bindR_Inr_iff forceInputNodeExecution_def split: if_splits)
  have all: "foldR (forceInput w parent outputIndex data runIndex outputNodes) cs u = Inr v \<Longrightarrow> v = u"
    for outputNodes cs u v
    by (induction cs arbitrary: u) (auto simp: bindR_Inr_iff dest!: one)
  from assms(2) obtain outputNodes inputs where "foldR (\<lambda>input s. bindR (derefR input) (\<lambda>cs.
      foldR (forceInput w parent outputIndex data runIndex outputNodes) cs s)) inputs s = Inr s'"
    by (auto simp: forceInputs_def bindR_Inr_iff)
  then show ?thesis by (induction inputs arbitrary: s) (auto simp: bindR_Inr_iff dest!: all)
qed

lemma addNode_v1:
  assumes "executionOrder w = Some ''v1''" "addNodeToBeExecuted w c outputIndex parent data runIndex s = Inr s'"
    and "main_inputs (connectionsByDestinationNode w) (cnode c) = Inr inputs" "length inputs > 1"
  shows "nodeExecutionStack s' = nodeExecutionStack s \<or>
    (\<exists>d. nodeExecutionStack s' = d # nodeExecutionStack s \<and> map_of (nodes w) (cnode c) = Some (ed_node d))"
proof -
  from assms(2-4) obtain t i was u m where
    t: "chooseWaiting w c s = Inr (t, i, was)" "addWaitingData c outputIndex parent data runIndex i t = Inr u" and
    rest: "(if allDataFound m then completeWaiting w c i u
         else bindR (if was then Inr u else forceInputs w c parent outputIndex data runIndex u) (\<lambda>s.
             keepWaiting w c outputIndex parent runIndex i
               (connectionDataArray c outputIndex data (Some i) s) s)) = Inr s'"
    by (auto simp: addNodeToBeExecuted_def bindR_Inr_iff)
  have u: "nodeExecutionStack u = nodeExecutionStack s" using stack_choose [OF t(1)] stack_addData [OF t(2)] by simp
  show ?thesis
  proof (cases "allDataFound m")
    case True
    with rest u assms(1) show ?thesis
      by (auto simp: completeWaiting_def bindR_Inr_iff enqueue_def dest!: stack_remove)
  next
    case False
    with rest obtain v where "(if was then Inr u else forceInputs w c parent outputIndex data runIndex u) = Inr v"
      "keepWaiting w c outputIndex parent runIndex i (connectionDataArray c outputIndex data (Some i) v) v = Inr s'"
      by (auto simp: bindR_Inr_iff)
    moreover from this have "v = u" by (auto split: if_splits dest: forceInputs_v1 [OF assms(1)])
    ultimately show ?thesis using u by (auto dest!: stack_keep)
  qed
qed

lemma addChild_v1:
  assumes "executionOrder w = Some ''v1''" "addChild w name out runIndex x s = Inr s'"
  shows "nodeExecutionStack s' = nodeExecutionStack s \<and> \<not> single_input w (snd x) \<or>
    (\<exists>d. nodeExecutionStack s' = d # nodeExecutionStack s \<and> map_of (nodes w) (cnode (snd x)) = Some (ed_node d))"
proof -
  obtain k c where x: "x = (k, c)" by (cases x)
  with assms(2) have add: "addNodeToBeExecuted w c k name (Some out) runIndex s = Inr s'" by (simp add: addChild_def)
  then obtain inputs where inputs: "main_inputs (connectionsByDestinationNode w) (cnode c) = Inr inputs"
    by (auto simp: addNodeToBeExecuted_def bindR_Inr_iff)
  show ?thesis
  proof (cases "length inputs > 1")
    case True
    with addNode_v1 [OF assms(1) add inputs] inputs show ?thesis by (auto simp: x single_input_def)
  next
    case False
    with add inputs assms(1) show ?thesis
      by (auto simp: x addNodeToBeExecuted_def runDirectly_def bindR_Inr_iff enqueue_def)
  qed
qed

lemma foldR_addChild:
  assumes "executionOrder w = Some ''v1''" "foldR (addChild w name out runIndex) xs s = Inr s'"
  shows "\<exists>added ys. nodeExecutionStack s' = added @ nodeExecutionStack s \<and> subseq ys (rev xs) \<and>
    map (\<lambda>d. Some (ed_node d)) added = map (\<lambda>x. map_of (nodes w) (cnode (snd x))) ys \<and>
    filter (\<lambda>x. single_input w (snd x)) ys = filter (\<lambda>x. single_input w (snd x)) (rev xs)"
  using assms(2)
proof (induction xs arbitrary: s)
  case Nil
  then show ?case by simp
next
  case (Cons x xs)
  then obtain t where t: "addChild w name out runIndex x s = Inr t"
    "foldR (addChild w name out runIndex) xs t = Inr s'" by (auto simp: bindR_Inr_iff)
  from Cons.IH [OF t(2)] obtain added ys where IH:
    "nodeExecutionStack s' = added @ nodeExecutionStack t" "subseq ys (rev xs)"
    "map (\<lambda>d. Some (ed_node d)) added = map (\<lambda>x. map_of (nodes w) (cnode (snd x))) ys"
    "filter (\<lambda>x. single_input w (snd x)) ys = filter (\<lambda>x. single_input w (snd x)) (rev xs)" by blast
  from addChild_v1 [OF assms(1) t(1)] show ?case
  proof (elim disjE exE conjE)
    assume "nodeExecutionStack t = nodeExecutionStack s" "\<not> single_input w (snd x)"
    with IH show ?thesis
      by (intro exI [of _ added] exI [of _ ys]) (simp add: list_emb_prefix)
  next
    fix d assume "nodeExecutionStack t = d # nodeExecutionStack s" "map_of (nodes w) (cnode (snd x)) = Some (ed_node d)"
    with IH show ?thesis
      by (intro exI [of _ "added @ [d]"] exI [of _ "ys @ [x]"]) (simp add: list_emb_append_mono)
  qed
qed

lemma sorted_rev_neg:
  "sorted (map (\<lambda>x. (- f x :: int, - g x :: int)) xs) \<Longrightarrow> sorted (map (\<lambda>x. (f x, g x)) (rev xs))"
  by (induction xs) (auto simp: sorted_append)

lemma sorted_subseq: "subseq ys xs \<Longrightarrow> sorted (map f xs) \<Longrightarrow> sorted (map f ys)"
  by (induction rule: list_emb.induct) (auto dest: list_emb_set)

lemma mset_subseq: "subseq ys xs \<Longrightarrow> mset (map f ys) \<subseteq># mset (map f xs)"
  by (induction rule: list_emb.induct) (auto intro: subset_mset.order_trans)

text \<open>C10: in execution order v1 connected nodes run top-left first: what the connections that carry data add
  to the stack is put on top of it, in front of everything that was there, ordered by height and then
  from left to right. Each connection adds at most one item, for the node it leads to, and exactly one if this
  node has one input; the data for a node with several inputs may have to wait for that of other inputs.\<close>

theorem children_top_left_first:
  assumes "executionOrder w = Some ''v1''" "addChildren w name out runIndex s = Inr s'"
  defines "receiving \<equiv> filter (getsData w out) (outgoing w name)"
  shows "\<exists>added. nodeExecutionStack s' = added @ nodeExecutionStack s \<and> sorted (map topLeft added) \<and>
    mset (map (\<lambda>d. Some (ed_node d)) added) \<subseteq># mset (map (\<lambda>x. getNode w (cnode (snd x))) receiving) \<and>
    mset (map (\<lambda>x. getNode w (cnode (snd x))) (filter (\<lambda>x. single_input w (snd x)) receiving)) \<subseteq>#
      mset (map (\<lambda>d. Some (ed_node d)) added)"
proof -
  define xs where "xs = topLeftLast w receiving"
  have node: "getNode w n = map_of (nodes w) n" for n by (simp add: getNode_def obj_has_def)
  from assms(1,2) have "foldR (addChild w name out runIndex) xs s = Inr s'"
    by (auto simp: addChildren_def bindR_Inr_iff xs_def receiving_def)
  from foldR_addChild [OF assms(1) this] obtain added ys where
    stack: "nodeExecutionStack s' = added @ nodeExecutionStack s" and ys: "subseq ys (rev xs)" and
    added: "map (\<lambda>d. Some (ed_node d)) added = map (\<lambda>x. getNode w (cnode (snd x))) ys" and
    single: "filter (\<lambda>x. single_input w (snd x)) ys = filter (\<lambda>x. single_input w (snd x)) (rev xs)"
    by (auto simp: node)
  let ?pos = "\<lambda>x. (snd (positionOf w (snd x)), fst (positionOf w (snd x)))"
  have "sorted (map ?pos (rev xs))" by (rule sorted_rev_neg) (simp add: xs_def topLeftLast_def)
  from sorted_subseq [OF ys this] have "sorted (map ?pos ys)" .
  moreover have "map topLeft added = map ?pos ys"
  proof (rule nth_equalityI)
    show len: "length (map topLeft added) = length (map ?pos ys)" using arg_cong [OF added, of length] by simp
    fix i assume i: "i < length (map topLeft added)"
    then have "Some (ed_node (added ! i)) = getNode w (cnode (snd (ys ! i)))"
      using arg_cong [OF added, of "\<lambda>l. l ! i"] len by simp
    with i len show "map topLeft added ! i = map ?pos ys ! i"
      by (auto simp: topLeft_def positionOf_def split: option.split)
  qed
  moreover have "mset (rev xs) = mset receiving" by (simp add: xs_def topLeftLast_def)
  then have "mset (map f (rev xs)) = mset (map f receiving)"
    "mset (map f (filter P (rev xs))) = mset (map f (filter P receiving))" for f :: "nat \<times> IConnection \<Rightarrow> INode option" and P
    by (simp_all only: mset_map mset_filter)
  with mset_subseq [OF ys, of "\<lambda>x. getNode w (cnode (snd x))"] mset_subseq [OF subseq_filter_left, of "\<lambda>x. getNode w (cnode (snd x))"
      "\<lambda>x. single_input w (snd x)" ys]
  have "mset (map (\<lambda>d. Some (ed_node d)) added) \<subseteq># mset (map (\<lambda>x. getNode w (cnode (snd x))) receiving)"
    "mset (map (\<lambda>x. getNode w (cnode (snd x))) (filter (\<lambda>x. single_input w (snd x)) receiving)) \<subseteq>#
      mset (map (\<lambda>d. Some (ed_node d)) added)"
    by (simp_all only: added single)
  ultimately show ?thesis using stack by auto
qed

theorem children_top_left_first_witness:
  "\<exists>s' added. addChildren diamond_v1 ''M'' [SVal [empty_item]] 0 sample_state = Inr s' \<and>
     nodeExecutionStack s' = added \<and> sorted (map topLeft added) \<and> length added = 2"
proof -
  have "case addChildren diamond_v1 ''M'' [SVal [empty_item]] 0 sample_state of Inr _ \<Rightarrow> True | Inl _ \<Rightarrow> False"
    by code_simp
  then obtain s' where s': "addChildren diamond_v1 ''M'' [SVal [empty_item]] 0 sample_state = Inr s'"
    by (auto split: sum.splits)
  have two: "length (filter (getsData diamond_v1 [SVal [empty_item]]) (outgoing diamond_v1 ''M'')) = 2"
    "length (filter (\<lambda>x. single_input diamond_v1 (snd x))
      (filter (getsData diamond_v1 [SVal [empty_item]]) (outgoing diamond_v1 ''M''))) = 2"
    by code_simp+
  have v1: "executionOrder diamond_v1 = Some ''v1''" by (simp add: diamond_v1_def)
  from children_top_left_first [OF v1 s'] obtain added where
    added: "nodeExecutionStack s' = added @ nodeExecutionStack sample_state" "sorted (map topLeft added)" and
    m: "mset (map (\<lambda>d. Some (ed_node d)) added) \<subseteq># mset (map (\<lambda>x. getNode diamond_v1 (cnode (snd x)))
      (filter (getsData diamond_v1 [SVal [empty_item]]) (outgoing diamond_v1 ''M'')))"
    "mset (map (\<lambda>x. getNode diamond_v1 (cnode (snd x))) (filter (\<lambda>x. single_input diamond_v1 (snd x))
      (filter (getsData diamond_v1 [SVal [empty_item]]) (outgoing diamond_v1 ''M'')))) \<subseteq>#
      mset (map (\<lambda>d. Some (ed_node d)) added)" by blast
  have "length added = 2" using m [THEN size_mset_mono] two by (simp only: size_mset length_map)
  with s' added show ?thesis by (auto simp: sample_state_def fresh_run_def)
qed

section \<open>Waiting nodes\<close>

text \<open>An input that got data, even if this was an empty array.\<close>

definition got_data :: "outputs \<Rightarrow> nat \<Rightarrow> bool" where
  "got_data m k \<longleftrightarrow> k < length m \<and> m ! k \<noteq> SNull \<and> m ! k \<noteq> SHole"

definition required_given :: "RequiredInputs \<Rightarrow> outputs \<Rightarrow> bool" where
  "required_given requiredInputs m \<longleftrightarrow>
     (case requiredInputs of
        NoRequirement \<Rightarrow> True
      | RequiredCount n \<Rightarrow> n \<le> card {k. got_data m k}
      | RequiredIndices is \<Rightarrow> \<forall>k \<in> set is. got_data m k)"

lemma inputsWithData_iff: "set (inputsWithData m) = {k. got_data m k}"
  by (force simp: inputsWithData_def got_data_def in_set_enumerate_eq)

lemma distinct_inputsWithData: "distinct (inputsWithData m)"
  unfolding inputsWithData_def by (intro distinct_map_filter) simp

lemma requirementMet_iff: "requirementMet r m \<longleftrightarrow> required_given r m"
proof -
  have "length (inputsWithData m) = card {k. got_data m k}"
    using distinct_card [OF distinct_inputsWithData, of m] by (simp add: inputsWithData_iff)
  then show ?thesis
    by (auto simp: requirementMet_def required_given_def inputsWithData_iff split: RequiredInputs.split)
qed

lemma hasItems_True: "hasItems m = Inr True \<longleftrightarrow> SUndef \<notin> set m \<and> (\<exists>items. items \<noteq> [] \<and> SVal items \<in> set m)"
  by (auto simp: hasItems_def list_ex_iff split: slot.splits)

lemma taskDataMain_sets: "SUndef \<in> set (taskDataMain m) \<longleftrightarrow> SUndef \<in> set m"
  "items \<noteq> [] \<Longrightarrow> SVal items \<in> set (taskDataMain m) \<longleftrightarrow> SVal items \<in> set m"
  by (auto simp: taskDataMain_def image_iff)

lemma hasItems_taskDataMain: "hasItems (taskDataMain m) = Inr True \<longleftrightarrow> hasItems m = Inr True"
  by (auto simp: hasItems_True taskDataMain_sets)

lemma length_taskDataMain [simp]: "length (taskDataMain m) = length m"
  by (simp add: taskDataMain_def)

text \<open>
  The job \<open>d\<close> for the waiting node \<open>name\<close>: the data and the source of its waiting entry \<open>i\<close>, with an empty
  array in the place of \<open>null\<close> and for each input at the end that has none.
\<close>

definition resumed :: "Workflow \<Rightarrow> IRunExecutionData \<Rightarrow> string \<Rightarrow> nat \<Rightarrow> IExecuteData \<Rightarrow> bool" where
  "resumed w s name i d \<longleftrightarrow>
     (\<exists>m nodeType. getNode w name = Some (ed_node d) \<and>
        nodeTypes w (ntype (ed_node d)) (typeVersion (ed_node d)) = Some nodeType \<and>
        waiting_main s name i = Inr m \<and> ed_source d = source_at s name i \<and>
        ed_data d = [(Main, map (\<lambda>v. if v = SNull then SVal [] else v) m @
          replicate (length (td_inputs nodeType) - length m) (SVal []))] \<and>
        (\<exists>items. items \<noteq> [] \<and> SVal items \<in> set m) \<and>
        (executionOrder w = Some ''v1'' \<longrightarrow> required_given (td_requiredInputs nodeType) m \<and>
          \<not> allInputsRequired (td_requiredInputs nodeType) (length (td_inputs nodeType))))"

lemma remove_waiting_entries_at:
  assumes "remove_waiting name i s = Inr s'"
  shows "waiting_at s' name i = None" "waiting_at s' n j = Some e \<Longrightarrow> waiting_at s n j = Some e"
    "waiting_at s' n j = Some e \<Longrightarrow> source_at s' n j = source_at s n j"
    "set (map_keys (waitingExecution s')) \<subseteq> set (map_keys (waitingExecution s))"
proof -
  from assms obtain runs sources source_runs where
    runs: "map_of (waitingExecution s) name = Some runs" "waitingExecutionSource s = Some sources"
      "map_of sources name = Some source_runs"
    by (auto simp: remove_waiting_def bindR_Inr_iff)
  with assms have w: "waitingExecution s' = (if AList.delete i runs = [] then AList.delete name (waitingExecution s)
      else obj_put name (AList.delete i runs) (waitingExecution s))"
    "waitingExecutionSource s' = Some (if AList.delete i runs = [] then AList.delete name sources
      else obj_put name (AList.delete i source_runs) sources)"
    by (auto simp: remove_waiting_def Let_def)
  note del = AList.delete_conv
  show gone: "waiting_at s' name i = None"
    by (simp add: waiting_at_def w(1) del)
  show "waiting_at s' n j = Some e \<Longrightarrow> waiting_at s n j = Some e"
    by (cases "n = name"; cases "j = i") (auto simp: waiting_at_def w(1) del runs(1) split: if_splits)
  show "waiting_at s' n j = Some e \<Longrightarrow> source_at s' n j = source_at s n j"
    by (cases "n = name"; cases "j = i") (auto simp: waiting_at_def source_at_def w del runs split: if_splits)
  have keys: "set (map_keys t) = {n. map_of t n \<noteq> None}" for t :: IWaitingForExecution
    by (simp add: map_keys_def dom_map_of_conv_image_fst [symmetric] dom_def)
  show "set (map_keys (waitingExecution s')) \<subseteq> set (map_keys (waitingExecution s))"
    unfolding keys by (auto simp: w(1) runs(1) del split: if_splits)
qed

definition taken :: "Workflow \<Rightarrow> IRunExecutionData \<Rightarrow> IRunExecutionData \<Rightarrow> IExecuteData \<Rightarrow> bool" where
  "taken w s s' d \<longleftrightarrow>
     (\<exists>name i. resumed w s name i d \<and> waiting_at s' name i = None \<and>
        set (getParentNodes w name (OneType Main) (-1)) \<inter> set (map_keys (waitingExecution s')) = {})"

lemma pushWaiting_Inr:
  assumes "pushWaiting w name node i m s = Inr s'"
  obtains d nodeType where "nodeExecutionStack s' = nodeExecutionStack s @ [d]"
    "nodeTypes w (ntype node) (typeVersion node) = Some nodeType" "ed_node d = node" "ed_source d = source_at s name i"
    "ed_data d = [(Main, m @ replicate (length (td_inputs nodeType) - length m) (SVal []))]"
    "waitingExecution s' = waitingExecution s" "waitingExecutionSource s' = waitingExecutionSource s"
proof -
  from assms obtain nodeType where "nodeTypes w (ntype node) (typeVersion node) = Some nodeType"
    "s' = s\<lparr>nodeExecutionStack := nodeExecutionStack s @ [\<lparr>ed_node = node,
      ed_data = [(Main, m @ replicate (length (td_inputs nodeType) - length m) (SVal []))],
      ed_source = source_at s name i\<rparr>]\<rparr>"
    by (auto simp: pushWaiting_def bindR_Inr_iff)
  then show thesis
    by (intro that [of "\<lparr>ed_node = node,
      ed_data = [(Main, m @ replicate (length (td_inputs nodeType) - length m) (SVal []))],
      ed_source = source_at s name i\<rparr>" nodeType]) simp_all
qed

lemma tryWaiting_result:
  assumes "tryWaiting w (map_keys (waitingExecution s)) name s = Inr r"
  shows "(\<forall>t. r = Removed t \<longrightarrow> nodeExecutionStack t = nodeExecutionStack s \<and> (\<exists>i. remove_waiting name i s = Inr t)) \<and>
    (\<forall>t. r = Taken t \<longrightarrow> (\<exists>d. nodeExecutionStack t = nodeExecutionStack s @ [d] \<and> taken w s t d))"
proof (intro conjI allI impI)
  fix t assume "r = Removed t"
  with assms show "\<exists>i. remove_waiting name i s = Inr t"
    by (auto simp: tryWaiting_def bindR_Inr_iff split: option.splits if_splits)
  then show "nodeExecutionStack t = nodeExecutionStack s" by (auto dest: stack_remove)
next
  fix t assume "r = Taken t"
  with assms obtain node required i m u where node: "getNode w name = Some node"
    and required: "requiredInputsOf w node = Inr required"
    "\<not> allInputsRequired required (case nodeTypes w (ntype node) (typeVersion node) of None \<Rightarrow> 0
        | Some nodeType \<Rightarrow> length (td_inputs nodeType))"
    and parents: "\<not> list_ex (\<lambda>p. p \<in> set (map_keys (waitingExecution s))) (getParentNodes w name (OneType Main) (-1))"
    and m: "waiting_main s name i = Inr m" "requirementMet required m" "hasItems (taskDataMain m) = Inr True"
    and push: "pushWaiting w name node i (taskDataMain m) s = Inr u" and remove: "remove_waiting name i u = Inr t"
    by (auto simp: tryWaiting_def bindR_Inr_iff split: option.splits if_splits)
  from push obtain d nodeType where d: "nodeExecutionStack u = nodeExecutionStack s @ [d]"
    "nodeTypes w (ntype node) (typeVersion node) = Some nodeType" "ed_node d = node" "ed_source d = source_at s name i"
    "ed_data d = [(Main, taskDataMain m @ replicate (length (td_inputs nodeType) - length (taskDataMain m)) (SVal []))]"
    "waitingExecution u = waitingExecution s" "waitingExecutionSource u = waitingExecutionSource s"
    by (rule pushWaiting_Inr)
  have "executionOrder w = Some ''v1'' \<longrightarrow> required = td_requiredInputs nodeType"
    using required(1) d(2) by (auto simp: requiredInputsOf_def)
  then have "resumed w s name i d"
    using node d m required(2) hasItems_True [of m] unfolding hasItems_taskDataMain
    by (auto simp: resumed_def taskDataMain_def requirementMet_iff)
  moreover have "set (map_keys (waitingExecution t)) \<subseteq> set (map_keys (waitingExecution s))"
    using remove_waiting_entries_at(4) [OF remove] d(6) by simp
  then have "set (getParentNodes w name (OneType Main) (-1)) \<inter> set (map_keys (waitingExecution t)) = {}"
    using parents by (auto simp: list_ex_iff)
  ultimately have "taken w s t d" using remove_waiting_entries_at(1) [OF remove] by (auto simp: taken_def)
  with d(1) stack_remove [OF remove] show "\<exists>d. nodeExecutionStack t = nodeExecutionStack s @ [d] \<and> taken w s t d" by auto
qed

lemma scanWaiting_result:
  assumes "scanWaiting w (map_keys (waitingExecution s)) names s = Inr r"
  shows "(\<forall>t. r = Removed t \<longrightarrow> nodeExecutionStack t = nodeExecutionStack s \<and> (\<exists>name i. remove_waiting name i s = Inr t)) \<and>
    (\<forall>t. r = Taken t \<longrightarrow> (\<exists>d. nodeExecutionStack t = nodeExecutionStack s @ [d] \<and> taken w s t d))"
  using assms
proof (induction names)
  case Nil
  then show ?case by auto
next
  case (Cons name names)
  then obtain q where q: "tryWaiting w (map_keys (waitingExecution s)) name s = Inr q"
    "(case q of PassOver \<Rightarrow> scanWaiting w (map_keys (waitingExecution s)) names s | _ \<Rightarrow> Inr q) = Inr r"
    by (auto simp: bindR_Inr_iff)
  show ?case
  proof (cases q)
    case PassOver
    with q Cons.IH show ?thesis by simp
  next
    case (Taken t)
    with q tryWaiting_result [OF q(1)] show ?thesis by auto
  next
    case (Removed t)
    with q(2) have "r = Removed t" by simp
    with Removed tryWaiting_result [OF q(1)] show ?thesis by blast
  qed
qed

text \<open>An entry of the table after empty ones were removed was in the table before, with the same source.\<close>

lemma resumed_before:
  assumes "remove_waiting name' i' s = Inr t" "resumed w t name i d"
  shows "resumed w s name i d"
proof -
  from assms(2) obtain e where "waiting_at t name i = Some e"
    by (auto simp: resumed_def waiting_main_def bindR_Inr_iff)
  with remove_waiting_entries_at(2,3) [OF assms(1) this]
  have "waiting_main s name i = waiting_main t name i" "source_at s name i = source_at t name i"
    by (simp_all add: waiting_main_def)
  with assms(2) show ?thesis by (simp add: resumed_def)
qed

lemma taken_before: "remove_waiting name i s = Inr t \<Longrightarrow> taken w t s' d \<Longrightarrow> taken w s s' d"
  unfolding taken_def using resumed_before by blast

lemma executeWaiting_result:
  "executeWaiting w s = Inr s' \<Longrightarrow> nodeExecutionStack s' = nodeExecutionStack s \<or>
   (\<exists>d. nodeExecutionStack s' = nodeExecutionStack s @ [d] \<and> taken w s s' d)"
proof (induction w s rule: executeWaiting.induct)
  case (1 w s)
  let ?scan = "scanWaiting w (map_keys (waitingExecution s)) (map_keys (waitingExecution s)) s"
  from 1(2) obtain r where r: "?scan = Inr r"
    by (subst (asm) executeWaiting.simps) (cases ?scan, auto)
  note res = scanWaiting_result [OF r]
  show ?case
  proof (cases r)
    case PassOver
    with r 1(2) have "s' = s" by (subst (asm) executeWaiting.simps) simp
    then show ?thesis by simp
  next
    case (Taken t)
    with r 1(2) have "t = s'" by (subst (asm) executeWaiting.simps) simp
    with res Taken show ?thesis by blast
  next
    case (Removed t)
    with r 1(2) have "executeWaiting w t = Inr s'" by (subst (asm) executeWaiting.simps) simp
    from 1(1) [OF r Removed this] res Removed taken_before show ?thesis by metis
  qed
qed

text \<open>C11: when the stack is empty, at most one waiting node is put on it. It gets the data and the source of
  one of its waiting entries, with an empty array for each input that got no data; some input of the entry has
  items; the entry leaves the table, and no node from which main connections lead to this node still waits. In
  execution order v1 (node types have no say in other orders) the inputs that the node type requires got data
  in the entry itself, and not all of its inputs are required. The search ends, though it begins again after
  every empty entry it removes.\<close>

theorem resumed_node_is_ready:
  assumes "resumeWaiting w s = Inr s'" "nodeExecutionStack s = []"
  shows "nodeExecutionStack s' = [] \<or>
    (\<exists>d name i. nodeExecutionStack s' = [d] \<and> resumed w s name i d \<and> waiting_at s' name i = None \<and>
      set (getParentNodes w name (OneType Main) (-1)) \<inter> set (map_keys (waitingExecution s')) = {})"
  using assms executeWaiting_result [of w s s'] by (auto simp: resumeWaiting_def taken_def)

theorem resumed_node_is_ready_witness:
  "\<exists>s s' d. deliver [''A'', ''B''] 0 0 ''x'' start_state = Inr s \<and>
     resumeWaiting (merge_workflow [''A'', ''B'']) s = Inr s' \<and>
     nodeExecutionStack s' = [d] \<and> resumed (merge_workflow [''A'', ''B'']) s ''M'' 0 d"
proof -
  have "case deliver [''A'', ''B''] 0 0 ''x'' start_state of Inl _ \<Rightarrow> False | Inr s \<Rightarrow>
      nodeExecutionStack s = [] \<and> map_keys (waitingExecution s) = [''M''] \<and>
      map (map_keys \<circ> snd) (waitingExecution s) = [[0]] \<and>
      (case resumeWaiting (merge_workflow [''A'', ''B'']) s of Inl _ \<Rightarrow> False | Inr s' \<Rightarrow> nodeExecutionStack s' \<noteq> [])"
    by code_simp
  then obtain s s' where s: "deliver [''A'', ''B''] 0 0 ''x'' start_state = Inr s" "nodeExecutionStack s = []"
    "resumeWaiting (merge_workflow [''A'', ''B'']) s = Inr s'" "nodeExecutionStack s' \<noteq> []"
    and table: "map_keys (waitingExecution s) = [''M'']" "map (map_keys \<circ> snd) (waitingExecution s) = [[0]]"
    by (auto split: sum.splits)
  from resumed_node_is_ready [OF s(3,2)] s(4) obtain d name i where
    d: "nodeExecutionStack s' = [d]" "resumed (merge_workflow [''A'', ''B'']) s name i d" by blast
  from d(2) obtain e where "waiting_at s name i = Some e" by (auto simp: resumed_def waiting_main_def bindR_Inr_iff)
  then have "name = ''M''" "i = 0" using table
    by (auto simp: waiting_at_def map_keys_def map_eq_Cons_conv split: option.splits if_splits)
  with s d show ?thesis by blast
qed

text \<open>The run that has waited longest is not the one that is taken when there are more than ten: the
  numbers are sorted as strings, so run 10 comes before run 2.\<close>

theorem tenth_run_before_second:
  "firstRunIndex [2, 3, 4, 5, 6, 7, 8, 9, 10] = Some 10 \<and> firstRunIndex [2, 3, 4, 5, 6, 7, 8, 9] = Some 2"
  by code_simp

end
