(* ===== verification/ExecutionEnd.thy ===== *)
theory ExecutionEnd
  imports LoopProperties
begin

text \<open>
  The frame around the loop (\<open>packages/core/src/WorkflowExecute.ts\<close>): the checks before it, the hook
  that runs first, what is made of its result (\<open>processSuccessExecution\<close>, the handler of errors,
  \<open>moveNodeMetadata\<close>), cancelling, and the entry points \<open>run\<close> and \<open>runPartialWorkflow\<close>, which build
  the first state.
\<close>

section \<open>The result\<close>

text \<open>\<open>IRun\<close> without the dates.\<close>

record IRun =
  run_data :: IRunExecutionData
  run_status :: ExecutionStatus
  run_finished :: bool
  run_waitTill :: "nat option"

definition statusOf :: "LoopState \<Rightarrow> ExecutionStatus" where
  "statusOf ls = (if ls_canceled ls then Canceled else Running)"

definition getFullRunData :: "LoopState \<Rightarrow> IRun" where
  "getFullRunData ls =
     \<lparr>run_data = ls_data ls, run_status = statusOf ls, run_finished = False, run_waitTill = None\<rparr>"

definition setMetadata ::
  "string \<Rightarrow> nat \<times> jsval \<Rightarrow> IRunExecutionData \<Rightarrow> IRunExecutionData res" where
  "setMetadata name = (\<lambda>(index, m) s.
     bindR (derefR (map_of (runData s) name)) (\<lambda>runs.
       if index < length runs then
         Inr (s\<lparr>runData := obj_put name (runs[index := (runs ! index)\<lparr>task_metadata := m\<rparr>]) (runData s)\<rparr>)
       else Inl TypeError))"

definition moveNodeMetadata :: "IRunExecutionData \<Rightarrow> IRunExecutionData res" where
  "moveNodeMetadata s =
     (case metadata s of
        None \<Rightarrow> Inr s
      | Some meta \<Rightarrow>
          foldR (\<lambda>(name, entries). foldR (setMetadata name) (enumerate 0 entries)) meta s)"

text \<open>
  A hook of the end: the state with the hook recorded, and the error if it fails. \<open>res \<times> LoopState\<close>
  is the value the promise settles with, and the state it leaves.
\<close>

definition end_hook :: "Env \<Rightarrow> LoopState \<Rightarrow> js_error option \<times> LoopState" where
  "end_hook env ls = (env_hook env WorkflowExecuteAfter, ls\<lparr>ls_hooks := ls_hooks ls @ [WorkflowExecuteAfter]\<rparr>)"

definition endOf :: "js_error option \<Rightarrow> LoopState \<Rightarrow> IRun" where
  "endOf err ls =
     (case err of
        Some e \<Rightarrow>
          \<lparr>run_data = (ls_data ls)\<lparr>resultError := Some e\<rparr>,
           run_status = (if str_includes (error_message e) ''canceled'' then Canceled else statusOf ls),
           run_finished = False, run_waitTill = None\<rparr>
      | None \<Rightarrow>
          (case waitTill (ls_data ls) of
             Some t \<Rightarrow> (getFullRunData ls)\<lparr>run_status := Waiting, run_waitTill := Some t\<rparr>
           | None \<Rightarrow> (getFullRunData ls)\<lparr>run_status := Success, run_finished := True\<rparr>))"

definition processSuccessExecution :: "Env \<Rightarrow> js_error option \<Rightarrow> LoopState \<Rightarrow> IRun res \<times> LoopState" where
  "processSuccessExecution env err ls =
     (let fullRunData = endOf err ls; ls = with_data ls (run_data fullRunData) in
      case moveNodeMetadata (ls_data ls) of
        Inl e \<Rightarrow> (Inl e, ls)
      | Inr s \<Rightarrow>
          let ls = with_data ls s; result = fullRunData\<lparr>run_data := s\<rparr> in
          if isAbortError err then (Inr result, ls)
          else case end_hook env ls of
            (Some e, ls) \<Rightarrow> (Inl e, ls)
          | (None, ls) \<Rightarrow> (Inr result, ls))"

text \<open>The handler of an error; an error of the hook is only logged.\<close>

definition processError :: "Env \<Rightarrow> js_error \<Rightarrow> LoopState \<Rightarrow> IRun res \<times> LoopState" where
  "processError env e ls =
     (let ls = with_data ls ((ls_data ls)\<lparr>resultError := Some e\<rparr>) in
      case moveNodeMetadata (ls_data ls) of
        Inl e' \<Rightarrow> (Inl e', ls)
      | Inr s \<Rightarrow> (Inr (getFullRunData (with_data ls s)), snd (end_hook env (with_data ls s))))"

definition endExecution :: "Env \<Rightarrow> StepResult \<Rightarrow> IRun res \<times> LoopState" where
  "endExecution env r =
     (case r of
        Rejected e ls \<Rightarrow> processError env e ls
      | Again ls \<Rightarrow> processError env TypeError ls
      | Finished ls \<Rightarrow>
          (case processSuccessExecution env
              (if ls_canceled ls \<and> ls_error ls = None then
                 Some (WorkflowOperationError ''Workflow has been canceled or timed out'')
               else ls_error ls) ls of
             (Inl e, ls) \<Rightarrow> processError env e ls
           | (Inr run, ls) \<Rightarrow> (Inr run, ls)))"

text \<open>Cancelling: the status changes, and the hook of the end runs.\<close>

definition onCancel :: "LoopState \<Rightarrow> LoopState" where
  "onCancel ls = ls\<lparr>ls_canceled := True, ls_hooks := ls_hooks ls @ [WorkflowExecuteAfter]\<rparr>"

section \<open>Before the loop\<close>

text \<open>
  An execution that waited goes on: the node it waited in is disabled, so that it passes its data
  through, and its last run is taken back.
\<close>

definition resumeExecution :: "IRunExecutionData \<Rightarrow> IRunExecutionData res" where
  "resumeExecution s =
     (case waitTill s of
        None \<Rightarrow> Inr s
      | Some _ \<Rightarrow>
          let name = (case lastNodeExecuted s of None \<Rightarrow> ''undefined'' | Some n \<Rightarrow> n) in
          (case nodeExecutionStack s of
             [] \<Rightarrow> Inl TypeError
           | job # rest \<Rightarrow>
               bindR (derefR (map_of (runData s) name)) (\<lambda>runs.
                 Inr (s\<lparr>nodeExecutionStack := job\<lparr>ed_node := (ed_node job)\<lparr>disabled := Some True\<rparr>\<rparr> # rest,
                        waitTill := None, runData := obj_put name (butlast runs) (runData s)\<rparr>))))"

definition prepareExecution :: "issue_finder \<Rightarrow> Workflow \<Rightarrow> IRunExecutionData \<Rightarrow> IRunExecutionData res" where
  "prepareExecution issues w s =
     (case nodeExecutionStack s of
        [] \<Rightarrow> Inl TypeError
      | job # _ \<Rightarrow>
          bindR (checkReadyForExecution issues w (Some (nodeName (ed_node job)))
              (case startData s of None \<Rightarrow> None | Some start \<Rightarrow> nonempty_str (sd_destinationNode start))
              (Some (case pinData s of None \<Rightarrow> [] | Some pd \<Rightarrow> map_keys pd))) (\<lambda>workflowIssues.
            if workflowIssues \<noteq> None then
              Inl (WorkflowOperationError
                ''The workflow has issues and can for that reason not be executed. Please fix them first.'')
            else resumeExecution
              (if startData s = None then
                 s\<lparr>startData := Some \<lparr>sd_destinationNode = None, sd_runNodeFilter = None\<rparr>\<rparr>
               else s)))"

text \<open>The hook that runs first failed: only the incoming data of the first node is kept.\<close>

definition beforeFailed :: "js_error \<Rightarrow> IRunExecutionData \<Rightarrow> IRunExecutionData" where
  "beforeFailed e s =
     (case nodeExecutionStack s of
        [] \<Rightarrow> s
      | job # _ \<Rightarrow>
          s\<lparr>runData := [(nodeName (ed_node job),
              [\<lparr>executionStatus = StatusError,
                task_data = Some (case map_of (ed_data job) Main of None \<Rightarrow> [] | Some m \<Rightarrow> [(Main, m)]),
                task_error = None, task_source = [], task_metadata = JUndef\<rparr>])],
            pinData := None, lastNodeExecuted := Some (nodeName (ed_node job)), resultError := Some e\<rparr>)"

definition startLoop :: "IRunExecutionData \<Rightarrow> LoopState" where
  "startLoop s = \<lparr>ls_data = s, ls_error = None, ls_lastTry = [], ls_canceled = False, ls_hooks = []\<rparr>"

text \<open>
  \<open>processRunExecutionData\<close>: \<open>Inl\<close> for an error that is thrown before there is a promise, \<open>None\<close> if
  the iterations are used up. \<open>restart\<close> tells whether the execution is a restarted one, for which
  the first hook is not run; \<open>env\<close> is the environment of the two hooks around the loop.
\<close>

definition processRunExecutionData ::
  "nat \<Rightarrow> issue_finder \<Rightarrow> bool \<Rightarrow> Env \<Rightarrow> (nat \<Rightarrow> Env) \<Rightarrow> Workflow \<Rightarrow> IRunExecutionData \<Rightarrow>
   (IRun res \<times> LoopState) option res" where
  "processRunExecutionData fuel issues restart env envs w s =
     bindR (prepareExecution issues w s) (\<lambda>s.
       let ls = (startLoop s)\<lparr>ls_hooks := (if restart then [] else [WorkflowExecuteBefore])\<rparr> in
       case (if restart then None else env_hook env WorkflowExecuteBefore) of
         Some e \<Rightarrow> Inr (Some (processError env e (with_data ls (beforeFailed e s))))
       | None \<Rightarrow> Inr (map_option (endExecution env) (execLoop fuel envs w ls)))"

section \<open>Entry points\<close>

definition single_item :: "INode \<Rightarrow> IExecuteData" where
  "single_item node = \<lparr>ed_node = node, ed_data = empty_main, ed_source = None\<rparr>"

text \<open>\<open>run\<close>: the first state of a full execution.\<close>

definition runState ::
  "Workflow \<Rightarrow> INode option \<Rightarrow> string option \<Rightarrow> IPinData option \<Rightarrow> IRunExecutionData res" where
  "runState w startNode destinationNode pins =
     bindR (case startNode of Some node \<Rightarrow> Inr (Some node) | None \<Rightarrow> getStartNode w destinationNode) (\<lambda>start.
       case start of
         None \<Rightarrow> Inl (ApplicationError ''No node to start the workflow from could be found'')
       | Some node \<Rightarrow>
           Inr (fresh_run
             \<lparr>sd_destinationNode = destinationNode,
              sd_runNodeFilter = (case nonempty_str destinationNode of None \<Rightarrow> None
                | Some d \<Rightarrow> Some (getParentNodes w d (OneType Main) (-1) @ [d]))\<rparr>
             [] pins [single_item node] [] []))"

text \<open>\<open>runPartialWorkflow\<close>. The name and the source of a start node.\<close>

record StartNodeData =
  sn_name :: string
  sn_sourceData :: "ISourceData option"

definition plain_source :: "string \<Rightarrow> ISourceData" where
  "plain_source name = \<lparr>previousNode = name, previousNodeOutput = None, previousNodeRun = None\<rparr>"

text \<open>\<open>runData[node]?.[0]?.data?.[type]?.[index]\<close>\<close>

definition first_run_data :: "IRunData \<Rightarrow> IConnection \<Rightarrow> INodeExecutionData list slot" where
  "first_run_data rd c =
     (case map_of rd (cnode c) of
        None \<Rightarrow> SUndef
      | Some [] \<Rightarrow> SUndef
      | Some (td # _) \<Rightarrow>
          (case task_data td of
             None \<Rightarrow> SUndef
           | Some d \<Rightarrow> (case map_of d (ctype c) of None \<Rightarrow> SUndef | Some m \<Rightarrow> arr_get m (cindex c))))"

definition incomingOf ::
  "Workflow \<Rightarrow> IRunData \<Rightarrow> IPinData option \<Rightarrow> StartNodeData \<Rightarrow> IConnection \<Rightarrow>
   outputs \<times> ISourceData slot list \<Rightarrow> outputs \<times> ISourceData slot list" where
  "incomingOf w rd pins start c = (\<lambda>(incomingData, sources).
     let source = SVal (case sn_sourceData start of None \<Rightarrow> plain_source (cnode c) | Some s \<Rightarrow> s);
         pinned = (case getNode w (cnode c) of
             None \<Rightarrow> None
           | Some node \<Rightarrow> (case pins of None \<Rightarrow> None | Some pd \<Rightarrow> map_of pd (nodeName node)))
     in if (case getNode w (cnode c) of None \<Rightarrow> False | Some node \<Rightarrow> truthy (disabled node)) then
          (incomingData, sources)
        else case pinned of
          Some items \<Rightarrow> (incomingData @ [SVal items], sources @ [source])
        | None \<Rightarrow>
            if map_of rd (cnode c) = None then (incomingData, sources)
            else
              (incomingData @ (case first_run_data rd c of SVal items \<Rightarrow> [SVal items] | _ \<Rightarrow> []),
               sources @ [source]))"

definition startItem ::
  "Workflow \<Rightarrow> IRunData \<Rightarrow> IPinData option \<Rightarrow> StartNodeData \<Rightarrow> IExecuteData res" where
  "startItem w rd pins start =
     bindR (derefR (getNode w (sn_name start))) (\<lambda>node.
       case map_of (connectionsByDestinationNode w) (sn_name start) of
         None \<Rightarrow> Inr (single_item node)
       | Some byType \<Rightarrow>
           bindR (derefR (map_of byType Main)) (\<lambda>arr.
           bindR (mapR derefR arr) (\<lambda>inputs.
             let (incomingData, sources) = fold (incomingOf w rd pins start) (concat inputs) ([], []) in
             Inr \<lparr>ed_node = node, ed_data = [(Main, incomingData)], ed_source = Some [(Main, sources)]\<rparr>)))"

type_synonym waiting_tables = "IWaitingForExecution \<times> IWaitingForExecutionSource"

text \<open>The tables of waiting data get one more value, for run 0 of the destination.\<close>

definition append_at :: "string \<Rightarrow> string \<Rightarrow> 'v \<Rightarrow> (nat \<times> 'v list jsobj) list jsobj \<Rightarrow> (nat \<times> 'v list jsobj) list jsobj" where
  "append_at name type v table =
     (let runs = (case map_of table name of None \<Rightarrow> [] | Some runs \<Rightarrow> runs);
          byType = (case map_of runs 0 of None \<Rightarrow> [] | Some d \<Rightarrow> d);
          arr = (case map_of byType type of None \<Rightarrow> [] | Some arr \<Rightarrow> arr)
      in obj_put name (num_put 0 (obj_put type (arr @ [v]) byType) runs) table)"

definition runOutput :: "IRunData \<Rightarrow> string \<Rightarrow> NodeConnectionType \<Rightarrow> nat \<Rightarrow> INodeExecutionData list slot res" where
  "runOutput rd name type index =
     bindR (derefR (map_of rd name)) (\<lambda>runs.
       case runs of
         [] \<Rightarrow> Inl TypeError
       | td # _ \<Rightarrow>
           bindR (derefR (task_data td)) (\<lambda>d. bindR (derefR (map_of d type)) (\<lambda>m. Inr (arr_get m index))))"

definition waitForInput ::
  "string \<Rightarrow> IRunData \<Rightarrow> string \<Rightarrow> NodeConnectionType \<Rightarrow> nat \<Rightarrow> waiting_tables \<Rightarrow> waiting_tables res" where
  "waitForInput destination rd from type index = (\<lambda>(waiting, sources).
     if map_of rd from = None then
       Inr (append_at destination type SNull waiting, append_at destination type SNull sources)
     else
       bindR (runOutput rd from type index) (\<lambda>v.
         Inr (append_at destination type v waiting,
              append_at destination type (SVal (source_of from index 0)) sources)))"

definition waitForInputs ::
  "Workflow \<Rightarrow> IRunData \<Rightarrow> string option \<Rightarrow> waiting_tables \<Rightarrow> waiting_tables res" where
  "waitForInputs w rd destinationNode tables =
     (case nonempty_str destinationNode of
        None \<Rightarrow> Inr tables
      | Some d \<Rightarrow>
          (case map_of (connectionsByDestinationNode w) d of
             None \<Rightarrow> Inr tables
           | Some byType \<Rightarrow>
               bindR (derefR (map_of byType Main)) (\<lambda>arr.
               bindR (mapR derefR arr) (\<lambda>inputs.
                 foldR (\<lambda>c. waitForInput d rd (cnode c) (ctype c) (cindex c)) (concat inputs) tables))))"

definition enabledParents :: "Workflow \<Rightarrow> string \<Rightarrow> string list" where
  "enabledParents w d =
     filter (\<lambda>p. case getNode w p of None \<Rightarrow> True | Some node \<Rightarrow> \<not> truthy (disabled node))
       (getParentNodes w d (OneType Main) (-1))"

definition partialState ::
  "Workflow \<Rightarrow> IRunData \<Rightarrow> StartNodeData list \<Rightarrow> string option \<Rightarrow> IPinData option \<Rightarrow> IRunExecutionData res" where
  "partialState w rd startNodes destinationNode pins =
     bindR (foldR (\<lambda>start (stack, tables).
         bindR (startItem w rd pins start) (\<lambda>job.
         bindR (waitForInputs w rd destinationNode tables) (\<lambda>tables. Inr (stack @ [job], tables))))
         startNodes ([], ([], []))) (\<lambda>(stack, (waiting, sources)).
       Inr (fresh_run
         \<lparr>sd_destinationNode = destinationNode,
          sd_runNodeFilter =
            (if startNodes = [] then None
             else map_option (\<lambda>d. enabledParents w d @ [d]) (nonempty_str destinationNode))\<rparr>
         rd pins stack waiting sources))"

section \<open>The end of an execution\<close>

lemma moveNodeMetadata_resultError:
  "moveNodeMetadata (s\<lparr>resultError := x\<rparr>) = map_sum id (\<lambda>t. t\<lparr>resultError := x\<rparr>) (moveNodeMetadata s)"
proof -
  have set1: "setMetadata name e (s\<lparr>resultError := x\<rparr>) = map_sum id (\<lambda>t. t\<lparr>resultError := x\<rparr>) (setMetadata name e s)"
    for name e s
    by (auto simp: setMetadata_def bindR_def case_prod_beta derefR_def split: sum.split option.split)
  have lift: "foldR f es (s\<lparr>resultError := x\<rparr>) = map_sum id (\<lambda>t. t\<lparr>resultError := x\<rparr>) (foldR f es s)"
    if "\<And>e s. f e (s\<lparr>resultError := x\<rparr>) = map_sum id (\<lambda>t. t\<lparr>resultError := x\<rparr>) (f e s)" for f es s
    by (induction es arbitrary: s) (auto simp: bindR_def that split: sum.split)
  show ?thesis
    by (cases "metadata s")
      (auto simp: moveNodeMetadata_def case_prod_beta intro!: lift set1)
qed

text \<open>C5: an execution counts as finished exactly when the loop ended without an error, it was not
  cancelled, no node waits, and the hook of the end does not fail; exactly then its status is
  \<open>success\<close>.\<close>

theorem finished_iff_success:
  assumes "endExecution env (Finished ls) = (Inr run, ls')"
  shows "(run_finished run \<longleftrightarrow> ls_error ls = None \<and> \<not> ls_canceled ls \<and> waitTill (ls_data ls) = None \<and>
      env_hook env WorkflowExecuteAfter = None) \<and>
    (run_finished run \<longleftrightarrow> run_status run = Success)"
  using assms
  by (auto simp: endExecution_def processSuccessExecution_def processError_def endOf_def end_hook_def
      getFullRunData_def statusOf_def Let_def isAbortError_def error_message_def onCancel_def
      moveNodeMetadata_resultError
      split: option.splits sum.splits if_splits prod.splits)

text \<open>Cancelling runs the hook of the end, and the end of the loop runs it again, once more if it
  fails: the hook runs at least twice.\<close>

theorem cancelled_execution_ends_twice:
  assumes "ls_error ls = None" "endExecution env (Finished (onCancel ls)) = (Inr run, ls')"
  shows "ls_hooks ls' = ls_hooks ls @ (if env_hook env WorkflowExecuteAfter = None then
      [WorkflowExecuteAfter, WorkflowExecuteAfter]
    else [WorkflowExecuteAfter, WorkflowExecuteAfter, WorkflowExecuteAfter])"
  using assms
  by (auto simp: endExecution_def processSuccessExecution_def processError_def endOf_def end_hook_def
      getFullRunData_def statusOf_def Let_def isAbortError_def error_message_def onCancel_def
      moveNodeMetadata_resultError
      split: option.splits sum.splits if_splits prod.splits)

theorem finished_iff_success_witness:
  "\<exists>run ls'. endExecution (sample_env passing) (Finished (startLoop sample_state)) = (Inr run, ls') \<and>
     run_finished run \<and> run_status run = Success"
proof -
  obtain run ls' where r: "endExecution (sample_env passing) (Finished (startLoop sample_state)) = (Inr run, ls')"
    by (simp add: endExecution_def processSuccessExecution_def endOf_def end_hook_def startLoop_def
        sample_state_def fresh_run_def moveNodeMetadata_def getFullRunData_def isAbortError_def Let_def)
  then show ?thesis using finished_iff_success [OF r]
    by (auto simp: startLoop_def sample_state_def fresh_run_def)
qed

theorem cancelled_execution_ends_twice_witness:
  "\<exists>run ls'. endExecution (sample_env passing) (Finished (onCancel (startLoop sample_state))) = (Inr run, ls') \<and>
     ls_hooks ls' = [WorkflowExecuteAfter, WorkflowExecuteAfter]"
proof -
  obtain run ls' where r: "endExecution (sample_env passing) (Finished (onCancel (startLoop sample_state))) = (Inr run, ls')"
    by (simp add: endExecution_def processSuccessExecution_def endOf_def end_hook_def startLoop_def onCancel_def
        sample_state_def fresh_run_def moveNodeMetadata_def getFullRunData_def isAbortError_def
        error_message_def Let_def)
  then show ?thesis using cancelled_execution_ends_twice [OF _ r]
    by (auto simp: startLoop_def)
qed

definition continuing_state :: LoopState where
  "continuing_state = startLoop (sample_state\<lparr>nodeExecutionStack :=
     [(diamond_job ''D'' 5)\<lparr>ed_node := (plain_node 5 ''D'' ''set'')\<lparr>continueOnFail := Some True\<rparr>\<rparr>]\<rparr>)"

text \<open>A node that fails but continues on failure does not stop the workflow; but when it is the last
  one to run, its error is still the error of the loop when the stack is empty, so the whole
  execution ends with that error and is not finished.\<close>

theorem last_continuing_node_fails_execution:
  "case execLoop 2 (\<lambda>_. sample_env (failing_times 9)) diamond_v1 continuing_state of
     Some (Finished ls) \<Rightarrow>
       (case fst (endExecution (sample_env (failing_times 9)) (Finished ls)) of
          Inr run \<Rightarrow> \<not> run_finished run \<and> resultError (run_data run) = Some (NodeError ''down'') \<and>
            map (\<lambda>td. task_data td = None) (runs_of (run_data run) ''D'') = [False]
        | Inl _ \<Rightarrow> False)
   | _ \<Rightarrow> False"
  by code_simp

text \<open>C7: waiting and going on: when an execution stopped at a node because it waits, resuming it takes
  back the run that was recorded, ends the waiting, and leaves on top of the stack the same node
  with the same data, disabled, so that it passes its data on.\<close>

theorem resume_after_wait:
  assumes "stopped_at d s ls" "waitTill (ls_data ls) \<noteq> None"
    and "lastNodeExecuted (ls_data ls) = Some (nodeName (ed_node d))"
  shows "\<exists>s'. resumeExecution (ls_data ls) = Inr s' \<and> runs_of s' = runs_of s \<and> waitTill s' = None \<and>
    nodeExecutionStack s' = d\<lparr>ed_node := (ed_node d)\<lparr>disabled := Some True\<rparr>\<rparr> # nodeExecutionStack s"
proof -
  let ?name = "nodeName (ed_node d)"
  from assms(1) obtain td where stack: "nodeExecutionStack (ls_data ls) = d # nodeExecutionStack s"
    and runs: "runs_of (ls_data ls) = (runs_of s)(?name := runs_of s ?name @ [td])"
    by (auto simp: stopped_at_def)
  have "runs_of (ls_data ls) ?name = runs_of s ?name @ [td]" by (simp add: runs)
  then have m: "map_of (runData (ls_data ls)) ?name = Some (runs_of s ?name @ [td])"
    by (simp add: runs_of_def split: option.splits)
  have "runs_of (t\<lparr>waitTill := None, runData := obj_put ?name (runs_of s ?name) (runData (ls_data ls))\<rparr>) = runs_of s" for t
  proof
    fix n
    have "runs_of (ls_data ls) n = ((runs_of s)(?name := runs_of s ?name @ [td])) n" by (simp add: runs)
    then show "runs_of (t\<lparr>waitTill := None, runData := obj_put ?name (runs_of s ?name) (runData (ls_data ls))\<rparr>) n = runs_of s n"
      by (auto simp: runs_of_def split: if_splits)
  qed
  with assms(2,3) stack m show ?thesis by (auto simp: resumeExecution_def Let_def)
qed

definition waiting_env :: Env where
  "waiting_env = (sample_env passing)\<lparr>env_waitTill := (\<lambda>_ _. Some 7)\<rparr>"

theorem resume_after_wait_witness:
  "\<exists>ls s'. step waiting_env diamond_v1 (diamond_state ''D'' 5) = Finished ls \<and>
     resumeExecution (ls_data ls) = Inr s' \<and> runs_of s' = runs_of sample_state"
proof -
  have "case step waiting_env diamond_v1 (diamond_state ''D'' 5) of
      Finished ls \<Rightarrow> \<not> ls_canceled ls \<and> waitTill (ls_data ls) \<noteq> None \<and> lastNodeExecuted (ls_data ls) = Some ''D''
    | _ \<Rightarrow> False"
    by code_simp
  then obtain ls where ls: "step waiting_env diamond_v1 (diamond_state ''D'' 5) = Finished ls" "\<not> ls_canceled ls"
    "waitTill (ls_data ls) \<noteq> None" "lastNodeExecuted (ls_data ls) = Some ''D''"
    by (auto split: StepResult.splits)
  let ?d = "paired (diamond_job ''D'' 5)"
  have st: "stopped_at ?d sample_state ls"
    using ls(1) ls(2) step_stops_resumable [of waiting_env diamond_v1 "diamond_state ''D'' 5" ls "diamond_job ''D'' 5" "[]"]
    by (simp add: diamond_state_def sample_state_def fresh_run_def)
  have "nodeName (ed_node ?d) = ''D''" by (simp add: diamond_job_def plain_node_def)
  with resume_after_wait [OF st ls(3)] ls(1,4) show ?thesis by auto
qed

section \<open>Entry points\<close>

lemma getParentNodes_connected:
  "set (getParentNodes w d (OneType Main) (-1)) =
     {(a, b). b \<in> neighbours (connectionsByDestinationNode w) (OneType Main) a}\<^sup>+ `` {d} - {d}"
  unfolding getParentNodes_def connected.search_unlimited connected.edges_def by simp

text \<open>C6: \<open>run\<close> with a destination: however far the loop gets, only the destination and nodes from which
  main connections lead to it have runs.\<close>

theorem run_stays_above_destination:
  assumes "runState w start (Some d) pins = Inr s" "d \<noteq> []" "(transition w)\<^sup>*\<^sup>* s t" "named (nodes w)"
    and "runs_of t name \<noteq> []"
  shows "name = d \<or> (d, name) \<in> {(a, b). b \<in> neighbours (connectionsByDestinationNode w) (OneType Main) a}\<^sup>+"
proof -
  from assms(1,2) have start: "startData s = Some \<lparr>sd_destinationNode = Some d,
      sd_runNodeFilter = Some (getParentNodes w d (OneType Main) (-1) @ [d])\<rparr>" and "runData s = []"
    by (auto simp: runState_def bindR_Inr_iff fresh_run_def nonempty_str_def split: option.splits)
  then have "runs_of s name = []" by (simp add: runs_of_def)
  with runs_stay [OF assms(3,4), of name] assms(5) have "\<not> filteredOut s name" by auto
  with start getParentNodes_connected [of w d] show ?thesis by (auto simp: filteredOut_def)
qed

theorem run_stays_above_destination_witness:
  "\<exists>s t. runState diamond_v1 (Some (plain_node 1 ''T'' ''trigger'')) (Some ''A'') None = Inr s \<and>
     (transition diamond_v1)\<^sup>*\<^sup>* s t \<and> runs_of t ''T'' \<noteq> [] \<and>
     (''A'', ''T'') \<in> {(a, b). b \<in> neighbours (connectionsByDestinationNode diamond_v1) (OneType Main) a}\<^sup>+"
proof -
  define start where "start = runState diamond_v1 (Some (plain_node 1 ''T'' ''trigger'')) (Some ''A'') None"
  have "case start of Inl _ \<Rightarrow> False | Inr s \<Rightarrow>
      (case step (sample_env passing) diamond_v1 (startLoop s) of
         Again ls \<Rightarrow> runs_of (ls_data ls) ''T'' \<noteq> [] | _ \<Rightarrow> False)"
    unfolding start_def by code_simp
  then obtain s ls where s: "start = Inr s" and
    ls: "step (sample_env passing) diamond_v1 (startLoop s) = Again ls" "runs_of (ls_data ls) ''T'' \<noteq> []"
    by (auto split: sum.splits StepResult.splits)
  have "ls_data (startLoop s) = s" by (simp add: startLoop_def)
  with step_transition [OF ls(1)] have t: "(transition diamond_v1)\<^sup>*\<^sup>* s (ls_data ls)" by auto
  have "named (nodes diamond_v1)"
    by (auto simp: named_def wf_keys_def diamond_v1_def diamond_def plain_node_def)
  with run_stays_above_destination [OF s [unfolded start_def] _ t _ ls(2)] s t ls(2) show ?thesis
    by (auto simp: start_def)
qed

text \<open>An iteration that goes on, whatever its environment.\<close>

definition goes_on :: "Workflow \<Rightarrow> LoopState \<Rightarrow> LoopState \<Rightarrow> bool" where
  "goes_on w ls ls' \<longleftrightarrow> (\<exists>env. step env w ls = Again ls')"

lemma waiting_resumeExecution: "resumeExecution s = Inr s' \<Longrightarrow> waitingExecution s' = waitingExecution s"
  by (auto simp: resumeExecution_def bindR_Inr_iff Let_def split: list.splits option.splits)

lemma waiting_prepareExecution:
  assumes "prepareExecution issues w s = Inr s'"
  shows "waitingExecution s' = waitingExecution s"
proof -
  define s0 where "s0 = (if startData s = None then
      s\<lparr>startData := Some \<lparr>sd_destinationNode = None, sd_runNodeFilter = None\<rparr>\<rparr> else s)"
  from assms have "resumeExecution s0 = Inr s'"
    unfolding prepareExecution_def s0_def [symmetric] by (auto simp: bindR_Inr_iff split: list.splits if_splits)
  from waiting_resumeExecution [OF this] show ?thesis by (simp add: s0_def split: if_splits)
qed

text \<open>Every waiting node has entries, and each of them misses the data of an input.\<close>

definition waiting_incomplete :: "IRunExecutionData \<Rightarrow> bool" where
  "waiting_incomplete s \<longleftrightarrow>
     (\<forall>name runs. map_of (waitingExecution s) name = Some runs \<longrightarrow>
        runs \<noteq> [] \<and> (\<forall>i d. map_of runs i = Some d \<longrightarrow> (\<exists>m. map_of d Main = Some m \<and> SNull \<in> set m)))"

lemma waiting_inv_incomplete: "waiting_inv s \<Longrightarrow> waiting_incomplete s"
  by (auto simp: waiting_inv_def waiting_incomplete_def entry_ok_def)

text \<open>C8: in an execution that \<open>run\<close> starts, no node whose data is complete is left waiting: before every
  iteration, however many there are and whatever the nodes answer, and when the loop ends (unless an error
  leaves it), a node is in the table of waiting nodes only with entries, and every entry still misses the data
  of an input. Partial executions are excluded: they can start with a complete entry.\<close>

theorem waiting_entries_stay_incomplete:
  assumes "runState w startNode destinationNode pins = Inr s" "prepareExecution issues w s = Inr s1"
    and "ls_data ls0 = s1" "(goes_on w)\<^sup>*\<^sup>* ls0 ls"
  shows "waiting_incomplete (ls_data ls) \<and>
    (\<forall>env ls'. step env w ls = Finished ls' \<longrightarrow> waiting_incomplete (ls_data ls'))"
proof -
  from assms(1) have "waitingExecution s = []"
    by (auto simp: runState_def bindR_Inr_iff fresh_run_def split: option.splits)
  then have start: "waiting_inv (ls_data ls0)"
    using waiting_prepareExecution [OF assms(2)] assms(3) by (simp add: waiting_inv_def wf_keys_def)
  from assms(4) have inv: "waiting_inv (ls_data ls)"
  proof (induction rule: rtranclp_induct)
    case base
    show ?case by (rule start)
  next
    case (step u v)
    then obtain env where "ExecutionLoop.step env w u = Again v" by (auto simp: goes_on_def)
    from waiting_inv_transition [OF step_transition [OF this] step.IH] show ?case .
  qed
  have "waiting_inv (ls_data ls')" if "step env w ls = Finished ls'" for env ls'
    using inv same_waiting [OF waiting_step_Finished [OF that]] by blast
  with inv waiting_inv_incomplete show ?thesis by blast
qed

text \<open>A trigger that starts A and B, whose data M joins; when A has run, B is still missing.\<close>

definition joining_connections :: IConnections where
  "joining_connections = (''T'', [(Main, [Some [main_to ''A'', main_to ''B'']])]) # merge_connections [''A'', ''B'']"

definition joining_workflow :: Workflow where
  "joining_workflow = (merge_workflow [''A'', ''B''])
     \<lparr>nodes := nodes (merge_workflow [''A'', ''B'']) @ [(''T'', plain_node 3 ''T'' ''trigger'')],
      connectionsBySourceNode := joining_connections,
      connectionsByDestinationNode := getConnectionsByDestination joining_connections\<rparr>"

theorem waiting_entries_stay_incomplete_witness:
  "\<exists>ls0 ls. (goes_on joining_workflow)\<^sup>*\<^sup>* ls0 ls \<and> map_keys (waitingExecution (ls_data ls)) = [''M''] \<and>
     waiting_incomplete (ls_data ls)"
proof -
  define start where "start = runState joining_workflow (Some (plain_node 3 ''T'' ''trigger'')) None None"
  define prepare where "prepare = prepareExecution (\<lambda>_ _ _. Inr None) joining_workflow"
  define go where "go = step (sample_env passing) joining_workflow"
  have "case start of Inl _ \<Rightarrow> False | Inr s \<Rightarrow> (case prepare s of Inl _ \<Rightarrow> False | Inr s1 \<Rightarrow>
      (case go (startLoop s1) of Again ls1 \<Rightarrow>
         (case go ls1 of Again ls2 \<Rightarrow> map_keys (waitingExecution (ls_data ls2)) = [''M''] | _ \<Rightarrow> False)
       | _ \<Rightarrow> False))"
    unfolding start_def prepare_def go_def by code_simp
  then obtain s s1 ls1 ls2 where s: "start = Inr s" "prepare s = Inr s1" "go (startLoop s1) = Again ls1"
    "go ls1 = Again ls2" "map_keys (waitingExecution (ls_data ls2)) = [''M'']"
    by (auto split: sum.splits StepResult.splits)
  then have "goes_on joining_workflow (startLoop s1) ls1" "goes_on joining_workflow ls1 ls2"
    by (auto simp: go_def goes_on_def)
  then have steps: "(goes_on joining_workflow)\<^sup>*\<^sup>* (startLoop s1) ls2" by (meson rtranclp.simps)
  have "ls_data (startLoop s1) = s1" by (simp add: startLoop_def)
  from waiting_entries_stay_incomplete [OF s(1) [unfolded start_def] s(2) [unfolded prepare_def] this steps] steps s(5)
  show ?thesis by blast
qed

text \<open>A partial execution can start with a complete entry in the table, when all sources have run.\<close>

lemma partial_entry_is_complete:
  "case partialState (merge_workflow [''A'', ''B''])
       [(''A'', [(taskDataOf (diamond_job ''A'' 1) None)\<lparr>task_data := Some [(Main, [SVal [item ''a'']])]\<rparr>]),
        (''B'', [(taskDataOf (diamond_job ''B'' 2) None)\<lparr>task_data := Some [(Main, [SVal [item ''b'']])]\<rparr>])]
       [\<lparr>sn_name = ''B'', sn_sourceData = None\<rparr>] (Some ''M'') None of
     Inr s \<Rightarrow> waitingExecution s = [(''M'', [(0, [(Main, [SVal [item ''a''], SVal [item ''b'']])])])]
   | Inl _ \<Rightarrow> False"
  by code_simp

text \<open>\<open>runPartialWorkflow\<close> records the inputs of the destination as waiting once for each start node,
  and one after the other instead of by input: with two start nodes the waiting entry of a node
  with two inputs has four.\<close>

theorem partial_inputs_are_repeated:
  "case partialState (merge_workflow [''A'', ''B'']) [] [\<lparr>sn_name = ''A'', sn_sourceData = None\<rparr>,
       \<lparr>sn_name = ''B'', sn_sourceData = None\<rparr>] (Some ''M'') None of
     Inr s \<Rightarrow> waitingExecution s = [(''M'', [(0, [(Main, [SNull, SNull, SNull, SNull])])])]
   | Inl _ \<Rightarrow> False"
  by code_simp

end
