(* ===== verification/DirectedGraph.thy ===== *)
theory DirectedGraph
  imports WorkflowConnections GraphReach
begin

text \<open>
  \<open>packages/core/src/PartialExecutionUtils/DirectedGraph.ts\<close>: a graph with two \<open>Map\<close>s, the nodes
  by name and the connections by a key string. Equality of node records is object identity
  (\<open>WorkflowTypes\<close>), so the assertions of \<open>addConnection\<close> compare as the source does.
\<close>

section \<open>The graph\<close>

record GraphConnection =
  gfrom :: INode
  gto :: INode
  gtype :: NodeConnectionType
  outputIndex :: nat
  inputIndex :: nat

record DirectedGraph =
  gnodes :: "(string, INode) jsmap"
  gconns :: "(string, GraphConnection) jsmap"

definition empty_graph :: DirectedGraph where
  "empty_graph = \<lparr>gnodes = [], gconns = []\<rparr>"

definition makeKey :: "GraphConnection \<Rightarrow> string" where
  "makeKey c =
     nodeName (gfrom c) @ ''-'' @ gtype c @ ''-'' @ show_nat (outputIndex c) @ ''-'' @
     show_nat (inputIndex c) @ ''-'' @ nodeName (gto c)"

definition getNodes :: "DirectedGraph \<Rightarrow> (string, INode) jsmap" where
  "getNodes g = gnodes g"

text \<open>\<open>this.nodes.get(node.name) === node\<close>\<close>

definition hasNode :: "DirectedGraph \<Rightarrow> INode \<Rightarrow> bool" where
  "hasNode g n = (map_of (gnodes g) (nodeName n) = Some n)"

definition getConnections :: "DirectedGraph \<Rightarrow> INode option \<Rightarrow> GraphConnection list" where
  "getConnections g to =
     filter (\<lambda>c. case to of None \<Rightarrow> True | Some n \<Rightarrow> gto c = n) (map_values (gconns g))"

definition addNode :: "DirectedGraph \<Rightarrow> INode \<Rightarrow> DirectedGraph" where
  "addNode g n = g\<lparr>gnodes := AList.update (nodeName n) n (gnodes g)\<rparr>"

definition addNodes :: "DirectedGraph \<Rightarrow> INode list \<Rightarrow> DirectedGraph" where
  "addNodes g ns = fold (\<lambda>n g. addNode g n) ns g"

text \<open>The argument of \<open>addConnection\<close>: type and indices are optional and have defaults.\<close>

record ConnectionInput =
  in_from :: INode
  in_to :: INode
  in_type :: "NodeConnectionType option"
  in_outputIndex :: "nat option"
  in_inputIndex :: "nat option"

definition of_input :: "ConnectionInput \<Rightarrow> GraphConnection" where
  "of_input ci =
     \<lparr>gfrom = in_from ci, gto = in_to ci,
      gtype = (case in_type ci of None \<Rightarrow> Main | Some t \<Rightarrow> t),
      outputIndex = (case in_outputIndex ci of None \<Rightarrow> 0 | Some i \<Rightarrow> i),
      inputIndex = (case in_inputIndex ci of None \<Rightarrow> 0 | Some i \<Rightarrow> i)\<rparr>"

definition to_input :: "GraphConnection \<Rightarrow> ConnectionInput" where
  "to_input c = \<lparr>in_from = gfrom c, in_to = gto c, in_type = Some (gtype c),
     in_outputIndex = Some (outputIndex c), in_inputIndex = Some (inputIndex c)\<rparr>"

definition addConnection :: "DirectedGraph \<Rightarrow> ConnectionInput \<Rightarrow> DirectedGraph res" where
  "addConnection g ci =
     bindR (assertR (hasNode g (in_from ci))) (\<lambda>_.
     bindR (assertR (hasNode g (in_to ci))) (\<lambda>_.
       let connection = of_input ci
       in Inr (g\<lparr>gconns := AList.update (makeKey connection) connection (gconns g)\<rparr>)))"

definition addConnections :: "DirectedGraph \<Rightarrow> ConnectionInput list \<Rightarrow> DirectedGraph res" where
  "addConnections g cis = foldR (\<lambda>ci g. addConnection g ci) cis g"

definition getDirectChildren :: "DirectedGraph \<Rightarrow> INode \<Rightarrow> GraphConnection list res" where
  "getDirectChildren g n =
     bindR (assertR (hasNode g n)) (\<lambda>_. Inr (filter (\<lambda>c. gfrom c = n) (map_values (gconns g))))"

definition getDirectParents :: "DirectedGraph \<Rightarrow> INode \<Rightarrow> GraphConnection list res" where
  "getDirectParents g n =
     bindR (assertR (hasNode g n)) (\<lambda>_. Inr (filter (\<lambda>c. gto c = n) (map_values (gconns g))))"

definition getConnection ::
  "DirectedGraph \<Rightarrow> INode \<Rightarrow> nat \<Rightarrow> NodeConnectionType \<Rightarrow> nat \<Rightarrow> INode \<Rightarrow> GraphConnection option" where
  "getConnection g from out ty inp to =
     map_of (gconns g)
       (makeKey \<lparr>gfrom = from, gto = to, gtype = ty, outputIndex = out, inputIndex = inp\<rparr>)"

section \<open>The key of a connection\<close>

text \<open>
  Splitting a key at its dashes. The first four parts must not contain one; the name of the
  target may.
\<close>

lemma split_at_dash:
  "CHR ''-'' \<notin> set xs \<Longrightarrow> CHR ''-'' \<notin> set ys \<Longrightarrow>
     xs @ CHR ''-'' # us = ys @ CHR ''-'' # vs \<longleftrightarrow> xs = ys \<and> us = vs"
proof (induction xs arbitrary: ys)
  case Nil
  then show ?case by (cases ys) auto
next
  case (Cons x xs)
  then show ?case by (cases ys) auto
qed

definition no_dash :: "GraphConnection \<Rightarrow> bool" where
  "no_dash c = (CHR ''-'' \<notin> set (nodeName (gfrom c)) \<and> CHR ''-'' \<notin> set (gtype c))"

lemma makeKey_parts:
  assumes "no_dash c" "no_dash d"
  shows "makeKey c = makeKey d \<longleftrightarrow>
    nodeName (gfrom c) = nodeName (gfrom d) \<and> gtype c = gtype d \<and>
    outputIndex c = outputIndex d \<and> inputIndex c = inputIndex d \<and>
    nodeName (gto c) = nodeName (gto d)"
  using assms by (simp add: makeKey_def no_dash_def split_at_dash)

section \<open>The invariant of the graph\<close>

text \<open>
  Nodes and connections are stored under their own names and keys, and both ends of every
  connection are nodes of the graph.
\<close>

definition wf_graph :: "DirectedGraph \<Rightarrow> bool" where
  "wf_graph g \<longleftrightarrow>
     wf_keys (gnodes g) \<and> wf_keys (gconns g) \<and>
     (\<forall>(k, n) \<in> set (gnodes g). k = nodeName n) \<and>
     (\<forall>(k, c) \<in> set (gconns g). k = makeKey c \<and> hasNode g (gfrom c) \<and> hasNode g (gto c))"

definition connections :: "DirectedGraph \<Rightarrow> GraphConnection set" where
  "connections g = set (map_values (gconns g))"

definition graph_edges :: "DirectedGraph \<Rightarrow> (INode \<times> INode) set" where
  "graph_edges g = (\<lambda>c. (gfrom c, gto c)) ` connections g"

lemma wf_graph_empty [simp]: "wf_graph empty_graph"
  by (simp add: wf_graph_def empty_graph_def wf_keys_def)

lemma wf_graph_conn:
  assumes "wf_graph g" "c \<in> connections g"
  shows "hasNode g (gfrom c)" "hasNode g (gto c)" "map_of (gconns g) (makeKey c) = Some c"
proof -
  from assms(2) obtain k where k: "(k, c) \<in> set (gconns g)"
    by (auto simp: connections_def map_values_def)
  with assms(1) show "hasNode g (gfrom c)" "hasNode g (gto c)" by (auto simp: wf_graph_def)
  from k assms(1) have "k = makeKey c" by (auto simp: wf_graph_def)
  with k assms(1) show "map_of (gconns g) (makeKey c) = Some c"
    by (simp add: wf_graph_def wf_keys_def)
qed

lemma connections_iff: "wf_graph g \<Longrightarrow> c \<in> connections g \<longleftrightarrow> map_of (gconns g) (makeKey c) = Some c"
  by (force simp: connections_def map_values_def dest: map_of_SomeD intro: wf_graph_conn(3))

lemma hasNode_inj: "hasNode g n \<Longrightarrow> hasNode g m \<Longrightarrow> nodeName n = nodeName m \<longleftrightarrow> n = m"
  unfolding hasNode_def by (metis option.inject)

lemma set_gnodes: "wf_graph g \<Longrightarrow> set (map_values (gnodes g)) = {n. hasNode g n}"
  by (force simp: wf_graph_def hasNode_def map_values_def wf_keys_def dest: map_of_SomeD)

lemma finite_nodes: "wf_graph g \<Longrightarrow> finite {n. hasNode g n}"
  by (metis List.finite_set set_gnodes)

lemma finite_hasNode: "finite {n. hasNode g n}"
proof (rule finite_subset)
  show "{n. hasNode g n} \<subseteq> snd ` set (gnodes g)"
    by (force simp: hasNode_def dest: map_of_SomeD)
qed simp

lemma hasNode_addNode:
  "hasNode (addNode g n) m \<longleftrightarrow> (if nodeName m = nodeName n then m = n else hasNode g m)"
  by (auto simp: hasNode_def addNode_def update_conv')

text \<open>A node may be added when it does not replace another object of the same name.\<close>

definition addable :: "DirectedGraph \<Rightarrow> INode \<Rightarrow> bool" where
  "addable g n = (map_of (gnodes g) (nodeName n) \<in> {None, Some n})"

lemma hasNode_addable: "hasNode g n \<Longrightarrow> addable g n"
  by (simp add: hasNode_def addable_def)

lemma hasNode_mono: "addable g n \<Longrightarrow> hasNode g m \<Longrightarrow> hasNode (addNode g n) m"
  by (auto simp: hasNode_addNode addable_def) (auto simp: hasNode_def)

lemma set_update_wf: "wf_keys m \<Longrightarrow> (j, w) \<in> set (AList.update k v m) \<longleftrightarrow>
    (if j = k then w = v else (j, w) \<in> set m)"
proof -
  assume wf: "wf_keys m"
  then have "wf_keys (AList.update k v m)" by (rule jmap.wf_put)
  then have "(j, w) \<in> set (AList.update k v m) \<longleftrightarrow> map_of (AList.update k v m) j = Some w"
    by (simp add: wf_keys_def)
  then show ?thesis using wf by (auto simp: update_conv' wf_keys_def)
qed

lemma connections_addNode [simp]: "connections (addNode g n) = connections g"
  by (simp add: connections_def addNode_def)

lemma wf_graph_addNode:
  assumes "wf_graph g" "addable g n"
  shows "wf_graph (addNode g n)"
proof -
  have "(k, m) \<in> set (gnodes (addNode g n)) \<Longrightarrow> k = nodeName m" for k m
    using assms by (auto simp: addNode_def wf_graph_def set_update_wf split: if_splits)
  moreover have "k = makeKey c \<and> hasNode (addNode g n) (gfrom c) \<and> hasNode (addNode g n) (gto c)"
    if "(k, c) \<in> set (gconns g)" for k c
    using that assms hasNode_mono by (fastforce simp: wf_graph_def)
  ultimately show ?thesis
    using assms by (auto simp: wf_graph_def addNode_def jmap.wf_put)
qed

lemma addConnection_ok:
  "hasNode g (in_from ci) \<Longrightarrow> hasNode g (in_to ci) \<Longrightarrow>
     addConnection g ci =
       Inr (g\<lparr>gconns := AList.update (makeKey (of_input ci)) (of_input ci) (gconns g)\<rparr>)"
  by (simp add: addConnection_def Let_def)

lemma addConnection_error:
  "\<not> (hasNode g (in_from ci) \<and> hasNode g (in_to ci)) \<Longrightarrow> addConnection g ci = Inl AssertionError"
  by (auto simp: addConnection_def assertR_def)

lemma addConnection_Inr:
  "addConnection g ci = Inr g' \<longleftrightarrow> hasNode g (in_from ci) \<and> hasNode g (in_to ci) \<and>
     g' = g\<lparr>gconns := AList.update (makeKey (of_input ci)) (of_input ci) (gconns g)\<rparr>"
  by (auto simp: addConnection_def Let_def bindR_Inr_iff)

lemma hasNode_gconns [simp]: "hasNode (g\<lparr>gconns := cs\<rparr>) n = hasNode g n"
  by (simp add: hasNode_def)

lemma of_input_sel [simp]: "gfrom (of_input ci) = in_from ci" "gto (of_input ci) = in_to ci"
  by (simp_all add: of_input_def)

lemma of_to_input [simp]: "of_input (to_input c) = c"
  by (simp add: of_input_def to_input_def)

lemma to_input_sel [simp]: "in_from (to_input c) = gfrom c" "in_to (to_input c) = gto c"
  by (simp_all add: to_input_def)

lemma wf_graph_addConnection:
  assumes "wf_graph g" "addConnection g ci = Inr g'"
  shows "wf_graph g'"
  using assms
  by (auto simp: addConnection_Inr wf_graph_def jmap.wf_put set_update_wf split: if_splits)

text \<open>Adding a connection replaces the one stored under the same key, if there is one.\<close>

lemma connections_addConnection:
  assumes "wf_graph g" "addConnection g ci = Inr g'"
  shows "connections g' =
    insert (of_input ci) {c \<in> connections g. makeKey c \<noteq> makeKey (of_input ci)}"
proof -
  have wf: "wf_graph g'" using assms by (rule wf_graph_addConnection)
  have "c \<in> connections g' \<longleftrightarrow>
      c \<in> insert (of_input ci) {c \<in> connections g. makeKey c \<noteq> makeKey (of_input ci)}" for c
    using assms wf
    by (auto simp: connections_iff addConnection_Inr update_conv')
  then show ?thesis by blast
qed

lemma getDirectChildren_ok:
  "hasNode g n \<Longrightarrow> getDirectChildren g n = Inr (filter (\<lambda>c. gfrom c = n) (map_values (gconns g)))"
  by (simp add: getDirectChildren_def)

lemma getDirectChildren_Inr:
  "getDirectChildren g n = Inr ds \<longleftrightarrow>
     hasNode g n \<and> ds = filter (\<lambda>c. gfrom c = n) (map_values (gconns g))"
  by (auto simp: getDirectChildren_def bindR_Inr_iff)

lemma set_getDirectChildren:
  "getDirectChildren g n = Inr ds \<Longrightarrow> set ds = {c \<in> connections g. gfrom c = n}"
  by (auto simp: getDirectChildren_Inr connections_def)

lemma getDirectParents_Inr:
  "getDirectParents g n = Inr ps \<longleftrightarrow>
     hasNode g n \<and> ps = filter (\<lambda>c. gto c = n) (map_values (gconns g))"
  by (auto simp: getDirectParents_def bindR_Inr_iff)

lemma set_getDirectParents:
  "getDirectParents g n = Inr ps \<Longrightarrow> set ps = {c \<in> connections g. gto c = n}"
  by (auto simp: getDirectParents_Inr connections_def)

end
