(* ===== verification/GraphChildren.thy ===== *)
theory GraphChildren
  imports DirectedGraph
begin

text \<open>
  \<open>DirectedGraph.getChildren\<close>: a depth-first search that shares one \<open>Set\<close> of children between
  all recursive calls. The set is a list in insertion order that is threaded through the calls.
  The search terminates although the graph may have cycles, and returns the nodes that can be
  reached by at least one connection.
\<close>

section \<open>The search\<close>

text \<open>
  \<open>childrenLoop g ds children\<close> is the \<open>for\<close> loop over the direct children \<open>ds\<close>, with the
  recursive call \<open>getChildrenRecursive (gto d) children\<close> written out in its body.
\<close>

function childrenLoop :: "DirectedGraph \<Rightarrow> GraphConnection list \<Rightarrow> INode list \<Rightarrow> INode list res" where
  "childrenLoop g [] children = Inr children"
| "childrenLoop g (d # ds) children =
     (if gto d \<in> set children then childrenLoop g ds children
      else bindR (getDirectChildren g (gto d)) (\<lambda>ds'.
        bindR (childrenLoop g ds' (children @ [gto d])) (\<lambda>children'.
          childrenLoop g ds children')))"
  by pat_completeness auto

lemma childrenLoop_grows_dom:
  "childrenLoop_dom (g, ds, children) \<Longrightarrow> childrenLoop g ds children = Inr children' \<Longrightarrow>
     set children \<subseteq> set children'"
proof (induction g ds children arbitrary: children' rule: childrenLoop.pinduct)
  case (1 g children)
  then show ?case by (simp add: childrenLoop.psimps)
next
  case (2 g d ds children)
  show ?case
  proof (cases "gto d \<in> set children")
    case True
    with 2 show ?thesis by (simp add: childrenLoop.psimps)
  next
    case False
    with "2.prems" "2.hyps" obtain ds' c where
      "getDirectChildren g (gto d) = Inr ds'"
      "childrenLoop g ds' (children @ [gto d]) = Inr c" "childrenLoop g ds c = Inr children'"
      by (auto simp: childrenLoop.psimps bindR_Inr_iff)
    with "2.IH"(2,3) [OF False] have "set (children @ [gto d]) \<subseteq> set c" "set c \<subseteq> set children'"
      by blast+
    then show ?thesis by auto
  qed
qed

definition unreached :: "DirectedGraph \<Rightarrow> INode list \<Rightarrow> INode set" where
  "unreached g children = {n. hasNode g n} - set children"

lemma unreached_finite [simp]: "finite (unreached g children)"
  by (simp add: unreached_def finite_hasNode)

lemma unreached_mono: "set cs \<subseteq> set cs' \<Longrightarrow> unreached g cs' \<subseteq> unreached g cs"
  by (auto simp: unreached_def)

lemma unreached_less:
  "getDirectChildren g n = Inr ds \<Longrightarrow> n \<notin> set cs \<Longrightarrow> set (cs @ [n]) \<subseteq> set cs' \<Longrightarrow>
     card (unreached g cs') < card (unreached g cs)"
  by (rule psubset_card_mono [OF unreached_finite]) (auto simp: unreached_def getDirectChildren_Inr)

termination childrenLoop
proof (relation "measures [\<lambda>(g, ds, cs). card (unreached g cs), \<lambda>(g, ds, cs). length ds]", goal_cases)
  case 1
  then show ?case by simp
next
  case (2 g d ds children)
  then show ?case by simp
next
  case (3 g d ds children ds')
  then show ?case by (simp add: unreached_less)
next
  case (4 g d ds children ds' children')
  then have "set (children @ [gto d]) \<subseteq> set children'"
    using childrenLoop_grows_dom by blast
  with 4 show ?case by (simp add: unreached_less)
qed

definition getChildrenRecursive :: "DirectedGraph \<Rightarrow> INode \<Rightarrow> INode list \<Rightarrow> INode list res" where
  "getChildrenRecursive g n children =
     bindR (getDirectChildren g n) (\<lambda>ds. childrenLoop g ds children)"

definition getChildren :: "DirectedGraph \<Rightarrow> INode \<Rightarrow> INode list res" where
  "getChildren g n = getChildrenRecursive g n []"

section \<open>Correctness\<close>

lemma childrenLoop_grows:
  "childrenLoop g ds children = Inr children' \<Longrightarrow> set children \<subseteq> set children'"
proof (induction g ds children arbitrary: children' rule: childrenLoop.induct)
  case (1 g children)
  then show ?case by simp
next
  case (2 g d ds children)
  then show ?case by (cases "gto d \<in> set children") (fastforce simp: bindR_Inr_iff)+
qed

lemma childrenLoop_distinct:
  "childrenLoop g ds children = Inr children' \<Longrightarrow> distinct children \<Longrightarrow> distinct children'"
proof (induction g ds children arbitrary: children' rule: childrenLoop.induct)
  case (1 g children)
  then show ?case by simp
next
  case (2 g d ds children)
  then show ?case by (cases "gto d \<in> set children") (auto simp: bindR_Inr_iff)
qed

text \<open>
  The loop adds every target of its list, everything it adds is reachable from a target, and
  the successors of every node it adds are in the result.
\<close>

lemma childrenLoop_spec:
  assumes "childrenLoop g ds children = Inr children'"
  shows "gto ` set ds \<subseteq> set children' \<and>
    set children' \<subseteq> set children \<union> (graph_edges g)\<^sup>* `` (gto ` set ds) \<and>
    (\<forall>x \<in> set children' - set children. graph_edges g `` {x} \<subseteq> set children')"
  using assms
proof (induction g ds children arbitrary: children' rule: childrenLoop.induct)
  case (1 g children)
  then show ?case by simp
next
  case (2 g d ds children)
  show ?case
  proof (cases "gto d \<in> set children")
    case True
    with "2.prems" have "childrenLoop g ds children = Inr children'" by simp
    note IH = "2.IH"(1) [OF True this] and grow = childrenLoop_grows [OF this]
    have "(graph_edges g)\<^sup>* `` (gto ` set ds) \<subseteq> (graph_edges g)\<^sup>* `` (gto ` set (d # ds))"
      by (rule Image_mono) auto
    then show ?thesis using IH grow True by (simp only: list.set image_insert) blast
  next
    case False
    with "2.prems" obtain ds' c where
      ds': "getDirectChildren g (gto d) = Inr ds'" and
      inner: "childrenLoop g ds' (children @ [gto d]) = Inr c" and
      rest: "childrenLoop g ds c = Inr children'"
      by (auto simp: bindR_Inr_iff)
    note IH1 = "2.IH"(2) [OF False ds' inner] and IH2 = "2.IH"(3) [OF False ds' inner rest]
    have grow: "set children \<subseteq> set c" "gto d \<in> set c" "set c \<subseteq> set children'"
      using childrenLoop_grows [OF inner] childrenLoop_grows [OF rest] by auto
    have succ: "gto ` set ds' = graph_edges g `` {gto d}"
      using set_getDirectChildren [OF ds'] by (force simp: graph_edges_def)
    have c: "set c \<subseteq> set children \<union> (graph_edges g)\<^sup>* `` {gto d}"
      using IH1 unfolding succ by (auto intro: converse_rtrancl_into_rtrancl)
    have closed: "graph_edges g `` {x} \<subseteq> set children'" if "x \<in> set children' - set children" for x
    proof (cases "x \<in> set c")
      case True
      then have "graph_edges g `` {x} \<subseteq> set c"
        using IH1 that succ by (cases "x = gto d") simp_all
      then show ?thesis using grow by blast
    next
      case False
      with IH2 that show ?thesis by blast
    qed
    have split: "(graph_edges g)\<^sup>* `` (gto ` set (d # ds)) =
        (graph_edges g)\<^sup>* `` {gto d} \<union> (graph_edges g)\<^sup>* `` (gto ` set ds)" by auto
    have "set children' \<subseteq> set c \<union> (graph_edges g)\<^sup>* `` (gto ` set ds)" using IH2 by blast
    then have "set children' \<subseteq> set children \<union> (graph_edges g)\<^sup>* `` (gto ` set (d # ds))"
      unfolding split using c by blast
    moreover have "gto ` set (d # ds) \<subseteq> set children'" using IH2 grow by auto
    ultimately show ?thesis using closed by (intro conjI ballI)
  qed
qed

lemma childrenLoop_total:
  assumes "wf_graph g" "gto ` set ds \<subseteq> {n. hasNode g n}"
  shows "\<exists>children'. childrenLoop g ds children = Inr children'"
  using assms
proof (induction g ds children rule: childrenLoop.induct)
  case (1 g children)
  then show ?case by simp
next
  case (2 g d ds children)
  show ?case
  proof (cases "gto d \<in> set children")
    case True
    with 2 show ?thesis by simp
  next
    case False
    with "2.prems" obtain ds' where ds': "getDirectChildren g (gto d) = Inr ds'"
      by (auto simp: getDirectChildren_Inr)
    have "gto ` set ds' \<subseteq> {n. hasNode g n}"
      using set_getDirectChildren [OF ds'] "2.prems"(1) by (auto simp: wf_graph_conn)
    with "2.IH"(2) [OF False ds'] "2.prems" obtain c where
      "childrenLoop g ds' (children @ [gto d]) = Inr c" by blast
    with "2.IH"(3) [OF False ds' this] False ds' "2.prems" show ?thesis by simp
  qed
qed

lemma closed_trancl:
  assumes "E `` {n} \<subseteq> S" "\<forall>x \<in> S. E `` {x} \<subseteq> S"
  shows "E\<^sup>+ `` {n} \<subseteq> S"
proof
  fix m
  assume "m \<in> E\<^sup>+ `` {n}"
  then have "(n, m) \<in> E\<^sup>+" by simp
  then show "m \<in> S" by (induction rule: trancl_induct) (use assms in blast)+
qed

lemma getChildren_spec:
  assumes "wf_graph g" "hasNode g n"
  obtains children where "getChildren g n = Inr children"
    "set children = (graph_edges g)\<^sup>+ `` {n}" "distinct children"
proof -
  obtain ds where ds: "getDirectChildren g n = Inr ds"
    using assms by (simp add: getDirectChildren_ok)
  have set_ds: "set ds = {c \<in> connections g. gfrom c = n}" by (rule set_getDirectChildren [OF ds])
  then have "gto ` set ds \<subseteq> {n. hasNode g n}" using assms by (auto simp: wf_graph_conn)
  then obtain children where loop: "childrenLoop g ds [] = Inr children"
    using childrenLoop_total assms(1) by blast
  note spec = childrenLoop_spec [OF loop]
  have succ: "gto ` set ds = graph_edges g `` {n}" unfolding set_ds by (force simp: graph_edges_def)
  have "(graph_edges g)\<^sup>+ `` {n} \<subseteq> set children"
    using spec unfolding succ by (intro closed_trancl) auto
  moreover have "set children \<subseteq> (graph_edges g)\<^sup>+ `` {n}"
    using spec unfolding succ by (auto intro: rtrancl_into_trancl2)
  ultimately show thesis
    using that loop ds childrenLoop_distinct [OF loop]
    by (simp add: getChildren_def getChildrenRecursive_def)
qed

section \<open>Properties\<close>

text \<open>\<open>getChildren\<close> terminates on every graph, also a cyclic one, and returns exactly the nodes
  that can be reached over at least one connection; the start node is among them if and only if
  it lies on a cycle, as the comment of the source promises.\<close>

theorem getChildren_reachable:
  assumes "wf_graph g" "hasNode g n"
  shows "\<exists>children. getChildren g n = Inr children \<and> distinct children \<and>
    set children = (graph_edges g)\<^sup>+ `` {n} \<and> (n \<in> set children \<longleftrightarrow> (n, n) \<in> (graph_edges g)\<^sup>+)"
  using getChildren_spec [OF assms] by (metis Image_singleton_iff)

definition sample_a :: INode where "sample_a = plain_node 1 ''a'' ''set''"
definition sample_b :: INode where "sample_b = plain_node 2 ''b'' ''set''"

definition sample_edge :: "INode \<Rightarrow> INode \<Rightarrow> GraphConnection" where
  "sample_edge n m = \<lparr>gfrom = n, gto = m, gtype = Main, outputIndex = 0, inputIndex = 0\<rparr>"

definition sample_cycle :: DirectedGraph where
  "sample_cycle =
     \<lparr>gnodes = [(''a'', sample_a), (''b'', sample_b)],
      gconns = [(''a-main-0-0-b'', sample_edge sample_a sample_b),
                (''b-main-0-0-a'', sample_edge sample_b sample_a)]\<rparr>"

lemma wf_sample_cycle: "wf_graph sample_cycle"
  by (simp add: wf_graph_def sample_cycle_def wf_keys_def hasNode_def sample_edge_def makeKey_def
      sample_a_def sample_b_def plain_node_def show_nat.simps digit_def digits_def)

theorem getChildren_reachable_witness:
  "\<exists>children. getChildren sample_cycle sample_a = Inr children \<and>
     (sample_a \<in> set children \<longleftrightarrow> (sample_a, sample_a) \<in> (graph_edges sample_cycle)\<^sup>+)"
proof -
  have "hasNode sample_cycle sample_a"
    by (simp add: hasNode_def sample_cycle_def sample_a_def plain_node_def)
  with getChildren_reachable [OF wf_sample_cycle this] show ?thesis by blast
qed

end
