(* ===== verification/PartialStart.thy ===== *)
theory PartialStart
  imports GraphChildren
begin

text \<open>
  Partial executions, first half: \<open>getIncomingData.ts\<close>, \<open>cleanRunData.ts\<close> and
  \<open>findStartNodes.ts\<close> of \<open>packages/core/src/PartialExecutionUtils\<close>. The search for start nodes
  is specified by the relation \<open>live\<close>: the connections that carry run data out of a node at which
  the search does not stop.
\<close>

section \<open>getIncomingData\<close>

definition getIncomingData ::
  "IRunData \<Rightarrow> string \<Rightarrow> nat \<Rightarrow> NodeConnectionType \<Rightarrow> nat \<Rightarrow> INodeExecutionData list slot res" where
  "getIncomingData runData name runIndex connectionType outIndex =
     (case map_of runData name of
        None \<Rightarrow> Inl AssertionError
      | Some runs \<Rightarrow>
          if length runs \<le> runIndex then Inl AssertionError
          else case task_data (runs ! runIndex) of
            None \<Rightarrow> Inl AssertionError
          | Some d \<Rightarrow>
              bindR (derefR (map_of d connectionType)) (\<lambda>outputs. Inr (arr_get outputs outIndex)))"

section \<open>cleanRunData\<close>

definition cleanRunData :: "IRunData \<Rightarrow> DirectedGraph \<Rightarrow> INode list \<Rightarrow> IRunData res" where
  "cleanRunData runData g startNodes =
     foldR (\<lambda>startNode newRunData.
       let newRunData = AList.delete (nodeName startNode) newRunData in
       bindR (getChildren g startNode) (\<lambda>children.
         Inr (fold (\<lambda>child rd. AList.delete (nodeName child) rd) children newRunData)))
       startNodes runData"

text \<open>The names whose run data goes: the start nodes and everything behind them.\<close>

definition outdated :: "DirectedGraph \<Rightarrow> INode list \<Rightarrow> string set" where
  "outdated g startNodes = nodeName ` ((graph_edges g)\<^sup>* `` set startNodes)"

lemma look_delete_names:
  "map_of (fold (\<lambda>c. AList.delete (nodeName c)) cs m) k =
     (if k \<in> nodeName ` set cs then None else map_of m k)"
  by (induction cs arbitrary: m) (auto simp: delete_conv')

lemma cleanRunData_spec:
  assumes "wf_graph g" "\<forall>n \<in> set startNodes. hasNode g n"
  shows "\<exists>runData'. cleanRunData runData g startNodes = Inr runData' \<and>
    (\<forall>k. map_of runData' k = (if k \<in> outdated g startNodes then None else map_of runData k))"
  using assms(2)
proof (induction startNodes arbitrary: runData)
  case Nil
  then show ?case by (simp add: cleanRunData_def outdated_def)
next
  case (Cons n ns)
  obtain children where ch: "getChildren g n = Inr children"
    "set children = (graph_edges g)\<^sup>+ `` {n}"
    using getChildren_spec [OF assms(1)] Cons.prems by (metis list.set_intros(1))
  define rd where
    "rd = fold (\<lambda>c. AList.delete (nodeName c)) children (AList.delete (nodeName n) runData)"
  have rd: "map_of rd k = (if k \<in> nodeName ` insert n (set children) then None else map_of runData k)" for k
    by (auto simp: rd_def look_delete_names delete_conv')
  have "insert n (set children) = (graph_edges g)\<^sup>* `` {n}"
    by (auto simp: ch(2) rtrancl_eq_or_trancl)
  then have out: "outdated g (n # ns) = nodeName ` insert n (set children) \<union> outdated g ns"
    by (auto simp: outdated_def image_Un)
  have step: "cleanRunData runData g (n # ns) = cleanRunData rd g ns"
    by (simp add: cleanRunData_def ch(1) rd_def Let_def)
  have "\<forall>n \<in> set ns. hasNode g n" using Cons.prems by simp
  from Cons.IH [OF this, of rd] obtain rd' where "cleanRunData rd g ns = Inr rd'"
    "\<forall>k. map_of rd' k = (if k \<in> outdated g ns then None else map_of rd k)"
    by blast
  then show ?case by (auto simp: step rd out)
qed

section \<open>findStartNodes\<close>

definition isDirty :: "INode \<Rightarrow> IRunData \<Rightarrow> IPinData \<Rightarrow> bool" where
  "isDirty node runData pinData =
     (let propertiesOrOptionsChanged = False;
          parentNodeGotDisabled = False;
          hasAnError = False
      in if propertiesOrOptionsChanged then True
         else if parentNodeGotDisabled then True
         else if hasAnError then True
         else if map_of pinData (nodeName node) \<noteq> None then False
         else if map_of runData (nodeName node) \<noteq> None then False
         else True)"

lemma isDirty_iff:
  "isDirty node runData pinData \<longleftrightarrow>
     map_of pinData (nodeName node) = None \<and> map_of runData (nodeName node) = None"
  by (simp add: isDirty_def)

definition hasNoRunData :: "INodeExecutionData list slot \<Rightarrow> bool" where
  "hasNoRunData d = (case d of SVal items \<Rightarrow> items = [] | _ \<Rightarrow> True)"

function findStartNodesRecursive ::
  "DirectedGraph \<Rightarrow> INode \<Rightarrow> INode \<Rightarrow> IRunData \<Rightarrow> IPinData \<Rightarrow> INode list \<Rightarrow> INode list \<Rightarrow> INode list res"
where
  "findStartNodesRecursive g current destination runData pinData startNodes seen =
     (if isDirty current runData pinData then Inr (set_add current startNodes)
      else if current = destination then Inr (set_add current startNodes)
      else if current \<in> set seen then Inr startNodes
      else bindR (getDirectChildren g current) (\<lambda>outGoingConnections.
        foldR (\<lambda>oc startNodes.
          bindR (getIncomingData runData (nodeName (gfrom oc)) 0 (gtype oc) (outputIndex oc))
            (\<lambda>nodeRunData.
              if hasNoRunData nodeRunData then Inr startNodes
              else findStartNodesRecursive g (gto oc) destination runData pinData startNodes
                (set_add current seen)))
          outGoingConnections startNodes))"
  by pat_completeness auto
termination
proof (relation "measure (\<lambda>(g, current, dest, rd, pd, starts, seen). card (unreached g seen))", goal_cases)
  case 1
  then show ?case by simp
next
  case (2 g current dest rd pd starts seen ocs oc starts' d)
  then have "set_add current seen = seen @ [current]" by (simp add: set_add_def)
  with 2 show ?case by (simp add: unreached_less)
qed

declare findStartNodesRecursive.simps [simp del]

definition findStartNodes ::
  "DirectedGraph \<Rightarrow> INode \<Rightarrow> INode \<Rightarrow> IRunData \<Rightarrow> IPinData \<Rightarrow> INode list res" where
  "findStartNodes g trigger destination runData pinData =
     findStartNodesRecursive g trigger destination runData pinData [] []"

subsection \<open>What the search computes\<close>

text \<open>The nodes at which a branch ends with a start node.\<close>

definition stops :: "INode \<Rightarrow> IRunData \<Rightarrow> IPinData \<Rightarrow> INode \<Rightarrow> bool" where
  "stops destination runData pinData n \<longleftrightarrow> isDirty n runData pinData \<or> n = destination"

definition carries_data :: "IRunData \<Rightarrow> GraphConnection \<Rightarrow> bool" where
  "carries_data runData c =
     (case getIncomingData runData (nodeName (gfrom c)) 0 (gtype c) (outputIndex c) of
        Inl _ \<Rightarrow> False
      | Inr d \<Rightarrow> \<not> hasNoRunData d)"

definition live :: "DirectedGraph \<Rightarrow> INode \<Rightarrow> IRunData \<Rightarrow> IPinData \<Rightarrow> (INode \<times> INode) set" where
  "live g destination runData pinData =
     {(gfrom c, gto c) | c. c \<in> connections g \<and> carries_data runData c \<and>
        \<not> stops destination runData pinData (gfrom c)}"

text \<open>Everything a call visits, when the nodes of \<open>S\<close> are on the path.\<close>

definition visits :: "('n \<times> 'n) set \<Rightarrow> 'n \<Rightarrow> 'n set \<Rightarrow> 'n set" where
  "visits E x S = insert x (within (avoiding E (insert x S)) (-1) x)"

lemma visits_step:
  "visits E x S = insert x (\<Union>y \<in> {y. (x, y) \<in> E \<and> y \<notin> insert x S}. visits E y (insert x S))"
  unfolding visits_def
  by (subst within_avoiding_step) (auto simp: next_depth_def avoiding_iff)

lemma visits_all: "visits E x {} = E\<^sup>* `` {x}"
proof -
  have "within (avoiding E {x}) (-1) x = E\<^sup>+ `` {x} - {x}"
    using within_avoiding_self [of E x "-1"] by (simp only: within_unlimited)
  moreover have "E\<^sup>* `` {x} = insert x (E\<^sup>+ `` {x} - {x})"
    by (auto simp: rtrancl_eq_or_trancl)
  ultimately show ?thesis by (simp only: visits_def)
qed

lemma findStartNodes_spec:
  assumes "findStartNodesRecursive g current dest rd pd starts seen = Inr res"
    and "\<forall>n \<in> set seen. \<not> stops dest rd pd n"
  shows "set res = set starts \<union>
    (if current \<in> set seen then {}
     else {n \<in> visits (live g dest rd pd) current (set seen). stops dest rd pd n})"
  using assms
proof (induction g current dest rd pd starts seen arbitrary: res rule: findStartNodesRecursive.induct)
  case (1 g current dest rd pd starts seen)
  let ?L = "live g dest rd pd"
  note unf = findStartNodesRecursive.simps [of g current dest rd pd starts seen]
  show ?case
  proof (cases "stops dest rd pd current")
    case True
    then have "set res = insert current (set starts)"
      using "1.prems"(1) by (auto simp: unf stops_def split: if_splits)
    moreover have "current \<notin> set seen" using True "1.prems"(2) by blast
    moreover have no: "(current, y) \<notin> ?L" for y
      using True by (auto simp: live_def)
    have "visits ?L current (set seen) = {current}" by (subst visits_step) (simp add: no)
    ultimately show ?thesis using True by auto
  next
    case False
    then have nd: "\<not> isDirty current rd pd" "current \<noteq> dest" by (auto simp: stops_def)
    show ?thesis
    proof (cases "current \<in> set seen")
      case True
      with "1.prems"(1) nd show ?thesis by (simp add: unf)
    next
      case fresh: False
      from "1.prems"(1) nd fresh obtain ocs where
        ocs: "getDirectChildren g current = Inr ocs" and
        loop: "foldR (\<lambda>oc starts.
          bindR (getIncomingData rd (nodeName (gfrom oc)) 0 (gtype oc) (outputIndex oc)) (\<lambda>d.
            if hasNoRunData d then Inr starts
            else findStartNodesRecursive g (gto oc) dest rd pd starts (set_add current seen)))
          ocs starts = Inr res"
        by (auto simp: unf bindR_Inr_iff)
      let ?S = "insert current (set seen)"
      let ?g = "\<lambda>oc. if carries_data rd oc \<and> gto oc \<notin> ?S
        then {n \<in> visits ?L (gto oc) ?S. stops dest rd pd n} else {}"
      have "set res = set starts \<union> (\<Union>oc \<in> set ocs. ?g oc)"
      proof (rule foldR_set_UN [OF loop])
        fix oc u v
        assume oc: "oc \<in> set ocs"
          and step: "bindR (getIncomingData rd (nodeName (gfrom oc)) 0 (gtype oc) (outputIndex oc)) (\<lambda>d.
            if hasNoRunData d then Inr u
            else findStartNodesRecursive g (gto oc) dest rd pd u (set_add current seen)) = Inr v"
        from step obtain d where
          d: "getIncomingData rd (nodeName (gfrom oc)) 0 (gtype oc) (outputIndex oc) = Inr d"
          by (auto simp: bindR_Inr_iff)
        show "set v = set u \<union> ?g oc"
        proof (cases "hasNoRunData d")
          case True
          with step d show ?thesis by (simp add: carries_data_def)
        next
          case data: False
          with step d have
            rec: "findStartNodesRecursive g (gto oc) dest rd pd u (set_add current seen) = Inr v"
            by simp
          have "\<forall>n \<in> set (set_add current seen). \<not> stops dest rd pd n"
            using "1.prems"(2) False by simp
          from "1.IH" [OF nd fresh ocs oc d data rec this] d data
          show ?thesis by (simp add: carries_data_def)
        qed
      qed
      moreover have "{y. (current, y) \<in> ?L \<and> y \<notin> ?S} =
          gto ` {oc \<in> set ocs. carries_data rd oc \<and> gto oc \<notin> ?S}"
        using set_getDirectChildren [OF ocs] False by (force simp: live_def)
      then have "visits ?L current (set seen) =
          insert current (\<Union>oc \<in> {oc \<in> set ocs. carries_data rd oc \<and> gto oc \<notin> ?S}. visits ?L (gto oc) ?S)"
        by (subst visits_step) simp
      ultimately show ?thesis using fresh False by auto
    qed
  qed
qed

text \<open>The start nodes come without repetition.\<close>

lemma findStartNodes_distinct:
  "findStartNodesRecursive g current dest rd pd starts seen = Inr res \<Longrightarrow> distinct starts \<Longrightarrow>
     distinct res"
proof (induction g current dest rd pd starts seen arbitrary: res rule: findStartNodesRecursive.induct)
  case (1 g current dest rd pd starts seen)
  note unf = findStartNodesRecursive.simps [of g current dest rd pd starts seen]
  show ?case
  proof (cases "stops dest rd pd current \<or> current \<in> set seen")
    case True
    with "1.prems" show ?thesis by (auto simp: unf stops_def split: if_splits)
  next
    case False
    then have nd: "\<not> isDirty current rd pd" "current \<noteq> dest" "current \<notin> set seen"
      by (auto simp: stops_def)
    from "1.prems"(1) nd obtain ocs where
      ocs: "getDirectChildren g current = Inr ocs" and
      loop: "foldR (\<lambda>oc starts.
        bindR (getIncomingData rd (nodeName (gfrom oc)) 0 (gtype oc) (outputIndex oc)) (\<lambda>d.
          if hasNoRunData d then Inr starts
          else findStartNodesRecursive g (gto oc) dest rd pd starts (set_add current seen)))
        ocs starts = Inr res"
      by (auto simp: unf bindR_Inr_iff)
    show ?thesis
    proof (rule foldR_invariant [OF loop, where P = distinct])
      fix oc u v
      assume oc: "oc \<in> set ocs" "distinct u"
        and "bindR (getIncomingData rd (nodeName (gfrom oc)) 0 (gtype oc) (outputIndex oc)) (\<lambda>d.
          if hasNoRunData d then Inr u
          else findStartNodesRecursive g (gto oc) dest rd pd u (set_add current seen)) = Inr v"
      then obtain d where "getIncomingData rd (nodeName (gfrom oc)) 0 (gtype oc) (outputIndex oc) = Inr d"
        and "(if hasNoRunData d then Inr u
          else findStartNodesRecursive g (gto oc) dest rd pd u (set_add current seen)) = Inr v"
        by (auto simp: bindR_Inr_iff)
      then show "distinct v"
        using "1.IH" [OF nd ocs oc(1)] oc(2) by (auto split: if_splits)
    qed (rule "1.prems"(2))
  qed
qed

text \<open>
  What the search needs in order not to fail: every node it may go on from has run data for the
  connection types it uses.
\<close>

definition run_data_complete :: "DirectedGraph \<Rightarrow> INode \<Rightarrow> IRunData \<Rightarrow> IPinData \<Rightarrow> bool" where
  "run_data_complete g destination runData pinData \<longleftrightarrow>
     (\<forall>c \<in> connections g. stops destination runData pinData (gfrom c) \<or>
        (\<exists>d. getIncomingData runData (nodeName (gfrom c)) 0 (gtype c) (outputIndex c) = Inr d))"

lemma findStartNodes_total:
  assumes "wf_graph g" "run_data_complete g dest rd pd" "hasNode g current"
  shows "\<exists>res. findStartNodesRecursive g current dest rd pd starts seen = Inr res"
  using assms
proof (induction g current dest rd pd starts seen rule: findStartNodesRecursive.induct)
  case (1 g current dest rd pd starts seen)
  note unf = findStartNodesRecursive.simps [of g current dest rd pd starts seen]
  show ?case
  proof (cases "stops dest rd pd current \<or> current \<in> set seen")
    case True
    then show ?thesis by (auto simp: unf stops_def)
  next
    case False
    then have nd: "\<not> isDirty current rd pd" "current \<noteq> dest" "current \<notin> set seen"
      by (auto simp: stops_def)
    obtain ocs where ocs: "getDirectChildren g current = Inr ocs"
      using "1.prems"(3) getDirectChildren_ok by blast
    have "\<exists>res. foldR (\<lambda>oc starts.
        bindR (getIncomingData rd (nodeName (gfrom oc)) 0 (gtype oc) (outputIndex oc)) (\<lambda>d.
          if hasNoRunData d then Inr starts
          else findStartNodesRecursive g (gto oc) dest rd pd starts (set_add current seen)))
        ocs starts = Inr res \<and> True"
    proof (rule foldR_total [where P = "\<lambda>_. True"])
      fix oc u
      assume oc: "oc \<in> set ocs"
      then have c: "oc \<in> connections g" "gfrom oc = current"
        using set_getDirectChildren [OF ocs] by auto
      obtain d where d: "getIncomingData rd (nodeName (gfrom oc)) 0 (gtype oc) (outputIndex oc) = Inr d"
        using "1.prems"(2) c False unfolding run_data_complete_def by blast
      have "hasNode g (gto oc)" using "1.prems"(1) c(1) by (rule wf_graph_conn)
      with "1.IH" [OF nd ocs oc d _ "1.prems"(1,2)]
      have "\<not> hasNoRunData d \<Longrightarrow>
          \<exists>v. findStartNodesRecursive g (gto oc) dest rd pd u (set_add current seen) = Inr v"
        by blast
      with d show "\<exists>v. bindR (getIncomingData rd (nodeName (gfrom oc)) 0 (gtype oc) (outputIndex oc)) (\<lambda>d.
          if hasNoRunData d then Inr u
          else findStartNodesRecursive g (gto oc) dest rd pd u (set_add current seen)) = Inr v \<and> True"
        by simp
    qed simp
    then show ?thesis using nd ocs by (simp add: unf)
  qed
qed

section \<open>Properties\<close>

text \<open>\<open>cleanRunData\<close> returns, and deletes the run data of the start nodes and of everything
  that can be reached from them, and of nothing else.\<close>

theorem cleanRunData_exact:
  assumes "wf_graph g" "\<forall>n \<in> set startNodes. hasNode g n"
  shows "\<exists>runData'. cleanRunData runData g startNodes = Inr runData' \<and>
    (\<forall>name. map_of runData' name =
      (if \<exists>s \<in> set startNodes. \<exists>n. (s, n) \<in> (graph_edges g)\<^sup>* \<and> nodeName n = name then None
       else map_of runData name))"
proof -
  have "name \<in> outdated g startNodes \<longleftrightarrow>
      (\<exists>s \<in> set startNodes. \<exists>n. (s, n) \<in> (graph_edges g)\<^sup>* \<and> nodeName n = name)" for name
    unfolding outdated_def by blast
  with cleanRunData_spec [OF assms, of runData] show ?thesis by simp
qed

definition sample_run :: ITaskData where
  "sample_run = \<lparr>executionStatus = Success, task_data = Some [(''main'', [SVal [empty_item]])],
     task_error = None, task_source = [], task_metadata = JUndef\<rparr>"

theorem cleanRunData_exact_witness:
  "\<exists>runData'. cleanRunData [(''a'', [sample_run]), (''z'', [sample_run])] sample_cycle [sample_b]
     = Inr runData' \<and> map_of runData' ''z'' = Some [sample_run]"
proof -
  have "\<forall>n \<in> set [sample_b]. hasNode sample_cycle n"
    by (simp add: hasNode_def sample_cycle_def sample_b_def plain_node_def)
  from cleanRunData_exact [OF wf_sample_cycle this, of "[(''a'', [sample_run]), (''z'', [sample_run])]"]
  obtain rd where rd: "cleanRunData [(''a'', [sample_run]), (''z'', [sample_run])] sample_cycle [sample_b] = Inr rd"
    "map_of rd ''z'' = (if \<exists>s \<in> set [sample_b]. \<exists>n. (s, n) \<in> (graph_edges sample_cycle)\<^sup>* \<and>
       nodeName n = ''z'' then None else Some [sample_run])" by auto
  have "nodeName n \<noteq> ''z''" if "(s, n) \<in> (graph_edges sample_cycle)\<^sup>*" "s = sample_b" for s n
    using that
  proof (induction rule: rtrancl_induct)
    case base
    then show ?case by (simp add: sample_b_def plain_node_def)
  next
    case (step y z)
    then show ?case
      by (auto simp: graph_edges_def connections_def map_values_def sample_cycle_def sample_edge_def
          sample_a_def sample_b_def plain_node_def)
  qed
  with rd show ?thesis by auto
qed

text \<open>C31: \<open>findStartNodes\<close> returns when the run data is complete, and its result holds, each once,
  exactly the nodes that have neither run data nor pinned data, or the destination, among those
  that the trigger reaches over connections carrying run data out of nodes that are neither: the earliest dirty node of every
  branch with data.\<close>

theorem findStartNodes_earliest:
  assumes "wf_graph g" "hasNode g trigger" "run_data_complete g destination runData pinData"
  shows "\<exists>starts. findStartNodes g trigger destination runData pinData = Inr starts \<and>
    distinct starts \<and>
    set starts = {n. (trigger, n) \<in> (live g destination runData pinData)\<^sup>* \<and>
      (map_of pinData (nodeName n) = None \<and> map_of runData (nodeName n) = None \<or> n = destination)}"
proof -
  obtain starts where s: "findStartNodesRecursive g trigger destination runData pinData [] [] = Inr starts"
    using findStartNodes_total [OF assms(1,3,2)] by blast
  moreover have "set starts = {n \<in> (live g destination runData pinData)\<^sup>* `` {trigger}.
      stops destination runData pinData n}"
    using findStartNodes_spec [OF s] by (simp add: visits_all)
  ultimately show ?thesis
    using findStartNodes_distinct [OF s] unfolding findStartNodes_def stops_def isDirty_iff by auto
qed

theorem findStartNodes_earliest_witness:
  "\<exists>starts. findStartNodes sample_cycle sample_a sample_b [(''a'', [sample_run])] [] = Inr starts \<and>
     sample_b \<in> set starts"
proof -
  have 1: "hasNode sample_cycle sample_a"
    by (simp add: hasNode_def sample_cycle_def sample_a_def plain_node_def)
  have "getIncomingData [(''a'', [sample_run])] ''a'' 0 Main 0 = Inr (SVal [empty_item])"
    by (simp add: getIncomingData_def sample_run_def arr_get_def)
  then have d: "getIncomingData [(''a'', [sample_run])] (nodeName sample_a) 0 Main 0 = Inr (SVal [empty_item])"
    by (simp add: sample_a_def plain_node_def)
  then have 2: "run_data_complete sample_cycle sample_b [(''a'', [sample_run])] []"
    by (simp add: run_data_complete_def connections_def map_values_def sample_cycle_def sample_edge_def
        stops_def)
  have "carries_data [(''a'', [sample_run])] (sample_edge sample_a sample_b)"
    using d by (simp add: carries_data_def sample_edge_def hasNoRunData_def)
  moreover have "\<not> stops sample_b [(''a'', [sample_run])] [] sample_a"
    by (simp add: stops_def isDirty_def sample_a_def sample_b_def plain_node_def)
  ultimately have "(sample_a, sample_b) \<in> live sample_cycle sample_b [(''a'', [sample_run])] []"
    by (force simp: live_def connections_def map_values_def sample_cycle_def sample_edge_def)
  then have "(sample_a, sample_b) \<in> (live sample_cycle sample_b [(''a'', [sample_run])] [])\<^sup>*" by blast
  with findStartNodes_earliest [OF wf_sample_cycle 1 2] show ?thesis by auto
qed

text \<open>A node with pinned data and no run data is not dirty, so the search goes on from it; it
  then asks for its run data and fails. With the same run data and no pinned data the node itself
  is the start node.\<close>

theorem findStartNodes_pinned_fails:
  "findStartNodes sample_cycle sample_a sample_b [] [(''a'', [])] = Inl AssertionError \<and>
   findStartNodes sample_cycle sample_a sample_b [] [] = Inr [sample_a]"
  by (simp add: findStartNodes_def findStartNodesRecursive.simps isDirty_def sample_cycle_def
      sample_a_def sample_b_def sample_edge_def plain_node_def getDirectChildren_def hasNode_def
      map_values_def getIncomingData_def set_add_def)

end
