(* ===== verification/GraphWorkflow.thy ===== *)
theory GraphWorkflow
  imports PartialStart WorkflowStart
begin

text \<open>
  Between workflows and graphs (\<open>DirectedGraph.ts\<close>): \<open>fromWorkflow\<close>, \<open>toIConnections\<close> and
  \<open>toWorkflow\<close>. The round trip from a workflow to its graph and back gives the connections of the
  workflow again, under the conditions that the code needs.
\<close>

section \<open>From a workflow\<close>

text \<open>\<open>a.ok(node)\<close>\<close>

definition okR :: "'a option \<Rightarrow> 'a res" where
  "okR v = (case v of None \<Rightarrow> Inl AssertionError | Some x \<Rightarrow> Inr x)"

lemma okR_simps [simp, js_simps]: "okR None = Inl AssertionError" "okR (Some x) = Inr x"
  by (simp_all add: okR_def)

definition addWorkflowConnection ::
  "Workflow \<Rightarrow> INode \<Rightarrow> NodeConnectionType \<Rightarrow> nat \<Rightarrow> IConnection \<Rightarrow> DirectedGraph \<Rightarrow> DirectedGraph res" where
  "addWorkflowConnection w from outputType out conn g =
     bindR (okR (getNode w (cnode conn))) (\<lambda>to.
       addConnection g \<lparr>in_from = from, in_to = to, in_type = Some outputType,
         in_outputIndex = Some out, in_inputIndex = Some (cindex conn)\<rparr>)"

definition fromWorkflow :: "Workflow \<Rightarrow> DirectedGraph res" where
  "fromWorkflow w =
     foldR (\<lambda>(fromNodeName, iConnection) g.
       bindR (okR (getNode w fromNodeName)) (\<lambda>from.
         foldR (\<lambda>(outputType, outputs) g.
           foldR (\<lambda>(out, conns) g.
             bindR (derefR conns) (\<lambda>conns.
               foldR (addWorkflowConnection w from outputType out) conns g))
             (enumerate 0 outputs) g)
           iConnection g))
       (connectionsBySourceNode w) (addNodes empty_graph (map_values (nodes w)))"

section \<open>To a workflow\<close>

text \<open>
  The object of a source node is made with the type of its first connection only; a connection of
  another type finds no array.
\<close>

definition toIConnection :: "GraphConnection \<Rightarrow> IConnections \<Rightarrow> IConnections res" where
  "toIConnection connection result =
     (let from = nodeName (gfrom connection);
          type = gtype connection;
          resultConnection = (case map_of result from of None \<Rightarrow> [(type, [])] | Some b \<Rightarrow> b)
      in bindR (derefR (map_of resultConnection type)) (\<lambda>arr.
           let group = (case hole_get arr (outputIndex connection) of None \<Rightarrow> [] | Some cs \<Rightarrow> cs)
           in Inr (obj_put from
                (obj_put type
                  (hole_set (outputIndex connection)
                    (group @ [\<lparr>cnode = nodeName (gto connection), ctype = type, cindex = inputIndex connection\<rparr>]) arr)
                  resultConnection)
                result)))"

definition toIConnections :: "DirectedGraph \<Rightarrow> IConnections res" where
  "toIConnections g = foldR toIConnection (map_values (gconns g)) []"

definition toWorkflow :: "parameter_resolver \<Rightarrow> WorkflowParameters \<Rightarrow> DirectedGraph \<Rightarrow> Workflow res" where
  "toWorkflow getNodeParameters params g =
     bindR (toIConnections g) (\<lambda>ic.
       new_Workflow getNodeParameters
         (params\<lparr>p_nodes := map_values (gnodes g), p_connections := ic\<rparr>))"

section \<open>Loops that collect\<close>

lemma foldR_collect:
  assumes "I s"
    and "\<And>x u. x \<in> set xs \<Longrightarrow> I u \<Longrightarrow> \<exists>v. f x u = Inr v \<and> I v \<and> A v = A u \<union> g x"
  shows "\<exists>t. foldR f xs s = Inr t \<and> I t \<and> A t = A s \<union> (\<Union>x \<in> set xs. g x)"
  using assms
proof (induction xs arbitrary: s)
  case Nil
  then show ?case by simp
next
  case (Cons x xs)
  then obtain v where v: "f x s = Inr v" "I v" "A v = A s \<union> g x" by force
  with Cons.IH [of v] Cons.prems(2) obtain t where
    "foldR f xs v = Inr t" "I t" "A t = A v \<union> (\<Union>x \<in> set xs. g x)" by auto
  with v show ?case by auto
qed

section \<open>The graph of a workflow\<close>

text \<open>Every connection starts and ends at a node, no output is a hole, and no name or type has a dash.\<close>

definition closed_workflow :: "Workflow \<Rightarrow> bool" where
  "closed_workflow w \<longleftrightarrow> wf_workflow w \<and> dense (connectionsBySourceNode w) \<and>
     (\<forall>(s, b) \<in> set (connectionsBySourceNode w). map_of (nodes w) s \<noteq> None) \<and>
     (\<forall>s t k c. has_conn (connectionsBySourceNode w) s t k c \<longrightarrow>
        map_of (nodes w) (cnode c) \<noteq> None \<and> CHR ''-'' \<notin> set s \<and> CHR ''-'' \<notin> set t)"

definition graph_conn :: "Workflow \<Rightarrow> GraphConnection \<Rightarrow> bool" where
  "graph_conn w gc \<longleftrightarrow>
     map_of (nodes w) (nodeName (gfrom gc)) = Some (gfrom gc) \<and> map_of (nodes w) (nodeName (gto gc)) = Some (gto gc) \<and>
     (\<exists>it. has_conn (connectionsBySourceNode w) (nodeName (gfrom gc)) (gtype gc) (outputIndex gc)
        \<lparr>cnode = nodeName (gto gc), ctype = it, cindex = inputIndex gc\<rparr>)"

lemma graph_conn_key:
  assumes "closed_workflow w" "graph_conn w c" "graph_conn w d" "makeKey c = makeKey d"
  shows "c = d"
proof -
  have "no_dash c" "no_dash d" using assms by (auto simp: closed_workflow_def graph_conn_def no_dash_def)
  then have eq: "nodeName (gfrom c) = nodeName (gfrom d)" "gtype c = gtype d" "outputIndex c = outputIndex d"
    "inputIndex c = inputIndex d" "nodeName (gto c) = nodeName (gto d)"
    using assms(4) makeKey_parts by blast+
  have "gfrom c = gfrom d" "gto c = gto d" using assms(2,3) eq by (auto simp: graph_conn_def)
  with eq show ?thesis by simp
qed

lemma addNodes_fold: "gnodes (addNodes g ns) = fold (\<lambda>n. AList.update (nodeName n) n) ns (gnodes g) \<and> gconns (addNodes g ns) = gconns g"
  by (induction ns arbitrary: g) (simp_all add: addNodes_def addNode_def)

lemma start_graph:
  assumes "named (nodes w)"
  shows "wf_graph (addNodes empty_graph (map_values (nodes w)))"
    and "connections (addNodes empty_graph (map_values (nodes w))) = {}"
    and "hasNode (addNodes empty_graph (map_values (nodes w))) n \<longleftrightarrow> map_of (nodes w) (nodeName n) = Some n"
proof -
  define ns where "ns = nodes w"
  have ok: "k = nodeName m" if "(k, m) \<in> set ns" for k m
    using that assms by (auto simp: named_def wf_keys_def ns_def)
  have keys: "wf_keys ns" using assms by (simp add: named_def ns_def)
  have m: "map_of (fold (\<lambda>n. AList.update (nodeName n) n) (map_values xs) m) k =
      (case map_of (rev xs) k of None \<Rightarrow> map_of m k | Some n \<Rightarrow> Some n)"
    if "\<And>k n. (k, n) \<in> set xs \<Longrightarrow> k = nodeName n" for xs m k
    using that
  proof (induction xs arbitrary: m)
    case Nil
    then show ?case by (simp add: map_values_def)
  next
    case (Cons p xs)
    obtain j n where p: "p = (j, n)" by (cases p)
    have "j = nodeName n" by (rule Cons.prems) (simp add: p)
    moreover have "map_of (fold (\<lambda>n. AList.update (nodeName n) n) (map_values xs) m') k =
        (case map_of (rev xs) k of None \<Rightarrow> map_of m' k | Some n \<Rightarrow> Some n)" for m'
      by (rule Cons.IH, rule Cons.prems) simp
    ultimately show ?case by (simp add: p map_values_def update_conv' map_add_def split: option.split)
  qed
  let ?g = "addNodes empty_graph (map_values ns)"
  have "map_of (rev ns) = map_of ns" using keys
    by (subst map_of_inject_set) (simp_all add: wf_keys_def flip: rev_map)
  then have look: "map_of (gnodes ?g) k = map_of ns k" for k
  proof -
    have "map_of (fold (\<lambda>n. AList.update (nodeName n) n) (map_values ns) []) k =
        (case map_of (rev ns) k of None \<Rightarrow> map_of [] k | Some n \<Rightarrow> Some n)"
      by (rule m) (rule ok)
    with \<open>map_of (rev ns) = map_of ns\<close> show ?thesis
      by (simp add: addNodes_fold empty_graph_def split: option.splits)
  qed
  have wf: "wf_keys (fold (\<lambda>n. AList.update (nodeName n) n) xs m)" if "wf_keys m" for xs :: "INode list" and m
    using that by (induction xs arbitrary: m) (simp_all add: jmap.wf_put)
  have "wf_keys (gnodes ?g)" using wf [of "[]" "map_values ns"] by (simp add: addNodes_fold empty_graph_def wf_keys_def)
  moreover have "k = nodeName n" if "(k, n) \<in> set (gnodes ?g)" for k n
  proof -
    have "map_of (gnodes ?g) k = Some n" using that \<open>wf_keys (gnodes ?g)\<close> by (simp add: wf_keys_def)
    then have "(k, n) \<in> set ns" unfolding look by (rule map_of_SomeD)
    then show ?thesis by (rule ok)
  qed
  ultimately show "wf_graph (addNodes empty_graph (map_values (nodes w)))"
    by (auto simp: wf_graph_def ns_def [symmetric] addNodes_fold empty_graph_def wf_keys_def)
  show "connections (addNodes empty_graph (map_values (nodes w))) = {}"
    by (simp add: connections_def addNodes_fold empty_graph_def map_values_def)
  show "hasNode (addNodes empty_graph (map_values (nodes w))) n \<longleftrightarrow> map_of (nodes w) (nodeName n) = Some n"
    using look by (simp add: hasNode_def ns_def)
qed

text \<open>What one connection of the workflow becomes.\<close>

definition conn_of :: "Workflow \<Rightarrow> INode \<Rightarrow> NodeConnectionType \<Rightarrow> nat \<Rightarrow> IConnection \<Rightarrow> GraphConnection set" where
  "conn_of w src_node t out c =
     {gc. gfrom gc = src_node \<and> gtype gc = t \<and> outputIndex gc = out \<and> inputIndex gc = cindex c \<and>
          map_of (nodes w) (cnode c) = Some (gto gc)}"

definition graph_inv :: "Workflow \<Rightarrow> DirectedGraph \<Rightarrow> bool" where
  "graph_inv w g \<longleftrightarrow> wf_graph g \<and> (\<forall>n. hasNode g n \<longleftrightarrow> map_of (nodes w) (nodeName n) = Some n) \<and>
     (\<forall>gc \<in> connections g. graph_conn w gc)"

lemma addWorkflowConnection_collects:
  assumes "closed_workflow w" "map_of (nodes w) s = Some src_node" "has_conn (connectionsBySourceNode w) s t out c"
    and "graph_inv w g"
  shows "\<exists>g'. addWorkflowConnection w src_node t out c g = Inr g' \<and> graph_inv w g' \<and>
    connections g' = connections g \<union> conn_of w src_node t out c"
proof -
  have names: "named (nodes w)" using assms(1) by (simp add: closed_workflow_def wf_workflow_def)
  obtain to where to: "map_of (nodes w) (cnode c) = Some to" using assms(1,3)
    unfolding closed_workflow_def by blast
  have src_node: "nodeName src_node = s" and to_name: "nodeName to = cnode c"
    using names assms(2) to by (auto intro: namedD)
  define ci where "ci = \<lparr>in_from = src_node, in_to = to, in_type = Some t, in_outputIndex = Some out,
    in_inputIndex = Some (cindex c)\<rparr>"
  have new: "conn_of w src_node t out c = {of_input ci}"
    by (auto simp: conn_of_def of_input_def ci_def to)
  have ends: "hasNode g src_node" "hasNode g to"
    using assms(2,4) to src_node to_name by (simp_all add: graph_inv_def)
  have gc: "graph_conn w (of_input ci)"
    using assms(2,3) to src_node to_name
    by (cases c) (auto simp: graph_conn_def of_input_def ci_def)
  obtain g' where g': "addConnection g ci = Inr g'"
    using addConnection_ok [of g ci] ends by (simp add: ci_def)
  have wf: "wf_graph g'" using wf_graph_addConnection g' assms(4) by (auto simp: graph_inv_def)
  have "connections g' = insert (of_input ci) {d \<in> connections g. makeKey d \<noteq> makeKey (of_input ci)}"
    using connections_addConnection g' assms(4) by (auto simp: graph_inv_def)
  moreover have "makeKey d = makeKey (of_input ci) \<Longrightarrow> d = of_input ci" if "d \<in> connections g" for d
    using graph_conn_key [OF assms(1) _ gc] that assms(4) by (auto simp: graph_inv_def)
  ultimately have conns: "connections g' = connections g \<union> conn_of w src_node t out c" by (auto simp: new)
  moreover have "hasNode g' n = hasNode g n" for n using g' by (auto simp: addConnection_Inr)
  ultimately have "graph_inv w g'" using wf assms(4) gc new by (auto simp: graph_inv_def)
  moreover have "addWorkflowConnection w src_node t out c g = Inr g'"
    using g' to by (simp add: addWorkflowConnection_def getNode_eq ci_def)
  ultimately show ?thesis using conns by blast
qed

lemma fromWorkflow_spec:
  assumes "closed_workflow w"
  shows "\<exists>g. fromWorkflow w = Inr g \<and> wf_graph g \<and>
    (\<forall>n. hasNode g n \<longleftrightarrow> map_of (nodes w) (nodeName n) = Some n) \<and>
    (\<forall>gc. gc \<in> connections g \<longleftrightarrow> graph_conn w gc)"
proof -
  let ?src = "connectionsBySourceNode w"
  have wf: "wf_connections ?src" "dense ?src" "named (nodes w)"
    using assms by (auto simp: closed_workflow_def wf_workflow_def)
  have look: "map_of ?src s = Some b" if "(s, b) \<in> set ?src" for s b
    using that wf(1) by (simp add: wf_connections_def wf_keys_def)
  have look2: "map_of b t = Some arr" if "(s, b) \<in> set ?src" "(t, arr) \<in> set b" for s b t arr
    using that wf(1) by (auto simp: wf_connections_def wf_keys_def)
  let ?inner = "\<lambda>src_node t. \<lambda>(out, conns). \<Union>c \<in> set (the conns). conn_of w src_node t out c"
  let ?type = "\<lambda>src_node (t, outputs). \<Union>p \<in> set (enumerate 0 outputs). ?inner src_node t p"
  let ?node = "\<lambda>(s, b). \<Union>p \<in> set b. ?type (the (map_of (nodes w) s)) p"
  let ?start = "addNodes empty_graph (map_values (nodes w))"
  have start: "graph_inv w ?start" "connections ?start = {}"
    using start_graph [OF wf(3)] by (simp_all add: graph_inv_def)
  have "\<exists>g. fromWorkflow w = Inr g \<and> graph_inv w g \<and> connections g = connections ?start \<union> (\<Union>x \<in> set ?src. ?node x)"
    unfolding fromWorkflow_def
  proof (rule foldR_collect [where I = "graph_inv w" and A = connections, OF start(1)])
    fix x g assume x: "x \<in> set ?src" and g: "graph_inv w g"
    obtain s b where xb: "x = (s, b)" by (cases x)
    obtain src_node where src_node: "map_of (nodes w) s = Some src_node"
      using assms x xb by (fastforce simp: closed_workflow_def)
    have "\<exists>g'. foldR (\<lambda>(t, outputs) g. foldR (\<lambda>(out, conns) g. bindR (derefR conns) (\<lambda>conns.
        foldR (addWorkflowConnection w src_node t out) conns g)) (enumerate 0 outputs) g) b g = Inr g' \<and>
      graph_inv w g' \<and> connections g' = connections g \<union> (\<Union>p \<in> set b. ?type src_node p)"
    proof (rule foldR_collect [where I = "graph_inv w" and A = connections, OF g])
      fix p h assume p: "p \<in> set b" and h: "graph_inv w h"
      obtain t arr where tp: "p = (t, arr)" by (cases p)
      have "\<exists>g'. foldR (\<lambda>(out, conns) g. bindR (derefR conns) (\<lambda>conns.
          foldR (addWorkflowConnection w src_node t out) conns g)) (enumerate 0 arr) h = Inr g' \<and>
        graph_inv w g' \<and> connections g' = connections h \<union> (\<Union>q \<in> set (enumerate 0 arr). ?inner src_node t q)"
      proof (rule foldR_collect [where I = "graph_inv w" and A = connections, OF h])
        fix q k assume q: "q \<in> set (enumerate 0 arr)" and k: "graph_inv w k"
        obtain out conns where oq: "q = (out, conns)" by (cases q)
        have nth: "out < length arr" "conns = arr ! out" using q oq by (auto simp: in_set_enumerate_eq)
        have "conns \<noteq> None"
        proof -
          have "None \<notin> set arr"
            using bspec [OF bspec [OF wf(2) [unfolded dense_def] x, unfolded xb prod.case] p] by (simp add: tp)
          with nth show ?thesis using nth_mem [OF nth(1)] by metis
        qed
        then obtain cs where cs: "conns = Some cs" by blast
        have "\<exists>g'. foldR (addWorkflowConnection w src_node t out) cs k = Inr g' \<and> graph_inv w g' \<and>
          connections g' = connections k \<union> (\<Union>c \<in> set cs. conn_of w src_node t out c)"
        proof (rule foldR_collect [where I = "graph_inv w" and A = connections, OF k])
          fix c l assume c: "c \<in> set cs" and l: "graph_inv w l"
          have "has_conn ?src s t out c"
            using c cs nth look look2 x xb p tp by (force simp: has_conn_iff hole_get_def)
          from addWorkflowConnection_collects [OF assms src_node this l]
          show "\<exists>v. addWorkflowConnection w src_node t out c l = Inr v \<and> graph_inv w v \<and>
            connections v = connections l \<union> conn_of w src_node t out c" .
        qed
        then show "\<exists>v. (\<lambda>(out, conns) g. bindR (derefR conns) (\<lambda>conns.
            foldR (addWorkflowConnection w src_node t out) conns g)) q k = Inr v \<and>
          graph_inv w v \<and> connections v = connections k \<union> ?inner src_node t q" by (simp add: oq cs)
      qed
      then show "\<exists>v. (\<lambda>(t, outputs) g. foldR (\<lambda>(out, conns) g. bindR (derefR conns) (\<lambda>conns.
          foldR (addWorkflowConnection w src_node t out) conns g)) (enumerate 0 outputs) g) p h = Inr v \<and>
        graph_inv w v \<and> connections v = connections h \<union> ?type src_node p" by (simp add: tp)
    qed
    then show "\<exists>v. (\<lambda>(fromNodeName, iConnection) g. bindR (okR (getNode w fromNodeName)) (\<lambda>src_node.
        foldR (\<lambda>(outputType, outputs) g. foldR (\<lambda>(out, conns) g. bindR (derefR conns) (\<lambda>conns.
          foldR (addWorkflowConnection w src_node outputType out) conns g)) (enumerate 0 outputs) g) iConnection g)) x g = Inr v \<and>
      graph_inv w v \<and> connections v = connections g \<union> ?node x" by (simp add: xb src_node getNode_eq)
  qed
  then obtain g where g: "fromWorkflow w = Inr g" "graph_inv w g" "connections g = (\<Union>x \<in> set ?src. ?node x)"
    using start(2) by auto
  have "gc \<in> connections g" if gc: "graph_conn w gc" for gc
  proof -
    from gc obtain it b arr cs where ends: "map_of (nodes w) (nodeName (gfrom gc)) = Some (gfrom gc)"
      "map_of (nodes w) (nodeName (gto gc)) = Some (gto gc)" and
      b: "map_of ?src (nodeName (gfrom gc)) = Some b" "map_of b (gtype gc) = Some arr"
        "hole_get arr (outputIndex gc) = Some cs"
        "\<lparr>cnode = nodeName (gto gc), ctype = it, cindex = inputIndex gc\<rparr> \<in> set cs"
      by (auto simp: graph_conn_def has_conn_iff)
    have "(outputIndex gc, Some cs) \<in> set (enumerate 0 arr)"
      using b(3) by (auto simp: hole_get_def in_set_enumerate_eq split: if_splits)
    moreover have "gc \<in> conn_of w (gfrom gc) (gtype gc) (outputIndex gc)
        \<lparr>cnode = nodeName (gto gc), ctype = it, cindex = inputIndex gc\<rparr>"
      using ends by (simp add: conn_of_def)
    ultimately have "gc \<in> ?node (nodeName (gfrom gc), b)"
      using b(2,4) ends map_of_SomeD [OF b(2)] by (force intro: bexI)
    then show ?thesis unfolding g(3) using map_of_SomeD [OF b(1)] by blast
  qed
  with g(1,2) show ?thesis by (auto simp: graph_inv_def)
qed

section \<open>The connections of a graph\<close>

definition listed :: "IConnections \<Rightarrow> (string \<times> string \<times> nat \<times> IConnection) set" where
  "listed ic = {(s, t, k, c). has_conn ic s t k c}"

definition entry_of :: "GraphConnection \<Rightarrow> string \<times> string \<times> nat \<times> IConnection" where
  "entry_of gc = (nodeName (gfrom gc), gtype gc, outputIndex gc,
     \<lparr>cnode = nodeName (gto gc), ctype = gtype gc, cindex = inputIndex gc\<rparr>)"

definition objects_inv :: "(string \<Rightarrow> string) \<Rightarrow> IConnections \<Rightarrow> bool" where
  "objects_inv ty ic = (wf_connections ic \<and> (\<forall>s b. map_of ic s = Some b \<longrightarrow> map_of b (ty s) \<noteq> None))"

lemma wf_connections_put:
  assumes "wf_connections ic" "wf_keys b"
  shows "wf_connections (obj_put s b ic)"
proof -
  have keys: "wf_keys (obj_put s b ic)" using assms(1) by (simp add: jobj.wf_put wf_connections_keys)
  have "wf_keys b'" if "(n, b') \<in> set (obj_put s b ic)" for n b'
  proof -
    have "map_of (obj_put s b ic) n = Some b'" using keys that unfolding wf_keys_def by (rule map_of_is_SomeI)
    then show ?thesis using assms by (auto split: if_splits intro: wf_connections_inner)
  qed
  with keys show ?thesis by (auto simp: wf_connections_def)
qed

lemma toIConnection_collects:
  assumes "objects_inv ty ic" "gtype gc = ty (nodeName (gfrom gc))"
  shows "\<exists>ic'. toIConnection gc ic = Inr ic' \<and> objects_inv ty ic' \<and> listed ic' = listed ic \<union> {entry_of gc}"
proof -
  let ?s = "nodeName (gfrom gc)" and ?t = "gtype gc" and ?k = "outputIndex gc"
  let ?c = "\<lparr>cnode = nodeName (gto gc), ctype = ?t, cindex = inputIndex gc\<rparr>"
  define b where "b = (case map_of ic ?s of None \<Rightarrow> [(?t, [])] | Some b \<Rightarrow> b)"
  obtain arr where arr: "map_of b ?t = Some arr"
    using assms by (cases "map_of ic ?s") (auto simp: b_def objects_inv_def)
  define arr' where "arr' = hole_set ?k (conns_at arr ?k @ [?c]) arr"
  define ic' where "ic' = obj_put ?s (obj_put ?t arr' b) ic"
  have run: "toIConnection gc ic = Inr ic'"
    using arr by (simp add: toIConnection_def Let_def b_def [symmetric] ic'_def arr'_def conns_at_def)
  have "wf_keys b" using assms(1) wf_connections_inner
    by (auto simp: b_def objects_inv_def wf_keys_def split: option.splits)
  then have "wf_connections ic'"
    unfolding ic'_def using assms(1) by (simp add: objects_inv_def wf_connections_put jobj.wf_put)
  moreover have "map_of b' (ty s) \<noteq> None" if "map_of ic' s = Some b'" for s b'
    using that assms by (auto simp: ic'_def objects_inv_def split: if_splits)
  moreover have "conn_list ic' n t = (if n = ?s \<and> t = ?t then arr' else conn_list ic n t)" for n t
    by (auto simp: conn_list_def ic'_def b_def split: option.split)
  moreover have "conns_at (conn_list ic ?s ?t) k = conns_at arr k" for k
    using arr by (auto simp: conn_list_def b_def split: option.splits)
  ultimately have inv: "objects_inv ty ic'" and
    look: "has_conn ic' n t k c \<longleftrightarrow> has_conn ic n t k c \<or> n = ?s \<and> t = ?t \<and> k = ?k \<and> c = ?c" for n t k c
    by (cases "n = ?s \<and> t = ?t"; force simp: objects_inv_def has_conn_def arr'_def)+
  have "listed ic' = listed ic \<union> {entry_of gc}" by (auto simp: listed_def look entry_of_def)
  with run inv show ?thesis by blast
qed

text \<open>Every node has outgoing connections of one type only.\<close>

definition one_type :: "DirectedGraph \<Rightarrow> (string \<Rightarrow> string) \<Rightarrow> bool" where
  "one_type g ty = (\<forall>gc \<in> connections g. gtype gc = ty (nodeName (gfrom gc)))"

lemma toIConnections_spec:
  assumes "one_type g ty"
  shows "\<exists>ic. toIConnections g = Inr ic \<and> wf_connections ic \<and> listed ic = entry_of ` connections g"
proof -
  have "\<exists>ic. foldR toIConnection (map_values (gconns g)) [] = Inr ic \<and> objects_inv ty ic \<and>
      listed ic = listed [] \<union> (\<Union>gc \<in> set (map_values (gconns g)). {entry_of gc})"
  proof (rule foldR_collect [where A = listed])
    show "objects_inv ty []" by (simp add: objects_inv_def)
  next
    fix gc ic
    assume "gc \<in> set (map_values (gconns g))" and ic: "objects_inv ty ic"
    then have "gtype gc = ty (nodeName (gfrom gc))" using assms by (simp add: one_type_def connections_def)
    with ic show "\<exists>v. toIConnection gc ic = Inr v \<and> objects_inv ty v \<and> listed v = listed ic \<union> {entry_of gc}"
      by (rule toIConnection_collects)
  qed
  then show ?thesis by (auto simp: toIConnections_def objects_inv_def listed_def connections_def)
qed

text \<open>C34: from a workflow to its graph and back: when every connection joins existing nodes, no name or
  type has a dash, and each node has outgoing connections of one type, which is also the type of
  the inputs, then \<open>fromWorkflow\<close> and \<open>toIConnections\<close> both return, and the result has exactly the
  connections of the workflow.\<close>

theorem workflow_graph_roundtrip:
  assumes "closed_workflow w"
    and "\<And>s t k c. has_conn (connectionsBySourceNode w) s t k c \<Longrightarrow> t = ty s \<and> ctype c = t"
  shows "\<exists>g ic. fromWorkflow w = Inr g \<and> toIConnections g = Inr ic \<and> wf_graph g \<and> wf_connections ic \<and>
    (\<forall>s t k c. has_conn ic s t k c \<longleftrightarrow> has_conn (connectionsBySourceNode w) s t k c)"
proof -
  let ?src = "connectionsBySourceNode w"
  obtain g where g: "fromWorkflow w = Inr g" "wf_graph g" "\<And>gc. gc \<in> connections g \<longleftrightarrow> graph_conn w gc"
    using fromWorkflow_spec [OF assms(1)] by blast
  have "one_type g ty" using assms(2) by (auto simp: one_type_def g(3) graph_conn_def)
  then obtain ic where ic: "toIConnections g = Inr ic" "wf_connections ic" "listed ic = entry_of ` connections g"
    using toIConnections_spec by blast
  have "has_conn ic s t k c \<longleftrightarrow> has_conn ?src s t k c" for s t k c
  proof
    assume "has_conn ic s t k c"
    then have "(s, t, k, c) \<in> listed ic" by (simp add: listed_def)
    then obtain gc it where gc: "(s, t, k, c) = entry_of gc" "has_conn ?src (nodeName (gfrom gc)) (gtype gc)
        (outputIndex gc) \<lparr>cnode = nodeName (gto gc), ctype = it, cindex = inputIndex gc\<rparr>"
      unfolding ic(3) by (auto simp: g(3) graph_conn_def)
    with assms(2) [OF gc(2)] show "has_conn ?src s t k c" by (simp add: entry_of_def)
  next
    assume c: "has_conn ?src s t k c"
    obtain b where "map_of ?src s = Some b" using c by (auto simp: has_conn_iff)
    then obtain n where n: "map_of (nodes w) s = Some n"
      using assms(1) by (fastforce simp: closed_workflow_def dest!: map_of_SomeD)
    obtain m where m: "map_of (nodes w) (cnode c) = Some m"
      using assms(1) c unfolding closed_workflow_def by blast
    have names: "nodeName n = s" "nodeName m = cnode c"
      using assms(1) n m by (auto simp: closed_workflow_def wf_workflow_def intro: namedD)
    have eq: "\<lparr>cnode = cnode c, ctype = ctype c, cindex = cindex c\<rparr> = c" by simp
    let ?gc = "\<lparr>gfrom = n, gto = m, gtype = t, outputIndex = k, inputIndex = cindex c\<rparr>"
    have "graph_conn w ?gc" unfolding graph_conn_def using n m names c
      by (auto intro!: exI [of _ "ctype c"] simp: eq)
    moreover have "entry_of ?gc = (s, t, k, c)" using names assms(2) [OF c] by (cases c) (simp add: entry_of_def)
    ultimately have "(s, t, k, c) \<in> listed ic" unfolding ic(3) using g(3) by force
    then show "has_conn ic s t k c" by (simp add: listed_def)
  qed
  with g ic show ?thesis by blast
qed

theorem workflow_graph_roundtrip_witness:
  "\<exists>g ic. fromWorkflow diamond = Inr g \<and> toIConnections g = Inr ic \<and>
     has_conn ic ''M'' Main 0 (main_to ''B'')"
proof -
  have src: "has_conn (connectionsBySourceNode diamond) s t k c \<Longrightarrow>
      (s, c) \<in> {(''T'', main_to ''M''), (''M'', main_to ''A''), (''M'', main_to ''B''),
        (''A'', main_to ''D''), (''B'', main_to ''D'')} \<and> t = Main" for s t k c
    by (auto simp: has_conn_iff diamond_def diamond_connections_def hole_get_def split: if_splits)
  have "closed_workflow diamond"
    unfolding closed_workflow_def
  proof (intro conjI allI impI)
    show "wf_workflow diamond" by (rule wf_diamond)
    show "dense (connectionsBySourceNode diamond)"
      by (simp add: dense_def diamond_def diamond_connections_def)
    show "\<forall>(s, b) \<in> set (connectionsBySourceNode diamond). map_of (nodes diamond) s \<noteq> None"
      by (simp add: diamond_def diamond_connections_def)
    fix s t k c
    assume "has_conn (connectionsBySourceNode diamond) s t k c"
    from src [OF this] show "map_of (nodes diamond) (cnode c) \<noteq> None" "CHR ''-'' \<notin> set s" "CHR ''-'' \<notin> set t"
      by (auto simp: diamond_def main_to_def)
  qed
  moreover have "t = Main \<and> ctype c = t" if "has_conn (connectionsBySourceNode diamond) s t k c" for s t k c
    using src [OF that] by (auto simp: main_to_def)
  ultimately obtain g ic where "fromWorkflow diamond = Inr g" "toIConnections g = Inr ic"
    "\<And>s t k c. has_conn ic s t k c \<longleftrightarrow> has_conn (connectionsBySourceNode diamond) s t k c"
    using workflow_graph_roundtrip [of diamond "\<lambda>_. Main"] by blast
  moreover have "has_conn (connectionsBySourceNode diamond) ''M'' Main 0 (main_to ''B'')"
    by (simp add: has_conn_iff diamond_def diamond_connections_def hole_get_def)
  ultimately show ?thesis by blast
qed

section \<open>Where the conditions fail\<close>

definition two_nodes :: "GraphConnection list \<Rightarrow> DirectedGraph res" where
  "two_nodes cs = addConnections
     (addNodes empty_graph [plain_node 1 ''A'' ''agent'', plain_node 2 ''B'' ''set'']) (map to_input cs)"

definition typed_conn :: "NodeConnectionType \<Rightarrow> GraphConnection" where
  "typed_conn t = \<lparr>gfrom = plain_node 1 ''A'' ''agent'', gto = plain_node 2 ''B'' ''set'', gtype = t,
     outputIndex = 0, inputIndex = 0\<rparr>"

text \<open>
  A node with outgoing connections of two types cannot be turned back: the object made for the first
  type has no array for the second.
\<close>

lemma second_type_throws:
  "bindR (two_nodes [typed_conn Main, typed_conn ''ai_tool'']) toIConnections = Inl TypeError"
  by code_simp

text \<open>Names with dashes can give two connections one key; the second replaces the first.\<close>

lemma keys_collide:
  "makeKey \<lparr>gfrom = plain_node 1 ''A'' ''t'', gto = plain_node 2 ''B-main-0-0-C'' ''t'', gtype = Main,
     outputIndex = 0, inputIndex = 0\<rparr> =
   makeKey \<lparr>gfrom = plain_node 3 ''A-main-0-0-B'' ''t'', gto = plain_node 4 ''C'' ''t'', gtype = Main,
     outputIndex = 0, inputIndex = 0\<rparr>"
  by code_simp

end
