(* ===== verification/PartialSubgraph.thy ===== *)
theory PartialSubgraph
  imports GraphWorkflow
begin

text \<open>
  Partial executions, second half: \<open>findTriggerForPartialExecution.ts\<close>, \<open>findSubgraph.ts\<close> and
  \<open>findCycles.ts\<close> of \<open>packages/core/src/PartialExecutionUtils\<close>. The search for the subgraph follows
  connections backwards from the destination; with disabled nodes it need not end, so it has a
  bound on the depth of the recursion.
\<close>

section \<open>The trigger\<close>

definition findAllParentTriggers :: "Workflow \<Rightarrow> string \<Rightarrow> INode list res" where
  "findAllParentTriggers w destination =
     bindR (foldR (\<lambda>name acc.
         bindR (okR (getNode w name)) (\<lambda>node. Inr (acc @ [node])))
         (getParentNodes w destination (OneType Main) (-1)) []) (\<lambda>parentNodes.
       foldR (\<lambda>node acc.
         bindR (derefR (nodeTypes w (ntype node) (typeVersion node))) (\<lambda>nodeType.
           Inr (if ''trigger'' \<in> set (td_group nodeType) then acc @ [node] else acc))) parentNodes [])"

text \<open>
  The comparison of the sort looks at one argument only: an element whose type ends with
  \<open>webhook\<close> goes in front of everything before it, any other one stays behind.
\<close>

definition webhooksFirst :: "INode list \<Rightarrow> INode list" where
  "webhooksFirst ns =
     rev (filter (\<lambda>n. ends_with (ntype n) ''webhook'') ns) @ filter (\<lambda>n. \<not> ends_with (ntype n) ''webhook'') ns"

definition findTriggerForPartialExecution :: "Workflow \<Rightarrow> string \<Rightarrow> INode option res" where
  "findTriggerForPartialExecution w destination =
     bindR (findAllParentTriggers w destination) (\<lambda>triggers.
       let parentTriggers = filter (\<lambda>n. \<not> truthy (disabled n)) triggers;
           pinnedTriggers = webhooksFirst (filter (\<lambda>n.
             case wf_pinData w of None \<Rightarrow> False | Some pd \<Rightarrow> map_of pd (nodeName n) \<noteq> None) parentTriggers)
       in Inr (case pinnedTriggers of
            n # _ \<Rightarrow> Some n
          | [] \<Rightarrow> (case parentTriggers of [] \<Rightarrow> None | n # _ \<Rightarrow> Some n)))"

definition findCycles :: "Workflow \<Rightarrow> string list list" where
  "findCycles w = []"

section \<open>The subgraph\<close>

definition keepConnection :: "GraphConnection \<Rightarrow> DirectedGraph \<Rightarrow> DirectedGraph res" where
  "keepConnection c newGraph = addConnection (addNodes newGraph [gfrom c, gto c]) (to_input c)"

definition keepBranch :: "GraphConnection list \<Rightarrow> DirectedGraph \<Rightarrow> DirectedGraph res" where
  "keepBranch branch newGraph = foldR keepConnection branch newGraph"

text \<open>
  A disabled node: every connection into it is joined with every connection out of its first
  output. The array of the branch is changed on the way: its last element becomes the joined
  connection, one after the other.
\<close>

definition joinDisabled ::
  "DirectedGraph \<Rightarrow> INode \<Rightarrow> GraphConnection list \<Rightarrow> (GraphConnection list \<times> GraphConnection list) res" where
  "joinDisabled g current branch =
     bindR (getDirectParents g current) (\<lambda>incoming.
     bindR (getDirectChildren g current) (\<lambda>children.
       let outgoing = filter (\<lambda>c. outputIndex c = 0) children;
           joined = concat (map (\<lambda>i. map (\<lambda>ou. i\<lparr>gto := gto ou, inputIndex := inputIndex ou\<rparr>) outgoing) incoming)
       in Inr (joined, if joined = [] then branch else butlast branch @ [last joined])))"

fun findSubgraphRecursive ::
  "nat \<Rightarrow> DirectedGraph \<Rightarrow> INode \<Rightarrow> INode \<Rightarrow> INode \<Rightarrow> GraphConnection list \<Rightarrow> DirectedGraph \<Rightarrow>
   DirectedGraph bounded_res" where
  "findSubgraphRecursive 0 g destinationNode current trigger currentBranch newGraph = Inl None"
| "findSubgraphRecursive (Suc fuel) g destinationNode current trigger currentBranch newGraph =
     (if current = trigger then thrown (keepBranch currentBranch newGraph)
      else bindR (thrown (getDirectParents g current)) (\<lambda>parentConnections.
        if parentConnections = [] then Inr newGraph
        else if current = destinationNode \<and> list_ex (\<lambda>c. gto c = destinationNode) currentBranch then Inr newGraph
        else if list_ex (\<lambda>c. gto c = current) currentBranch then thrown (keepBranch currentBranch newGraph)
        else bindR (if truthy (disabled current) then thrown (joinDisabled g current currentBranch)
                    else Inr (parentConnections, currentBranch)) (\<lambda>(parentConnections, currentBranch).
          foldR (\<lambda>parentConnection newGraph.
            findSubgraphRecursive fuel g destinationNode (gfrom parentConnection) trigger
              (currentBranch @ [parentConnection]) newGraph) parentConnections newGraph)))"

definition findSubgraph :: "nat \<Rightarrow> DirectedGraph \<Rightarrow> INode \<Rightarrow> INode \<Rightarrow> DirectedGraph bounded_res" where
  "findSubgraph fuel g destinationNode trigger =
     findSubgraphRecursive fuel g destinationNode destinationNode trigger [] empty_graph"

section \<open>What is kept\<close>

lemma keepConnection_collects:
  assumes "wf_graph g" "c \<in> connections g"
    and "wf_graph ng" "connections ng \<subseteq> connections g" "\<And>n. hasNode ng n \<Longrightarrow> hasNode g n"
  shows "\<exists>ng'. keepConnection c ng = Inr ng' \<and> (wf_graph ng' \<and> connections ng' \<subseteq> connections g \<and>
      (\<forall>n. hasNode ng' n \<longrightarrow> hasNode g n)) \<and> connections ng' = connections ng \<union> {c}"
proof -
  have ends: "hasNode g (gfrom c)" "hasNode g (gto c)" using wf_graph_conn assms(1,2) by blast+
  have addable: "addable h n" if "\<And>m. hasNode h m \<Longrightarrow> hasNode g m" "wf_graph h" "hasNode g n" for h n
  proof (cases "map_of (gnodes h) (nodeName n)")
    case (Some m)
    then have "nodeName m = nodeName n" using that(2) by (auto simp: wf_graph_def dest!: map_of_SomeD)
    then have "hasNode h m" using Some by (simp add: hasNode_def)
    then have "m = n" using hasNode_inj [OF that(1) [of m] that(3)] \<open>nodeName m = nodeName n\<close> by simp
    with Some show ?thesis by (simp add: addable_def)
  qed (simp add: addable_def)
  let ?h = "addNode ng (gfrom c)" and ?k = "addNode (addNode ng (gfrom c)) (gto c)"
  have h: "wf_graph ?h" "\<And>n. hasNode ?h n \<Longrightarrow> hasNode g n"
    using wf_graph_addNode [OF assms(3)] addable [OF assms(5) assms(3) ends(1)] assms(5) ends(1)
    by (auto simp: hasNode_addNode split: if_splits)
  have ak: "addable ?h (gto c)" using addable [OF h(2,1) ends(2)] .
  have k: "wf_graph ?k" "\<And>n. hasNode ?k n \<Longrightarrow> hasNode g n"
    using wf_graph_addNode [OF h(1) ak] h(2) ends(2) by (auto simp: hasNode_addNode split: if_splits)
  have "hasNode ?k (gfrom c)" using hasNode_mono [OF ak] by (simp add: hasNode_addNode)
  moreover have "hasNode ?k (gto c)" by (simp add: hasNode_addNode)
  ultimately obtain ng' where ng': "addConnection ?k (to_input c) = Inr ng'"
    using addConnection_ok [of ?k "to_input c"] by simp
  have wf: "wf_graph ng'" using wf_graph_addConnection [OF k(1) ng'] .
  have "connections ng' = insert c {d \<in> connections ng. makeKey d \<noteq> makeKey c}"
    using connections_addConnection [OF k(1) ng'] by simp
  moreover have "d = c" if "d \<in> connections ng" "makeKey d = makeKey c" for d
  proof -
    have "d \<in> connections g" using that(1) assms(4) by blast
    from wf_graph_conn(3) [OF assms(1) this] wf_graph_conn(3) [OF assms(1,2)]
    show ?thesis unfolding that(2) by simp
  qed
  ultimately have "connections ng' = connections ng \<union> {c}" by auto
  moreover have "hasNode ng' n = hasNode ?k n" for n using ng' by (auto simp: addConnection_Inr)
  ultimately show ?thesis
    using wf k(2) assms(2,4) ng' by (auto simp: keepConnection_def addNodes_def)
qed

text \<open>The subgraph grows inside the graph.\<close>

definition inside :: "DirectedGraph \<Rightarrow> DirectedGraph \<Rightarrow> bool" where
  "inside g ng = (wf_graph ng \<and> connections ng \<subseteq> connections g \<and> (\<forall>n. hasNode ng n \<longrightarrow> hasNode g n))"

lemma keepBranch_collects:
  assumes "wf_graph g" "set branch \<subseteq> connections g" "inside g ng"
  shows "\<exists>ng'. keepBranch branch ng = Inr ng' \<and> inside g ng' \<and> connections ng' = connections ng \<union> set branch"
proof -
  have "\<exists>ng'. foldR keepConnection branch ng = Inr ng' \<and> inside g ng' \<and>
      connections ng' = connections ng \<union> (\<Union>c \<in> set branch. {c})"
  proof (rule foldR_collect [where A = connections and I = "inside g", OF assms(3)])
    fix c h assume "c \<in> set branch" "inside g h"
    then show "\<exists>v. keepConnection c h = Inr v \<and> inside g v \<and> connections v = connections h \<union> {c}"
      using keepConnection_collects [OF assms(1)] assms(2) unfolding inside_def by blast
  qed
  then show ?thesis by (simp add: keepBranch_def)
qed

section \<open>Graphs without disabled nodes\<close>

definition all_enabled :: "DirectedGraph \<Rightarrow> bool" where
  "all_enabled g = (\<forall>n. hasNode g n \<longrightarrow> \<not> truthy (disabled n))"

text \<open>The connections whose end leads to the destination.\<close>

definition towards :: "DirectedGraph \<Rightarrow> INode \<Rightarrow> GraphConnection set" where
  "towards g dest = {c \<in> connections g. (gto c, dest) \<in> (graph_edges g)\<^sup>*}"

definition between :: "DirectedGraph \<Rightarrow> INode \<Rightarrow> DirectedGraph \<Rightarrow> DirectedGraph \<Rightarrow> bool" where
  "between g dest ng ng' = (inside g ng' \<and> connections ng \<subseteq> connections ng' \<and>
     connections ng' \<subseteq> connections ng \<union> towards g dest)"

lemma between_refl: "inside g ng \<Longrightarrow> between g dest ng ng"
  by (simp add: between_def)

lemma between_trans: "between g dest a b \<Longrightarrow> between g dest b c \<Longrightarrow> between g dest a c"
  by (auto simp: between_def)

definition unvisited_nodes :: "DirectedGraph \<Rightarrow> GraphConnection list \<Rightarrow> INode set" where
  "unvisited_nodes g branch = {n. hasNode g n} - gto ` set branch"

lemma getDirectParents_total:
  assumes "hasNode g n"
  shows "\<exists>ps. getDirectParents g n = Inr ps \<and> set ps = {c \<in> connections g. gto c = n}"
proof -
  from assms have "getDirectParents g n = Inr (filter (\<lambda>c. gto c = n) (map_values (gconns g)))"
    by (simp add: getDirectParents_Inr)
  then show ?thesis using set_getDirectParents by blast
qed

text \<open>One call of the search: where it stands, and enough depth.\<close>

definition call_ok :: "nat \<Rightarrow> DirectedGraph \<Rightarrow> INode \<Rightarrow> INode \<Rightarrow> GraphConnection list \<Rightarrow> DirectedGraph \<Rightarrow> bool" where
  "call_ok fuel g dest current branch ng \<longleftrightarrow>
     hasNode g current \<and> (current, dest) \<in> (graph_edges g)\<^sup>* \<and> set branch \<subseteq> towards g dest \<and> inside g ng \<and>
     card (unvisited_nodes g branch) < fuel"

lemma call_ok_parent:
  assumes "wf_graph g" "call_ok (Suc fuel) g dest current branch ng" "p \<in> connections g" "gto p = current"
    and "\<not> list_ex (\<lambda>c. gto c = current) branch" "inside g ng'"
  shows "call_ok fuel g dest (gfrom p) (branch @ [p]) ng'"
proof -
  have cur: "hasNode g current" "(current, dest) \<in> (graph_edges g)\<^sup>*" using assms(2) by (simp_all add: call_ok_def)
  have edge: "(gfrom p, current) \<in> graph_edges g" using assms(3,4) by (force simp: graph_edges_def)
  have "current \<in> unvisited_nodes g branch"
    using cur assms(5) by (auto simp: unvisited_nodes_def list_ex_iff)
  moreover have "unvisited_nodes g (branch @ [p]) = unvisited_nodes g branch - {current}"
    using assms(4) by (auto simp: unvisited_nodes_def)
  moreover have "finite (unvisited_nodes g branch)"
    using finite_hasNode [of g] by (simp add: unvisited_nodes_def)
  ultimately have "card (unvisited_nodes g (branch @ [p])) < card (unvisited_nodes g branch)"
    by (simp only: card_Diff1_less)
  moreover have "p \<in> towards g dest" using assms(3,4) cur by (simp add: towards_def)
  ultimately show ?thesis
    using assms(2,3,6) edge cur wf_graph_conn(1) [OF assms(1,3)]
    by (auto simp: call_ok_def intro: converse_rtrancl_into_rtrancl)
qed

lemma subgraph_visit:
  assumes "getDirectParents g current = Inr ps" "current \<noteq> trigger" "\<not> truthy (disabled current)"
    and "\<not> list_ex (\<lambda>c. gto c = current) branch"
  shows "findSubgraphRecursive (Suc fuel) g dest current trigger branch ng =
    foldR (\<lambda>p ng. findSubgraphRecursive fuel g dest (gfrom p) trigger (branch @ [p]) ng) ps ng"
proof -
  have "current = dest \<Longrightarrow> \<not> list_ex (\<lambda>c. gto c = dest) branch" using assms(4) by blast
  with assms show ?thesis by (cases "current = dest") simp_all
qed

lemma subgraph_total:
  assumes "wf_graph g" "all_enabled g" "call_ok fuel g dest current branch ng"
  shows "\<exists>ng'. findSubgraphRecursive fuel g dest current trigger branch ng = Inr ng' \<and> between g dest ng ng'"
  using assms(3)
proof (induction fuel arbitrary: current branch ng)
  case 0
  then show ?case by (simp add: call_ok_def)
next
  case (Suc fuel)
  have cur: "hasNode g current" "set branch \<subseteq> towards g dest" "inside g ng"
    using Suc.prems by (simp_all add: call_ok_def)
  have "set branch \<subseteq> connections g" using cur(2) by (auto simp: towards_def)
  from keepBranch_collects [OF assms(1) this cur(3)] cur(2) obtain kept where
    kept: "keepBranch branch ng = Inr kept" "between g dest ng kept" by (auto simp: between_def)
  obtain ps where ps: "getDirectParents g current = Inr ps" "set ps = {c \<in> connections g. gto c = current}"
    using getDirectParents_total [OF cur(1)] by blast
  show ?case
  proof (cases "current = trigger \<or> ps = [] \<or> list_ex (\<lambda>c. gto c = current) branch")
    case True
    then have "findSubgraphRecursive (Suc fuel) g dest current trigger branch ng = Inr kept \<or>
        findSubgraphRecursive (Suc fuel) g dest current trigger branch ng = Inr ng"
      by (simp add: kept(1) ps(1)) metis
    then show ?thesis using kept(2) between_refl [OF cur(3)] by auto
  next
    case False
    have "\<exists>ng'. foldR (\<lambda>p ng. findSubgraphRecursive fuel g dest (gfrom p) trigger (branch @ [p]) ng) ps ng = Inr ng' \<and>
        between g dest ng ng'"
    proof (rule foldR_total [where P = "between g dest ng", OF between_refl [OF cur(3)]])
      fix p u assume p: "p \<in> set ps" and u: "between g dest ng u"
      have "call_ok fuel g dest (gfrom p) (branch @ [p]) u"
        using call_ok_parent [OF assms(1) Suc.prems] p ps(2) False u by (simp add: between_def)
      from Suc.IH [OF this] between_trans [OF u]
      show "\<exists>v. findSubgraphRecursive fuel g dest (gfrom p) trigger (branch @ [p]) u = Inr v \<and> between g dest ng v"
        by blast
    qed
    moreover have "\<not> truthy (disabled current)" using assms(2) cur(1) by (simp add: all_enabled_def)
    ultimately show ?thesis using subgraph_visit [OF ps(1)] False by simp
  qed
qed

text \<open>Paths as lists of connections.\<close>

fun conn_path :: "INode \<Rightarrow> GraphConnection list \<Rightarrow> INode \<Rightarrow> bool" where
  "conn_path a [] b = (a = b)"
| "conn_path a (c # cs) b = (gfrom c = a \<and> conn_path (gto c) cs b)"

lemma conn_path_snoc: "conn_path a (cs @ [c]) b \<longleftrightarrow> conn_path a cs (gfrom c) \<and> gto c = b"
  by (induction cs arbitrary: a) auto

lemma conn_path_end: "conn_path a cs b \<Longrightarrow> b \<in> insert a (gto ` set cs)"
  by (induction cs arbitrary: a) auto

lemma subgraph_path:
  assumes "wf_graph g" "all_enabled g" "call_ok fuel g dest current branch ng"
    and "conn_path trigger path current" "set path \<subseteq> connections g" "distinct (trigger # map gto path)"
    and "insert trigger (gto ` set path) \<inter> gto ` set branch = {}"
    and "findSubgraphRecursive fuel g dest current trigger branch ng = Inr ng'"
  shows "set branch \<union> set path \<subseteq> connections ng'"
  using assms(3-)
proof (induction path arbitrary: fuel current branch ng ng' rule: rev_induct)
  case Nil
  then obtain f where f: "fuel = Suc f" by (cases fuel) (auto simp: call_ok_def)
  have "keepBranch branch ng = Inr ng'" using Nil f by auto
  moreover have "set branch \<subseteq> connections g" "inside g ng" using Nil.prems(1) by (auto simp: call_ok_def towards_def)
  ultimately show ?case using keepBranch_collects [OF assms(1), of branch ng] by auto
next
  case (snoc p path)
  then obtain f where f: "fuel = Suc f" by (cases fuel) (auto simp: call_ok_def)
  have cur: "hasNode g current" using snoc.prems(1) by (simp add: call_ok_def)
  have path: "conn_path trigger path (gfrom p)" "gto p = current" using snoc.prems(2) by (simp_all add: conn_path_snoc)
  have new: "\<not> list_ex (\<lambda>c. gto c = current) branch" "current \<noteq> trigger"
  proof -
    have "gto p \<notin> gto ` set branch" "gto p \<noteq> trigger" using snoc.prems(4,5) by auto
    then show "\<not> list_ex (\<lambda>c. gto c = current) branch" "current \<noteq> trigger"
      unfolding path(2) list_ex_iff image_iff by metis+
  qed
  obtain ps where ps: "getDirectParents g current = Inr ps" "set ps = {c \<in> connections g. gto c = current}"
    using getDirectParents_total [OF cur] by blast
  have "p \<in> set ps" using ps(2) snoc.prems(3) path(2) by simp
  then obtain xs ys where split: "ps = xs @ p # ys" by (meson split_list)
  let ?rec = "\<lambda>p ng. findSubgraphRecursive f g dest (gfrom p) trigger (branch @ [p]) ng"
  have "\<not> truthy (disabled current)" using assms(2) cur by (simp add: all_enabled_def)
  then have run: "foldR ?rec ps ng = Inr ng'"
    using snoc.prems(6) subgraph_visit [OF ps(1) new(2) _ new(1)] by (simp add: f)
  have some: "\<exists>v. foldR ?rec qs u = Inr v \<and> between g dest u v" if "set qs \<subseteq> set ps" "inside g u" for qs u
  proof (rule foldR_total [where P = "between g dest u", OF between_refl [OF that(2)]])
    fix q v assume "q \<in> set qs" and v: "between g dest u v"
    then have "call_ok f g dest (gfrom q) (branch @ [q]) v"
      using call_ok_parent [OF assms(1) snoc.prems(1) [unfolded f]] that(1) ps(2) new(1) by (auto simp: between_def)
    from subgraph_total [OF assms(1,2) this] between_trans [OF v]
    show "\<exists>w. ?rec q v = Inr w \<and> between g dest u w" by blast
  qed
  have "inside g ng" using snoc.prems(1) by (simp add: call_ok_def)
  then obtain a where a: "foldR ?rec xs ng = Inr a" "between g dest ng a" using some [of xs ng] split by auto
  then obtain b where b: "?rec p a = Inr b" "foldR ?rec ys b = Inr ng'"
    using run split by (auto simp: foldR_append bindR_Inr_iff)
  have ok: "call_ok f g dest (gfrom p) (branch @ [p]) a"
    using call_ok_parent [OF assms(1) snoc.prems(1) [unfolded f] _ path(2) new(1)] snoc.prems(3) a(2)
    by (simp add: between_def)
  have "insert trigger (gto ` set path) \<inter> gto ` set (branch @ [p]) = {}"
    using snoc.prems(4,5) by auto
  with snoc.IH [OF ok path(1) _ _ _ b(1)] snoc.prems(3,4) have "set (branch @ [p]) \<union> set path \<subseteq> connections b"
    by simp
  moreover have "inside g b" using subgraph_total [OF assms(1,2) ok, of trigger] b(1) by (auto simp: between_def)
  then have "connections b \<subseteq> connections ng'" using some [of ys b] b(2) split by (auto simp: between_def)
  ultimately show ?case by auto
qed

text \<open>C33: without disabled nodes the search for the subgraph returns, with a depth of at most one more
  than there are nodes. The subgraph has only connections from which the destination can be
  reached, and every connection on a way from the trigger to the destination that meets no node
  twice.\<close>

theorem findSubgraph_keeps_paths:
  assumes "wf_graph g" "all_enabled g" "hasNode g dest" "card {n. hasNode g n} < fuel"
  shows "\<exists>sub. findSubgraph fuel g dest trigger = Inr sub \<and> wf_graph sub \<and> connections sub \<subseteq> towards g dest \<and>
    (\<forall>path. conn_path trigger path dest \<and> set path \<subseteq> connections g \<and> distinct (trigger # map gto path) \<longrightarrow>
      set path \<subseteq> connections sub)"
proof -
  have no: "wf_graph empty_graph" "connections empty_graph = {}" "\<And>n. \<not> hasNode empty_graph n"
    using wf_graph_empty by (simp_all add: connections_def empty_graph_def map_values_def hasNode_def)
  have ok: "call_ok fuel g dest dest [] empty_graph"
    using assms(3,4) no by (simp add: call_ok_def unvisited_nodes_def inside_def)
  from subgraph_total [OF assms(1,2) ok] obtain sub where
    sub: "findSubgraphRecursive fuel g dest dest trigger [] empty_graph = Inr sub" "between g dest empty_graph sub" by blast
  with no(2) have "wf_graph sub \<and> connections sub \<subseteq> towards g dest" by (simp add: between_def inside_def)
  then show ?thesis using subgraph_path [OF assms(1,2) ok] sub(1) unfolding findSubgraph_def by auto
qed

lemma sample_cycle_nodes: "{n. hasNode sample_cycle n} = {sample_a, sample_b}"
  by (auto simp: hasNode_def sample_cycle_def sample_a_def sample_b_def plain_node_def split: if_splits)

lemma sample_cycle_edge: "sample_edge sample_a sample_b \<in> connections sample_cycle"
  by (simp add: connections_def map_values_def sample_cycle_def)

theorem findSubgraph_keeps_paths_witness:
  "\<exists>sub. findSubgraph 3 sample_cycle sample_b sample_a = Inr sub \<and> sample_edge sample_a sample_b \<in> connections sub"
proof -
  have enabled: "all_enabled sample_cycle"
  proof -
    have "\<not> truthy (disabled n)" if "n \<in> {sample_a, sample_b}" for n
      using that by (elim insertE emptyE) (simp_all add: sample_a_def sample_b_def plain_node_def)
    then show ?thesis using sample_cycle_nodes unfolding all_enabled_def by blast
  qed
  have size: "card {n. hasNode sample_cycle n} < 3" unfolding sample_cycle_nodes
    by (simp add: card_insert_if)
  have "hasNode sample_cycle sample_b" using sample_cycle_nodes by blast
  from findSubgraph_keeps_paths [OF wf_sample_cycle enabled this size, of sample_a] obtain sub where
    sub: "findSubgraph 3 sample_cycle sample_b sample_a = Inr sub" and
    paths: "\<forall>path. conn_path sample_a path sample_b \<and> set path \<subseteq> connections sample_cycle \<and>
      distinct (sample_a # map gto path) \<longrightarrow> set path \<subseteq> connections sub" by blast
  have "sample_a \<noteq> sample_b" by (simp add: sample_a_def sample_b_def plain_node_def)
  with paths [rule_format, of "[sample_edge sample_a sample_b]"] sample_cycle_edge sub show ?thesis
    by (simp add: sample_edge_def)
qed

section \<open>Disabled nodes\<close>

definition switched_off :: INode where
  "switched_off = (plain_node 3 ''d'' ''set'')\<lparr>disabled := Some True\<rparr>"

definition sample_x :: INode where "sample_x = plain_node 4 ''x'' ''set''"

definition graph_of :: "INode list \<Rightarrow> GraphConnection list \<Rightarrow> DirectedGraph" where
  "graph_of ns cs = \<lparr>gnodes = map (\<lambda>n. (nodeName n, n)) ns, gconns = map (\<lambda>c. (makeKey c, c)) cs\<rparr>"

text \<open>
  The array of the branch is changed while it is joined: with two nodes in front of a disabled one
  the branch of the first keeps the connection of the second, which the trigger does not lead to.
\<close>

definition two_before_disabled :: DirectedGraph where
  "two_before_disabled = graph_of [sample_a, sample_x, switched_off, sample_b]
     [sample_edge sample_a switched_off, sample_edge sample_x switched_off, sample_edge switched_off sample_b]"

lemma sample_node_facts [js_simps]:
  "nodeName sample_a = ''a''" "nodeName sample_b = ''b''" "nodeName sample_x = ''x''"
  "nodeName switched_off = ''d''" "\<not> truthy (disabled sample_a)" "\<not> truthy (disabled sample_b)"
  "\<not> truthy (disabled sample_x)" "truthy (disabled switched_off)"
  by (simp_all add: sample_a_def sample_b_def sample_x_def switched_off_def plain_node_def)

lemma sample_node_neq [js_simps]:
  "sample_a \<noteq> sample_b" "sample_b \<noteq> sample_a" "sample_a \<noteq> switched_off" "switched_off \<noteq> sample_a"
  "sample_b \<noteq> switched_off" "switched_off \<noteq> sample_b" "sample_x \<noteq> sample_a" "sample_x \<noteq> sample_b"
  "sample_x \<noteq> switched_off" "switched_off \<noteq> sample_x" "sample_a \<noteq> sample_x" "sample_b \<noteq> sample_x"
  by (simp_all add: sample_a_def sample_b_def sample_x_def switched_off_def plain_node_def)

lemma two_before_disabled_edges [js_simps]:
  "getDirectParents two_before_disabled sample_b = Inr [sample_edge switched_off sample_b]"
  "getDirectParents two_before_disabled switched_off =
     Inr [sample_edge sample_a switched_off, sample_edge sample_x switched_off]"
  "getDirectParents two_before_disabled sample_x = Inr []"
  "getDirectChildren two_before_disabled switched_off = Inr [sample_edge switched_off sample_b]"
  by (simp_all add: getDirectParents_def getDirectChildren_def two_before_disabled_def graph_of_def hasNode_def
      map_values_def sample_edge_def js_simps)

lemma disabled_keeps_other_parent:
  "\<exists>sub. findSubgraph 4 two_before_disabled sample_b sample_a = Inr sub \<and>
     sample_edge sample_x sample_b \<in> connections sub \<and> hasNode sub sample_x"
proof -
  let ?new = "graph_of [sample_x, sample_b, sample_a] [sample_edge sample_x sample_b, sample_edge sample_a sample_b]"
  have "keepBranch [sample_edge sample_x sample_b, sample_edge sample_a sample_b] empty_graph = Inr ?new"
    by (simp add: keepBranch_def keepConnection_def addNodes_def addNode_def addConnection_def hasNode_def
        empty_graph_def to_input_def of_input_def makeKey_def sample_edge_def graph_of_def js_simps)
  then have "findSubgraph 4 two_before_disabled sample_b sample_a = Inr ?new"
    by (simp add: findSubgraph_def eval_nat_numeral joinDisabled_def sample_edge_def js_simps)
  then show ?thesis by (simp add: graph_of_def connections_def map_values_def hasNode_def js_simps)
qed

text \<open>
  A disabled node that leads back to itself from its second output is never found in the branch,
  since the joined connections end behind it: the recursion does not end.
\<close>

definition loop_on_disabled :: DirectedGraph where
  "loop_on_disabled = graph_of [sample_a, switched_off, sample_b]
     [(sample_edge switched_off switched_off)\<lparr>outputIndex := 1\<rparr>, sample_edge sample_a switched_off,
      sample_edge switched_off sample_b]"

lemma loop_on_disabled_edges [js_simps]:
  "getDirectParents loop_on_disabled sample_b = Inr [sample_edge switched_off sample_b]"
  "getDirectParents loop_on_disabled switched_off =
     Inr [(sample_edge switched_off switched_off)\<lparr>outputIndex := 1\<rparr>, sample_edge sample_a switched_off]"
  "getDirectChildren loop_on_disabled switched_off =
     Inr [(sample_edge switched_off switched_off)\<lparr>outputIndex := 1\<rparr>, sample_edge switched_off sample_b]"
  by (simp_all add: getDirectParents_def getDirectChildren_def loop_on_disabled_def graph_of_def hasNode_def
      map_values_def sample_edge_def js_simps)

lemma disabled_loop_recursion:
  "\<forall>c \<in> set branch. gto c \<noteq> switched_off \<Longrightarrow>
     findSubgraphRecursive fuel loop_on_disabled sample_b switched_off sample_a branch ng = Inl None"
proof (induction fuel arbitrary: branch ng)
  case (Suc fuel)
  let ?loop = "(sample_edge switched_off sample_b)\<lparr>outputIndex := 1\<rparr>"
  have ends: "gto (sample_edge n sample_b) \<noteq> switched_off" for n by (simp add: sample_edge_def js_simps)
  then have "\<forall>c \<in> set (butlast branch @ [sample_edge sample_a sample_b] @ [?loop]). gto c \<noteq> switched_off"
    using Suc.prems by (auto dest: in_set_butlastD)
  from Suc.IH [OF this] Suc.prems show ?case
    by (simp add: joinDisabled_def sample_edge_def js_simps list_ex_iff)
qed simp

lemma disabled_loop_diverges: "findSubgraph fuel loop_on_disabled sample_b sample_a = Inl None"
proof (cases fuel)
  case (Suc f)
  have "findSubgraphRecursive f loop_on_disabled sample_b switched_off sample_a
      [sample_edge switched_off sample_b] empty_graph = Inl None"
    by (rule disabled_loop_recursion) (simp add: sample_edge_def js_simps)
  then show ?thesis by (simp add: Suc findSubgraph_def sample_edge_def js_simps)
qed (simp add: findSubgraph_def)

end
