(* ===== verification/PartialStack.thy ===== *)
theory PartialStack
  imports ExecutionEnd PartialSubgraph
begin

text \<open>
  The end of the preparation of a partial execution: \<open>getSourceDataGroups.ts\<close> and
  \<open>recreateNodeExecutionStack.ts\<close>, and \<open>runPartialWorkflow2\<close> of \<open>WorkflowExecute.ts\<close>, which calls all of
  \<open>PartialExecutionUtils\<close> in order. \<open>String.prototype.localeCompare\<close> depends on the locale of the
  process and is an argument.
\<close>

section \<open>Sorting\<close>

text \<open>
  \<open>Array.prototype.sort\<close> with a comparison that is a total preorder: the result is the stable one,
  which insertion computes.
\<close>

primrec js_insert :: "('a \<Rightarrow> 'a \<Rightarrow> int) \<Rightarrow> 'a \<Rightarrow> 'a list \<Rightarrow> 'a list" where
  "js_insert compare x [] = [x]"
| "js_insert compare x (y # ys) = (if compare x y < 0 then x # y # ys else y # js_insert compare x ys)"

definition js_sort :: "('a \<Rightarrow> 'a \<Rightarrow> int) \<Rightarrow> 'a list \<Rightarrow> 'a list" where
  "js_sort compare xs = fold (js_insert compare) xs []"

lemma mset_js_insert [simp]: "mset (js_insert compare x ys) = add_mset x (mset ys)"
  by (induction ys) auto

lemma mset_fold_js_insert: "mset (fold (js_insert compare) xs ys) = mset xs + mset ys"
  by (induction xs arbitrary: ys) auto

lemma mset_js_sort [simp]: "mset (js_sort compare xs) = mset xs"
  by (simp add: js_sort_def mset_fold_js_insert)

text \<open>Sorting by a comparison that looks at a number first sorts by that number.\<close>

lemma sorted_js_insert:
  fixes key :: "'a \<Rightarrow> nat"
  assumes "\<And>x y. key x < key y \<Longrightarrow> compare x y < 0" "\<And>x y. key y < key x \<Longrightarrow> \<not> compare x y < 0"
  shows "sorted (map key ys) \<Longrightarrow> sorted (map key (js_insert compare x ys))"
proof (induction ys)
  case (Cons y ys)
  have members: "set (js_insert compare x ys) = insert x (set ys)"
    using mset_js_insert [of compare x ys] by (metis set_mset_add_mset_insert set_mset_mset)
  have "key x \<le> key y" if "compare x y < 0" using assms(2) [of y x] that by (meson not_less)
  moreover have "key y \<le> key x" if "\<not> compare x y < 0" using assms(1) [of x y] that by (meson not_less)
  ultimately show ?case using Cons members by force
qed simp

lemma sorted_js_sort:
  fixes key :: "'a \<Rightarrow> nat"
  assumes "\<And>x y. key x < key y \<Longrightarrow> compare x y < 0" "\<And>x y. key y < key x \<Longrightarrow> \<not> compare x y < 0"
  shows "sorted (map key (js_sort compare xs))"
proof -
  have "sorted (map key ys) \<Longrightarrow> sorted (map key (fold (js_insert compare) xs ys))" for ys
    by (induction xs arbitrary: ys) (simp_all add: sorted_js_insert assms)
  from this [of "[]"] show ?thesis by (simp add: js_sort_def)
qed

section \<open>getSourceDataGroups\<close>

type_synonym locale_compare = "string \<Rightarrow> string \<Rightarrow> int"

definition sortByInputIndexThenByName :: "locale_compare \<Rightarrow> GraphConnection \<Rightarrow> GraphConnection \<Rightarrow> int" where
  "sortByInputIndexThenByName localeCompare c1 c2 =
     (if inputIndex c1 = inputIndex c2 then localeCompare (nodeName (gfrom c1)) (nodeName (gfrom c2))
      else int (inputIndex c1) - int (inputIndex c2))"

text \<open>The \<open>while\<close> loop; the connection that \<open>findIndex\<close> finds is taken out of the array.\<close>

function groupLoop ::
  "GraphConnection list \<Rightarrow> GraphConnection list list \<Rightarrow> GraphConnection list \<Rightarrow> int \<Rightarrow> GraphConnection list list" where
  "groupLoop cs groups currentGroup currentInputIndex =
     (if cs = [] then groups @ [currentGroup]
      else case List.extract (\<lambda>c. int (inputIndex c) > currentInputIndex) cs of
        None \<Rightarrow> groupLoop cs (groups @ [currentGroup]) [] (-1)
      | Some (before, connection, after) \<Rightarrow>
          groupLoop (before @ after) groups (currentGroup @ [connection]) (int (inputIndex connection)))"
  by pat_completeness auto
termination
proof (relation "measure (\<lambda>(cs, _, _, i). 2 * length cs + (if i < 0 then 0 else 1))", goal_cases)
  case 1
  show ?case by (rule wf_measure)
next
  case (2 cs groups current i)
  then have "\<not> i < int (inputIndex (hd cs))" by (simp add: extract_None_iff)
  then show ?case by simp
next
  case (3 cs groups current i found before r c after)
  then have "cs = before @ c # after" using extract_SomeE [of _ cs before c after] by metis
  then show ?case by simp
qed

declare groupLoop.simps [simp del]

definition hasSourceData :: "IRunData \<Rightarrow> IPinData \<Rightarrow> GraphConnection \<Rightarrow> bool" where
  "hasSourceData rd pinned connection =
     (map_of rd (nodeName (gfrom connection)) \<noteq> None \<or> map_of pinned (nodeName (gfrom connection)) \<noteq> None)"

definition getSourceDataGroups ::
  "locale_compare \<Rightarrow> DirectedGraph \<Rightarrow> INode \<Rightarrow> IRunData \<Rightarrow> IPinData \<Rightarrow> GraphConnection list list" where
  "getSourceDataGroups localeCompare g node rd pinned =
     groupLoop
       (js_sort (sortByInputIndexThenByName localeCompare)
         (filter (hasSourceData rd pinned) (getConnections g (Some node))))
       [] [] (-1)"

subsection \<open>One round of the loop\<close>

text \<open>The connections one round takes after input \<open>i\<close>, and those it leaves.\<close>

primrec taken :: "int \<Rightarrow> GraphConnection list \<Rightarrow> GraphConnection list" where
  "taken i [] = []"
| "taken i (c # cs) = (if int (inputIndex c) > i then c # taken (int (inputIndex c)) cs else taken i cs)"

primrec left :: "int \<Rightarrow> GraphConnection list \<Rightarrow> GraphConnection list" where
  "left i [] = []"
| "left i (c # cs) = (if int (inputIndex c) > i then left (int (inputIndex c)) cs else c # left i cs)"

lemma taken_skip: "\<forall>c \<in> set cs. int (inputIndex c) \<le> i \<Longrightarrow> taken i (cs @ ds) = taken i ds"
  by (induction cs) auto

lemma left_skip: "\<forall>c \<in> set cs. int (inputIndex c) \<le> i \<Longrightarrow> left i (cs @ ds) = cs @ left i ds"
  by (induction cs) auto

lemma groupLoop_round:
  "groupLoop cs groups current i =
     (if left i cs = [] then groups @ [current @ taken i cs]
      else groupLoop (left i cs) (groups @ [current @ taken i cs]) [] (-1))"
proof (induction "length cs" arbitrary: cs current i)
  case 0
  then show ?case by (simp add: groupLoop.simps)
next
  case (Suc n)
  show ?case
  proof (cases "List.extract (\<lambda>c. int (inputIndex c) > i) cs")
    case None
    then have old: "\<forall>c \<in> set cs. int (inputIndex c) \<le> i" by (auto simp: extract_None_iff)
    from Suc.hyps(2) have "cs \<noteq> []" by auto
    with None taken_skip [OF old, of "[]"] left_skip [OF old, of "[]"] show ?thesis
      by (simp add: groupLoop.simps [of cs])
  next
    case (Some found)
    obtain xs c ys where found: "found = (xs, c, ys)" by (cases found)
    with Some have cs: "cs = xs @ c # ys" "int (inputIndex c) > i" "\<forall>x \<in> set xs. \<not> int (inputIndex x) > i"
      using extract_SomeE by (fastforce simp: extract_Some_iff)+
    then have old: "\<forall>x \<in> set xs. int (inputIndex x) \<le> i" "\<forall>x \<in> set xs. int (inputIndex x) \<le> int (inputIndex c)"
      by auto
    have "groupLoop cs groups current i = groupLoop (xs @ ys) groups (current @ [c]) (int (inputIndex c))"
      using Some Suc.hyps(2) by (subst groupLoop.simps) (auto simp: found)
    also have "n = length (xs @ ys)" using Suc.hyps(2) cs(1) by simp
    note Suc.hyps(1) [OF this]
    finally show ?thesis
      using cs(2) by (simp add: cs(1) taken_skip [OF old(1)] taken_skip [OF old(2)] left_skip [OF old(1)]
          left_skip [OF old(2)])
  qed
qed

text \<open>A round takes the first connection of every input when they are sorted.\<close>

lemma inputs_taken:
  "sorted (map inputIndex cs) \<Longrightarrow> filter (\<lambda>c. inputIndex c = k) (taken i cs) =
     (if int k > i then take 1 (filter (\<lambda>c. inputIndex c = k) cs) else [])"
proof (induction cs arbitrary: i)
  case (Cons c cs)
  have none: "filter (\<lambda>d. inputIndex d = k) cs = []" if "k < inputIndex c"
    using Cons.prems that by (auto simp: filter_empty_conv)
  show ?case using Cons none by (cases "k < inputIndex c") auto
qed simp

lemma inputs_left:
  "sorted (map inputIndex cs) \<Longrightarrow> filter (\<lambda>c. inputIndex c = k) (left i cs) =
     (if int k > i then drop 1 (filter (\<lambda>c. inputIndex c = k) cs) else filter (\<lambda>c. inputIndex c = k) cs)"
proof (induction cs arbitrary: i)
  case (Cons c cs)
  have none: "filter (\<lambda>d. inputIndex d = k) cs = []" if "k < inputIndex c"
    using Cons.prems that by (auto simp: filter_empty_conv)
  show ?case using Cons none by (cases "k < inputIndex c") auto
qed simp

lemma taken_increasing:
  "sorted_wrt (<) (map inputIndex (taken i cs)) \<and> (\<forall>c \<in> set (taken i cs). int (inputIndex c) > i)"
  by (induction cs arbitrary: i) force+

lemma left_sorted: "sorted (map inputIndex cs) \<Longrightarrow> sorted (map inputIndex (left i cs))"
proof (induction cs arbitrary: i)
  case (Cons c cs)
  have "set (left i cs) \<subseteq> set cs" for i by (induction cs arbitrary: i) auto
  with Cons show ?case by auto
qed simp

lemma left_shorter: "cs \<noteq> [] \<Longrightarrow> length (left (-1) cs) < length cs"
proof (cases cs)
  case (Cons c cs')
  have "length (left i cs') \<le> length cs'" for i by (induction cs' arbitrary: i) (auto intro: le_SucI)
  with Cons show ?thesis by (simp add: less_Suc_eq_le)
qed simp

lemma mset_taken_left: "mset (taken i cs) + mset (left i cs) = mset cs"
  by (induction cs arbitrary: i) auto

subsection \<open>The groups\<close>

text \<open>\<open>groups_ok cs groups\<close>: the groups share out \<open>cs\<close>, one connection of every input in each round.\<close>

definition groups_ok :: "GraphConnection list \<Rightarrow> GraphConnection list list \<Rightarrow> bool" where
  "groups_ok cs groups \<longleftrightarrow> mset (concat groups) = mset cs \<and>
     list_all (\<lambda>group. sorted_wrt (<) (map inputIndex group)) groups \<and>
     ([] \<in> set groups \<longleftrightarrow> cs = []) \<and>
     (\<forall>i. map (filter (\<lambda>c. inputIndex c = i)) groups =
        map (\<lambda>k. take 1 (drop k (filter (\<lambda>c. inputIndex c = i) cs))) [0..<length groups])"

lemma groups_ok_round:
  assumes "sorted (map inputIndex cs)" "cs \<noteq> []" "left (-1) cs \<noteq> []" "groups_ok (left (-1) cs) groups"
  shows "groups_ok cs (taken (-1) cs # groups)"
proof -
  have "map (filter (\<lambda>c. inputIndex c = i)) (taken (-1) cs # groups) =
      map (\<lambda>k. take 1 (drop k (filter (\<lambda>c. inputIndex c = i) cs))) [0..<Suc (length groups)]" for i
  proof -
    have "map (filter (\<lambda>c. inputIndex c = i)) groups =
        map (\<lambda>k. take 1 (drop (Suc k) (filter (\<lambda>c. inputIndex c = i) cs))) [0..<length groups]"
      using assms(4) inputs_left [OF assms(1), of i "-1"] by (simp add: groups_ok_def)
    then show ?thesis using inputs_taken [OF assms(1), of i "-1"]
      by (simp add: upt_conv_Cons map_Suc_upt [symmetric] comp_def del: upt_Suc map_Suc_upt)
  qed
  moreover have "taken (-1) cs \<noteq> []" using assms(2) by (cases cs) simp_all
  ultimately show ?thesis
    using assms(2-4) taken_increasing [of "-1" cs] mset_taken_left [of "-1" cs] by (auto simp: groups_ok_def)
qed

lemma groupLoop_groups:
  "sorted (map inputIndex cs) \<Longrightarrow> \<exists>new. groupLoop cs groups [] (-1) = groups @ new \<and> groups_ok cs new"
proof (induction "length cs" arbitrary: cs groups rule: less_induct)
  case less
  show ?case
  proof (cases "left (-1) cs = []")
    case True
    have "filter (\<lambda>c. inputIndex c = i) (taken (-1) cs) = take 1 (filter (\<lambda>c. inputIndex c = i) cs)" for i
      using inputs_taken [OF less.prems, of i "-1"] by simp
    moreover have "mset (taken (-1) cs) = mset cs" using mset_taken_left [of "-1" cs] True by simp
    moreover from this have "taken (-1) cs = [] \<longleftrightarrow> cs = []" by auto
    ultimately show ?thesis using True taken_increasing [of "-1" cs]
      by (subst groupLoop_round) (auto simp: groups_ok_def)
  next
    case False
    then have "cs \<noteq> []" by auto
    from less.hyps [OF left_shorter [OF this] left_sorted [OF less.prems], of "groups @ [taken (-1) cs]"]
    obtain new where "groupLoop (left (-1) cs) (groups @ [taken (-1) cs]) [] (-1) = groups @ taken (-1) cs # new"
      "groups_ok (left (-1) cs) new" by auto
    with groups_ok_round [OF less.prems \<open>cs \<noteq> []\<close> False] False show ?thesis
      by (subst groupLoop_round) auto
  qed
qed

text \<open>The groups share out the connections that have data: in each group the inputs increase,
  the connections to one input are in the groups one by one in the order of the source names, from
  the first group on, and only without any connection there is an empty group.\<close>

theorem getSourceDataGroups_groups:
  "groups_ok (js_sort (sortByInputIndexThenByName localeCompare)
       (filter (hasSourceData rd pinned) (getConnections g (Some node))))
     (getSourceDataGroups localeCompare g node rd pinned)"
proof -
  have "sorted (map inputIndex (js_sort (sortByInputIndexThenByName localeCompare) cs))" for cs
    by (rule sorted_js_sort) (auto simp: sortByInputIndexThenByName_def)
  from groupLoop_groups [OF this, where groups = "[]"] show ?thesis by (auto simp: getSourceDataGroups_def)
qed

section \<open>recreateNodeExecutionStack\<close>

definition noDisabledNodes :: "DirectedGraph \<Rightarrow> unit res" where
  "noDisabledNodes g = foldR (\<lambda>node _. assertR (disabled node \<noteq> Some True)) (map_values (getNodes g)) ()"

text \<open>Every value is recorded here, zero too.\<close>

definition group_source :: "GraphConnection \<Rightarrow> ISourceData" where
  "group_source c =
     \<lparr>previousNode = nodeName (gfrom c), previousNodeOutput = Some (outputIndex c), previousNodeRun = Some 0\<rparr>"

definition groupInput ::
  "IRunData \<Rightarrow> IPinData \<Rightarrow> GraphConnection \<Rightarrow> outputs \<times> ISourceData slot list \<Rightarrow>
   (outputs \<times> ISourceData slot list) res" where
  "groupInput rd pinned c = (\<lambda>(incomingData, sources).
     bindR (case map_of pinned (nodeName (gfrom c)) of
         Some items \<Rightarrow> Inr (incomingData @ [SVal items])
       | None \<Rightarrow>
           bindR (assertR (map_of rd (nodeName (gfrom c)) \<noteq> None)) (\<lambda>_.
           bindR (getIncomingData rd (nodeName (gfrom c)) 0 (gtype c) (outputIndex c)) (\<lambda>d.
             Inr (case d of SVal items \<Rightarrow> incomingData @ [SVal items] | _ \<Rightarrow> incomingData))))
       (\<lambda>incomingData. Inr (incomingData, sources @ [SVal (group_source c)])))"

definition groupItem ::
  "IRunData \<Rightarrow> IPinData \<Rightarrow> INode \<Rightarrow> GraphConnection list \<Rightarrow> IExecuteData list \<Rightarrow> IExecuteData list res" where
  "groupItem rd pinned startNode sourceData stack =
     bindR (foldR (groupInput rd pinned) sourceData ([], [])) (\<lambda>(incomingData, sources).
       Inr (stack @ [\<lparr>ed_node = startNode, ed_data = [(Main, incomingData)], ed_source = Some [(Main, sources)]\<rparr>]))"

definition stackItems ::
  "locale_compare \<Rightarrow> DirectedGraph \<Rightarrow> IRunData \<Rightarrow> IPinData \<Rightarrow> INode \<Rightarrow> IExecuteData list \<Rightarrow>
   IExecuteData list res" where
  "stackItems localeCompare g rd pinned startNode stack =
     bindR (getDirectParents g startNode) (\<lambda>parents.
       if filter (\<lambda>c. gtype c = Main) parents = [] then Inr (stack @ [single_item startNode])
       else foldR (groupItem rd pinned startNode)
         (getSourceDataGroups localeCompare g startNode rd pinned) stack)"

definition waitForDestination ::
  "DirectedGraph \<Rightarrow> INode \<Rightarrow> IRunData \<Rightarrow> waiting_tables \<Rightarrow> waiting_tables res" where
  "waitForDestination g destinationNode rd tables =
     bindR (getDirectParents g destinationNode) (\<lambda>parents.
       foldR (\<lambda>c. waitForInput (nodeName destinationNode) rd (nodeName (gfrom c)) (gtype c) (inputIndex c))
         (filter (\<lambda>c. gtype c = Main) parents) tables)"

definition recreateNodeExecutionStack ::
  "locale_compare \<Rightarrow> DirectedGraph \<Rightarrow> INode list \<Rightarrow> INode \<Rightarrow> IRunData \<Rightarrow> IPinData \<Rightarrow>
   (IExecuteData list \<times> waiting_tables) res" where
  "recreateNodeExecutionStack localeCompare g startNodes destinationNode rd pinned =
     bindR (noDisabledNodes g) (\<lambda>_.
       foldR (\<lambda>startNode (stack, tables).
         bindR (stackItems localeCompare g rd pinned startNode stack) (\<lambda>stack.
         bindR (waitForDestination g destinationNode rd tables) (\<lambda>tables. Inr (stack, tables))))
       startNodes ([], ([], [])))"

section \<open>runPartialWorkflow2\<close>

text \<open>The properties of a workflow as parameters of a new one: \<open>{ ...workflow }\<close>.\<close>

definition spreadWorkflow :: "Workflow \<Rightarrow> WorkflowParameters" where
  "spreadWorkflow w = \<lparr>p_id = wf_id w, p_name = wf_name w, p_nodes = map_values (nodes w),
     p_connections = [], p_active = Some (active w), p_nodeTypes = nodeTypes w,
     p_staticData = Some (staticData w), p_executionOrder = executionOrder w, p_pinData = wf_pinData w\<rparr>"

definition partialState2 ::
  "nat \<Rightarrow> locale_compare \<Rightarrow> Workflow \<Rightarrow> IRunData \<Rightarrow> string option \<Rightarrow> IPinData option \<Rightarrow>
   (IRunExecutionData \<times> DirectedGraph) bounded_res" where
  "partialState2 fuel localeCompare w rd destinationNodeName pins =
     bindR (thrown (okR (nonempty_str destinationNodeName))) (\<lambda>name.
     bindR (thrown (okR (getNode w name))) (\<lambda>destinationNode.
     bindR (thrown (findTriggerForPartialExecution w name)) (\<lambda>found.
     case found of
       None \<Rightarrow> Inl (Some (ApplicationError
         ''The destination node is not connected to any trigger. Partial executions need a trigger.''))
     | Some trigger \<Rightarrow>
         bindR (thrown (fromWorkflow w)) (\<lambda>g.
         bindR (findSubgraph fuel g destinationNode trigger) (\<lambda>subgraph.
         bindR (thrown (findStartNodes subgraph trigger destinationNode rd [])) (\<lambda>startNodes.
         bindR (thrown (cleanRunData rd g startNodes)) (\<lambda>newRunData.
         bindR (thrown (recreateNodeExecutionStack localeCompare subgraph startNodes destinationNode rd
             (case pins of None \<Rightarrow> [] | Some pd \<Rightarrow> pd))) (\<lambda>(stack, (waiting, sources)).
           Inr (fresh_run
             \<lparr>sd_destinationNode = destinationNodeName,
              sd_runNodeFilter = Some (map nodeName (map_values (getNodes subgraph)))\<rparr>
             newRunData pins stack waiting sources, subgraph)))))))))"

definition runPartialWorkflow2 ::
  "nat \<Rightarrow> locale_compare \<Rightarrow> parameter_resolver \<Rightarrow> issue_finder \<Rightarrow> Env \<Rightarrow> (nat \<Rightarrow> Env) \<Rightarrow> Workflow \<Rightarrow>
   IRunData \<Rightarrow> string option \<Rightarrow> IPinData option \<Rightarrow> (IRun res \<times> LoopState) bounded_res" where
  "runPartialWorkflow2 fuel localeCompare getNodeParameters issues env envs w rd destinationNodeName pins =
     bindR (partialState2 fuel localeCompare w rd destinationNodeName pins) (\<lambda>(s, subgraph).
     bindR (thrown (toWorkflow getNodeParameters (spreadWorkflow w) subgraph)) (\<lambda>w'.
     bindR (thrown (processRunExecutionData fuel issues False env envs w' s)) (\<lambda>res.
       case res of None \<Rightarrow> Inl None | Some r \<Rightarrow> Inr r)))"

section \<open>What is queued\<close>

text \<open>The jobs of a start node without their data: one for each group of sources.\<close>

definition planned ::
  "locale_compare \<Rightarrow> DirectedGraph \<Rightarrow> IRunData \<Rightarrow> IPinData \<Rightarrow> INode \<Rightarrow>
   (INode \<times> ITaskDataConnectionsSource option) list" where
  "planned localeCompare g rd pinned n =
     (if filter (\<lambda>c. gto c = n \<and> gtype c = Main) (map_values (gconns g)) = [] then [(n, None)]
      else map (\<lambda>group. (n, Some [(Main, map (SVal \<circ> group_source) group)])) (getSourceDataGroups localeCompare g n rd pinned))"

definition job_plan :: "IExecuteData \<Rightarrow> INode \<times> ITaskDataConnectionsSource option" where
  "job_plan job = (ed_node job, ed_source job)"

lemma groupInput_sources:
  "groupInput rd pinned c (incoming, sources) = Inr (incoming', sources') \<Longrightarrow>
     sources' = sources @ [SVal (group_source c)]"
  by (auto simp: groupInput_def bindR_Inr_iff)

lemma group_sources:
  "foldR (groupInput rd pinned) grp (incoming, sources) = Inr (incoming', sources') \<Longrightarrow>
     sources' = sources @ map (SVal \<circ> group_source) grp"
proof (induction grp arbitrary: incoming sources)
  case (Cons c grp)
  then obtain i s where "groupInput rd pinned c (incoming, sources) = Inr (i, s)"
    "foldR (groupInput rd pinned) grp (i, s) = Inr (incoming', sources')" by (auto simp: bindR_Inr_iff)
  with Cons.IH [of i s] groupInput_sources show ?case by simp
qed simp

lemma groupItem_plan:
  assumes "groupItem rd pinned n grp stack = Inr stack'"
  shows "map job_plan stack' = map job_plan stack @ [(n, Some [(Main, map (SVal \<circ> group_source) grp)])]"
proof -
  from assms obtain i s where "foldR (groupInput rd pinned) grp ([], []) = Inr (i, s)"
    "stack' = stack @ [\<lparr>ed_node = n, ed_data = [(Main, i)], ed_source = Some [(Main, s)]\<rparr>]"
    by (auto simp: groupItem_def bindR_Inr_iff)
  with group_sources [OF this(1)] show ?thesis by (simp add: job_plan_def)
qed

lemma groupItems_plan:
  "foldR (groupItem rd pinned n) groups stack = Inr stack' \<Longrightarrow>
     map job_plan stack' = map job_plan stack @
       map (\<lambda>group. (n, Some [(Main, map (SVal \<circ> group_source) group)])) groups"
proof (induction groups arbitrary: stack)
  case (Cons grp groups)
  then obtain u where "groupItem rd pinned n grp stack = Inr u" "foldR (groupItem rd pinned n) groups u = Inr stack'"
    by (auto simp: bindR_Inr_iff)
  with Cons.IH [of u] groupItem_plan show ?case by simp
qed simp

lemma stackItems_plan:
  assumes "stackItems localeCompare g rd pinned n stack = Inr stack'"
  shows "map job_plan stack' = map job_plan stack @ planned localeCompare g rd pinned n \<and> hasNode g n"
proof -
  have parents: "filter (\<lambda>c. gtype c = Main) (filter (\<lambda>c. gto c = n) cs) = filter (\<lambda>c. gto c = n \<and> gtype c = Main) cs" for cs
    by (simp add: conj_commute)
  from assms have node: "hasNode g n" by (auto simp: stackItems_def bindR_Inr_iff getDirectParents_Inr)
  then have "getDirectParents g n = Inr (filter (\<lambda>c. gto c = n) (map_values (gconns g)))"
    by (simp add: getDirectParents_Inr)
  with assms node groupItems_plan show ?thesis
    by (auto simp: stackItems_def parents planned_def job_plan_def single_item_def split: if_splits)
qed

lemma stack_plan:
  "foldR (\<lambda>n (stack, tables).
       bindR (stackItems localeCompare g rd pinned n stack) (\<lambda>stack.
       bindR (waitForDestination g d rd tables) (\<lambda>tables. Inr (stack, tables)))) ns (stack, tables) =
     Inr (stack', tables') \<Longrightarrow>
   map job_plan stack' = map job_plan stack @ concat (map (planned localeCompare g rd pinned) ns) \<and>
   list_all (hasNode g) ns"
proof (induction ns arbitrary: stack tables)
  case (Cons n ns)
  then obtain u t where "stackItems localeCompare g rd pinned n stack = Inr u" and
    rest: "foldR (\<lambda>n (stack, tables).
       bindR (stackItems localeCompare g rd pinned n stack) (\<lambda>stack.
       bindR (waitForDestination g d rd tables) (\<lambda>tables. Inr (stack, tables)))) ns (u, t) = Inr (stack', tables')"
    by (auto simp: bindR_Inr_iff)
  from stackItems_plan [OF this(1)] Cons.IH [OF rest] show ?case by simp
qed simp

lemma noDisabledNodes_Inr: "noDisabledNodes g = Inr u \<longleftrightarrow> list_all (\<lambda>n. disabled n \<noteq> Some True) (map_values (getNodes g))"
proof -
  have "foldR (\<lambda>n _. assertR (disabled n \<noteq> Some True)) ns u = Inr v \<longleftrightarrow> list_all (\<lambda>n. disabled n \<noteq> Some True) ns"
    for ns and u v :: unit
    by (induction ns) (auto simp: bindR_Inr_iff assertR_def)
  then show ?thesis by (simp add: noDisabledNodes_def)
qed

lemma recreate_plan:
  assumes "recreateNodeExecutionStack localeCompare g startNodes d rd pinned = Inr (stack, tables)"
  shows "map job_plan stack = concat (map (planned localeCompare g rd pinned) startNodes)"
    and "list_all (hasNode g) startNodes" and "list_all (\<lambda>n. disabled n \<noteq> Some True) (map_values (getNodes g))"
  using assms stack_plan [of localeCompare g rd pinned d startNodes "[]" "([], [])" stack tables]
  by (auto simp: recreateNodeExecutionStack_def bindR_Inr_iff noDisabledNodes_Inr)

text \<open>The stack that is built again has, for the start nodes in their order, one job for each
  group of connections with data, whose sources are the connections of the group, and one job
  without source for a start node without main connections; a graph with a disabled node is
  rejected.\<close>

theorem recreated_stack_follows_groups:
  assumes "recreateNodeExecutionStack localeCompare g startNodes d rd pinned = Inr (stack, tables)"
  shows "map job_plan stack = concat (map (planned localeCompare g rd pinned) startNodes) \<and>
    list_all (\<lambda>n. disabled n \<noteq> Some True) (map_values (getNodes g))"
  using recreate_plan [OF assms] by blast

definition second_input :: DirectedGraph where
  "second_input = graph_of [sample_a, sample_b] [(sample_edge sample_a sample_b)\<lparr>inputIndex := 1\<rparr>]"

definition ran_a :: IRunData where
  "ran_a = [(''a'', [sample_run])]"

lemma ran_a_data [js_simps]:
  "map_of ran_a ''a'' = Some [sample_run]" "task_data sample_run = Some [(Main, [SVal [empty_item]])]"
  by (simp_all add: ran_a_def sample_run_def)

lemma append_at_b [js_simps]: "append_at ''b'' Main v [] = [(''b'', [(0, [(Main, [v])])])]"
proof -
  have "array_index ''b'' = None" "array_index Main = None" by code_simp+
  then show ?thesis by (simp add: append_at_def obj_put_def num_put.simps)
qed

text \<open>
  A node whose second input has data gets it as its first input, and the table of waiting data
  looks for it under the index of the input instead of that of the output.
\<close>

lemma second_input_becomes_first:
  "recreateNodeExecutionStack localeCompare second_input [sample_b] sample_b ran_a [] =
     Inr ([\<lparr>ed_node = sample_b, ed_data = [(Main, [SVal [empty_item]])],
             ed_source = Some [(Main, [SVal \<lparr>previousNode = ''a'', previousNodeOutput = Some 0, previousNodeRun = Some 0\<rparr>])]\<rparr>],
          [(''b'', [(0, [(Main, [SUndef])])])],
          [(''b'', [(0, [(Main, [SVal \<lparr>previousNode = ''a'', previousNodeOutput = Some 1, previousNodeRun = None\<rparr>])])])])"
proof -
  let ?c = "(sample_edge sample_a sample_b)\<lparr>inputIndex := 1\<rparr>"
  have parents: "getDirectParents second_input sample_b = Inr [?c]"
    by (simp add: second_input_def getDirectParents_def hasNode_def graph_of_def map_values_def sample_edge_def js_simps)
  have groups: "getSourceDataGroups localeCompare second_input sample_b ran_a [] = [[?c]]"
    by (simp add: getSourceDataGroups_def second_input_def getConnections_def graph_of_def map_values_def
        hasSourceData_def js_sort_def sample_edge_def groupLoop_round js_simps)
  have stack: "stackItems localeCompare second_input ran_a [] sample_b [] = Inr [\<lparr>ed_node = sample_b,
      ed_data = [(Main, [SVal [empty_item]])], ed_source = Some [(Main, [SVal (group_source ?c)])]\<rparr>]"
    by (simp add: stackItems_def parents groups groupItem_def groupInput_def getIncomingData_def
        arr_get_def sample_edge_def js_simps)
  have tables: "waitForDestination second_input sample_b ran_a ([], []) =
      Inr ([(''b'', [(0, [(Main, [SUndef])])])], [(''b'', [(0, [(Main, [SVal (source_of ''a'' 1 0)])])])])"
    by (simp add: waitForDestination_def parents waitForInput_def runOutput_def
        arr_get_def sample_edge_def js_simps)
  have "noDisabledNodes second_input = Inr ()"
    by (simp add: noDisabledNodes_Inr second_input_def getNodes_def graph_of_def map_values_def
        sample_a_def sample_b_def plain_node_def)
  then show ?thesis
    by (simp add: recreateNodeExecutionStack_def stack tables group_source_def source_of_def or_undefined_def
        sample_edge_def js_simps)
qed

theorem recreated_stack_follows_groups_witness:
  "\<exists>stack tables. recreateNodeExecutionStack (\<lambda>_ _. 0) second_input [sample_b] sample_b ran_a [] = Inr (stack, tables) \<and>
     map job_plan stack = concat (map (planned (\<lambda>_ _. 0) second_input ran_a []) [sample_b])"
  using recreated_stack_follows_groups [OF second_input_becomes_first] second_input_becomes_first by blast

section \<open>What a partial execution runs\<close>

lemma cleanRunData_Cons:
  "cleanRunData rd g (n # ns) = Inr rd' \<longleftrightarrow> (\<exists>children. getChildren g n = Inr children \<and>
     cleanRunData (fold (\<lambda>c. AList.delete (nodeName c)) children (AList.delete (nodeName n) rd)) g ns = Inr rd')"
  by (auto simp: cleanRunData_def Let_def bindR_Inr_iff)

lemma cleanRunData_keeps: "cleanRunData rd g ns = Inr rd' \<Longrightarrow> map_of rd k = None \<Longrightarrow> map_of rd' k = None"
proof (induction ns arbitrary: rd)
  case (Cons n ns)
  then show ?case by (fastforce simp: cleanRunData_Cons look_delete_names delete_conv')
qed (simp add: cleanRunData_def)

lemma cleanRunData_gone:
  "cleanRunData rd g ns = Inr rd' \<Longrightarrow> n \<in> set ns \<Longrightarrow> map_of rd' (nodeName n) = None"
proof (induction ns arbitrary: rd)
  case (Cons m ns)
  from Cons.prems(1) obtain children :: "INode list" where
    rest: "cleanRunData (fold (\<lambda>c. AList.delete (nodeName c)) children (AList.delete (nodeName m) rd)) g ns = Inr rd'"
    by (auto simp: cleanRunData_Cons)
  show ?case
  proof (cases "n = m")
    case True
    then show ?thesis using cleanRunData_keeps [OF rest] by (simp add: look_delete_names delete_conv')
  next
    case False
    with Cons.IH [OF rest] Cons.prems(2) show ?thesis by simp
  qed
qed simp

lemma findStartNodes_stop:
  assumes "findStartNodes g trigger destination rd pd = Inr starts" "n \<in> set starts"
  shows "isDirty n rd pd \<or> n = destination"
  using findStartNodes_spec [of g trigger destination rd pd "[]" "[]" starts] assms
  by (auto simp: findStartNodes_def stops_def)

lemma isDirty_unpinned: "isDirty n rd [] \<longleftrightarrow> map_of rd (nodeName n) = None"
  by (simp add: isDirty_iff)

lemma planned_node: "x \<in> set (planned localeCompare g rd pinned n) \<Longrightarrow> fst x = n"
  by (auto simp: planned_def split: if_splits)

text \<open>A job of a partial execution.\<close>

definition job_due :: "Workflow \<Rightarrow> DirectedGraph \<Rightarrow> IRunData \<Rightarrow> string option \<Rightarrow> IRunExecutionData \<Rightarrow> IExecuteData \<Rightarrow> bool" where
  "job_due w sub rd destinationNodeName s job =
     (let n = ed_node job in
      hasNode sub n \<and> disabled n \<noteq> Some True \<and> map_of (runData s) (nodeName n) = None \<and>
      (map_of rd (nodeName n) = None \<or>
       (case destinationNodeName of None \<Rightarrow> False | Some d \<Rightarrow> getNode w d = Some n)))"

text \<open>C32: every job a partial execution starts with is for a node of the subgraph that is not
  disabled and has no run data left; the node had no run data before or is the destination. The
  nodes that may run are those of the subgraph.\<close>

theorem partial_jobs_are_due:
  assumes "partialState2 fuel localeCompare w rd destinationNodeName pins = Inr (s, sub)"
  shows "list_all (job_due w sub rd destinationNodeName s) (nodeExecutionStack s) \<and>
    startData s = Some \<lparr>sd_destinationNode = destinationNodeName,
      sd_runNodeFilter = Some (map nodeName (map_values (gnodes sub)))\<rparr>"
proof -
  from assms obtain name d trigger g starts rd' stack waiting sources pinned where
    name: "nonempty_str destinationNodeName = Some name" and d: "getNode w name = Some d" and
    starts: "findStartNodes sub trigger d rd [] = Inr starts" and
    clean: "cleanRunData rd g starts = Inr rd'" and
    stack: "recreateNodeExecutionStack localeCompare sub starts d rd pinned = Inr (stack, (waiting, sources))" and
    s: "s = fresh_run \<lparr>sd_destinationNode = destinationNodeName,
        sd_runNodeFilter = Some (map nodeName (map_values (getNodes sub)))\<rparr> rd' pins stack waiting sources"
    by (auto simp: partialState2_def bindR_Inr_iff okR_def split: option.splits)
  note plan = recreate_plan [OF stack]
  have "job_due w sub rd destinationNodeName s job" if "job \<in> set stack" for job
  proof -
    from that have "job_plan job \<in> set (concat (map (planned localeCompare sub rd pinned) starts))"
      unfolding plan(1) [symmetric] by simp
    then have n: "ed_node job \<in> set starts" using planned_node by (fastforce simp: job_plan_def)
    then have "hasNode sub (ed_node job)" using plan(2) by (simp add: list_all_iff)
    moreover from this have "disabled (ed_node job) \<noteq> Some True"
      using plan(3) by (force simp: list_all_iff hasNode_def getNodes_def map_values_def dest: map_of_SomeD)
    moreover have "destinationNodeName = Some name" using name by (auto simp: nonempty_str_def split: option.splits if_splits)
    ultimately show ?thesis
      using findStartNodes_stop [OF starts n] cleanRunData_gone [OF clean n] d
      by (auto simp: job_due_def Let_def isDirty_unpinned s fresh_run_def)
  qed
  then show ?thesis by (simp add: list_all_iff s fresh_run_def getNodes_def)
qed

definition pair_workflow :: Workflow where
  "pair_workflow =
     \<lparr>wf_id = None, wf_name = None,
      nodes = [(''a'', plain_node 1 ''a'' ''trigger''), (''b'', plain_node 2 ''b'' ''set'')],
      connectionsBySourceNode = [(''a'', [(Main, [Some [\<lparr>cnode = ''b'', ctype = Main, cindex = 0\<rparr>]])])],
      connectionsByDestinationNode = [(''b'', [(Main, [Some [\<lparr>cnode = ''a'', ctype = Main, cindex = 0\<rparr>]])])],
      nodeTypes = (\<lambda>t _. Some ((sample_type False [Main])\<lparr>td_group := [t]\<rparr>)), active = False,
      executionOrder = Some ''v1'', staticData = [], testStaticData = None, wf_pinData = None\<rparr>"

theorem partial_jobs_are_due_witness:
  "\<exists>s sub. partialState2 3 (\<lambda>_ _. 0) pair_workflow ran_a (Some ''b'') None = Inr (s, sub) \<and>
     list_all (job_due pair_workflow sub ran_a (Some ''b'') s) (nodeExecutionStack s) \<and> length (nodeExecutionStack s) = 1"
proof -
  define state where "state = partialState2 3 (\<lambda>_ _. 0) pair_workflow ran_a (Some ''b'') None"
  have "case state of Inl _ \<Rightarrow> False | Inr (s, sub) \<Rightarrow> length (nodeExecutionStack s) = 1"
    unfolding state_def by code_simp
  then obtain s sub where "state = Inr (s, sub)" "length (nodeExecutionStack s) = 1" by (auto split: sum.splits)
  with partial_jobs_are_due [OF this(1) [unfolded state_def]] show ?thesis by (auto simp: state_def)
qed

text \<open>
  When a node on the way gave no items, no start node is found and nothing is queued; the first
  access to the queue then fails, instead of an execution that ends without a run.
\<close>

definition no_items_from_a :: IRunData where
  "no_items_from_a = [(''a'', [sample_run\<lparr>task_data := Some [(Main, [SVal []])]\<rparr>])]"

lemma empty_output_fails:
  "runPartialWorkflow2 3 (\<lambda>_ _. 0) (\<lambda>_ _. Inr (Some [])) issues env envs pair_workflow no_items_from_a (Some ''b'') None =
     Inl (Some TypeError)"
proof -
  define state where "state = partialState2 3 (\<lambda>_ _. 0) pair_workflow no_items_from_a (Some ''b'') None"
  have "case state of Inl _ \<Rightarrow> False | Inr (s, sub) \<Rightarrow> nodeExecutionStack s = [] \<and>
      isl (toWorkflow (\<lambda>_ _. Inr (Some [])) (spreadWorkflow pair_workflow) sub) = False"
    unfolding state_def by code_simp
  then obtain s sub w' where "state = Inr (s, sub)" "nodeExecutionStack s = []"
    "toWorkflow (\<lambda>_ _. Inr (Some [])) (spreadWorkflow pair_workflow) sub = Inr w'"
    by (auto simp: isl_def split: sum.splits) (metis sum.exhaust)
  then show ?thesis
    by (simp add: runPartialWorkflow2_def state_def processRunExecutionData_def prepareExecution_def)
qed

end
