(* ===== verification/ConcurrencyControl.thy ===== *)
theory ConcurrencyControl
  imports WorkflowTypes
begin

text \<open>
  The limit on concurrent production executions (\<open>packages/cli/src/concurrency\<close>):
  \<open>concurrency-queue.ts\<close> and \<open>concurrency-control.service.ts\<close>. The promise that \<open>enqueue\<close> returns is a
  ticket, a number; its \<open>resolve\<close> function puts the ticket among the resolved ones. Events are
  recorded in the order they are emitted (\<open>concurrency-check\<close> in the order of the requests, which
  the emitter debounces).
\<close>

section \<open>The queue\<close>

datatype ConcurrencyEvent =
    ExecutionThrottled string
  | ExecutionReleased string
  | ConcurrencyCheck int

record ConcurrencyQueue =
  q_capacity :: int
  q_queue :: "(string \<times> nat) list"
  q_resolved :: "nat list"
  q_tickets :: nat
  q_events :: "ConcurrencyEvent list"

definition new_ConcurrencyQueue :: "int \<Rightarrow> ConcurrencyQueue" where
  "new_ConcurrencyQueue capacity =
     \<lparr>q_capacity = capacity, q_queue = [], q_resolved = [], q_tickets = 0, q_events = []\<rparr>"

definition emit :: "ConcurrencyEvent \<Rightarrow> ConcurrencyQueue \<Rightarrow> ConcurrencyQueue" where
  "emit e q = q\<lparr>q_events := q_events q @ [e]\<rparr>"

text \<open>\<open>None\<close>: the promise of \<open>enqueue\<close> is resolved at once; \<open>Some t\<close>: it waits for the ticket.\<close>

definition enqueue_id :: "string \<Rightarrow> ConcurrencyQueue \<Rightarrow> nat option \<times> ConcurrencyQueue" where
  "enqueue_id executionId q =
     (let q = q\<lparr>q_capacity := q_capacity q - 1\<rparr>;
          q = emit (ConcurrencyCheck (q_capacity q)) q
      in if q_capacity q < 0 then
           let q = emit (ExecutionThrottled executionId) q in
           (Some (q_tickets q),
            q\<lparr>q_queue := q_queue q @ [(executionId, q_tickets q)], q_tickets := Suc (q_tickets q)\<rparr>)
         else (None, q))"

definition currentCapacity :: "ConcurrencyQueue \<Rightarrow> int" where
  "currentCapacity q = q_capacity q"

definition resolveNext :: "ConcurrencyQueue \<Rightarrow> ConcurrencyQueue" where
  "resolveNext q =
     (case q_queue q of
        [] \<Rightarrow> q
      | (executionId, ticket) # rest \<Rightarrow>
          (emit (ExecutionReleased executionId) (q\<lparr>q_queue := rest\<rparr>))\<lparr>q_resolved := q_resolved q @ [ticket]\<rparr>)"

definition dequeue :: "ConcurrencyQueue \<Rightarrow> ConcurrencyQueue" where
  "dequeue q = resolveNext (q\<lparr>q_capacity := q_capacity q + 1\<rparr>)"

definition remove_id :: "string \<Rightarrow> ConcurrencyQueue \<Rightarrow> ConcurrencyQueue" where
  "remove_id executionId q =
     (case List.extract (\<lambda>(i, _). i = executionId) (q_queue q) of
        None \<Rightarrow> q
      | Some (before, _, after) \<Rightarrow>
          resolveNext (q\<lparr>q_queue := before @ after, q_capacity := q_capacity q + 1\<rparr>))"

definition getAll :: "ConcurrencyQueue \<Rightarrow> string list" where
  "getAll q = fold set_add (map fst (q_queue q)) []"

section \<open>The service\<close>

type_synonym ExecutionMode = string

record ConcurrencyControlService =
  isEnabled :: bool
  productionLimit :: int
  productionQueue :: "ConcurrencyQueue option"

definition CLOUD_TEMP_PRODUCTION_LIMIT :: int where
  "CLOUD_TEMP_PRODUCTION_LIMIT = 999"

definition CLOUD_TEMP_REPORTABLE_THRESHOLDS :: "int list" where
  "CLOUD_TEMP_REPORTABLE_THRESHOLDS = [5, 10, 20, 50, 100, 200]"

definition shouldReport :: "string \<Rightarrow> int \<Rightarrow> bool" where
  "shouldReport deployment_type capacity =
     (deployment_type = ''cloud'' \<and>
      capacity \<in> set (map (\<lambda>t. CLOUD_TEMP_PRODUCTION_LIMIT - t) CLOUD_TEMP_REPORTABLE_THRESHOLDS))"

text \<open>The thresholds that the listener of \<open>concurrency-check\<close> reports.\<close>

definition reported :: "string \<Rightarrow> ConcurrencyEvent \<Rightarrow> int option" where
  "reported deployment_type e =
     (case e of
        ConcurrencyCheck capacity \<Rightarrow>
          if shouldReport deployment_type capacity then Some (CLOUD_TEMP_PRODUCTION_LIMIT - capacity) else None
      | _ \<Rightarrow> None)"

definition new_ConcurrencyControlService :: "int \<Rightarrow> string \<Rightarrow> ConcurrencyControlService res" where
  "new_ConcurrencyControlService limit executions_mode =
     (if limit = 0 then Inl (ApplicationError ''Concurrency limit set to invalid value'')
      else
        let limit = (if limit < -1 then -1 else limit) in
        if limit = -1 \<or> executions_mode = ''queue'' then
          Inr \<lparr>isEnabled = False, productionLimit = limit, productionQueue = None\<rparr>
        else
          Inr \<lparr>isEnabled = True, productionLimit = limit, productionQueue = Some (new_ConcurrencyQueue limit)\<rparr>)"

definition isUnlimited :: "ConcurrencyControlService \<Rightarrow> ExecutionMode \<Rightarrow> bool res" where
  "isUnlimited cc mode =
     (if mode \<in> {''error'', ''integrated'', ''cli'', ''internal'', ''manual'', ''retry''} then Inr True
      else if mode = ''webhook'' \<or> mode = ''trigger'' then Inr (productionLimit cc = -1)
      else Inl (ApplicationError ''Unknown execution mode''))"

definition has_execution :: "ConcurrencyControlService \<Rightarrow> string \<Rightarrow> bool res" where
  "has_execution cc executionId =
     (if \<not> isEnabled cc then Inr False
      else bindR (derefR (productionQueue cc)) (\<lambda>q. Inr (executionId \<in> set (getAll q))))"

text \<open>What the service does with its queue, when it is enabled and the mode is limited.\<close>

definition limited :: "ConcurrencyControlService \<Rightarrow> ExecutionMode \<Rightarrow> bool res" where
  "limited cc mode = (if \<not> isEnabled cc then Inr False else bindR (isUnlimited cc mode) (\<lambda>u. Inr (\<not> u)))"

definition throttle ::
  "ExecutionMode \<Rightarrow> string \<Rightarrow> ConcurrencyControlService \<Rightarrow> (nat option \<times> ConcurrencyControlService) res" where
  "throttle mode executionId cc =
     bindR (limited cc mode) (\<lambda>l.
       if \<not> l then Inr (None, cc)
       else bindR (derefR (productionQueue cc)) (\<lambda>q.
         let (ticket, q) = enqueue_id executionId q in Inr (ticket, cc\<lparr>productionQueue := Some q\<rparr>)))"

definition release :: "ExecutionMode \<Rightarrow> ConcurrencyControlService \<Rightarrow> ConcurrencyControlService res" where
  "release mode cc =
     bindR (limited cc mode) (\<lambda>l.
       if \<not> l then Inr cc
       else bindR (derefR (productionQueue cc)) (\<lambda>q. Inr (cc\<lparr>productionQueue := Some (dequeue q)\<rparr>)))"

definition remove_execution ::
  "ExecutionMode \<Rightarrow> string \<Rightarrow> ConcurrencyControlService \<Rightarrow> ConcurrencyControlService res" where
  "remove_execution mode executionId cc =
     bindR (limited cc mode) (\<lambda>l.
       if \<not> l then Inr cc
       else bindR (derefR (productionQueue cc)) (\<lambda>q.
         Inr (cc\<lparr>productionQueue := Some (remove_id executionId q)\<rparr>)))"

text \<open>
  \<open>removeAll\<close>: of an active execution only the status and whether it has a response promise are
  read. The second result are the executions that are cancelled in the database.
\<close>

definition removeAll ::
  "(ExecutionStatus \<times> bool) jsobj \<Rightarrow> ConcurrencyControlService \<Rightarrow>
   (ConcurrencyControlService \<times> string list) res" where
  "removeAll activeExecutions cc =
     (if \<not> isEnabled cc then Inr (cc, [])
      else bindR (derefR (productionQueue cc)) (\<lambda>q.
        Inr (cc\<lparr>productionQueue := Some (fold remove_id (getAll q) q)\<rparr>,
             map fst (filter (\<lambda>(_, status, response). status = New \<and> response) activeExecutions))))"

definition disable :: "ConcurrencyControlService \<Rightarrow> ConcurrencyControlService" where
  "disable cc = cc\<lparr>isEnabled := False\<rparr>"

section \<open>The contract of the queue\<close>

text \<open>
  What the callers of the queue rely on. \<open>waiting\<close> are the tickets not yet resolved, in order.
\<close>

locale admission =
  fixes capacity :: "'q \<Rightarrow> int"
    and waiting :: "'q \<Rightarrow> nat list"
    and resolved :: "'q \<Rightarrow> nat list"
    and enter :: "string \<Rightarrow> 'q \<Rightarrow> nat option \<times> 'q"
    and leave :: "'q \<Rightarrow> 'q"
    and drop_out :: "string \<Rightarrow> 'q \<Rightarrow> 'q"
  assumes enter_free: "0 < capacity q \<Longrightarrow> \<exists>q'. enter i q = (None, q') \<and> capacity q' = capacity q - 1 \<and>
      waiting q' = waiting q \<and> resolved q' = resolved q"
    and enter_full: "capacity q \<le> 0 \<Longrightarrow> \<exists>t q'. enter i q = (Some t, q') \<and> capacity q' = capacity q - 1 \<and>
      waiting q' = waiting q @ [t] \<and> resolved q' = resolved q"
    and leave_next: "capacity (leave q) = capacity q + 1 \<and> waiting (leave q) = tl (waiting q) \<and>
      resolved (leave q) = resolved q @ take 1 (waiting q)"
    and drop_out_next: "drop_out i q = q \<or> (\<exists>xs t ys. waiting q = xs @ t # ys \<and>
      capacity (drop_out i q) = capacity q + 1 \<and> waiting (drop_out i q) = tl (xs @ ys) \<and>
      resolved (drop_out i q) = resolved q @ take 1 (xs @ ys))"
begin

text \<open>Tickets are served in order, whatever enters meanwhile.\<close>

primrec serve :: "string option list \<Rightarrow> 'q \<Rightarrow> 'q" where
  "serve [] q = q"
| "serve (a # as) q = serve as (case a of None \<Rightarrow> leave q | Some i \<Rightarrow> snd (enter i q))"

lemma enter_order: "\<exists>new. waiting (snd (enter i q)) = waiting q @ new \<and> resolved (snd (enter i q)) = resolved q"
  using enter_free [of q i] enter_full [of q i] by (cases "0 < capacity q") auto

lemma serve_order:
  "\<exists>new. resolved (serve as q) = resolved q @ take (length (filter (\<lambda>a. a = None) as)) (waiting q) @ new"
proof (induction as arbitrary: q)
  case (Cons a as)
  show ?case
  proof (cases a)
    case None
    from Cons.IH [of "leave q"] obtain new where
      "resolved (serve as (leave q)) = (resolved q @ take 1 (waiting q)) @
        take (length (filter (\<lambda>a. a = None) as)) (tl (waiting q)) @ new"
      using leave_next by metis
    with None show ?thesis by (cases "waiting q") auto
  next
    case (Some i)
    obtain late where "waiting (snd (enter i q)) = waiting q @ late" "resolved (snd (enter i q)) = resolved q"
      using enter_order by blast
    with Cons.IH [of "snd (enter i q)"] Some show ?thesis by (auto simp: take_append)
  qed
qed simp

lemma served_in_turn:
  assumes "k < length (waiting q)" "k < length (filter (\<lambda>a. a = None) as)"
  shows "waiting q ! k \<in> set (resolved (serve as q))"
proof -
  have "waiting q ! k \<in> set (take (length (filter (\<lambda>a. a = None) as)) (waiting q))"
    using assms by (auto simp: in_set_conv_nth intro!: exI [of _ k])
  moreover obtain new where "resolved (serve as q) = resolved q @
      take (length (filter (\<lambda>a. a = None) as)) (waiting q) @ new" using serve_order by blast
  ultimately show ?thesis by simp
qed

text \<open>
  The books balance: with \<open>r\<close> executions let through out of \<open>n\<close>, and \<open>m\<close> taken out of the queue
  before their turn.
\<close>

definition balance :: "nat \<Rightarrow> nat \<Rightarrow> nat \<Rightarrow> 'q \<Rightarrow> bool" where
  "balance n r m q \<longleftrightarrow> capacity q = int n - int r - int (length (waiting q)) \<and>
     (waiting q \<noteq> [] \<longrightarrow> n \<le> r) \<and> r \<le> n + m"

lemma balance_enter_free: "balance n r m q \<Longrightarrow> enter i q = (None, q') \<Longrightarrow> balance n (Suc r) m q'"
  using enter_free [of q i] enter_full [of q i] by (cases "0 < capacity q") (auto simp: balance_def)

lemma balance_enter_full: "balance n r m q \<Longrightarrow> enter i q = (Some t, q') \<Longrightarrow> balance n r m q'"
  using enter_free [of q i] enter_full [of q i]
  by (cases "0 < capacity q"; cases "waiting q = []") (auto simp: balance_def)

lemma balance_leave_empty: "balance n (Suc r) m q \<Longrightarrow> waiting q = [] \<Longrightarrow> balance n r m (leave q)"
  using leave_next [of q] by (auto simp: balance_def)

lemma balance_leave_next: "balance n r m q \<Longrightarrow> waiting q = t # ts \<Longrightarrow> balance n r m (leave q)"
  using leave_next [of q] by (auto simp: balance_def)

lemma balance_drop_out:
  assumes "balance n r m q" "waiting q = xs @ t # ys" "capacity q' = capacity q + 1"
    and "waiting q' = tl (xs @ ys)"
  shows "balance n (r + length (take 1 (xs @ ys))) (Suc m) q'"
proof -
  have "length (waiting q) = Suc (length (xs @ ys))" using assms(2) by simp
  with assms show ?thesis by (cases "xs @ ys") (auto simp: balance_def simp del: length_append)
qed

end

lemma resolveNext_next:
  "q_capacity (resolveNext q) = q_capacity q \<and> map snd (q_queue (resolveNext q)) = tl (map snd (q_queue q)) \<and>
   q_resolved (resolveNext q) = q_resolved q @ take 1 (map snd (q_queue q)) \<and> q_tickets (resolveNext q) = q_tickets q"
  by (cases "q_queue q") (auto simp: resolveNext_def emit_def)

lemma remove_id_next:
  "remove_id i q = q \<or> (\<exists>xs t ys. map snd (q_queue q) = xs @ t # ys \<and>
     q_capacity (remove_id i q) = q_capacity q + 1 \<and> map snd (q_queue (remove_id i q)) = tl (xs @ ys) \<and>
     q_resolved (remove_id i q) = q_resolved q @ take 1 (xs @ ys) \<and> q_tickets (remove_id i q) = q_tickets q)"
proof (cases "List.extract (\<lambda>(j, _). j = i) (q_queue q)")
  case (Some found)
  obtain xs e ys where "found = (xs, e, ys)" by (cases found)
  with Some have r: "remove_id i q = resolveNext (q\<lparr>q_queue := xs @ ys, q_capacity := q_capacity q + 1\<rparr>)"
    and q: "q_queue q = xs @ e # ys"
    using extract_SomeE [of _ "q_queue q" xs e ys] by (simp_all add: remove_id_def split_beta)
  show ?thesis
    using q resolveNext_next [of "q\<lparr>q_queue := xs @ ys, q_capacity := q_capacity q + 1\<rparr>"] unfolding r
    by (intro disjI2 exI [of _ "map snd xs"] exI [of _ "snd e"] exI [of _ "map snd ys"]) simp
qed (simp add: remove_id_def)

interpretation cq: admission q_capacity "\<lambda>q. map snd (q_queue q)" q_resolved enqueue_id dequeue remove_id
proof
  show "q_capacity q \<le> 0 \<Longrightarrow> \<exists>t q'. enqueue_id i q = (Some t, q') \<and> q_capacity q' = q_capacity q - 1 \<and>
      map snd (q_queue q') = map snd (q_queue q) @ [t] \<and> q_resolved q' = q_resolved q" for q i
    by (simp add: enqueue_id_def emit_def Let_def)
  show "q_capacity (dequeue q) = q_capacity q + 1 \<and> map snd (q_queue (dequeue q)) = tl (map snd (q_queue q)) \<and>
      q_resolved (dequeue q) = q_resolved q @ take 1 (map snd (q_queue q))" for q
    using resolveNext_next [of "q\<lparr>q_capacity := q_capacity q + 1\<rparr>"] by (simp add: dequeue_def)
  show "remove_id i q = q \<or> (\<exists>xs t ys. map snd (q_queue q) = xs @ t # ys \<and>
      q_capacity (remove_id i q) = q_capacity q + 1 \<and> map snd (q_queue (remove_id i q)) = tl (xs @ ys) \<and>
      q_resolved (remove_id i q) = q_resolved q @ take 1 (xs @ ys))" for q i
    using remove_id_next by meson
qed (simp add: enqueue_id_def emit_def Let_def)

end
