(* ===== verification/ActiveExecutions.thy ===== *)
theory ActiveExecutions
  imports ConcurrencyControl
begin

text \<open>
  The executions of one process (\<open>packages/cli/src/active-executions.ts\<close>), on top of the limit of
  \<open>ConcurrencyControl\<close>. \<open>add\<close> is asynchronous: it waits for its turn and then for the database, so
  the calls in progress are part of the state, and every stretch of code between two \<open>await\<close>s is a
  step of its own. The callback that \<open>add\<close> attaches to the promise of an execution runs as a
  further step once the promise has settled.
\<close>

section \<open>The state\<close>

record IWorkflowExecutionDataProcess =
  executionMode :: ExecutionMode
  retryOf :: "string option"
  workflowId :: "string option"

text \<open>The promises are numbered; of an attached execution or response promise only the presence counts.\<close>

record IExecutingWorkflowData =
  executionData :: IWorkflowExecutionDataProcess
  postExecutePromise :: nat
  workflowExecution :: bool
  responsePromise :: bool
  ex_status :: ExecutionStatus

datatype AddPhase = Throttling "nat option" | Saving

record PendingAdd =
  pa_id :: string
  pa_data :: IWorkflowExecutionDataProcess
  pa_status :: ExecutionStatus
  pa_phase :: AddPhase

record ActiveExecutions =
  activeExecutions :: "IExecutingWorkflowData jsobj"
  concurrencyControl :: ConcurrencyControlService
  regular :: bool
  adding :: "PendingAdd list"
  callbacks :: "(nat \<times> string \<times> ExecutionMode) list"
  settled :: "nat list"
  promises :: nat
  cancelled :: "string list"
  responded :: "string list"

definition new_ActiveExecutions :: "bool \<Rightarrow> ConcurrencyControlService \<Rightarrow> ActiveExecutions" where
  "new_ActiveExecutions is_regular cc =
     \<lparr>activeExecutions = [], concurrencyControl = cc, regular = is_regular, adding = [], callbacks = [],
      settled = [], promises = 0, cancelled = [], responded = []\<rparr>"

section \<open>Adding an execution\<close>

definition waitTurn ::
  "IWorkflowExecutionDataProcess \<Rightarrow> string \<Rightarrow> ExecutionStatus \<Rightarrow> ActiveExecutions \<Rightarrow> ActiveExecutions res" where
  "waitTurn data executionId status st =
     bindR (throttle (executionMode data) executionId (concurrencyControl st)) (\<lambda>(ticket, cc).
       Inr (st\<lparr>concurrencyControl := cc,
         adding := adding st @
           [\<lparr>pa_id = executionId, pa_data = data, pa_status = status, pa_phase = Throttling ticket\<rparr>]\<rparr>))"

text \<open>The execution is entered, and the callback attached to its promise.\<close>

definition register ::
  "IWorkflowExecutionDataProcess \<Rightarrow> string \<Rightarrow> ExecutionStatus \<Rightarrow> ActiveExecutions \<Rightarrow> ActiveExecutions" where
  "register data executionId status st =
     st\<lparr>activeExecutions := obj_put executionId
          \<lparr>executionData = data, postExecutePromise = promises st, workflowExecution = False,
           responsePromise = False, ex_status = status\<rparr> (activeExecutions st),
        callbacks := callbacks st @ [(promises st, executionId, executionMode data)],
        promises := Suc (promises st)\<rparr>"

text \<open>\<open>createdId\<close> is the id that the database gives a new execution.\<close>

definition addBegin ::
  "IWorkflowExecutionDataProcess \<Rightarrow> string option \<Rightarrow> string \<Rightarrow> ActiveExecutions \<Rightarrow> ActiveExecutions res" where
  "addBegin data executionId createdId st =
     (case executionId of
        None \<Rightarrow>
          bindR (assertR (createdId \<noteq> [])) (\<lambda>_.
            if regular st then waitTurn data createdId Running st
            else Inr (register data createdId Running st))
      | Some i \<Rightarrow> waitTurn data i (if i \<noteq> [] then Running else New) st)"

definition ticketResolved :: "ConcurrencyControlService \<Rightarrow> nat option \<Rightarrow> bool" where
  "ticketResolved cc ticket =
     (case ticket of
        None \<Rightarrow> True
      | Some t \<Rightarrow> (case productionQueue cc of None \<Rightarrow> False | Some q \<Rightarrow> t \<in> set (q_resolved q)))"

text \<open>The turn of the \<open>k\<close>-th call has come: it writes to the database.\<close>

definition addAdmitted :: "nat \<Rightarrow> ActiveExecutions \<Rightarrow> ActiveExecutions option" where
  "addAdmitted k st =
     (if k < length (adding st) then
        (case pa_phase (adding st ! k) of
           Saving \<Rightarrow> None
         | Throttling ticket \<Rightarrow>
             if ticketResolved (concurrencyControl st) ticket then
               Some (st\<lparr>adding := (adding st)[k := (adding st ! k)\<lparr>pa_phase := Saving\<rparr>]\<rparr>)
             else None)
      else None)"

text \<open>The database has answered; when it failed, \<open>add\<close> throws.\<close>

definition addSaved :: "nat \<Rightarrow> bool \<Rightarrow> ActiveExecutions \<Rightarrow> ActiveExecutions option" where
  "addSaved k ok st =
     (if k < length (adding st) \<and> pa_phase (adding st ! k) = Saving then
        let p = adding st ! k;
            st = st\<lparr>adding := take k (adding st) @ drop (Suc k) (adding st)\<rparr>
        in Some (if ok then register (pa_data p) (pa_id p) (pa_status p) st else st)
      else None)"

section \<open>Active executions\<close>

definition has_active :: "ActiveExecutions \<Rightarrow> string \<Rightarrow> bool" where
  "has_active st executionId = (map_of (activeExecutions st) executionId \<noteq> None)"

definition getExecution :: "ActiveExecutions \<Rightarrow> string \<Rightarrow> IExecutingWorkflowData res" where
  "getExecution st executionId =
     (case map_of (activeExecutions st) executionId of
        None \<Rightarrow> Inl (ApplicationError ''No active execution found'')
      | Some ex \<Rightarrow> Inr ex)"

definition changeExecution ::
  "string \<Rightarrow> (IExecutingWorkflowData \<Rightarrow> IExecutingWorkflowData) \<Rightarrow> ActiveExecutions \<Rightarrow> ActiveExecutions res" where
  "changeExecution executionId f st =
     bindR (getExecution st executionId) (\<lambda>ex.
       Inr (st\<lparr>activeExecutions := obj_put executionId (f ex) (activeExecutions st)\<rparr>))"

definition attachWorkflowExecution :: "string \<Rightarrow> ActiveExecutions \<Rightarrow> ActiveExecutions res" where
  "attachWorkflowExecution executionId = changeExecution executionId (\<lambda>ex. ex\<lparr>workflowExecution := True\<rparr>)"

definition attachResponsePromise :: "string \<Rightarrow> ActiveExecutions \<Rightarrow> ActiveExecutions res" where
  "attachResponsePromise executionId = changeExecution executionId (\<lambda>ex. ex\<lparr>responsePromise := True\<rparr>)"

definition setStatus :: "string \<Rightarrow> ExecutionStatus \<Rightarrow> ActiveExecutions \<Rightarrow> ActiveExecutions res" where
  "setStatus executionId status = changeExecution executionId (\<lambda>ex. ex\<lparr>ex_status := status\<rparr>)"

definition getStatus :: "ActiveExecutions \<Rightarrow> string \<Rightarrow> ExecutionStatus res" where
  "getStatus st executionId = bindR (getExecution st executionId) (\<lambda>ex. Inr (ex_status ex))"

text \<open>The calls of \<open>resolve\<close> on response promises are recorded; an unknown execution is ignored.\<close>

definition resolveResponsePromise :: "string \<Rightarrow> ActiveExecutions \<Rightarrow> ActiveExecutions" where
  "resolveResponsePromise executionId st =
     (case map_of (activeExecutions st) executionId of
        None \<Rightarrow> st
      | Some ex \<Rightarrow> if responsePromise ex then st\<lparr>responded := responded st @ [executionId]\<rparr> else st)"

definition getPostExecutePromise :: "ActiveExecutions \<Rightarrow> string \<Rightarrow> nat res" where
  "getPostExecutePromise st executionId = bindR (getExecution st executionId) (\<lambda>ex. Inr (postExecutePromise ex))"

text \<open>A promise settles once; settling it again changes nothing.\<close>

definition settle :: "nat \<Rightarrow> ActiveExecutions \<Rightarrow> ActiveExecutions" where
  "settle p st = st\<lparr>settled := set_add p (settled st)\<rparr>"

definition stopExecution :: "string \<Rightarrow> ActiveExecutions \<Rightarrow> ActiveExecutions" where
  "stopExecution executionId st =
     (case map_of (activeExecutions st) executionId of
        None \<Rightarrow> st
      | Some ex \<Rightarrow>
          settle (postExecutePromise ex)
            (if workflowExecution ex then st\<lparr>cancelled := cancelled st @ [executionId]\<rparr> else st))"

definition finalizeExecution :: "string \<Rightarrow> ActiveExecutions \<Rightarrow> ActiveExecutions res" where
  "finalizeExecution executionId st =
     bindR (getExecution st executionId) (\<lambda>ex. Inr (settle (postExecutePromise ex) st))"

text \<open>The callback of a settled promise.\<close>

definition runCallback :: "nat \<Rightarrow> ActiveExecutions \<Rightarrow> ActiveExecutions res option" where
  "runCallback p st =
     (case map_of (callbacks st) p of
        None \<Rightarrow> None
      | Some (executionId, mode) \<Rightarrow>
          if p \<notin> set (settled st) then None
          else Some (bindR (release mode (concurrencyControl st)) (\<lambda>cc.
            Inr (st\<lparr>callbacks := AList.delete p (callbacks st), concurrencyControl := cc,
              activeExecutions := AList.delete executionId (activeExecutions st)\<rparr>))))"

record IExecutionsCurrentSummary =
  s_id :: string
  s_retryOf :: "string option"
  s_mode :: ExecutionMode
  s_workflowId :: "string option"
  s_status :: ExecutionStatus

definition getActiveExecutions :: "ActiveExecutions \<Rightarrow> IExecutionsCurrentSummary list" where
  "getActiveExecutions st =
     map (\<lambda>(executionId, data).
       \<lparr>s_id = executionId, s_retryOf = retryOf (executionData data), s_mode = executionMode (executionData data),
        s_workflowId = workflowId (executionData data), s_status = ex_status data\<rparr>) (activeExecutions st)"

text \<open>
  \<open>shutdown\<close> up to its first \<open>sleep\<close>, with the executions it cancels in the database; it returns
  when no execution is active.
\<close>

definition shutdownBegin :: "bool \<Rightarrow> ActiveExecutions \<Rightarrow> (ActiveExecutions \<times> string list) res" where
  "shutdownBegin cancelAll st =
     (let executionIds = map fst (activeExecutions st);
          st = (if regular st then st\<lparr>concurrencyControl := disable (concurrencyControl st)\<rparr> else st)
      in if \<not> cancelAll then Inr (st, [])
         else
           bindR (if regular st then
               removeAll (map (\<lambda>(i, ex). (i, ex_status ex, responsePromise ex)) (activeExecutions st))
                 (concurrencyControl st)
             else Inr (concurrencyControl st, [])) (\<lambda>(cc, many).
             Inr (fold stopExecution executionIds (st\<lparr>concurrencyControl := cc\<rparr>), many)))"

definition shutdownDone :: "ActiveExecutions \<Rightarrow> bool" where
  "shutdownDone st = (activeExecutions st = [])"

section \<open>The process as a whole\<close>

text \<open>What happens next: a call from outside, or the continuation of one; \<open>None\<close> if it cannot happen.\<close>

datatype ActiveEvent =
    Begin IWorkflowExecutionDataProcess "string option" string
  | Admit nat
  | Saved nat bool
  | Finalize string
  | Stop string
  | Callback nat
  | SetStatus string ExecutionStatus
  | AttachExecution string
  | AttachResponse string
  | Respond string
  | Remove ExecutionMode string
  | Shutdown bool

definition returned :: "'a res \<Rightarrow> 'a option" where
  "returned m = (case m of Inl _ \<Rightarrow> None | Inr x \<Rightarrow> Some x)"

primrec handle :: "ActiveEvent \<Rightarrow> ActiveExecutions \<Rightarrow> ActiveExecutions option" where
  "handle (Begin data executionId createdId) st = returned (addBegin data executionId createdId st)"
| "handle (Admit k) st = addAdmitted k st"
| "handle (Saved k ok) st = addSaved k ok st"
| "handle (Finalize i) st = returned (finalizeExecution i st)"
| "handle (Stop i) st = Some (stopExecution i st)"
| "handle (Callback p) st = (case runCallback p st of None \<Rightarrow> None | Some r \<Rightarrow> returned r)"
| "handle (SetStatus i status) st = returned (setStatus i status st)"
| "handle (AttachExecution i) st = returned (attachWorkflowExecution i st)"
| "handle (AttachResponse i) st = returned (attachResponsePromise i st)"
| "handle (Respond i) st = Some (resolveResponsePromise i st)"
| "handle (Remove mode i) st =
     returned (bindR (remove_execution mode i (concurrencyControl st)) (\<lambda>cc. Inr (st\<lparr>concurrencyControl := cc\<rparr>)))"
| "handle (Shutdown cancelAll) st = map_option fst (returned (shutdownBegin cancelAll st))"

inductive reached :: "ActiveExecutions \<Rightarrow> ActiveEvent list \<Rightarrow> ActiveExecutions \<Rightarrow> bool" for start where
  reached_start: "reached start [] start"
| reached_step: "reached start es st \<Longrightarrow> handle e st = Some st' \<Longrightarrow> reached start (es @ [e]) st'"

section \<open>Slots\<close>

definition limited_mode :: "ExecutionMode \<Rightarrow> bool" where
  "limited_mode mode = (mode \<in> {''webhook'', ''trigger''})"

definition ticket_of :: "PendingAdd \<Rightarrow> nat option" where
  "ticket_of p = (case pa_phase p of Throttling t \<Rightarrow> t | Saving \<Rightarrow> None)"

text \<open>A call holds a slot from its turn on; so does an execution until its callback has run.\<close>

definition holds_slot :: "nat list \<Rightarrow> PendingAdd \<Rightarrow> bool" where
  "holds_slot resolved p = (limited_mode (executionMode (pa_data p)) \<and>
     (case ticket_of p of None \<Rightarrow> True | Some t \<Rightarrow> t \<in> set resolved))"

definition adding_slots :: "nat list \<Rightarrow> PendingAdd list \<Rightarrow> nat" where
  "adding_slots resolved ps = length (filter (holds_slot resolved) ps)"

definition running_slots :: "(nat \<times> string \<times> ExecutionMode) list \<Rightarrow> nat" where
  "running_slots cs = length (filter (\<lambda>(_, _, mode). limited_mode mode) cs)"

definition tickets :: "PendingAdd list \<Rightarrow> nat list" where
  "tickets ps = List.map_filter ticket_of ps"

text \<open>Every ticket in the queue belongs to one call in progress, which holds no slot yet.\<close>

definition tickets_ok :: "ConcurrencyQueue \<Rightarrow> PendingAdd list \<Rightarrow> bool" where
  "tickets_ok q ps \<longleftrightarrow> distinct (tickets ps) \<and> distinct (map snd (q_queue q)) \<and>
     set (map snd (q_queue q)) \<subseteq> set (tickets ps) \<and> set (map snd (q_queue q)) \<inter> set (q_resolved q) = {} \<and>
     (\<forall>t \<in> set (tickets ps) \<union> set (q_resolved q). t < q_tickets q) \<and>
     (\<forall>p \<in> set ps. ticket_of p \<noteq> None \<longrightarrow> limited_mode (executionMode (pa_data p)))"

lemma tickets_simps [simp]:
  "tickets [] = []"
  "tickets (p # ps) = (case ticket_of p of None \<Rightarrow> tickets ps | Some t \<Rightarrow> t # tickets ps)"
  by (simp_all add: tickets_def map_filter_simps split: option.split)

lemma tickets_append [simp]: "tickets (ps @ qs) = tickets ps @ tickets qs"
  by (induction ps) (auto split: option.split)

lemma adding_slots_append [simp]: "adding_slots res (ps @ qs) = adding_slots res ps + adding_slots res qs"
  by (simp add: adding_slots_def)

lemma adding_slots_other: "t \<notin> set (tickets ps) \<Longrightarrow> adding_slots (res @ [t]) ps = adding_slots res ps"
  by (induction ps) (auto simp: adding_slots_def holds_slot_def split: option.splits if_splits)

lemma adding_slots_admit:
  assumes "distinct (tickets ps)" "t \<in> set (tickets ps)" "t \<notin> set res"
    and "\<forall>p \<in> set ps. ticket_of p \<noteq> None \<longrightarrow> limited_mode (executionMode (pa_data p))"
  shows "adding_slots (res @ [t]) ps = Suc (adding_slots res ps)"
  using assms
proof (induction ps)
  case (Cons p ps)
  show ?case
  proof (cases "ticket_of p = Some t")
    case True
    then have "t \<notin> set (tickets ps)" "limited_mode (executionMode (pa_data p))" using Cons.prems by auto
    with True Cons.prems(3) adding_slots_other [of t ps res] show ?thesis
      by (simp add: adding_slots_def holds_slot_def)
  next
    case False
    then have "holds_slot (res @ [t]) p = holds_slot res p" by (auto simp: holds_slot_def split: option.split)
    moreover have "adding_slots (res @ [t]) ps = Suc (adding_slots res ps)"
      using Cons False by (auto split: option.splits)
    ultimately show ?thesis by (simp add: adding_slots_def)
  qed
qed simp

text \<open>The next ticket is resolved, after some were taken out of the queue.\<close>

lemma tickets_ok_resolve:
  assumes "tickets_ok q ps" "set ws \<subseteq> set (map snd (q_queue q))" "distinct ws"
    and "map snd (q_queue q') = tl ws" "q_resolved q' = q_resolved q @ take 1 ws" "q_tickets q' = q_tickets q"
  shows "tickets_ok q' ps \<and> adding_slots (q_resolved q') ps = adding_slots (q_resolved q) ps + length (take 1 ws)"
proof (cases ws)
  case Nil
  with assms show ?thesis by (auto simp: tickets_ok_def)
next
  case (Cons t ts)
  have t: "t \<in> set (tickets ps)" "t \<notin> set (q_resolved q)" using assms(1,2) Cons by (auto simp: tickets_ok_def)
  with adding_slots_admit [of ps t "q_resolved q"] assms(1)
  have "adding_slots (q_resolved q @ [t]) ps = Suc (adding_slots (q_resolved q) ps)" by (simp add: tickets_ok_def)
  with Cons assms t show ?thesis by (auto simp: tickets_ok_def)
qed

section \<open>The limit\<close>

text \<open>\<open>lost\<close> slots belong to calls whose write to the database failed.\<close>

definition within_limit :: "nat \<Rightarrow> nat \<Rightarrow> nat \<Rightarrow> ActiveExecutions \<Rightarrow> bool" where
  "within_limit n lost removed st \<longleftrightarrow>
     (isEnabled (concurrencyControl st) \<longrightarrow> productionLimit (concurrencyControl st) = int n \<and>
       (\<exists>q. productionQueue (concurrencyControl st) = Some q \<and> tickets_ok q (adding st) \<and>
         cq.balance n (adding_slots (q_resolved q) (adding st) + running_slots (callbacks st) + lost) removed q))"

lemma limited_limit:
  "isEnabled cc \<Longrightarrow> productionLimit cc = int n \<Longrightarrow> limited cc mode = Inr l \<Longrightarrow> l = limited_mode mode"
  by (auto simp: limited_def isUnlimited_def limited_mode_def bindR_Inr_iff split: if_splits)

lemma limited_yes:
  "isEnabled cc \<Longrightarrow> productionLimit cc = int n \<Longrightarrow> limited_mode mode \<Longrightarrow> limited cc mode = Inr True"
  by (auto simp: limited_def isUnlimited_def limited_mode_def)

lemma limited_disabled: "\<not> isEnabled cc \<Longrightarrow> limited cc mode = Inr False"
  by (simp add: limited_def)

lemma throttle_enabled: "throttle mode i cc = Inr (t, cc') \<Longrightarrow> isEnabled cc' = isEnabled cc \<and> productionLimit cc' = productionLimit cc"
  by (auto simp: throttle_def bindR_Inr_iff case_prod_beta split: if_splits)

lemma release_enabled: "release mode cc = Inr cc' \<Longrightarrow> isEnabled cc' = isEnabled cc \<and> productionLimit cc' = productionLimit cc"
  by (auto simp: release_def bindR_Inr_iff split: if_splits)

lemma remove_enabled: "remove_execution mode i cc = Inr cc' \<Longrightarrow> isEnabled cc' = isEnabled cc \<and> productionLimit cc' = productionLimit cc"
  by (auto simp: remove_execution_def bindR_Inr_iff split: if_splits)

lemma running_slots_append [simp]: "running_slots (cs @ [(p, i, mode)]) = running_slots cs + (if limited_mode mode then 1 else 0)"
  by (simp add: running_slots_def)

lemma enqueue_free:
  "enqueue_id i q = (None, q') \<Longrightarrow> q_queue q' = q_queue q \<and> q_resolved q' = q_resolved q \<and> q_tickets q' = q_tickets q"
  by (auto simp: enqueue_id_def emit_def Let_def split: if_splits)

lemma enqueue_full:
  "enqueue_id i q = (Some t, q') \<Longrightarrow> t = q_tickets q \<and> q_queue q' = q_queue q @ [(i, t)] \<and>
     q_resolved q' = q_resolved q \<and> q_tickets q' = Suc (q_tickets q)"
  by (auto simp: enqueue_id_def emit_def Let_def split: if_splits)

lemma waitTurn_limit:
  assumes "within_limit n lost m st" "waitTurn data i status st = Inr st'"
  shows "within_limit n lost m st'"
proof -
  let ?p = "\<lambda>t. \<lparr>pa_id = i, pa_data = data, pa_status = status, pa_phase = Throttling t\<rparr>"
  from assms(2) obtain t cc where th: "throttle (executionMode data) i (concurrencyControl st) = Inr (t, cc)"
    and st': "st' = st\<lparr>concurrencyControl := cc, adding := adding st @ [?p t]\<rparr>"
    by (auto simp: waitTurn_def bindR_Inr_iff)
  have cc: "isEnabled cc = isEnabled (concurrencyControl st)" "productionLimit cc = productionLimit (concurrencyControl st)"
    using throttle_enabled [OF th] by simp_all
  show ?thesis
  proof (cases "isEnabled (concurrencyControl st)")
    case True
    with assms(1) obtain q where q: "productionLimit (concurrencyControl st) = int n"
      "productionQueue (concurrencyControl st) = Some q" "tickets_ok q (adding st)"
      "cq.balance n (adding_slots (q_resolved q) (adding st) + running_slots (callbacks st) + lost) m q"
      by (auto simp: within_limit_def)
    show ?thesis
    proof (cases "limited_mode (executionMode data)")
      case unlimited: False
      then have "t = None" "cc = concurrencyControl st"
        using th limited_limit [OF True q(1)] by (auto simp: throttle_def bindR_Inr_iff split: if_splits)
      with q unlimited show ?thesis
        by (auto simp: within_limit_def st' tickets_ok_def ticket_of_def adding_slots_def holds_slot_def)
    next
      case lim: True
      then obtain q' where q': "enqueue_id i q = (t, q')" "productionQueue cc = Some q'"
        using th limited_yes [OF True q(1) lim] q(2)
        by (cases "enqueue_id i q") (auto simp: throttle_def)
      show ?thesis
      proof (cases t)
        case None
        with q'(1) have enq: "enqueue_id i q = (None, q')" by simp
        from enqueue_free [OF enq] cq.balance_enter_free [OF q(4) enq] q(1,3) q'(2) lim None show ?thesis
          by (auto simp: within_limit_def st' cc tickets_ok_def ticket_of_def adding_slots_def holds_slot_def)
      next
        case (Some u)
        with q'(1) have enq: "enqueue_id i q = (Some u, q')" by simp
        from q(3) have "u \<notin> set (tickets (adding st))" "u \<notin> set (q_resolved q)"
          using enqueue_full [OF enq] by (auto simp: tickets_ok_def)
        with enqueue_full [OF enq] cq.balance_enter_full [OF q(4) enq] q(1,3) q'(2) lim Some show ?thesis
          by (auto simp: within_limit_def st' cc tickets_ok_def ticket_of_def adding_slots_def holds_slot_def
              intro: less_SucI)
      qed
    qed
  qed (simp add: within_limit_def st' cc)
qed

lemma register_limit:
  assumes "within_limit n (lost + (if limited_mode (executionMode data) then 1 else 0)) m st"
  shows "within_limit n lost m (register data i status st)"
  using assms by (auto simp: within_limit_def register_def ac_simps)

text \<open>A call that goes on keeps its slot; a call that ends hands it over.\<close>

lemma addAdmitted_limit:
  assumes "within_limit n lost m st" "addAdmitted k st = Some st'"
  shows "within_limit n lost m st'"
proof -
  from assms(2) obtain t where k: "k < length (adding st)" "pa_phase (adding st ! k) = Throttling t"
    "ticketResolved (concurrencyControl st) t"
    and st': "st' = st\<lparr>adding := (adding st)[k := (adding st ! k)\<lparr>pa_phase := Saving\<rparr>]\<rparr>"
    by (auto simp: addAdmitted_def split: if_splits AddPhase.splits)
  define p where "p = adding st ! k"
  define xs ys where "xs = take k (adding st)" and "ys = drop (Suc k) (adding st)"
  have split: "adding st = xs @ p # ys" "adding st' = xs @ p\<lparr>pa_phase := Saving\<rparr> # ys"
    using k(1) by (simp_all add: st' p_def xs_def ys_def id_take_nth_drop [symmetric] upd_conv_take_nth_drop)
  have same: "concurrencyControl st' = concurrencyControl st" "callbacks st' = callbacks st" by (simp_all add: st')
  have "tickets_ok q (adding st') \<and> adding_slots (q_resolved q) (adding st') = adding_slots (q_resolved q) (adding st)"
    if "tickets_ok q (adding st)" "productionQueue (concurrencyControl st) = Some q" for q
  proof -
    have t: "ticket_of p = t" "ticket_of (p\<lparr>pa_phase := Saving\<rparr>) = None" using k(2) by (simp_all add: p_def ticket_of_def)
    moreover have "holds_slot (q_resolved q) (p\<lparr>pa_phase := Saving\<rparr>) = holds_slot (q_resolved q) p"
      using k(3) that(2) t by (auto simp: holds_slot_def ticketResolved_def split: option.splits)
    moreover have "u \<notin> set (map snd (q_queue q))" if "t = Some u" for u
      using k(3) that \<open>tickets_ok q (adding st)\<close> \<open>productionQueue (concurrencyControl st) = Some q\<close>
      by (auto simp: ticketResolved_def tickets_ok_def)
    ultimately show ?thesis
      using that(1) unfolding split by (cases t) (auto simp: tickets_ok_def adding_slots_def)
  qed
  with assms(1) show ?thesis by (auto simp: within_limit_def same)
qed

lemma addSaved_limit:
  assumes "within_limit n lost m st" "addSaved k ok st = Some st'"
  shows "within_limit n (lost + (if ok then 0 else 1)) m st' \<or> within_limit n lost m st'"
proof -
  from assms(2) have k: "k < length (adding st)" "pa_phase (adding st ! k) = Saving" by (auto simp: addSaved_def split: if_splits)
  define p where "p = adding st ! k"
  define xs ys where "xs = take k (adding st)" and "ys = drop (Suc k) (adding st)"
  let ?st = "st\<lparr>adding := xs @ ys\<rparr>"
  have split: "adding st = xs @ p # ys" using k(1) by (simp add: p_def xs_def ys_def id_take_nth_drop)
  have st': "st' = (if ok then register (pa_data p) (pa_id p) (pa_status p) ?st else ?st)"
    using assms(2) k by (cases ok) (simp_all add: addSaved_def p_def xs_def ys_def Let_def)
  have p: "ticket_of p = None" using k(2) by (simp add: p_def ticket_of_def)
  then have "tickets_ok q (xs @ ys)" if "tickets_ok q (adding st)" for q
    using that unfolding split by (auto simp: tickets_ok_def)
  moreover have "adding_slots res (adding st) =
      adding_slots res (xs @ ys) + (if limited_mode (executionMode (pa_data p)) then 1 else 0)" for res
    using p unfolding split by (simp add: adding_slots_def holds_slot_def)
  ultimately have "within_limit n (lost + (if limited_mode (executionMode (pa_data p)) then 1 else 0)) m ?st"
    using assms(1) by (auto simp: within_limit_def ac_simps)
  with register_limit show ?thesis by (auto simp: st' split: if_splits)
qed

text \<open>The callbacks belong to different promises.\<close>

definition callbacks_ok :: "ActiveExecutions \<Rightarrow> bool" where
  "callbacks_ok st \<longleftrightarrow> distinct (map fst (callbacks st)) \<and> list_all (\<lambda>p. p < promises st) (map fst (callbacks st))"

lemma running_slots_delete:
  assumes "distinct (map fst cs)" "map_of cs p = Some (i, mode)"
  shows "running_slots cs = running_slots (AList.delete p cs) + (if limited_mode mode then 1 else 0)"
  using assms
proof (induction cs)
  case (Cons c cs)
  have "AList.delete p cs = cs" if "p \<notin> fst ` set cs"
    using that by (simp add: AList.delete_eq filter_id_conv) force
  with Cons show ?case by (cases c) (auto simp: running_slots_def split: if_splits)
qed simp

lemma release_limit:
  assumes "within_limit n lost m (st\<lparr>callbacks := cs\<rparr>)" "release mode (concurrencyControl st) = Inr cc"
    and "running_slots cs = running_slots cs' + (if limited_mode mode then 1 else 0)"
  shows "within_limit n lost m (st\<lparr>callbacks := cs', concurrencyControl := cc\<rparr>)"
proof (cases "isEnabled (concurrencyControl st)")
  case True
  with assms(1) obtain q where q: "productionLimit (concurrencyControl st) = int n"
    "productionQueue (concurrencyControl st) = Some q" "tickets_ok q (adding st)"
    "cq.balance n (adding_slots (q_resolved q) (adding st) + running_slots cs + lost) m q"
    by (auto simp: within_limit_def)
  show ?thesis
  proof (cases "limited_mode mode")
    case False
    then have "cc = concurrencyControl st"
      using assms(2) limited_limit [OF True q(1)] by (auto simp: release_def bindR_Inr_iff split: if_splits)
    with q False assms(3) show ?thesis by (simp add: within_limit_def)
  next
    case lim: True
    then have cc: "cc = (concurrencyControl st)\<lparr>productionQueue := Some (dequeue q)\<rparr>"
      using assms(2) limited_yes [OF True q(1) lim] q(2) by (simp add: release_def)
    let ?ws = "map snd (q_queue q)"
    have tickets: "tickets_ok (dequeue q) (adding st) \<and> adding_slots (q_resolved (dequeue q)) (adding st) =
        adding_slots (q_resolved q) (adding st) + length (take 1 ?ws)"
      using cq.leave_next [of q] q(3) resolveNext_next [of "q\<lparr>q_capacity := q_capacity q + 1\<rparr>"]
      by (intro tickets_ok_resolve [where ws = ?ws]) (auto simp: tickets_ok_def dequeue_def)
    have slots: "adding_slots (q_resolved q) (adding st) + running_slots cs + lost =
        Suc (adding_slots (q_resolved q) (adding st) + running_slots cs' + lost)"
      using assms(3) lim by simp
    have "cq.balance n (adding_slots (q_resolved (dequeue q)) (adding st) + running_slots cs' + lost) m (dequeue q)"
    proof (cases ?ws)
      case Nil
      with cq.balance_leave_empty [of n _ m q] q(4) slots tickets show ?thesis by simp
    next
      case (Cons t ts)
      with cq.balance_leave_next [OF q(4) Cons] slots tickets show ?thesis by simp
    qed
    with tickets q(1) show ?thesis by (simp add: within_limit_def cc)
  qed
qed (use release_enabled [OF assms(2)] in \<open>simp add: within_limit_def\<close>)

lemma runCallback_limit:
  assumes "within_limit n lost m st" "callbacks_ok st" "runCallback p st = Some (Inr st')"
  shows "within_limit n lost m st'"
proof -
  from assms(3) obtain i mode cc where p: "map_of (callbacks st) p = Some (i, mode)"
    "release mode (concurrencyControl st) = Inr cc"
    and st': "st' = st\<lparr>callbacks := AList.delete p (callbacks st), concurrencyControl := cc,
      activeExecutions := AList.delete i (activeExecutions st)\<rparr>"
    by (auto simp: runCallback_def bindR_Inr_iff split: option.splits if_splits)
  have "within_limit n lost m (st\<lparr>callbacks := AList.delete p (callbacks st), concurrencyControl := cc\<rparr>)"
    using release_limit [OF _ p(2) running_slots_delete [OF _ p(1)]] assms(1,2) by (simp add: callbacks_ok_def)
  then show ?thesis by (simp add: st' within_limit_def)
qed

lemma remove_limit:
  assumes "within_limit n lost m st" "remove_execution mode i (concurrencyControl st) = Inr cc"
  shows "within_limit n lost m (st\<lparr>concurrencyControl := cc\<rparr>) \<or> within_limit n lost (Suc m) (st\<lparr>concurrencyControl := cc\<rparr>)"
proof (cases "isEnabled (concurrencyControl st)")
  case True
  with assms(1) obtain q where q: "productionLimit (concurrencyControl st) = int n"
    "productionQueue (concurrencyControl st) = Some q" "tickets_ok q (adding st)"
    "cq.balance n (adding_slots (q_resolved q) (adding st) + running_slots (callbacks st) + lost) m q"
    by (auto simp: within_limit_def)
  show ?thesis
  proof (cases "cc = concurrencyControl st \<or> remove_id i q = q")
    case True
    then have "cc = concurrencyControl st"
      using assms(2) q(2) by (auto simp: remove_execution_def bindR_Inr_iff split: if_splits)
    then show ?thesis using assms(1) by simp
  next
    case False
    then have cc: "cc = (concurrencyControl st)\<lparr>productionQueue := Some (remove_id i q)\<rparr>"
      using assms(2) q(2) by (auto simp: remove_execution_def bindR_Inr_iff split: if_splits)
    from False remove_id_next [of i q] obtain xs t ys where r: "map snd (q_queue q) = xs @ t # ys"
      "q_capacity (remove_id i q) = q_capacity q + 1" "map snd (q_queue (remove_id i q)) = tl (xs @ ys)"
      "q_resolved (remove_id i q) = q_resolved q @ take 1 (xs @ ys)" "q_tickets (remove_id i q) = q_tickets q" by blast
    have next_slots: "tickets_ok (remove_id i q) (adding st) \<and> adding_slots (q_resolved (remove_id i q)) (adding st) =
        adding_slots (q_resolved q) (adding st) + length (take 1 (xs @ ys))"
    proof (rule tickets_ok_resolve [OF q(3) _ _ r(3-5)])
      show "set (xs @ ys) \<subseteq> set (map snd (q_queue q))" unfolding r(1) by auto
      have "distinct (map snd (q_queue q))" using q(3) by (simp add: tickets_ok_def)
      then show "distinct (xs @ ys)" unfolding r(1) by simp
    qed
    then have "adding_slots (q_resolved (remove_id i q)) (adding st) + running_slots (callbacks st) + lost =
        adding_slots (q_resolved q) (adding st) + running_slots (callbacks st) + lost + length (take 1 (xs @ ys))"
      by linarith
    with cq.balance_drop_out [OF q(4) r(1,2,3)]
    have "cq.balance n (adding_slots (q_resolved (remove_id i q)) (adding st) + running_slots (callbacks st) + lost)
        (Suc m) (remove_id i q)" by metis
    with next_slots q(1) have "within_limit n lost (Suc m) (st\<lparr>concurrencyControl := cc\<rparr>)"
      by (simp only: within_limit_def cc) simp
    then show ?thesis by simp
  qed
qed (use remove_enabled [OF assms(2)] in \<open>simp add: within_limit_def\<close>)

section \<open>Every reachable state\<close>

definition is_failure :: "ActiveEvent \<Rightarrow> bool" where
  "is_failure e = (case e of Saved _ ok \<Rightarrow> \<not> ok | _ \<Rightarrow> False)"

definition is_removal :: "ActiveEvent \<Rightarrow> bool" where
  "is_removal e = (case e of Remove _ _ \<Rightarrow> True | _ \<Rightarrow> False)"

text \<open>The parts of the state that the limit depends on.\<close>

definition same_books :: "ActiveExecutions \<Rightarrow> ActiveExecutions \<Rightarrow> bool" where
  "same_books st st' \<longleftrightarrow> concurrencyControl st' = concurrencyControl st \<and> adding st' = adding st \<and>
     callbacks st' = callbacks st \<and> promises st' = promises st \<and> regular st' = regular st"

lemma same_books_limit: "same_books st st' \<Longrightarrow> within_limit n lost m st \<Longrightarrow> within_limit n lost m st'"
  by (simp add: same_books_def within_limit_def)

lemma same_books_stop: "same_books st (stopExecution i st)"
  by (simp add: same_books_def stopExecution_def settle_def split: option.split)

lemma same_books_change: "changeExecution i f st = Inr st' \<Longrightarrow> same_books st st'"
  by (auto simp: same_books_def changeExecution_def bindR_Inr_iff)

lemma same_books_finalize: "finalizeExecution i st = Inr st' \<Longrightarrow> same_books st st'"
  by (auto simp: same_books_def finalizeExecution_def settle_def bindR_Inr_iff)

definition keeps_books :: "ActiveEvent \<Rightarrow> bool" where
  "keeps_books e = (case e of Finalize _ \<Rightarrow> True | Stop _ \<Rightarrow> True | SetStatus _ _ \<Rightarrow> True
     | AttachExecution _ \<Rightarrow> True | AttachResponse _ \<Rightarrow> True | Respond _ \<Rightarrow> True | _ \<Rightarrow> False)"

lemma same_books_respond: "same_books st (resolveResponsePromise i st)"
  by (simp add: same_books_def resolveResponsePromise_def split: option.split)

lemma handle_same_books: "keeps_books e \<Longrightarrow> handle e st = Some st' \<Longrightarrow> same_books st st'"
  by (cases e) (auto simp: keeps_books_def returned_def setStatus_def attachWorkflowExecution_def
      attachResponsePromise_def same_books_stop same_books_respond split: sum.splits
      intro: same_books_change same_books_finalize)

lemma stops_books:
  "concurrencyControl (fold stopExecution is st) = concurrencyControl st \<and>
   callbacks (fold stopExecution is st) = callbacks st \<and> promises (fold stopExecution is st) = promises st \<and>
   regular (fold stopExecution is st) = regular st"
  using same_books_stop by (induction "is" arbitrary: st) (simp_all add: same_books_def)

lemma shutdown_books:
  assumes "shutdownBegin cancelAll st = Inr (st', many)" "regular st"
  shows "\<not> isEnabled (concurrencyControl st') \<and> callbacks st' = callbacks st \<and> promises st' = promises st \<and>
    regular st' \<and> productionQueue (concurrencyControl st') = productionQueue (concurrencyControl st) \<and> many = []"
proof -
  have "\<not> isEnabled (disable (concurrencyControl st))" by (simp add: disable_def)
  with assms stops_books show ?thesis
    by (auto simp: shutdownBegin_def Let_def removeAll_def disable_def bindR_Inr_iff split: if_splits)
qed

lemma returned_Some [simp]: "returned m = Some x \<longleftrightarrow> m = Inr x"
  by (cases m) (simp_all add: returned_def)

lemma register_books:
  "regular (register data i status st) = regular st \<and> (callbacks_ok st \<longrightarrow> callbacks_ok (register data i status st))"
  by (auto simp: register_def callbacks_ok_def less_Suc_eq list_all_iff)

lemma handle_callbacks:
  assumes "handle e st = Some st'" "callbacks_ok st" "regular st"
  shows "callbacks_ok st' \<and> regular st'"
proof (cases e)
  case (Begin data executionId createdId)
  with assms show ?thesis
    by (auto simp: addBegin_def waitTurn_def callbacks_ok_def bindR_Inr_iff split: option.splits if_splits)
next
  case (Admit k)
  with assms show ?thesis
    by (auto simp: addAdmitted_def callbacks_ok_def split: if_splits AddPhase.splits)
next
  case (Saved k ok)
  have "callbacks_ok (st\<lparr>adding := ps\<rparr>)" "regular (st\<lparr>adding := ps\<rparr>)" for ps
    using assms(2,3) by (simp_all add: callbacks_ok_def)
  with Saved assms(1) register_books show ?thesis by (auto simp: addSaved_def Let_def split: if_splits)
next
  case (Callback p)
  have "callbacks_ok (st\<lparr>callbacks := AList.delete p (callbacks st), concurrencyControl := cc, activeExecutions := as\<rparr>)" for cc as
    using assms(2) by (auto simp: callbacks_ok_def list_all_iff AList.delete_keys distinct_removeAll)
  with Callback assms show ?thesis
    by (auto simp: runCallback_def bindR_Inr_iff split: option.splits if_splits)
next
  case (Shutdown cancelAll)
  with assms shutdown_books show ?thesis by (auto simp: callbacks_ok_def)
next
  case (Remove mode i)
  with assms show ?thesis by (auto simp: callbacks_ok_def bindR_Inr_iff)
qed (use assms handle_same_books [of e st st'] in \<open>simp_all add: keeps_books_def callbacks_ok_def same_books_def\<close>)

definition bounded_by :: "nat \<Rightarrow> ActiveEvent list \<Rightarrow> ActiveExecutions \<Rightarrow> bool" where
  "bounded_by n es st \<longleftrightarrow> callbacks_ok st \<and> regular st \<and> (\<exists>lost m. within_limit n lost m st \<and>
     lost \<le> length (filter is_failure es) \<and> m \<le> length (filter is_removal es))"

lemma handle_limit:
  assumes "handle e st = Some st'" "callbacks_ok st" "regular st" "within_limit n lost m st"
  shows "\<exists>lost' m'. within_limit n lost' m' st' \<and> lost' \<le> lost + length (filter is_failure [e]) \<and>
    m' \<le> m + length (filter is_removal [e])"
proof -
  have same: ?thesis if "within_limit n lost m st'" using that by (intro exI [of _ lost] exI [of _ m]) simp
  show ?thesis
  proof (cases e)
    case (Begin data executionId createdId)
    with assms(1,3) have "\<exists>i status. waitTurn data i status st = Inr st'"
      by (auto simp: addBegin_def bindR_Inr_iff split: option.splits if_splits)
    then show ?thesis using same waitTurn_limit [OF assms(4)] by blast
  next
    case (Admit k)
    then show ?thesis using addAdmitted_limit [OF assms(4)] assms(1) by (intro same) simp
  next
    case (Saved k ok)
    with assms have "within_limit n (lost + (if ok then 0 else 1)) m st' \<or> within_limit n lost m st'"
      using addSaved_limit by simp
    then show ?thesis
    proof
      assume "within_limit n (lost + (if ok then 0 else 1)) m st'"
      then show ?thesis by (intro exI [of _ "lost + (if ok then 0 else 1)"] exI [of _ m]) (simp add: Saved is_failure_def)
    qed (rule same)
  next
    case (Callback p)
    with assms(1) have "runCallback p st = Some (Inr st')" by (auto split: option.splits)
    then show ?thesis by (rule same [OF runCallback_limit [OF assms(4,2)]])
  next
    case (Remove mode i)
    with assms(1) obtain cc where "remove_execution mode i (concurrencyControl st) = Inr cc"
      "st' = st\<lparr>concurrencyControl := cc\<rparr>" by (auto simp: bindR_Inr_iff)
    with remove_limit [OF assms(4)] consider "within_limit n lost m st'" | "within_limit n lost (Suc m) st'" by blast
    then show ?thesis
    proof cases
      case 2
      then show ?thesis by (intro exI [of _ lost] exI [of _ "Suc m"]) (simp add: Remove is_removal_def)
    qed (rule same)
  next
    case (Shutdown cancelAll)
    with assms shutdown_books have "\<not> isEnabled (concurrencyControl st')" by auto
    then show ?thesis using same by (simp add: within_limit_def)
  qed (use same same_books_limit [OF handle_same_books [OF _ assms(1)] assms(4)] in \<open>simp_all add: keeps_books_def\<close>)
qed

lemma reached_bounded:
  assumes "new_ConcurrencyControlService (int n) ''regular'' = Inr cc" "reached (new_ActiveExecutions True cc) es st"
  shows "bounded_by n es st"
  using assms(2)
proof (induction rule: reached.induct)
  case reached_start
  from assms(1) have "within_limit n 0 0 (new_ActiveExecutions True cc)"
    by (auto simp: within_limit_def new_ConcurrencyControlService_def new_ActiveExecutions_def
        new_ConcurrencyQueue_def tickets_ok_def adding_slots_def running_slots_def cq.balance_def Let_def split: if_splits)
  then show ?case by (auto simp: bounded_by_def new_ActiveExecutions_def callbacks_ok_def)
next
  case (reached_step es st e st')
  then obtain lost m where lm: "within_limit n lost m st" "lost \<le> length (filter is_failure es)"
    "m \<le> length (filter is_removal es)" and st: "callbacks_ok st" "regular st" by (auto simp: bounded_by_def)
  from handle_limit [OF reached_step(2) st lm(1)] obtain lost' m' where "within_limit n lost' m' st'"
    "lost' \<le> lost + length (filter is_failure [e])" "m' \<le> m + length (filter is_removal [e])" by blast
  with lm(2,3) have "lost' \<le> length (filter is_failure (es @ [e]))" "m' \<le> length (filter is_removal (es @ [e]))"
    "within_limit n lost' m' st'" by auto
  then show ?case using handle_callbacks [OF reached_step(2) st] unfolding bounded_by_def by blast
qed

definition slots :: "ActiveExecutions \<Rightarrow> ConcurrencyQueue \<Rightarrow> nat" where
  "slots st q = adding_slots (q_resolved q) (adding st) + running_slots (callbacks st)"


primrec handle_all :: "ActiveEvent list \<Rightarrow> ActiveExecutions \<Rightarrow> ActiveExecutions option" where
  "handle_all [] st = Some st"
| "handle_all (e # es) st = (case handle e st of None \<Rightarrow> None | Some st' \<Rightarrow> handle_all es st')"

lemma handle_all_reached: "handle_all es st = Some st' \<Longrightarrow> reached start es0 st \<Longrightarrow> reached start (es0 @ es) st'"
proof (induction es arbitrary: st es0)
  case (Cons e es)
  then obtain u where "handle e st = Some u" "handle_all es u = Some st'" by (auto split: option.splits)
  with Cons.IH [of u "es0 @ [e]"] reached_step [OF Cons.prems(2)] show ?case by simp
qed simp

lemmas active_defs = addBegin_def waitTurn_def throttle_def limited_def isUnlimited_def enqueue_id_def emit_def
  addAdmitted_def ticketResolved_def addSaved_def register_def runCallback_def release_def dequeue_def resolveNext_def
  remove_execution_def remove_id_def returned_def settle_def finalizeExecution_def getExecution_def

definition webhook :: IWorkflowExecutionDataProcess where
  "webhook = \<lparr>executionMode = ''webhook'', retryOf = None, workflowId = Some ''w''\<rparr>"

lemma no_index: "array_index ''a'' = None" "array_index ''b'' = None" "array_index ''c'' = None"
  by code_simp+

definition one_slot :: ActiveExecutions where
  "one_slot = new_ActiveExecutions True
     \<lparr>isEnabled = True, productionLimit = 1, productionQueue = Some (new_ConcurrencyQueue 1)\<rparr>"

lemma one_slot_service: "new_ConcurrencyControlService (int 1) ''regular'' =
    Inr \<lparr>isEnabled = True, productionLimit = 1, productionQueue = Some (new_ConcurrencyQueue 1)\<rparr>"
  by (simp add: new_ConcurrencyControlService_def)

definition three_calls :: "ActiveEvent list" where
  "three_calls = [Begin webhook None ''a'', Begin webhook None ''b'', Begin webhook None ''c'', Admit 0, Saved 0 True]"


text \<open>A slot that becomes free goes to the execution that has waited longest, whose call can go on.\<close>

lemma ticket_admitted:
  assumes "t \<in> set (tickets ps)"
  shows "\<exists>k < length ps. pa_phase (ps ! k) = Throttling (Some t)"
proof -
  from assms obtain p where "p \<in> set ps" "ticket_of p = Some t"
    by (induction ps) (auto split: option.splits)
  then show ?thesis by (auto simp: in_set_conv_nth ticket_of_def split: AddPhase.splits)
qed


definition freeing_calls :: "ActiveEvent list" where
  "freeing_calls = three_calls @ [Finalize ''a'']"


section \<open>Where the limit fails\<close>

text \<open>
  Taking an execution out of the queue also lets the next one through, although no slot became
  free: with a limit of one, two executions run.
\<close>

lemma removal_exceeds_limit:
  "\<exists>st q. handle_all (three_calls @ [Remove ''webhook'' ''b'', Admit 1, Saved 1 True]) one_slot = Some st \<and>
     productionQueue (concurrencyControl st) = Some q \<and> slots st q = 2 \<and> map fst (activeExecutions st) = [''a'', ''c'']"
  by (simp add: three_calls_def one_slot_def new_ActiveExecutions_def new_ConcurrencyQueue_def
      webhook_def active_defs no_index obj_put_def extract_Cons_code extract_Nil_code holds_slot_def ticket_of_def Let_def slots_def adding_slots_def
      running_slots_def limited_mode_def)

text \<open>
  When the write to the database fails after an execution had its turn, nobody gives its slot
  back: with a limit of one the next execution waits although nothing runs or is being added.
\<close>

lemma failed_write_loses_slot:
  "\<exists>st q. handle_all [Begin webhook None ''a'', Admit 0, Saved 0 False, Begin webhook None ''b''] one_slot = Some st \<and>
     productionQueue (concurrencyControl st) = Some q \<and> slots st q = 0 \<and> map fst (q_queue q) = [''b'']"
  by (simp add: one_slot_def new_ActiveExecutions_def new_ConcurrencyQueue_def ticket_of_def
      webhook_def active_defs Let_def slots_def adding_slots_def holds_slot_def running_slots_def limited_mode_def)

text \<open>
  \<open>shutdown\<close> disables the limit first; \<open>removeAll\<close> does nothing when it is disabled, so the executions
  that wait are neither taken out of the queue nor cancelled.
\<close>

lemma shutdown_cancels_no_waiting:
  "shutdownBegin True st = Inr (st', many) \<Longrightarrow> regular st \<Longrightarrow>
     many = [] \<and> productionQueue (concurrencyControl st') = productionQueue (concurrencyControl st)"
  using shutdown_books by blast

end
