(* ===== verification/ParameterOrder.thy ===== *)
theory ParameterOrder
  imports NodeProperties
begin

text \<open>
  The order in which parameters are resolved (\<open>getParameterDependencies\<close> and
  \<open>getParameterResolveOrder\<close> of \<open>packages/workflow/src/NodeHelpers.ts\<close>). The queue of the loop can grow,
  so its termination needs a measure; the theorems say when it fails, and that the order it returns
  begins with the order of declaration whatever the dependencies are.
\<close>

section \<open>Dependencies\<close>

type_synonym IParameterDependencies = "string list jsobj"

definition rule_names :: "INodeProperties \<Rightarrow> string list" where
  "rule_names nodeProperties =
     (case np_displayOptions nodeProperties of
        None \<Rightarrow> []
      | Some displayOptions \<Rightarrow> concat (map (\<lambda>displayRule. map fst (snd displayRule)) displayOptions))"

definition add_dependency :: "string \<Rightarrow> string list \<Rightarrow> string list" where
  "add_dependency parameterName ds =
     (if parameterName \<in> set ds \<or> take 1 parameterName = ''@'' then ds else ds @ [parameterName])"

definition getParameterDependencies :: "INodeProperties list \<Rightarrow> IParameterDependencies" where
  "getParameterDependencies nodePropertiesArray =
     fold (\<lambda>nodeProperties dependencies.
       let old = (case map_of dependencies (np_name nodeProperties) of None \<Rightarrow> [] | Some ds \<Rightarrow> ds)
       in obj_put (np_name nodeProperties) (fold add_dependency (rule_names nodeProperties) old) dependencies)
       nodePropertiesArray []"

lemma set_add_dependencies:
  "set (fold add_dependency names ds) = set ds \<union> {d \<in> set names. take 1 d \<noteq> ''@''}"
  by (induction names arbitrary: ds) (auto simp: add_dependency_def)

text \<open>What a name depends on: what the rules of the properties of this name read.\<close>

definition depends_on :: "INodeProperties list \<Rightarrow> string \<Rightarrow> string set" where
  "depends_on ps name = {d. take 1 d \<noteq> ''@'' \<and> (\<exists>p \<in> set ps. np_name p = name \<and> d \<in> set (rule_names p))}"

lemma depends_on_Cons:
  "depends_on (p # ps) name =
     (if np_name p = name then {d \<in> set (rule_names p). take 1 d \<noteq> ''@''} else {}) \<union> depends_on ps name"
  by (auto simp: depends_on_def)

lemma dependencies_from:
  fixes acc :: IParameterDependencies
  defines "step \<equiv> \<lambda>nodeProperties dependencies.
       let old = (case map_of dependencies (np_name nodeProperties) of None \<Rightarrow> [] | Some ds \<Rightarrow> ds)
       in obj_put (np_name nodeProperties) (fold add_dependency (rule_names nodeProperties) old) dependencies"
  shows "map_option set (map_of (fold step ps acc) name) =
     (if name \<in> np_name ` set ps \<or> map_of acc name \<noteq> None
      then Some ((case map_of acc name of None \<Rightarrow> {} | Some ds \<Rightarrow> set ds) \<union> depends_on ps name) else None)"
proof (induction ps arbitrary: acc)
  case Nil
  then show ?case by (auto simp: depends_on_def split: option.split)
next
  case (Cons p ps)
  show ?case
    unfolding fold_Cons comp_apply Cons.IH
    by (auto simp: step_def Let_def depends_on_Cons set_add_dependencies split: option.splits)
qed

lemma dependencies_set:
  "map_option set (map_of (getParameterDependencies ps) name) =
     (if name \<in> np_name ` set ps then Some (depends_on ps name) else None)"
  unfolding getParameterDependencies_def using dependencies_from [of ps "[]" name] by simp

lemma dependencies_defined:
  "p \<in> set ps \<Longrightarrow> \<exists>ds. map_of (getParameterDependencies ps) (np_name p) = Some ds \<and> set ds = depends_on ps (np_name p)"
  using dependencies_set [of ps "np_name p"] by auto

section \<open>The loop\<close>

text \<open>
  The dependencies that make the loop push the index again, once for each. The inner \<open>continue\<close> of the
  code goes on with the next dependency, not with the next index.
\<close>

definition unmet :: "string list \<Rightarrow> string list \<Rightarrow> string list" where
  "unmet resolvedParameters ds = filter (\<lambda>d. d \<notin> set resolvedParameters \<and> take 1 d \<noteq> ''/'') ds"

record ResolveState =
  executionOrderR :: "nat list"
  resolvedParameters :: "string list"
  lastIndexLength :: nat
  lastIndexReduction :: int
  iterations :: int

definition MAX_ITERATIONS :: js_error where
  "MAX_ITERATIONS = ApplicationError ''Could not resolve parameter dependencies. Max iterations reached!''"

text \<open>The entries of the queue whose dependencies are met; each is taken out for good.\<close>

definition settled :: "INodeProperties list \<Rightarrow> IParameterDependencies \<Rightarrow> ResolveState \<Rightarrow> nat list \<Rightarrow> nat list" where
  "settled ps deps s queue =
     filter (\<lambda>i. case map_of deps (np_name (ps ! i)) of None \<Rightarrow> False
       | Some ds \<Rightarrow> unmet (resolvedParameters s) ds = []) queue"

definition missing_names :: "IParameterDependencies \<Rightarrow> ResolveState \<Rightarrow> string set" where
  "missing_names deps s = set (concat (map snd deps)) - set (resolvedParameters s)"

definition add_index :: "INodeProperties list \<Rightarrow> nat \<Rightarrow> ResolveState \<Rightarrow> ResolveState" where
  "add_index ps i s = s\<lparr>executionOrderR := executionOrderR s @ [i],
     resolvedParameters := resolvedParameters s @ [np_name (ps ! i)], iterations := iterations s + 1\<rparr>"

text \<open>The end of an iteration for an index with dependencies.\<close>

definition note_length :: "nat list \<Rightarrow> ResolveState \<Rightarrow> ResolveState" where
  "note_length queue s = s\<lparr>
     lastIndexReduction := (if length queue < lastIndexLength s then iterations s else lastIndexReduction s),
     lastIndexLength := length queue\<rparr>"

definition too_many :: "INodeProperties list \<Rightarrow> ResolveState \<Rightarrow> bool" where
  "too_many ps s = (iterations s > lastIndexReduction s + int (length ps))"

lemma missing_names_add: "missing_names deps (add_index ps i s) = missing_names deps s - {np_name (ps ! i)}"
  by (auto simp: missing_names_def add_index_def)

lemma missing_names_note [simp]: "missing_names deps (note_length q s) = missing_names deps s"
  by (simp add: missing_names_def note_length_def)

lemma finite_missing [simp]: "finite (missing_names deps s)"
  by (simp add: missing_names_def)

lemma settled_add:
  assumes "np_name (ps ! i) \<notin> missing_names deps s"
  shows "settled ps deps (add_index ps i s) q = settled ps deps s q"
proof -
  have "unmet (resolvedParameters (add_index ps i s)) ds = unmet (resolvedParameters s) ds"
    if "map_of deps k = Some ds" for k ds
  proof -
    from that have "set ds \<subseteq> set (concat (map snd deps))" by (auto dest: map_of_SomeD)
    with assms show ?thesis by (auto simp: unmet_def add_index_def missing_names_def intro!: filter_cong)
  qed
  then show ?thesis unfolding settled_def by (intro filter_cong refl) (auto split: option.split)
qed

lemma settled_note [simp]: "settled ps deps (note_length q s) q' = settled ps deps s q'"
  by (simp add: settled_def note_length_def cong: option.case_cong)

function resolveLoop ::
  "INodeProperties list \<Rightarrow> IParameterDependencies \<Rightarrow> nat list \<Rightarrow> ResolveState \<Rightarrow> nat list res" where
  "resolveLoop ps deps [] s = Inr (executionOrderR s)"
| "resolveLoop ps deps (i # queue) s =
     (case map_of deps (np_name (ps ! i)) of
        None \<Rightarrow> Inl TypeError
      | Some ds \<Rightarrow>
          if ds = [] then resolveLoop ps deps queue (add_index ps i s)
          else
            let queue' = queue @ replicate (length (unmet (resolvedParameters s) ds)) i;
                s' = note_length queue' (add_index ps i s)
            in if too_many ps s' then Inl MAX_ITERATIONS else resolveLoop ps deps queue' s')"
  by pat_completeness auto

text \<open>
  Either a name on which something depends gets resolved, or an entry whose dependencies are met is
  taken out, or the queue had become shorter without a note of it, or fewer iterations are left.
\<close>

definition resolve_measures ::
  "((INodeProperties list \<times> IParameterDependencies \<times> nat list \<times> ResolveState) \<Rightarrow> nat) list" where
  "resolve_measures =
     [\<lambda>(ps, deps, queue, s). card (missing_names deps s),
      \<lambda>(ps, deps, queue, s). length (settled ps deps s queue),
      \<lambda>(ps, deps, queue, s). if length queue < lastIndexLength s then 1 else 0,
      \<lambda>(ps, deps, queue, s). nat (lastIndexReduction s + int (length ps) + 1 - iterations s)]"

lemma resolve_decreases:
  assumes ds: "map_of deps (np_name (ps ! i)) = Some ds"
    and queue': "queue' = queue @ replicate (length (unmet (resolvedParameters s) ds)) i"
    and s': "s' = (if ds = [] then add_index ps i s else note_length queue' (add_index ps i s))"
    and go: "ds = [] \<or> \<not> too_many ps s'"
  shows "((ps, deps, queue', s'), (ps, deps, i # queue, s)) \<in> measures resolve_measures"
proof (cases "np_name (ps ! i) \<in> missing_names deps s")
  case True
  have "missing_names deps s' = missing_names deps s - {np_name (ps ! i)}"
    by (simp add: s' missing_names_add)
  with True have "card (missing_names deps s') < card (missing_names deps s)"
    by (metis card_Diff1_less finite_missing)
  then show ?thesis by (simp add: resolve_measures_def)
next
  case False
  then have names: "missing_names deps s' = missing_names deps s"
    by (simp add: s' missing_names_add)
  have same: "settled ps deps s' q = settled ps deps s q" for q
    using settled_add [OF False] by (simp add: s')
  show ?thesis
  proof (cases "unmet (resolvedParameters s) ds = []")
    case True
    then have "length (settled ps deps s' queue') < length (settled ps deps s (i # queue))"
      by (simp add: same queue') (simp add: settled_def ds)
    with names show ?thesis by (simp add: resolve_measures_def)
  next
    case unsettled: False
    then have ne: "ds \<noteq> []" by (auto simp: unmet_def)
    from unsettled have "settled ps deps s' queue' = settled ps deps s (i # queue)"
      unfolding same by (simp add: settled_def queue' ds)
    moreover have "length queue' \<ge> Suc (length queue)"
      using unsettled by (cases "unmet (resolvedParameters s) ds") (simp_all add: queue')
    ultimately show ?thesis using names ne go
      by (auto simp: resolve_measures_def s' note_length_def add_index_def too_many_def)
  qed
qed

termination resolveLoop
proof (relation "measures resolve_measures")
  show "wf (measures resolve_measures)" by simp
next
  fix ps :: "INodeProperties list" and deps i queue s and ds :: "string list"
  assume ds: "map_of deps (np_name (ps ! i)) = Some ds" and "ds = []"
  then show "((ps, deps, queue, add_index ps i s), (ps, deps, i # queue, s)) \<in> measures resolve_measures"
    using resolve_decreases [of deps ps i ds queue queue s "add_index ps i s"] by (simp add: unmet_def)
next
  fix ps :: "INodeProperties list" and deps i queue s queue' s' and ds :: "string list"
  assume "map_of deps (np_name (ps ! i)) = Some ds" "ds \<noteq> []"
    "queue' = queue @ replicate (length (unmet (resolvedParameters s) ds)) i"
    "s' = note_length queue' (add_index ps i s)" "\<not> too_many ps s'"
  then show "((ps, deps, queue', s'), (ps, deps, i # queue, s)) \<in> measures resolve_measures"
    by (intro resolve_decreases) auto
qed

definition getParameterResolveOrder ::
  "INodeProperties list \<Rightarrow> IParameterDependencies \<Rightarrow> nat list res" where
  "getParameterResolveOrder ps parameterDependencies =
     resolveLoop ps parameterDependencies [0..<length ps]
       \<lparr>executionOrderR = [], resolvedParameters = [], lastIndexLength = length ps, lastIndexReduction = -1,
        iterations = 0\<rparr>"

section \<open>The order\<close>

lemma resolveLoop_prefix:
  "resolveLoop ps deps queue s = Inr order \<Longrightarrow>
     \<exists>rest. order = executionOrderR s @ queue @ rest \<and> set rest \<subseteq> set queue"
proof (induction ps deps queue s rule: resolveLoop.induct)
  case (1 ps deps s)
  then show ?case by simp
next
  case (2 ps deps i queue s)
  from "2.prems" obtain ds where ds: "map_of deps (np_name (ps ! i)) = Some ds"
    by (auto split: option.splits)
  let ?queue = "queue @ replicate (length (unmet (resolvedParameters s) ds)) i"
  show ?case
  proof (cases "ds = []")
    case True
    with 2 ds obtain rest where "order = executionOrderR (add_index ps i s) @ queue @ rest" "set rest \<subseteq> set queue"
      by auto
    then show ?thesis by (auto simp: add_index_def)
  next
    case False
    with ds "2.prems" have "resolveLoop ps deps ?queue (note_length ?queue (add_index ps i s)) = Inr order"
      by (simp add: Let_def split: if_splits)
    moreover from this have "\<not> too_many ps (note_length ?queue (add_index ps i s))"
      using ds False "2.prems" by (auto simp: Let_def split: if_splits)
    ultimately obtain rest where "order = executionOrderR (note_length ?queue (add_index ps i s)) @ ?queue @ rest"
      "set rest \<subseteq> set ?queue"
      using "2.IH"(2) [OF ds False refl refl] by blast
    then show ?thesis
      by (intro exI [of _ "replicate (length (unmet (resolvedParameters s) ds)) i @ rest"])
        (auto simp: note_length_def add_index_def split: if_splits)
  qed
qed

text \<open>The order of resolution contains every parameter, and it begins with the order of
  declaration: no dependency has an influence on when a parameter is first resolved.\<close>

theorem resolve_order_is_declaration_order:
  assumes "getParameterResolveOrder ps deps = Inr order"
  shows "take (length ps) order = [0..<length ps] \<and> set order = {..<length ps}"
proof -
  from assms obtain rest where "order = [0..<length ps] @ rest" "set rest \<subseteq> {..<length ps}"
    unfolding getParameterResolveOrder_def by (auto dest!: resolveLoop_prefix simp: lessThan_atLeast0)
  then show ?thesis by auto
qed

section \<open>When it fails\<close>

definition known_names :: "INodeProperties list \<Rightarrow> string set" where
  "known_names ps = np_name ` set ps"

lemma known_name [intro]: "i < length ps \<Longrightarrow> np_name (ps ! i) \<in> known_names ps"
  by (simp add: known_names_def)

lemma resolveLoop_missing:
  assumes "i \<in> set queue" "set queue \<subseteq> {..<length ps}" "set (resolvedParameters s) \<subseteq> known_names ps"
    and "\<And>p. p \<in> set ps \<Longrightarrow> map_of deps (np_name p) \<noteq> None"
    and "map_of deps (np_name (ps ! i)) = Some ds" "d \<in> set ds" "d \<notin> known_names ps" "take 1 d \<noteq> ''/''"
  shows "resolveLoop ps deps queue s = Inl MAX_ITERATIONS"
  using assms
proof (induction ps deps queue s rule: resolveLoop.induct)
  case (1 ps deps s)
  then show ?case by simp
next
  case (2 ps deps j queue s)
  from 2(4) have j: "j < length ps" by simp
  with "2.prems"(4) obtain js where js: "map_of deps (np_name (ps ! j)) = Some js" by fastforce
  have names: "set (resolvedParameters (add_index ps j s)) \<subseteq> known_names ps"
    using "2.prems"(3) known_name [OF j] by (auto simp: add_index_def)
  show ?case
  proof (cases "js = []")
    case True
    with js "2.prems"(5,6) have "i \<noteq> j" by auto
    with "2.IH"(1) [OF js True] "2.prems" names True js show ?thesis by simp
  next
    case False
    let ?queue = "queue @ replicate (length (unmet (resolvedParameters s) js)) j"
    have "i \<in> set ?queue"
    proof (cases "i = j")
      case True
      with js "2.prems"(3,5-8) have "unmet (resolvedParameters s) js \<noteq> []"
        by (auto simp: unmet_def filter_empty_conv)
      with True show ?thesis by simp
    qed (use "2.prems"(1) in simp)
    moreover have "set ?queue \<subseteq> {..<length ps}" using "2.prems"(2) by auto
    moreover have "resolvedParameters (note_length ?queue (add_index ps j s)) = resolvedParameters (add_index ps j s)"
      by (simp add: note_length_def)
    ultimately show ?thesis
      using "2.IH"(2) [OF js False refl refl] "2.prems"(4-8) names False js by (simp add: Let_def)
  qed
qed

text \<open>The state of the loop when nothing is missing: it is in its first pass, or all names are resolved.\<close>

definition resolvable :: "INodeProperties list \<Rightarrow> IParameterDependencies \<Rightarrow> bool" where
  "resolvable ps deps \<longleftrightarrow> (\<forall>p \<in> set ps. \<exists>ds. map_of deps (np_name p) = Some ds \<and>
     (\<forall>d \<in> set ds. take 1 d = ''/'' \<or> d \<in> known_names ps - {np_name p}))"

definition on_course :: "INodeProperties list \<Rightarrow> nat list \<Rightarrow> ResolveState \<Rightarrow> bool" where
  "on_course ps queue s \<longleftrightarrow>
     set queue \<subseteq> {..<length ps} \<and> length queue \<le> lastIndexLength s \<and> lastIndexReduction s \<ge> -1 \<and>
     iterations s \<ge> 0 \<and>
     (\<exists>k \<le> length ps. (\<lambda>i. np_name (ps ! i)) ` {..<k} \<subseteq> set (resolvedParameters s) \<and>
       (k = length ps \<or> iterations s = int k \<and> take (length ps - k) queue = [k..<length ps]))"

lemma unmet_all_resolved:
  assumes "resolvable ps deps" "i < length ps" "map_of deps (np_name (ps ! i)) = Some ds"
    and "known_names ps - {np_name (ps ! i)} \<subseteq> set resolved"
  shows "unmet resolved ds = []"
proof -
  from assms(1-3) have "\<forall>d \<in> set ds. take 1 d = ''/'' \<or> d \<in> known_names ps - {np_name (ps ! i)}"
    unfolding resolvable_def using nth_mem [OF assms(2)] by fastforce
  with assms(4) show ?thesis by (auto simp: unmet_def filter_empty_conv)
qed

text \<open>Only the last parameter of the first pass can have nothing left to wait for but itself.\<close>

lemma last_of_first_pass:
  assumes "resolvable ps deps" "map_of deps (np_name (ps ! i)) = Some ds" "on_course ps (i # queue) s"
    and "unmet (resolvedParameters s) ds \<noteq> []"
  shows "iterations s + 1 < int (length ps)"
proof -
  from assms(3) obtain k where k: "k \<le> length ps" "(\<lambda>i. np_name (ps ! i)) ` {..<k} \<subseteq> set (resolvedParameters s)"
    "k = length ps \<or> iterations s = int k \<and> take (length ps - k) (i # queue) = [k..<length ps]"
    and i: "i < length ps" by (auto simp: on_course_def)
  have not_all: "\<not> known_names ps - {np_name (ps ! i)} \<subseteq> set (resolvedParameters s)"
    using unmet_all_resolved [OF assms(1) i assms(2)] assms(4) by blast
  have names: "known_names ps = (\<lambda>i. np_name (ps ! i)) ` {..<length ps}"
    by (auto simp: known_names_def set_conv_nth)
  from not_all k(2) names have "k \<noteq> length ps" by auto
  with k(1) have "length ps - k = Suc (length ps - Suc k)" by simp
  with k \<open>k \<noteq> length ps\<close> have it: "iterations s = int k" "k < length ps" "i # take (length ps - Suc k) queue = [k..<length ps]"
    by auto
  then have "i = k" by (auto simp: upt_conv_Cons)
  have "Suc k \<noteq> length ps"
  proof
    assume "Suc k = length ps"
    then have "{..<length ps} = insert k {..<k}" by auto
    with names \<open>i = k\<close> have "known_names ps - {np_name (ps ! i)} \<subseteq> (\<lambda>i. np_name (ps ! i)) ` {..<k}"
      by auto
    with not_all k(2) show False by blast
  qed
  with it show ?thesis by simp
qed

lemma on_course_add:
  assumes "on_course ps (i # queue) s"
  shows "on_course ps queue (add_index ps i s)"
    "length queue < lastIndexLength (add_index ps i s)"
proof -
  from assms obtain k where k: "k \<le> length ps" "(\<lambda>i. np_name (ps ! i)) ` {..<k} \<subseteq> set (resolvedParameters s)"
    "k = length ps \<or> iterations s = int k \<and> take (length ps - k) (i # queue) = [k..<length ps]"
    by (auto simp: on_course_def)
  have "\<exists>k \<le> length ps. (\<lambda>i. np_name (ps ! i)) ` {..<k} \<subseteq> set (resolvedParameters (add_index ps i s)) \<and>
     (k = length ps \<or> iterations (add_index ps i s) = int k \<and> take (length ps - k) queue = [k..<length ps])"
  proof (cases "k = length ps")
    case True
    with k(2) show ?thesis by (auto simp: add_index_def)
  next
    case False
    with k(1) have "length ps - k = Suc (length ps - Suc k)" by simp
    with k False have "i # take (length ps - Suc k) queue = k # [Suc k..<length ps]"
      by (simp add: upt_conv_Cons)
    with k False show ?thesis
      by (intro exI [of _ "Suc k"]) (auto simp: add_index_def lessThan_Suc)
  qed
  with assms show "on_course ps queue (add_index ps i s)" "length queue < lastIndexLength (add_index ps i s)"
    by (auto simp: on_course_def add_index_def)
qed

lemma on_course_note:
  assumes "resolvable ps deps" "map_of deps (np_name (ps ! i)) = Some ds" "on_course ps (i # queue) s"
  defines "queue' \<equiv> queue @ replicate (length (unmet (resolvedParameters s) ds)) i"
  shows "on_course ps queue' (note_length queue' (add_index ps i s)) \<and>
    \<not> too_many ps (note_length queue' (add_index ps i s))"
proof
  note add = on_course_add [OF assms(3)]
  from add(1) obtain k where "k \<le> length ps"
    "(\<lambda>i. np_name (ps ! i)) ` {..<k} \<subseteq> set (resolvedParameters (add_index ps i s))"
    "k = length ps \<or> iterations (add_index ps i s) = int k \<and> take (length ps - k) queue = [k..<length ps]"
    by (auto simp: on_course_def)
  moreover from this have "take (length ps - k) queue' = [k..<length ps]" if "k \<noteq> length ps"
  proof -
    from that \<open>k = length ps \<or> _\<close> have "take (length ps - k) queue = [k..<length ps]" by simp
    moreover from this have "length ps - k \<le> length queue"
      by (metis length_take length_upt min.cobounded2 min.commute)
    ultimately show ?thesis by (simp add: queue'_def)
  qed
  ultimately show "on_course ps queue' (note_length queue' (add_index ps i s))"
    using add assms(3) by (auto simp: on_course_def note_length_def queue'_def add_index_def)
  show "\<not> too_many ps (note_length queue' (add_index ps i s))"
  proof (cases "unmet (resolvedParameters s) ds = []")
    case True
    with add(2) show ?thesis by (simp add: queue'_def note_length_def too_many_def)
  next
    case False
    have "lastIndexReduction s \<ge> -1" using assms(3) by (simp add: on_course_def)
    with last_of_first_pass [OF assms(1-3) False] show ?thesis
      by (auto simp: note_length_def too_many_def add_index_def)
  qed
qed

lemma resolveLoop_returns:
  "resolvable ps deps \<Longrightarrow> on_course ps queue s \<Longrightarrow> \<exists>order. resolveLoop ps deps queue s = Inr order"
proof (induction ps deps queue s rule: resolveLoop.induct)
  case (1 ps deps s)
  then show ?case by simp
next
  case (2 ps deps i queue s)
  then have "i < length ps" by (simp add: on_course_def)
  with "2.prems"(1) obtain ds where ds: "map_of deps (np_name (ps ! i)) = Some ds"
    unfolding resolvable_def using nth_mem by blast
  show ?case
  proof (cases "ds = []")
    case True
    with 2 ds on_course_add show ?thesis by auto
  next
    case False
    with "2.IH"(2) [OF ds False refl refl] on_course_note [OF "2.prems"(1) ds "2.prems"(2)] "2.prems"(1) ds
    show ?thesis by (simp add: Let_def)
  qed
qed

text \<open>C40: when no rule of a parameter reads the parameter itself, the order of resolution is found
  exactly if every other name that a rule reads is the name of a parameter, or of one at the root;
  otherwise the loop ends with the error about too many iterations.\<close>

theorem resolve_order_fails_on_missing_name:
  assumes "\<And>p. p \<in> set ps \<Longrightarrow> np_name p \<notin> depends_on ps (np_name p)"
  shows "if \<forall>p \<in> set ps. \<forall>d \<in> depends_on ps (np_name p). take 1 d = ''/'' \<or> d \<in> known_names ps
    then \<exists>order. getParameterResolveOrder ps (getParameterDependencies ps) = Inr order
    else getParameterResolveOrder ps (getParameterDependencies ps) = Inl MAX_ITERATIONS"
proof (cases "\<forall>p \<in> set ps. \<forall>d \<in> depends_on ps (np_name p). take 1 d = ''/'' \<or> d \<in> known_names ps")
  case True
  have "resolvable ps (getParameterDependencies ps)"
    unfolding resolvable_def
  proof
    fix p assume "p \<in> set ps"
    with dependencies_defined [OF this] True assms [OF this] show "\<exists>ds. map_of (getParameterDependencies ps) (np_name p) = Some ds \<and>
      (\<forall>d \<in> set ds. take 1 d = ''/'' \<or> d \<in> known_names ps - {np_name p})" by fastforce
  qed
  then have "\<exists>order. getParameterResolveOrder ps (getParameterDependencies ps) = Inr order"
    unfolding getParameterResolveOrder_def by (rule resolveLoop_returns) (auto simp: on_course_def)
  with True show ?thesis by simp
next
  case False
  then obtain p d where p: "p \<in> set ps" "d \<in> depends_on ps (np_name p)" "take 1 d \<noteq> ''/''" "d \<notin> known_names ps"
    by blast
  then obtain i where i: "i < length ps" "p = ps ! i" by (auto simp: in_set_conv_nth)
  from dependencies_defined [OF p(1)] p(2) obtain ds where
    "map_of (getParameterDependencies ps) (np_name (ps ! i)) = Some ds" "d \<in> set ds" using i by auto
  moreover have "map_of (getParameterDependencies ps) (np_name q) \<noteq> None" if "q \<in> set ps" for q
    using dependencies_defined [OF that] by auto
  ultimately have "getParameterResolveOrder ps (getParameterDependencies ps) = Inl MAX_ITERATIONS"
    unfolding getParameterResolveOrder_def using i p by (intro resolveLoop_missing) auto
  with False show ?thesis by (simp only: if_False)
qed

definition two_dependent :: "INodeProperties list" where
  "two_dependent = [ruled ''url'' [(''show'', [(''method'', [Plain (JStr ''GET'')])])],
     plain_property ''method'' ''string'' (JStr ''GET'')]"

theorem resolve_order_is_declaration_order_witness:
  "getParameterResolveOrder two_dependent (getParameterDependencies two_dependent) = Inr [0, 1, 0] \<and>
   take 2 [0, 1, 0] = [0, 1 :: nat]"
proof -
  have "getParameterResolveOrder two_dependent (getParameterDependencies two_dependent) = Inr [0, 1, 0]"
    by code_simp
  with resolve_order_is_declaration_order [OF this] show ?thesis by (simp add: two_dependent_def upt_rec)
qed

theorem resolve_order_fails_on_missing_name_witness:
  "getParameterResolveOrder [hd two_dependent] (getParameterDependencies [hd two_dependent]) = Inl MAX_ITERATIONS"
proof -
  have "np_name p \<notin> depends_on [hd two_dependent] (np_name p)" if "p \<in> set [hd two_dependent]" for p
    using that by (auto simp: two_dependent_def ruled_def depends_on_def rule_names_def)
  from resolve_order_fails_on_missing_name [of "[hd two_dependent]", OF this] show ?thesis
    by (auto simp: two_dependent_def ruled_def depends_on_def rule_names_def known_names_def)
qed

end
