(* ===== verification/NodeParameters.thy ===== *)
theory NodeParameters
  imports ParameterOrder WorkflowConnections
begin

text \<open>
  The values of the parameters of a node (\<open>getNodeParameters\<close> of
  \<open>packages/workflow/src/NodeHelpers.ts\<close>): with all defaults added, or without the values that are
  the default. A call resolves one level; it calls itself for collections, so that the depth of the
  descriptions bounds the recursion. \<open>deepCopy\<close> makes no difference to values. The descriptions are
  as their types say: the options of a collection are properties, those of a fixed collection
  have values.
\<close>

section \<open>Arguments\<close>

record ParameterArgs =
  returnDefaults :: bool
  returnNoneDisplayed :: bool
  forVersion :: "number option"
  onlySimpleTypes :: bool
  dataIsResolved :: bool
  valuesRoot :: "jsval option"
  parentType :: "string option"

definition value_args :: "bool \<Rightarrow> bool \<Rightarrow> number option \<Rightarrow> ParameterArgs" where
  "value_args defaults noneDisplayed version =
     \<lparr>returnDefaults = defaults, returnNoneDisplayed = noneDisplayed, forVersion = version,
      onlySimpleTypes = False, dataIsResolved = False, valuesRoot = None, parentType = None\<rparr>"

text \<open>The calls for a lower level: the properties, the values, the values of the root, the type of the parent.\<close>

type_synonym lower_level = "INodeProperties list \<Rightarrow> jsval \<Rightarrow> jsval \<Rightarrow> string \<Rightarrow> jsval bounded_res"

text \<open>What an iteration leaves: \<open>nodeParameters\<close> and \<open>nodeParametersFull\<close>, or an early \<open>return nodeValues\<close>.\<close>

datatype parameter_step = Collected "jsval jsobj" "jsval jsobj" | ReturnNodeValues

definition duplicate_names :: "INodeProperties list \<Rightarrow> string list" where
  "duplicate_names ps =
     fst (fold (\<lambda>p (duplicates, names).
       if np_name p \<in> set names then (set_add (np_name p) duplicates, names)
       else (duplicates, names @ [np_name p])) ps ([], []))"

section \<open>Simple parameters\<close>

text \<open>The own properties that \<open>{ ...v }\<close> and \<open>Object.assign\<close> copy.\<close>

definition own_entries :: "jsval \<Rightarrow> jsval jsobj" where
  "own_entries v =
     (case v of
        JObj ob \<Rightarrow> ob
      | JArr xs \<Rightarrow> map (\<lambda>(i, x). (show_nat i, x)) (enumerate 0 xs)
      | JStr s \<Rightarrow> map (\<lambda>(i, c). (show_nat i, JStr [c])) (enumerate 0 s)
      | _ \<Rightarrow> [])"

definition nullish :: "jsval \<Rightarrow> bool" where
  "nullish v = (v = JUndef \<or> v = JNull)"

definition value_or_default :: "INodeProperties \<Rightarrow> jsval \<Rightarrow> jsval" where
  "value_or_default p value =
     (if np_type p \<in> {''boolean'', ''number'', ''options''} then
        (if value \<noteq> JUndef then value else np_default p)
      else if np_type p = ''resourceLocator'' \<and> is_object (np_default p) then
        (if value \<noteq> JUndef then value
         else JObj (spread [(''__rl'', JBool True)] (own_entries (np_default p))))
      else if nullish value then np_default p else value)"

definition not_default :: "ParameterLib \<Rightarrow> string option \<Rightarrow> INodeProperties \<Rightarrow> jsval \<Rightarrow> bool" where
  "not_default lib parent p value =
     (\<not> strict_eq value (np_default p) \<and> \<not> is_object value \<or>
      is_object value \<and> \<not> lib_isEqual lib value (np_default p) \<or>
      value \<noteq> JUndef \<and> parent = Some ''collection'')"

definition simple_parameter ::
  "ParameterLib \<Rightarrow> ParameterArgs \<Rightarrow> INodeProperties \<Rightarrow> jsval \<Rightarrow> jsval jsobj \<times> jsval jsobj \<Rightarrow> parameter_step" where
  "simple_parameter lib args p value acc =
     (case acc of (params, full) \<Rightarrow>
        if returnDefaults args then
          Collected (obj_put (np_name p) (value_or_default p value) params)
            (obj_put (np_name p) (value_or_default p value) full)
        else if not_default lib (parentType args) p value then
          Collected (obj_put (np_name p) value params) (obj_put (np_name p) value full)
        else Collected params full)"

section \<open>Collections\<close>

definition put_both :: "string \<Rightarrow> jsval \<Rightarrow> jsval jsobj \<times> jsval jsobj \<Rightarrow> parameter_step" where
  "put_both name v acc = (case acc of (params, full) \<Rightarrow> Collected (obj_put name v params) (obj_put name v full))"

definition collection_options :: "INodeProperties \<Rightarrow> INodeProperties list option" where
  "collection_options p =
     map_option (\<lambda>os. concat (map (\<lambda>opt. case opt of OptionProperties q \<Rightarrow> [q] | _ \<Rightarrow> []) os)) (np_options p)"

definition collection_parameter ::
  "lower_level \<Rightarrow> ParameterArgs \<Rightarrow> jsval \<Rightarrow> INodeProperties \<Rightarrow> jsval \<Rightarrow> jsval jsobj \<times> jsval jsobj \<Rightarrow>
   parameter_step bounded_res" where
  "collection_parameter lower args root p value acc =
     (if np_multipleValues p = Some True then
        let params =
          (if value \<noteq> JUndef then obj_put (np_name p) value (fst acc)
           else if returnDefaults args then
             obj_put (np_name p) (case np_default p of JArr xs \<Rightarrow> JArr xs | _ \<Rightarrow> JArr []) (fst acc)
           else fst acc)
        in Inr (Collected params (obj_put (np_name p) (obj_read params (np_name p)) (snd acc)))
      else if value \<noteq> JUndef then
        bindR (thrown (derefR (collection_options p))) (\<lambda>options.
        bindR (lower options value root (np_type p)) (\<lambda>temp.
          Inr (if temp \<noteq> JNull then put_both (np_name p) temp acc else Collected (fst acc) (snd acc))))
      else if returnDefaults args then Inr (put_both (np_name p) (np_default p) acc)
      else Inr (Collected (fst acc) (snd acc)))"

section \<open>Fixed collections\<close>

definition option_name :: "INodePropertyOption \<Rightarrow> string" where
  "option_name opt = (case opt of OptionValue n _ \<Rightarrow> n | OptionProperties q \<Rightarrow> np_name q | OptionCollection n _ \<Rightarrow> n)"

definition option_values :: "INodePropertyOption \<Rightarrow> INodeProperties list option" where
  "option_values opt = (case opt of OptionCollection _ qs \<Rightarrow> Some qs | _ \<Rightarrow> None)"

definition find_option :: "INodeProperties \<Rightarrow> string \<Rightarrow> INodePropertyOption option res" where
  "find_option p itemName = bindR (derefR (np_options p)) (\<lambda>os. Inr (find (\<lambda>opt. option_name opt = itemName) os))"

definition NO_PROPERTY_OPTION :: js_error where
  "NO_PROPERTY_OPTION = ApplicationError ''Could not find property option''"

text \<open>What \<open>for ... of\<close> iterates over.\<close>

definition iterated :: "jsval \<Rightarrow> jsval list res" where
  "iterated v = (case v of JArr xs \<Rightarrow> Inr xs | JStr s \<Rightarrow> Inr (map (\<lambda>c. JStr [c]) s) | _ \<Rightarrow> Inl TypeError)"

definition fixed_multiple ::
  "lower_level \<Rightarrow> jsval \<Rightarrow> INodeProperties \<Rightarrow> string \<Rightarrow> jsval \<Rightarrow> jsval list \<Rightarrow> jsval list bounded_res" where
  "fixed_multiple lower root p itemName nodeValue tempArrayValue =
     bindR (thrown (find_option p itemName)) (\<lambda>opt.
       case opt of
         None \<Rightarrow> Inl (Some NO_PROPERTY_OPTION)
       | Some o' \<Rightarrow>
           bindR (thrown (derefR (option_values o'))) (\<lambda>qs.
           bindR (lower qs nodeValue root (np_type p)) (\<lambda>temp.
             Inr (if temp \<noteq> JNull then tempArrayValue @ [temp] else tempArrayValue))))"

definition fixed_single ::
  "lower_level \<Rightarrow> jsval \<Rightarrow> INodeProperties \<Rightarrow> jsval \<Rightarrow> string \<Rightarrow> jsval jsobj bounded_res" where
  "fixed_single lower root p value itemName =
     bindR (thrown (find_option p itemName)) (\<lambda>opt.
       case opt of
         None \<Rightarrow> Inr []
       | Some o' \<Rightarrow>
           bindR (thrown (js_read value itemName)) (\<lambda>nodeValue.
           bindR (thrown (derefR (option_values o'))) (\<lambda>qs.
           bindR (lower qs nodeValue root (np_type p)) (\<lambda>temp.
             Inr (if temp \<noteq> JNull then spread [] (own_entries temp) else [])))))"

definition fixed_item ::
  "lower_level \<Rightarrow> jsval \<Rightarrow> INodeProperties \<Rightarrow> jsval \<Rightarrow> jsval \<Rightarrow> string \<Rightarrow> jsval jsobj \<Rightarrow> jsval jsobj bounded_res" where
  "fixed_item lower root p value propertyValues itemName collectionValues =
     (if np_multipleValues p = Some True then
        bindR (thrown (js_read propertyValues itemName)) (\<lambda>xs.
        bindR (thrown (iterated xs)) (\<lambda>items.
        bindR (foldR (fixed_multiple lower root p itemName) items []) (\<lambda>tempArrayValue.
          Inr (obj_put itemName (JArr tempArrayValue) collectionValues))))
      else
        bindR (fixed_single lower root p value itemName) (\<lambda>temp.
          Inr (if temp \<noteq> [] then obj_put itemName (JObj temp) collectionValues else collectionValues)))"

definition fixedCollection_parameter ::
  "lower_level \<Rightarrow> ParameterArgs \<Rightarrow> jsval \<Rightarrow> INodeProperties \<Rightarrow> jsval \<Rightarrow> jsval jsobj \<times> jsval jsobj \<Rightarrow>
   parameter_step bounded_res" where
  "fixedCollection_parameter lower args root p value acc =
     (let name = np_name p;
          propertyValues = (if returnDefaults args \<and> value = JUndef then np_default p else value);
          onlyOne = (\<not> returnDefaults args \<and> np_multipleValues p = Some False)
      in if onlyOne \<and> js_truthy propertyValues \<and> keys_of propertyValues = [] then Inr ReturnNodeValues
      else
        bindR (foldR (fixed_item lower root p value propertyValues)
            (if js_truthy propertyValues then keys_of propertyValues else []) []) (\<lambda>collectionValues.
          let isObject = (case propertyValues of JObj _ \<Rightarrow> True | _ \<Rightarrow> False);
              params =
                (if onlyOne \<and> collectionValues = [] \<and> isObject \<and> keys_of propertyValues \<noteq> [] then
                   obj_put name (JObj (fold (\<lambda>k. obj_put k (JObj [])) (keys_of propertyValues) [])) (fst acc)
                 else fst acc)
          in Inr (if collectionValues \<noteq> [] \<or> returnDefaults args
                  then put_both name (JObj collectionValues) (params, snd acc)
                  else Collected params (snd acc))))"

section \<open>The loop over the parameters\<close>

definition not_given :: "ParameterArgs \<Rightarrow> jsval \<Rightarrow> bool" where
  "not_given args value =
     (value = JUndef \<and> (\<not> returnDefaults args \<or> parentType args = Some ''collection''))"

definition parameter_body ::
  "ParameterLib \<Rightarrow> lower_level \<Rightarrow> ParameterArgs \<Rightarrow> string list \<Rightarrow> jsval option \<Rightarrow> jsval \<Rightarrow> INodeProperties \<Rightarrow>
   jsval jsobj \<times> jsval jsobj \<Rightarrow> parameter_step bounded_res" where
  "parameter_body lib lower args duplicates check nodeValues p acc =
     (let skip = Inr (Collected (fst acc) (snd acc));
          displayCheck = (case check of Some c \<Rightarrow> c | None \<Rightarrow> JObj (snd acc));
          root = (case valuesRoot args of Some r \<Rightarrow> if js_truthy r then r else displayCheck | None \<Rightarrow> displayCheck);
          displayed = displayParameter lib displayCheck p (forVersion args) (Some root)
      in if \<not> js_truthy nodeValues then skip
      else bindR (thrown (js_read nodeValues (np_name p))) (\<lambda>value.
        if not_given args value then skip
        else bindR (if returnNoneDisplayed args then Inr True else thrown displayed) (\<lambda>shown.
          if \<not> shown then skip
          else if np_type p \<notin> {''collection'', ''fixedCollection''} then
            bindR (if np_name p \<in> set duplicates then thrown displayed else Inr True) (\<lambda>shown.
              Inr (if shown then simple_parameter lib args p value acc else Collected (fst acc) (snd acc)))
          else if onlySimpleTypes args then skip
          else if np_type p = ''collection'' then collection_parameter lower args root p value acc
          else fixedCollection_parameter lower args root p value acc)))"

fun parameter_loop ::
  "(INodeProperties \<Rightarrow> jsval jsobj \<times> jsval jsobj \<Rightarrow> parameter_step bounded_res) \<Rightarrow> jsval \<Rightarrow>
   INodeProperties list \<Rightarrow> jsval jsobj \<times> jsval jsobj \<Rightarrow> jsval bounded_res" where
  "parameter_loop body nodeValues [] acc = Inr (JObj (fst acc))"
| "parameter_loop body nodeValues (p # ps) acc =
     bindR (body p acc) (\<lambda>r. case r of
       ReturnNodeValues \<Rightarrow> Inr nodeValues
     | Collected params full \<Rightarrow> parameter_loop body nodeValues ps (params, full))"

text \<open>One call, once the values that decide what is displayed are known.\<close>

definition resolve_level ::
  "ParameterLib \<Rightarrow> lower_level \<Rightarrow> ParameterArgs \<Rightarrow> INodeProperties list \<Rightarrow> jsval option \<Rightarrow> jsval \<Rightarrow> jsval bounded_res" where
  "resolve_level lib lower args ps check nodeValues =
     bindR (thrown (getParameterResolveOrder ps (getParameterDependencies ps))) (\<lambda>order.
       parameter_loop (parameter_body lib lower args (duplicate_names ps) check nodeValues) nodeValues
         (map ((!) ps) order) ([], []))"

text \<open>
  The call a level makes to itself for the values that decide what is displayed asks for simple types
  only, so it does not go to a lower level.
\<close>

definition display_values ::
  "ParameterLib \<Rightarrow> lower_level \<Rightarrow> ParameterArgs \<Rightarrow> INodeProperties list \<Rightarrow> jsval \<Rightarrow> jsval option bounded_res" where
  "display_values lib lower args ps nodeValues =
     (if \<not> dataIsResolved args \<and> \<not> returnNoneDisplayed args then
        bindR (resolve_level lib lower
            (args\<lparr>returnDefaults := True, returnNoneDisplayed := True, onlySimpleTypes := True, dataIsResolved := True\<rparr>)
            ps None nodeValues) (\<lambda>check. Inr (Some check))
      else Inr None)"

fun getNodeParameters ::
  "nat \<Rightarrow> ParameterLib \<Rightarrow> ParameterArgs \<Rightarrow> INodeProperties list \<Rightarrow> jsval \<Rightarrow> jsval bounded_res" where
  "getNodeParameters 0 lib args ps nodeValues = Inl None"
| "getNodeParameters (Suc depth) lib args ps nodeValues =
     (let lower = (\<lambda>qs v root parent. getNodeParameters depth lib
            (args\<lparr>onlySimpleTypes := False, dataIsResolved := False, valuesRoot := Some root,
              parentType := Some parent\<rparr>) qs v)
      in bindR (display_values lib lower args ps nodeValues) (\<lambda>check.
           resolve_level lib lower args ps check nodeValues))"

section \<open>The recursion ends\<close>

text \<open>How many levels of collections a description has.\<close>

primrec property_depth :: "INodeProperties \<Rightarrow> nat" and option_depth :: "INodePropertyOption \<Rightarrow> nat" where
  "property_depth (INodeProperties _ _ _ _ _ _ _ _ _ _ _ opts) =
     (case map_option (map option_depth) opts of None \<Rightarrow> 0 | Some ns \<Rightarrow> Suc (fold max ns 0))"
| "option_depth (OptionValue _ _) = 0"
| "option_depth (OptionProperties p) = property_depth p"
| "option_depth (OptionCollection _ ps) = fold max (map property_depth ps) 0"

definition nesting :: "INodeProperties list \<Rightarrow> nat" where
  "nesting ps = fold max (map property_depth ps) 0"

lemma fold_max_le: "fold max ns (m :: nat) \<le> k \<longleftrightarrow> m \<le> k \<and> (\<forall>n \<in> set ns. n \<le> k)"
  by (induction ns arbitrary: m) auto

lemma nesting_le: "nesting ps \<le> k \<longleftrightarrow> (\<forall>p \<in> set ps. property_depth p \<le> k)"
  by (simp add: nesting_def fold_max_le)

lemma option_depth_less:
  "np_options p = Some os \<Longrightarrow> opt \<in> set os \<Longrightarrow> option_depth opt < property_depth p"
  using fold_max_le [of "map option_depth os" 0 "fold max (map option_depth os) 0"]
  by (cases p) (auto simp: less_Suc_eq_le)

lemma nesting_collection_options:
  assumes "collection_options p = Some qs" shows "nesting qs < property_depth p"
proof -
  from assms obtain os where os: "np_options p = Some os"
    "qs = concat (map (\<lambda>opt. case opt of OptionProperties q \<Rightarrow> [q] | _ \<Rightarrow> []) os)"
    by (auto simp: collection_options_def)
  have "property_depth p \<noteq> 0" using os(1) by (cases p) auto
  moreover have "property_depth q < property_depth p" if q: "q \<in> set qs" for q
  proof -
    from q have "OptionProperties q \<in> set os" by (auto simp: os(2) split: INodePropertyOption.splits)
    from option_depth_less [OF os(1) this] show ?thesis by simp
  qed
  ultimately have "nesting qs \<le> property_depth p - 1" by (fastforce simp: nesting_le)
  with \<open>property_depth p \<noteq> 0\<close> show ?thesis by simp
qed

lemma nesting_option_values:
  assumes "find_option p name = Inr (Some opt)" "option_values opt = Some qs"
  shows "nesting qs < property_depth p"
proof -
  from assms(1) obtain os where "np_options p = Some os" "opt \<in> set os"
    by (auto simp: find_option_def bindR_Inr_iff dest!: find_Some_iff [THEN iffD1])
  from option_depth_less [OF this] assms(2) show ?thesis
    by (auto simp: option_values_def nesting_def split: INodePropertyOption.splits)
qed

text \<open>Computations that do not reach the bound.\<close>

definition in_bound :: "'a bounded_res \<Rightarrow> bool" where
  "in_bound m = (m \<noteq> Inl None)"

lemma in_bound_simps [simp]:
  "in_bound (Inr x)" "in_bound (Inl (Some e))" "\<not> in_bound (Inl None)" "in_bound (thrown m)"
  by (auto simp: in_bound_def thrown_def split: sum.split)

lemma in_bound_bindR: "in_bound m \<Longrightarrow> (\<And>x. m = Inr x \<Longrightarrow> in_bound (f x)) \<Longrightarrow> in_bound (bindR m f)"
  by (auto simp: in_bound_def bindR_def split: sum.split)

lemma in_bound_foldR: "(\<And>x s. x \<in> set xs \<Longrightarrow> in_bound (f x s)) \<Longrightarrow> in_bound (foldR f xs s)"
  by (induction xs arbitrary: s) (auto intro: in_bound_bindR)

lemma in_bound_if: "(c \<Longrightarrow> in_bound m) \<Longrightarrow> (\<not> c \<Longrightarrow> in_bound n) \<Longrightarrow> in_bound (if c then m else n)"
  by simp

lemmas in_bound_intros = in_bound_bindR in_bound_foldR in_bound_if

definition lower_in_bound :: "lower_level \<Rightarrow> nat \<Rightarrow> bool" where
  "lower_in_bound lower d = (\<forall>qs v root parent. nesting qs < d \<longrightarrow> in_bound (lower qs v root parent))"

lemma fixed_multiple_in_bound:
  "lower_in_bound lower (property_depth p) \<Longrightarrow> in_bound (fixed_multiple lower root p itemName nodeValue acc)"
  unfolding fixed_multiple_def
  by (intro in_bound_intros) (auto simp: lower_in_bound_def nesting_option_values intro!: in_bound_intros split: option.split)

lemma fixed_single_in_bound:
  "lower_in_bound lower (property_depth p) \<Longrightarrow> in_bound (fixed_single lower root p value itemName)"
  unfolding fixed_single_def
  by (intro in_bound_intros) (auto simp: lower_in_bound_def nesting_option_values intro!: in_bound_intros split: option.split)

lemma fixedCollection_in_bound:
  "lower_in_bound lower (property_depth p) \<Longrightarrow> in_bound (fixedCollection_parameter lower args root p value acc)"
  unfolding fixedCollection_parameter_def fixed_item_def Let_def
  by (intro in_bound_intros) (simp_all add: fixed_multiple_in_bound fixed_single_in_bound)

lemma collection_in_bound:
  "lower_in_bound lower (property_depth p) \<Longrightarrow> in_bound (collection_parameter lower args root p value acc)"
  unfolding collection_parameter_def Let_def
  by (intro in_bound_intros) (auto simp: lower_in_bound_def nesting_collection_options)

lemma parameter_body_in_bound:
  "lower_in_bound lower (property_depth p) \<Longrightarrow>
     in_bound (parameter_body lib lower args duplicates check nodeValues p acc)"
  unfolding parameter_body_def Let_def
  by (intro in_bound_intros) (simp_all add: collection_in_bound fixedCollection_in_bound)

lemma parameter_loop_in_bound:
  "(\<And>p acc. p \<in> set ps \<Longrightarrow> in_bound (body p acc)) \<Longrightarrow> in_bound (parameter_loop body nodeValues ps acc)"
  by (induction ps arbitrary: acc) (auto intro!: in_bound_bindR split: parameter_step.split)

lemma order_members:
  "getParameterResolveOrder ps deps = Inr order \<Longrightarrow> i \<in> set order \<Longrightarrow> ps ! i \<in> set ps"
  unfolding getParameterResolveOrder_def by (auto dest!: resolveLoop_prefix intro!: nth_mem)

lemma resolve_level_in_bound:
  "lower_in_bound lower (nesting ps) \<Longrightarrow> in_bound (resolve_level lib lower args ps check nodeValues)"
proof -
  assume bound: "lower_in_bound lower (nesting ps)"
  have "lower_in_bound lower (property_depth p)" if "p \<in> set ps" for p
  proof -
    from that have "property_depth p \<le> nesting ps" using nesting_le [of ps "nesting ps"] by simp
    with bound show ?thesis by (auto simp: lower_in_bound_def)
  qed
  then show ?thesis unfolding resolve_level_def
    by (intro in_bound_bindR parameter_loop_in_bound parameter_body_in_bound) (auto dest: order_members)
qed

text \<open>Resolving the parameters ends: the calls are nested at most as deep as the descriptions.\<close>

theorem getNodeParameters_terminates:
  "nesting ps < depth \<Longrightarrow> getNodeParameters depth lib args ps nodeValues \<noteq> Inl None"
proof (induction depth arbitrary: args ps nodeValues)
  case 0
  then show ?case by simp
next
  case (Suc depth)
  have "in_bound (getNodeParameters (Suc depth) lib args ps nodeValues)"
    unfolding getNodeParameters.simps display_values_def Let_def using Suc
    by (intro in_bound_intros resolve_level_in_bound)
      (auto simp: lower_in_bound_def in_bound_def)
  then show ?case by (simp add: in_bound_def)
qed

end
