(* ===== verification/ParameterLaws.thy ===== *)
theory ParameterLaws
  imports NodeParameters WorkflowQueries
begin

text \<open>
  What resolving the parameters of a node guarantees: which names the result has, that hidden
  parameters are left out, that removing the defaults and adding them again gives the same values,
  and that a workflow which is built again from its nodes keeps their parameters.
\<close>

section \<open>The names of the result\<close>

text \<open>Keys of the collected values are names of parameters for which \<open>P\<close> holds.\<close>

definition keys_within :: "string set \<Rightarrow> jsval jsobj \<Rightarrow> bool" where
  "keys_within N params \<longleftrightarrow> wf_keys params \<and> set (map_keys params) \<subseteq> N"

lemma keys_within_put: "keys_within N params \<Longrightarrow> name \<in> N \<Longrightarrow> keys_within N (obj_put name v params)"
  by (simp add: keys_within_def jobj.wf_put jobj.keys_put)

lemma keys_within_Nil [simp]: "keys_within N []"
  by (simp add: keys_within_def wf_keys_def map_keys_def)

lemma simple_parameter_keys:
  "simple_parameter lib args p value acc = Collected params full \<Longrightarrow> keys_within N (fst acc) \<Longrightarrow> np_name p \<in> N \<Longrightarrow>
     keys_within N params"
  by (auto simp: simple_parameter_def keys_within_put split: prod.splits if_splits)

lemma collection_parameter_keys:
  "collection_parameter lower args root p value acc = Inr (Collected params full) \<Longrightarrow> keys_within N (fst acc) \<Longrightarrow>
     np_name p \<in> N \<Longrightarrow> keys_within N params"
  by (auto simp: collection_parameter_def put_both_def Let_def bindR_Inr_iff keys_within_put
      split: prod.splits if_splits)

lemma fixedCollection_parameter_keys:
  "fixedCollection_parameter lower args root p value acc = Inr (Collected params full) \<Longrightarrow>
     keys_within N (fst acc) \<Longrightarrow> np_name p \<in> N \<Longrightarrow> keys_within N params"
  by (auto simp: fixedCollection_parameter_def put_both_def Let_def bindR_Inr_iff keys_within_put
      split: prod.splits if_splits)

lemma early_return:
  "simple_parameter lib args p value acc \<noteq> ReturnNodeValues"
  "collection_parameter lower args root p value acc \<noteq> Inr ReturnNodeValues"
  "fixedCollection_parameter lower args root p value acc = Inr ReturnNodeValues \<Longrightarrow>
     \<not> returnDefaults args \<and> np_multipleValues p = Some False \<and> js_truthy value \<and> keys_of value = []"
  by (auto simp: simple_parameter_def collection_parameter_def fixedCollection_parameter_def put_both_def Let_def
      bindR_Inr_iff split: prod.splits if_splits)

text \<open>A call without defaults ends at a fixed collection for one value that is given without an item.\<close>

definition returns_early :: "ParameterArgs \<Rightarrow> jsval \<Rightarrow> INodeProperties \<Rightarrow> bool" where
  "returns_early args nodeValues p \<longleftrightarrow>
     \<not> returnDefaults args \<and> np_type p = ''fixedCollection'' \<and> np_multipleValues p = Some False \<and>
     (case js_read nodeValues (np_name p) of Inr v \<Rightarrow> js_truthy v \<and> keys_of v = [] | Inl _ \<Rightarrow> False)"

text \<open>An iteration that changes something is for a parameter that is displayed, or hidden ones are wanted.\<close>

definition displays :: "ParameterLib \<Rightarrow> ParameterArgs \<Rightarrow> jsval \<Rightarrow> INodeProperties \<Rightarrow> bool" where
  "displays lib args c p =
     (displayParameter lib c p (forVersion args)
        (Some (case valuesRoot args of Some r \<Rightarrow> if js_truthy r then r else c | None \<Rightarrow> c)) = Inr True)"

definition wanted :: "ParameterLib \<Rightarrow> ParameterArgs \<Rightarrow> jsval option \<Rightarrow> INodeProperties \<Rightarrow> bool" where
  "wanted lib args check p =
     (returnNoneDisplayed args \<or> (case check of Some c \<Rightarrow> displays lib args c p | None \<Rightarrow> True))"

lemma parameter_body_keys:
  assumes "parameter_body lib lower args duplicates check nodeValues p acc = Inr (Collected params full)"
    and "keys_within N (fst acc)" "wanted lib args check p \<Longrightarrow> np_name p \<in> N"
  shows "keys_within N params"
proof (cases "wanted lib args check p")
  case True
  with assms show ?thesis unfolding parameter_body_def Let_def
    by (auto simp: bindR_Inr_iff split: if_splits
        intro: simple_parameter_keys collection_parameter_keys fixedCollection_parameter_keys)
next
  case False
  with assms(1,2) show ?thesis unfolding parameter_body_def Let_def wanted_def displays_def
    by (auto simp: bindR_Inr_iff split: if_splits option.splits)
qed

lemma parameter_body_returns:
  assumes "parameter_body lib lower args duplicates check nodeValues p acc = Inr ReturnNodeValues"
  shows "returns_early args nodeValues p"
  using assms unfolding parameter_body_def Let_def returns_early_def
  by (auto simp: bindR_Inr_iff early_return thrown_def dest: early_return(3) split: if_splits sum.splits
      dest!: sym [of ReturnNodeValues])

lemma parameter_loop_keys:
  assumes "parameter_loop (parameter_body lib lower args duplicates check nodeValues) nodeValues ps acc = Inr r"
    and "keys_within N (fst acc)" "\<And>p. p \<in> set ps \<Longrightarrow> wanted lib args check p \<Longrightarrow> np_name p \<in> N"
  shows "(\<exists>params. r = JObj params \<and> keys_within N params) \<or> r = nodeValues \<and> (\<exists>p \<in> set ps. returns_early args nodeValues p)"
  using assms
proof (induction ps arbitrary: acc)
  case Nil
  then show ?case by auto
next
  case (Cons p ps)
  from Cons.prems(1) obtain o' where o': "parameter_body lib lower args duplicates check nodeValues p acc = Inr o'"
    "(case o' of ReturnNodeValues \<Rightarrow> Inr nodeValues | Collected params full \<Rightarrow>
       parameter_loop (parameter_body lib lower args duplicates check nodeValues) nodeValues ps (params, full)) = Inr r"
    by (auto simp: bindR_Inr_iff)
  show ?case
  proof (cases o')
    case ReturnNodeValues
    with o' parameter_body_returns show ?thesis by fastforce
  next
    case (Collected params full)
    with o'(2) Cons.IH [of "(params, full)"] parameter_body_keys [OF o'(1) [unfolded Collected] Cons.prems(2)] Cons.prems(3)
    show ?thesis by auto
  qed
qed

lemma resolve_level_keys:
  assumes "resolve_level lib lower args ps check nodeValues = Inr r"
  shows "(\<exists>params. r = JObj params \<and> keys_within (np_name ` {p \<in> set ps. wanted lib args check p}) params) \<or>
    r = nodeValues \<and> (\<exists>p \<in> set ps. returns_early args nodeValues p)"
proof -
  from assms obtain order where "getParameterResolveOrder ps (getParameterDependencies ps) = Inr order"
    "parameter_loop (parameter_body lib lower args (duplicate_names ps) check nodeValues) nodeValues
       (map ((!) ps) order) ([], []) = Inr r"
    by (auto simp: resolve_level_def bindR_Inr_iff)
  note order = this
  have members: "set (map ((!) ps) order) \<subseteq> set ps" using order_members [OF order(1)] by auto
  from parameter_loop_keys [OF order(2), of "np_name ` {p \<in> set ps. wanted lib args check p}"] members
  show ?thesis by fastforce
qed

lemma getNodeParameters_level:
  assumes "getNodeParameters depth lib args ps nodeValues = Inr r"
  obtains lower check where "display_values lib lower args ps nodeValues = Inr check"
    "resolve_level lib lower args ps check nodeValues = Inr r"
  using assms by (cases depth) (auto simp: Let_def bindR_Inr_iff)

text \<open>The result is an object whose names are names of the parameters, each once; only without
  defaults it can be the given values themselves.\<close>

theorem getNodeParameters_names:
  assumes "getNodeParameters depth lib args ps nodeValues = Inr result"
  shows "(\<exists>params. result = JObj params \<and> distinct (map_keys params) \<and> set (map_keys params) \<subseteq> known_names ps) \<or>
    \<not> returnDefaults args \<and> result = nodeValues"
proof -
  from assms obtain lower check where "resolve_level lib lower args ps check nodeValues = Inr result"
    by (rule getNodeParameters_level)
  moreover have "np_name ` {p \<in> set ps. wanted lib args check p} \<subseteq> known_names ps" by (auto simp: known_names_def)
  ultimately show ?thesis using resolve_level_keys [of lib lower args ps check nodeValues result]
    unfolding keys_within_def wf_keys_def map_keys_def returns_early_def by blast
qed

section \<open>Hidden parameters\<close>

text \<open>A call for simple types only makes no call for a lower level.\<close>

lemma parameter_body_simple:
  "onlySimpleTypes args \<Longrightarrow> parameter_body lib lower args duplicates check nodeValues =
     parameter_body lib lower' args duplicates check nodeValues"
  by (intro ext) (simp add: parameter_body_def Let_def cong: if_cong)

lemma resolve_level_simple:
  assumes "onlySimpleTypes args"
  shows "resolve_level lib lower args ps check nodeValues = resolve_level lib lower' args ps check nodeValues"
  unfolding resolve_level_def parameter_body_simple [OF assms, of lib lower _ _ _ lower'] ..

definition display_args :: "ParameterArgs \<Rightarrow> ParameterArgs" where
  "display_args args =
     args\<lparr>returnDefaults := True, returnNoneDisplayed := True, onlySimpleTypes := True, dataIsResolved := True\<rparr>"

lemma display_values_call:
  assumes "\<not> dataIsResolved args" "\<not> returnNoneDisplayed args"
    and "display_values lib lower args ps nodeValues = Inr check"
  shows "map_option Inr check = Some (getNodeParameters (Suc depth) lib (display_args args) ps nodeValues)"
proof -
  from assms obtain c where c: "check = Some c" "resolve_level lib lower (display_args args) ps None nodeValues = Inr c"
    by (auto simp: display_values_def display_args_def bindR_Inr_iff)
  have "onlySimpleTypes (display_args args)" by (simp add: display_args_def)
  from resolve_level_simple [OF this] c(2) have "resolve_level lib l (display_args args) ps None nodeValues = Inr c" for l
    by metis
  then have "getNodeParameters (Suc depth) lib (display_args args) ps nodeValues = Inr c"
    by (simp add: Let_def display_values_def) (simp add: display_args_def)
  with c(1) show ?thesis by simp
qed

text \<open>C35: when hidden parameters are not wanted, every name of the result belongs to a parameter that is
  displayed when all simple parameters have their values or their defaults. The one exception is a call that
  ends early: it has to be a call without defaults, with a fixed collection for one value that is given as an
  empty object, and then the result is the given values as they are.\<close>

theorem hidden_parameters_are_dropped:
  assumes "getNodeParameters (Suc depth) lib args ps nodeValues = Inr (JObj params)"
    and "\<not> returnNoneDisplayed args" "\<not> dataIsResolved args" "name \<in> set (map_keys params)"
  shows "(\<exists>values p. getNodeParameters (Suc depth) lib (display_args args) ps nodeValues = Inr values \<and>
      p \<in> set ps \<and> np_name p = name \<and> displays lib args values p) \<or>
    JObj params = nodeValues \<and> (\<exists>p \<in> set ps. returns_early args nodeValues p)"
proof -
  from assms(1) obtain lower check where level: "display_values lib lower args ps nodeValues = Inr check"
    "resolve_level lib lower args ps check nodeValues = Inr (JObj params)"
    by (rule getNodeParameters_level)
  from display_values_call [OF assms(3,2) level(1), of depth] obtain c where
    c: "check = Some c" "getNodeParameters (Suc depth) lib (display_args args) ps nodeValues = Inr c" by auto
  from resolve_level_keys [OF level(2)] show ?thesis
  proof
    assume "\<exists>params'. JObj params = JObj params' \<and>
      keys_within (np_name ` {p \<in> set ps. wanted lib args check p}) params'"
    with assms(4) obtain p where "p \<in> set ps" "wanted lib args check p" "np_name p = name"
      by (auto simp: keys_within_def)
    with c assms(2) show ?thesis by (auto simp: wanted_def)
  qed blast
qed

section \<open>Removing and adding defaults\<close>

text \<open>
  Simple parameters that are always displayed, with names of their own. \<open>isEqual\<close> must tell a value
  from the default exactly when they differ, and the default of a resource locator must say that it
  is one: the code adds \<open>__rl\<close> to it only when it adds the default.
\<close>

definition plain_parameters :: "ParameterLib \<Rightarrow> INodeProperties list \<Rightarrow> bool" where
  "plain_parameters lib ps \<longleftrightarrow> distinct (map np_name ps) \<and>
     (\<forall>p \<in> set ps. np_displayOptions p = None \<and> np_type p \<noteq> ''collection'' \<and> np_type p \<noteq> ''fixedCollection'')"

definition comparable_defaults :: "ParameterLib \<Rightarrow> INodeProperties list \<Rightarrow> bool" where
  "comparable_defaults lib ps \<longleftrightarrow> (\<forall>p \<in> set ps. (\<forall>v. lib_isEqual lib v (np_default p) \<longleftrightarrow> v = np_default p) \<and>
     (np_type p = ''resourceLocator'' \<and> is_object (np_default p) \<longrightarrow>
        JObj (spread [(''__rl'', JBool True)] (own_entries (np_default p))) = np_default p))"

lemma plain_duplicates: "distinct (map np_name ps) \<Longrightarrow> duplicate_names ps = []"
proof -
  have "fst (fold (\<lambda>p (duplicates, names).
       if np_name p \<in> set names then (set_add (np_name p) duplicates, names)
       else (duplicates, names @ [np_name p])) ps (ds, ns)) = ds"
    if "distinct (map np_name ps)" "set ns \<inter> np_name ` set ps = {}" for ds ns
    using that by (induction ps arbitrary: ns) (auto simp: disjoint_iff)
  then show "distinct (map np_name ps) \<Longrightarrow> duplicate_names ps = []" by (simp add: duplicate_names_def)
qed

lemma order_without_rules:
  assumes "\<forall>p \<in> set ps. np_displayOptions p = None"
  shows "getParameterResolveOrder ps (getParameterDependencies ps) = Inr [0..<length ps]"
proof -
  have deps: "map_of (getParameterDependencies ps) (np_name p) = Some []" if "p \<in> set ps" for p
    using dependencies_defined [OF that] assms
    by (fastforce simp: depends_on_def rule_names_def)
  have "resolveLoop ps (getParameterDependencies ps) queue s = Inr (executionOrderR s @ queue)"
    if "set queue \<subseteq> {..<length ps}" for queue s
    using that by (induction queue arbitrary: s) (simp_all add: deps add_index_def)
  then show ?thesis by (simp add: getParameterResolveOrder_def lessThan_atLeast0)
qed

text \<open>What one parameter contributes.\<close>

definition stored :: "ParameterLib \<Rightarrow> ParameterArgs \<Rightarrow> INodeProperties \<Rightarrow> jsval \<Rightarrow> jsval option" where
  "stored lib args p value =
     (if not_given args value then None
      else if returnDefaults args then Some (value_or_default p value)
      else if not_default lib (parentType args) p value then Some value else None)"

definition put_stored :: "ParameterLib \<Rightarrow> ParameterArgs \<Rightarrow> jsval jsobj \<Rightarrow> INodeProperties \<Rightarrow> jsval jsobj \<Rightarrow> jsval jsobj" where
  "put_stored lib args given p params =
     (case stored lib args p (obj_read given (np_name p)) of None \<Rightarrow> params | Some v \<Rightarrow> obj_put (np_name p) v params)"

lemma plain_body:
  assumes "plain_parameters lib ps" "p \<in> set ps"
  shows "parameter_body lib lower args [] check (JObj given) p acc =
    Inr (Collected (put_stored lib args given p (fst acc)) (put_stored lib args given p (snd acc)))"
  using assms
  by (cases acc) (auto simp: plain_parameters_def parameter_body_def Let_def js_truthy_def js_read_def
      displayParameter_def put_stored_def stored_def simple_parameter_def)

lemma plain_loop:
  assumes "\<And>p acc. p \<in> set ps \<Longrightarrow> body p acc = Inr (Collected (f p (fst acc)) (f p (snd acc)))"
  shows "parameter_loop body nodeValues ps acc = Inr (JObj (fold f ps (fst acc)))"
  using assms by (induction ps arbitrary: acc) simp_all

lemma plain_level:
  assumes "plain_parameters lib ps"
  shows "resolve_level lib lower args ps check (JObj given) = Inr (JObj (fold (put_stored lib args given) ps []))"
proof -
  have "map ((!) ps) [0..<length ps] = ps" by (rule map_nth)
  moreover have "duplicate_names ps = []" using assms by (simp add: plain_parameters_def plain_duplicates)
  moreover have "getParameterResolveOrder ps (getParameterDependencies ps) = Inr [0..<length ps]"
    using assms by (intro order_without_rules) (simp add: plain_parameters_def)
  ultimately show ?thesis
    using plain_loop [of ps "parameter_body lib lower args [] check (JObj given)" "put_stored lib args given"
        "JObj given" "([], [])"]
    by (simp add: resolve_level_def plain_body [OF assms])
qed

lemma plain_values:
  assumes "plain_parameters lib ps"
  shows "getNodeParameters (Suc depth) lib args ps (JObj given) = Inr (JObj (fold (put_stored lib args given) ps []))"
  by (simp add: Let_def display_values_def plain_level [OF assms])

lemma map_of_put_stored:
  "distinct (map np_name ps) \<Longrightarrow> p \<in> set ps \<Longrightarrow>
     map_of (fold (put_stored lib args given) ps acc) (np_name p) =
       (case stored lib args p (obj_read given (np_name p)) of Some v \<Rightarrow> Some v | None \<Rightarrow> map_of acc (np_name p))"
proof (induction ps arbitrary: acc)
  case Nil
  then show ?case by simp
next
  case (Cons q ps)
  have other: "map_of (fold (put_stored lib args given) ps a) n = map_of a n" if "n \<notin> np_name ` set ps" for n a
    using that by (induction ps arbitrary: a) (auto simp: put_stored_def split: option.splits)
  show ?case
  proof (cases "p = q")
    case True
    with Cons.prems(1) have "np_name p \<notin> np_name ` set ps" by simp
    with True show ?thesis by (simp add: other) (simp add: put_stored_def split: option.split)
  next
    case False
    with Cons.prems have "p \<in> set ps" "np_name q \<noteq> np_name p" by auto
    with Cons show ?thesis by (auto simp: put_stored_def split: option.splits)
  qed
qed

lemma not_default_iff:
  "(\<And>v. lib_isEqual lib v (np_default p) \<longleftrightarrow> v = np_default p) \<Longrightarrow>
     not_default lib None p v \<longleftrightarrow> v \<noteq> np_default p"
  by (auto simp: not_default_def strict_eq_def)

text \<open>A value that the defaults were added to.\<close>

lemma value_or_default_twice: "value_or_default p (value_or_default p v) = value_or_default p v"
  by (auto simp: value_or_default_def nullish_def)

lemma default_or_undefined:
  assumes "np_type p = ''resourceLocator'' \<and> is_object (np_default p) \<longrightarrow>
      JObj (spread [(''__rl'', JBool True)] (own_entries (np_default p))) = np_default p"
    and "value_or_default p v = np_default p \<or> value_or_default p v = JUndef"
  shows "value_or_default p JUndef = value_or_default p v"
proof -
  have default: "value_or_default p JUndef = np_default p"
    using assms(1) by (auto simp: value_or_default_def nullish_def)
  have "value_or_default p v = JUndef \<Longrightarrow> np_default p = JUndef"
    by (auto simp: value_or_default_def nullish_def split: if_splits)
  with default assms(2) show ?thesis by auto
qed

lemma restored_value:
  fixes v :: jsval
  assumes "\<And>v. lib_isEqual lib v (np_default p) \<longleftrightarrow> v = np_default p"
    and "np_type p = ''resourceLocator'' \<and> is_object (np_default p) \<longrightarrow>
        JObj (spread [(''__rl'', JBool True)] (own_entries (np_default p))) = np_default p"
  defines "full \<equiv> value_or_default p v"
  shows "value_or_default p (if full \<noteq> JUndef \<and> not_default lib None p full then full else JUndef) = full"
proof (cases "full \<noteq> JUndef \<and> full \<noteq> np_default p")
  case True
  then show ?thesis unfolding not_default_iff [OF assms(1)] by (simp add: full_def value_or_default_twice)
next
  case False
  with default_or_undefined [OF assms(2), of v] show ?thesis
    unfolding not_default_iff [OF assms(1)] full_def by auto
qed

lemma fold_put_stored_cong:
  assumes "\<And>p. p \<in> set ps \<Longrightarrow> stored lib args p (obj_read g (np_name p)) = stored lib args p (obj_read h (np_name p))"
  shows "fold (put_stored lib args g) ps acc = fold (put_stored lib args h) ps acc"
  using assms by (intro fold_cong refl ext) (simp_all add: put_stored_def)

lemma restored_parameters:
  assumes "plain_parameters lib ps" "comparable_defaults lib ps"
    and "getNodeParameters (Suc depth) lib (value_args True hidden version) ps (JObj given) = Inr full"
    and "getNodeParameters (Suc depth) lib (value_args False hidden version) ps full = Inr stripped"
  shows "getNodeParameters (Suc depth) lib (value_args True hidden version) ps stripped = Inr full"
    and "getNodeParameters (Suc depth) lib (value_args True hidden version) ps full = Inr full"
proof -
  let ?add = "value_args True hidden version" and ?strip = "value_args False hidden version"
  define full_ob where "full_ob = fold (put_stored lib ?add given) ps []"
  define stripped_ob where "stripped_ob = fold (put_stored lib ?strip full_ob) ps []"
  note plain = plain_values [OF assms(1)]
  have obs: "full = JObj full_ob" "stripped = JObj stripped_ob"
    using assms(3) assms(4) unfolding full_ob_def stripped_ob_def plain by (auto simp only: plain sum.inject)
  have distinct: "distinct (map np_name ps)" using assms(1) by (simp add: plain_parameters_def)
  have stored_add: "stored lib ?add p v = Some (value_or_default p v)" for p v
    by (simp add: stored_def value_args_def not_given_def)
  have full_read: "obj_read full_ob (np_name p) = value_or_default p (obj_read given (np_name p))" if "p \<in> set ps" for p
    using map_of_put_stored [OF distinct that] by (simp add: full_ob_def stored_add obj_read_def)
  have stripped_read: "obj_read stripped_ob (np_name p) =
      (let v = value_or_default p (obj_read given (np_name p))
       in if v \<noteq> JUndef \<and> not_default lib None p v then v else JUndef)" if "p \<in> set ps" for p
    using map_of_put_stored [OF distinct that, of lib ?strip full_ob "[]"] full_read [OF that]
    by (auto simp: stripped_ob_def obj_read_def [of "fold _ _ _"] stored_def value_args_def not_given_def Let_def)
  have restored: "value_or_default p (obj_read stripped_ob (np_name p)) = value_or_default p (obj_read given (np_name p))"
    "value_or_default p (obj_read full_ob (np_name p)) = value_or_default p (obj_read given (np_name p))"
    if "p \<in> set ps" for p
    using restored_value [of lib p "obj_read given (np_name p)"] assms(2) that
    by (auto simp: stripped_read full_read comparable_defaults_def Let_def value_or_default_twice)
  have "fold (put_stored lib ?add stripped_ob) ps [] = fold (put_stored lib ?add given) ps []"
    "fold (put_stored lib ?add full_ob) ps [] = fold (put_stored lib ?add given) ps []"
    by (rule fold_put_stored_cong, simp add: stored_add restored)+
  then have "fold (put_stored lib ?add stripped_ob) ps [] = full_ob" "fold (put_stored lib ?add full_ob) ps [] = full_ob"
    by (simp_all add: full_ob_def)
  then show "getNodeParameters (Suc depth) lib ?add ps stripped = Inr full"
    "getNodeParameters (Suc depth) lib ?add ps full = Inr full"
    unfolding obs plain by simp_all
qed

text \<open>What adding the defaults makes of each value.\<close>

definition keeps_null :: "INodeProperties \<Rightarrow> bool" where
  "keeps_null p \<longleftrightarrow> np_type p \<in> {''boolean'', ''number'', ''options''} \<or>
     np_type p = ''resourceLocator'' \<and> is_object (np_default p)"

lemma full_value:
  assumes "plain_parameters lib ps" "comparable_defaults lib ps" "p \<in> set ps"
    and "getNodeParameters (Suc depth) lib (value_args True hidden version) ps (JObj given) = Inr full"
  shows "\<exists>ob. full = JObj ob \<and> map_of ob (np_name p) =
    (let v = obj_read given (np_name p) in
     Some (if v = JUndef \<or> v = JNull \<and> \<not> keeps_null p then np_default p else v))"
proof -
  let ?add = "value_args True hidden version" and ?v = "obj_read given (np_name p)"
  have full: "full = JObj (fold (put_stored lib ?add given) ps [])"
    using assms(4) unfolding plain_values [OF assms(1)] by simp
  have "distinct (map np_name ps)" using assms(1) by (simp add: plain_parameters_def)
  from map_of_put_stored [OF this assms(3), of lib ?add given "[]"]
  have "map_of (fold (put_stored lib ?add given) ps []) (np_name p) = Some (value_or_default p ?v)"
    by (simp add: stored_def value_args_def not_given_def)
  moreover have "value_or_default p ?v = (if ?v = JUndef \<or> ?v = JNull \<and> \<not> keeps_null p then np_default p else ?v)"
    using assms(2,3) by (auto simp: comparable_defaults_def value_or_default_def keeps_null_def nullish_def)
  ultimately show ?thesis by (simp add: full Let_def)
qed

text \<open>C36: for simple parameters that are always displayed, with names of their own, where \<open>isEqual\<close> compares
  a value with a default as equality does and the object that is the default of a resource locator says that
  it is one: adding the defaults keeps every value that is given, \<open>false\<close>, \<open>0\<close> and the empty text as well, and
  takes the default for a missing one (for \<open>null\<close> as well, where the type does not keep it); adding the
  defaults to values from which the defaults were removed gives the values with all defaults again, and
  adding them twice is the same as adding them once.\<close>

theorem defaults_roundtrip:
  assumes "plain_parameters lib ps" "comparable_defaults lib ps"
    and "getNodeParameters (Suc depth) lib (value_args True hidden version) ps (JObj given) = Inr full"
    and "getNodeParameters (Suc depth) lib (value_args False hidden version) ps full = Inr stripped"
  shows "(\<forall>p \<in> set ps. \<exists>ob. full = JObj ob \<and> map_of ob (np_name p) =
      (let v = obj_read given (np_name p) in
       Some (if v = JUndef \<or> v = JNull \<and> \<not> keeps_null p then np_default p else v))) \<and>
    getNodeParameters (Suc depth) lib (value_args True hidden version) ps stripped = Inr full \<and>
    getNodeParameters (Suc depth) lib (value_args True hidden version) ps full = Inr full"
  using restored_parameters [OF assms] full_value [OF assms(1,2) _ assms(3)] by blast

section \<open>The nodes of a workflow\<close>

text \<open>How the constructor of a workflow resolves the parameters of a node.\<close>

definition node_parameters :: "ParameterLib \<Rightarrow> parameter_resolver" where
  "node_parameters lib ps node =
     (case getNodeParameters (Suc (nesting ps)) lib (value_args True False (Some (typeVersion node))) ps
         (JObj (parameters node)) of
        Inl (Some e) \<Rightarrow> Inl e
      | Inl None \<Rightarrow> Inl TypeError
      | Inr (JObj ob) \<Rightarrow> Inr (Some ob)
      | Inr _ \<Rightarrow> Inr None)"

lemma node_parameters_plain:
  assumes "plain_parameters lib ps" "comparable_defaults lib ps"
  obtains ob where "node_parameters lib ps node = Inr (Some ob)"
    and "node_parameters lib ps (node\<lparr>parameters := ob\<rparr>) = Inr (Some ob)"
proof -
  define d where "d = nesting ps"
  let ?args = "value_args True False (Some (typeVersion node))"
  define ob where "ob = fold (put_stored lib ?args (parameters node)) ps []"
  have full: "getNodeParameters (Suc d) lib ?args ps (JObj (parameters node)) = Inr (JObj ob)"
    unfolding plain_values [OF assms(1)] ob_def ..
  have again: "getNodeParameters (Suc d) lib ?args ps (JObj ob) = Inr (JObj ob)"
    by (rule restored_parameters(2) [OF assms full plain_values [OF assms(1)]])
  have "node_parameters lib ps node = Inr (Some ob)"
    unfolding node_parameters_def d_def [symmetric] full by simp
  moreover have "node_parameters lib ps (node\<lparr>parameters := ob\<rparr>) = Inr (Some ob)"
    unfolding node_parameters_def d_def [symmetric] using again by simp
  ultimately show thesis by (rule that)
qed

text \<open>A workflow that is built from the nodes of a workflow has the same nodes: their parameters
  have their defaults already.\<close>

theorem rebuilding_keeps_nodes:
  assumes "new_Workflow (node_parameters lib) p = Inr w"
    and "\<And>type version t. p_nodeTypes p type version = Some t \<Longrightarrow>
      plain_parameters lib (td_properties t) \<and> comparable_defaults lib (td_properties t)"
    and "map_of (nodes w) name = Some node"
  shows "with_default_parameters (node_parameters lib) (nodeTypes w) node = Inr node"
proof -
  from assms(1) have added: "add_nodes (node_parameters lib) (p_nodeTypes p) (p_nodes p) = Inr (nodes w)"
    and types: "nodeTypes w = p_nodeTypes p" by (auto simp: new_Workflow_def bindR_Inr_iff)
  have step: "with_default_parameters (node_parameters lib) (p_nodeTypes p) n' = Inr n'"
    if n': "with_default_parameters (node_parameters lib) (p_nodeTypes p) n = Inr n'" for n n'
  proof (cases "p_nodeTypes p (ntype n) (typeVersion n)")
    case None
    with n' show ?thesis by (simp add: with_default_parameters_def)
  next
    case (Some t)
    from assms(2) [OF this] obtain ob where "node_parameters lib (td_properties t) n = Inr (Some ob)"
      "node_parameters lib (td_properties t) (n\<lparr>parameters := ob\<rparr>) = Inr (Some ob)"
      by (auto elim: node_parameters_plain)
    with n' Some show ?thesis by (auto simp: with_default_parameters_def)
  qed
  have "\<forall>k n. map_of (nodes w) k = Some n \<longrightarrow>
      with_default_parameters (node_parameters lib) (p_nodeTypes p) n = Inr n"
    by (rule foldR_invariant [OF added [unfolded add_nodes_def]]) (auto simp: bindR_Inr_iff step split: if_splits)
  with assms(3) show ?thesis by (simp add: types)
qed

section \<open>A default that cannot be added\<close>

text \<open>Adding the default of a fixed collection that takes one value fails when the default has an
  item: the code reads the item of the value, which is not there, instead of the item of the default.\<close>

theorem single_default_throws:
  assumes "np_type p = ''fixedCollection''" "np_multipleValues p \<noteq> Some True" "np_displayOptions p = None"
    and "np_default p = JObj ((itemName, item) # items)" "find_option p itemName = Inr (Some opt)"
    and "obj_read given (np_name p) = JUndef"
  shows "getNodeParameters (Suc depth) lib (value_args True hidden version) [p] (JObj given) = Inl (Some TypeError)"
proof -
  let ?args = "value_args True hidden version"
  have "getParameterResolveOrder [p] (getParameterDependencies [p]) = Inr [0]"
    using order_without_rules [of "[p]"] assms(3) by simp
  then have level: "resolve_level lib lower args [p] check (JObj given) =
      bindR (parameter_body lib lower args [] check (JObj given) p ([], []))
        (\<lambda>r. case r of ReturnNodeValues \<Rightarrow> Inr (JObj given) | Collected params full \<Rightarrow> Inr (JObj params))"
    for lower args check by (simp add: resolve_level_def duplicate_names_def cong: parameter_step.case_cong)
  have "display_values lib lower ?args [p] (JObj given) = Inr (if hidden then None else Some (JObj []))" for lower
    using assms(1,3,6)
    by (simp add: display_values_def level parameter_body_def js_truthy_def js_read_def displayParameter_def value_args_def
        not_given_def Let_def)
  moreover have "parameter_body lib lower ?args [] check (JObj given) p ([], []) = Inl (Some TypeError)" for lower check
    using assms
    by (simp add: parameter_body_def js_truthy_def js_read_def displayParameter_def value_args_def not_given_def
        fixedCollection_parameter_def keys_of_def fixed_item_def fixed_single_def Let_def)
  ultimately show ?thesis by (simp add: Let_def level)
qed

section \<open>Examples\<close>

text \<open>A request: its body is shown for the method POST only, its headers are a fixed collection.\<close>

definition header_parameter :: INodeProperties where
  "header_parameter = INodeProperties ''headers'' ''headers'' ''fixedCollection'' (JObj [(''header'', JObj [])])
     False None None False None None None
     (Some [OptionCollection ''header'' [plain_property ''name'' ''string'' (JStr ''X'')]])"

definition request_parameters :: "INodeProperties list" where
  "request_parameters =
     [plain_property ''method'' ''options'' (JStr ''GET''),
      ruled ''body'' [(''show'', [(''method'', [Plain (JStr ''POST'')])])]]"

definition plain_request :: "INodeProperties list" where
  "plain_request = [plain_property ''method'' ''options'' (JStr ''GET''), plain_property ''url'' ''string'' (JStr ''/'')]"

theorem getNodeParameters_terminates_witness:
  "getNodeParameters 2 plain_lib (value_args False False (Some (Decimal 1 0))) [header_parameter]
     (JObj [(''headers'', JObj [(''header'', JObj [])])]) \<noteq> Inl None"
  by (rule getNodeParameters_terminates)
    (simp add: nesting_def header_parameter_def plain_property_def)

text \<open>What the calls of the witnesses return.\<close>

definition given_url :: jsval where
  "given_url = JObj [(''url'', JStr ''/x'')]"

definition full_url :: jsval where
  "full_url = JObj [(''method'', JStr ''GET''), (''url'', JStr ''/x'')]"

lemma add_to_url: "getNodeParameters 1 plain_lib (value_args True True (Some (Decimal 1 0))) plain_request given_url = Inr full_url"
  by code_simp

lemma hide_body:
  "getNodeParameters 1 plain_lib (value_args True False (Some (Decimal 1 0))) request_parameters
     (JObj [(''body'', JStr ''x'')]) = Inr (JObj [(''method'', JStr ''GET'')])"
  by code_simp

theorem getNodeParameters_names_witness:
  "\<exists>params. full_url = JObj params \<and> distinct (map_keys params) \<and> set (map_keys params) \<subseteq> known_names plain_request"
  using getNodeParameters_names [OF add_to_url] by (simp add: value_args_def)

theorem hidden_parameters_are_dropped_witness:
  "\<exists>values p. p \<in> set request_parameters \<and> np_name p = ''method'' \<and>
     displays plain_lib (value_args True False (Some (Decimal 1 0))) values p"
  using hidden_parameters_are_dropped [OF hide_body [unfolded One_nat_def], of "''method''"]
  by (auto simp: value_args_def map_keys_def)

text \<open>An empty fixed collection, and the values without defaults still have the body that is hidden.\<close>

lemma early_return_keeps_hidden:
  "getNodeParameters 1 plain_lib (value_args False False (Some (Decimal 1 0)))
     (INodeProperties ''headers'' ''headers'' ''fixedCollection'' (JObj []) False None (Some False) False None None None
        (Some []) # request_parameters)
     (JObj [(''headers'', JObj []), (''body'', JStr ''x'')]) =
   Inr (JObj [(''headers'', JObj []), (''body'', JStr ''x'')])"
  by code_simp

text \<open>The values of a retry: none of them is truthy, and none is the default.\<close>

definition retry_parameters :: "INodeProperties list" where
  "retry_parameters = [plain_property ''retry'' ''boolean'' (JBool True), plain_property ''wait'' ''number'' (JInt 5),
     plain_property ''url'' ''string'' (JStr ''/'')]"

definition no_retry :: "jsval jsobj" where
  "no_retry = [(''retry'', JBool False), (''wait'', JInt 0)]"

lemma add_to_retry:
  "getNodeParameters 1 plain_lib (value_args True True (Some (Decimal 1 0))) retry_parameters (JObj no_retry) =
     Inr (JObj (no_retry @ [(''url'', JStr ''/'')]))"
  by code_simp

lemma strip_retry:
  "getNodeParameters 1 plain_lib (value_args False True (Some (Decimal 1 0))) retry_parameters
     (JObj (no_retry @ [(''url'', JStr ''/'')])) = Inr (JObj no_retry)"
  by code_simp

theorem defaults_roundtrip_witness:
  "getNodeParameters 1 plain_lib (value_args True True (Some (Decimal 1 0))) retry_parameters (JObj no_retry) =
     Inr (JObj (no_retry @ [(''url'', JStr ''/'')])) \<and>
   map_of (no_retry @ [(''url'', JStr ''/'')]) ''retry'' = Some (JBool False)"
proof -
  have laws: "plain_parameters plain_lib retry_parameters" "comparable_defaults plain_lib retry_parameters"
    by (simp_all add: plain_parameters_def comparable_defaults_def retry_parameters_def plain_property_def plain_lib_def)
  have "plain_property ''retry'' ''boolean'' (JBool True) \<in> set retry_parameters" by (simp add: retry_parameters_def)
  with defaults_roundtrip [OF laws add_to_retry [unfolded One_nat_def] strip_retry [unfolded One_nat_def]]
  have "map_of (no_retry @ [(''url'', JStr ''/'')]) ''retry'' = Some (JBool False)"
    "getNodeParameters (Suc 0) plain_lib (value_args True True (Some (Decimal 1 0))) retry_parameters (JObj no_retry) =
     Inr (JObj (no_retry @ [(''url'', JStr ''/'')]))"
    by (auto simp: plain_property_def no_retry_def obj_read_def)
  then show ?thesis by simp
qed

definition request_type :: INodeType where
  "request_type = \<lparr>td_name = ''request'', td_group = [], td_properties = plain_request, td_inputs = [Main],
     td_outputs = [Main], td_requiredInputs = NoRequirement, has_execute = True, has_poll = False,
     has_trigger = False, has_webhook = False\<rparr>"

definition request_workflow :: WorkflowParameters where
  "request_workflow = sample_parameters\<lparr>p_nodeTypes := (\<lambda>_ _. Some request_type),
     p_nodes := [(plain_node 1 ''A'' ''request'')\<lparr>parameters := [(''url'', JStr ''/x'')]\<rparr>]\<rparr>"

definition request_node :: INode where
  "request_node = (plain_node 1 ''A'' ''request'')\<lparr>parameters :=
     [(''method'', JStr ''GET''), (''url'', JStr ''/x'')]\<rparr>"

lemma request_resolved:
  "node_parameters plain_lib plain_request ((plain_node 1 ''A'' ''request'')\<lparr>parameters := [(''url'', JStr ''/x'')]\<rparr>) =
     Inr (Some [(''method'', JStr ''GET''), (''url'', JStr ''/x'')])"
  by code_simp

theorem rebuilding_keeps_nodes_witness:
  "with_default_parameters (node_parameters plain_lib) (\<lambda>_ _. Some request_type) request_node = Inr request_node"
proof -
  let ?node = "(plain_node 1 ''A'' ''request'')\<lparr>parameters := [(''url'', JStr ''/x'')]\<rparr>"
  have "with_default_parameters (node_parameters plain_lib) (\<lambda>_ _. Some request_type) ?node = Inr request_node"
    by (simp add: with_default_parameters_def request_type_def request_resolved [unfolded One_nat_def] request_node_def)
  moreover have "nodeName ?node = ''A''" by (simp add: plain_node_def)
  ultimately have "add_nodes (node_parameters plain_lib) (\<lambda>_ _. Some request_type) [?node] = Inr [(''A'', request_node)]"
    by (simp add: add_nodes_def obj_put_def array_index_def is_digit_def digits_def)
  then obtain w where w: "new_Workflow (node_parameters plain_lib) request_workflow = Inr w"
    "nodes w = [(''A'', request_node)]" "nodeTypes w = (\<lambda>_ _. Some request_type)"
    by (simp add: new_Workflow_def request_workflow_def)
  have "plain_parameters plain_lib plain_request" "comparable_defaults plain_lib plain_request"
    by (simp_all add: plain_parameters_def comparable_defaults_def plain_request_def plain_property_def plain_lib_def)
  then have "plain_parameters plain_lib (td_properties t) \<and> comparable_defaults plain_lib (td_properties t)"
    if "p_nodeTypes request_workflow type version = Some t" for type version t
    using that by (auto simp: request_workflow_def request_type_def)
  from rebuilding_keeps_nodes [OF w(1) this, where name = "''A''" and node = request_node] w(2,3) show ?thesis by simp
qed

theorem single_default_throws_witness:
  "getNodeParameters 1 plain_lib (value_args True True (Some (Decimal 1 0))) [header_parameter] (JObj []) = Inl (Some TypeError)"
  using single_default_throws [of header_parameter "''header''" "JObj []" "[]"
      "OptionCollection ''header'' [plain_property ''name'' ''string'' (JStr ''X'')]" "[]" 0 plain_lib True "Some (Decimal 1 0)"]
  by (simp add: header_parameter_def find_option_def option_name_def obj_read_def)

end
