(* ===== verification/ItemTracing.thy ===== *)
theory ItemTracing
  imports ExecutionState
begin

text \<open>
  The item that an item comes from: \<open>getPairedItem\<close> of
  \<open>packages/workflow/src/WorkflowDataProxy.ts\<close>, which follows \<open>pairedItem\<close> through the recorded runs back
  to a node. The items themselves are objects that the code compares by identity, so the result is
  the place of an item. \<open>SUndef\<close> is the result \<open>undefined\<close>, \<open>SNull\<close> stands for a branch that has
  thrown. The search follows the data of the runs, which can run in circles, so it has a bound.
\<close>

section \<open>The data\<close>

text \<open>The properties of the data proxy that are read. Of the execution data, the runs; \<open>dp_source\<close> is that of \<open>executeData\<close>.\<close>

record DataProxy =
  dp_workflow :: Workflow
  dp_runData :: "IRunData option"
  dp_itemIndex :: nat
  dp_activeNodeName :: string
  dp_connectionInputData :: "INodeExecutionData list"
  dp_mode :: string
  dp_source :: "ITaskDataConnectionsSource option"
  dp_defaultReturnRunIndex :: int
  dp_contextNodeName :: string

datatype item_place = RunItem string nat nat nat | PinnedItem string nat

definition getPinDataIfManualExecution :: "Workflow \<Rightarrow> string \<Rightarrow> string \<Rightarrow> INodeExecutionData list option" where
  "getPinDataIfManualExecution w name mode = (if mode \<noteq> ''manual'' then None else getPinDataOfNode w name)"

definition pinned_items :: "DataProxy \<Rightarrow> string \<Rightarrow> INodeExecutionData list option" where
  "pinned_items dp name = getPinDataIfManualExecution (dp_workflow dp) name (dp_mode dp)"

definition run_at :: "DataProxy \<Rightarrow> string \<Rightarrow> nat \<Rightarrow> ITaskData option" where
  "run_at dp name r =
     (case dp_runData dp of
        None \<Rightarrow> None
      | Some rd \<Rightarrow>
          (case map_of rd name of
             None \<Rightarrow> None
           | Some runs \<Rightarrow> if r < length runs then Some (runs ! r) else None))"

text \<open>\<open>taskData?.data?.main\<close>\<close>

definition main_data :: "ITaskData option \<Rightarrow> INodeExecutionData list slot list option" where
  "main_data taskData =
     (case taskData of
        None \<Rightarrow> None
      | Some td \<Rightarrow> (case task_data td of None \<Rightarrow> None | Some d \<Rightarrow> map_of d Main))"

definition or_zero :: "nat option \<Rightarrow> nat" where
  "or_zero i = (case i of None \<Rightarrow> 0 | Some n \<Rightarrow> n)"

definition fail_with :: "string \<Rightarrow> 'a bounded_res" where
  "fail_with type = Inl (Some (ExpressionError type))"

section \<open>One step back\<close>

text \<open>The item an item of a node was paired with when the node ran: its output must exist, and the item in it.\<close>

definition item_of :: "DataProxy \<Rightarrow> ISourceData \<Rightarrow> IPairedItemData \<Rightarrow> INodeExecutionData bounded_res" where
  "item_of dp sourceData pi =
     (let taskData = run_at dp (previousNode sourceData) (or_zero (previousNodeRun sourceData));
          output = or_zero (previousNodeOutput sourceData)
      in case main_data taskData of
           Some main \<Rightarrow>
             if output \<ge> length main then fail_with ''internal''
             else
               let items = (case main ! output of SVal items \<Rightarrow> items
                 | _ \<Rightarrow> (case pinned_items dp (previousNode sourceData) of Some items \<Rightarrow> items | None \<Rightarrow> []))
               in if pi_item pi \<ge> length items then fail_with ''paired_item_invalid_info'' else Inr (items ! pi_item pi)
         | None \<Rightarrow>
             let items = (case pinned_items dp (previousNode sourceData) of Some items \<Rightarrow> items | None \<Rightarrow> [])
             in if pi_item pi \<ge> length items then fail_with ''paired_item_invalid_info'' else Inr (items ! pi_item pi))"

definition sources_of :: "DataProxy \<Rightarrow> ISourceData \<Rightarrow> ISourceData slot list" where
  "sources_of dp sourceData =
     (case run_at dp (previousNode sourceData) (or_zero (previousNodeRun sourceData)) of
        None \<Rightarrow> [] | Some td \<Rightarrow> task_source td)"

definition overwritten :: "IPairedItemData \<Rightarrow> ISourceData slot \<Rightarrow> ISourceData slot" where
  "overwritten pi source = (case pi_sourceOverwrite pi of Some s \<Rightarrow> SVal s | None \<Rightarrow> source)"

text \<open>The source behind the input of a single paired item; \<open>|| null\<close>.\<close>

definition next_source :: "DataProxy \<Rightarrow> ISourceData \<Rightarrow> IPairedItemData \<Rightarrow> ISourceData slot bounded_res" where
  "next_source dp sourceData pi =
     (let source = sources_of dp sourceData; itemInput = or_zero (pi_input pi) in
      if itemInput \<ge> length source then
        (if source = [] then fail_with ''paired_item_no_connection'' else fail_with ''paired_item_invalid_info'')
      else Inr (overwritten pi (case arr_get source itemInput of SVal s \<Rightarrow> SVal s | _ \<Rightarrow> SNull)))"

section \<open>The item at the destination\<close>

definition destination_item :: "DataProxy \<Rightarrow> ISourceData \<Rightarrow> IPairedItemData \<Rightarrow> item_place bounded_res" where
  "destination_item dp sourceData pi =
     (let name = previousNode sourceData; r = or_zero (previousNodeRun sourceData);
          output = or_zero (previousNodeOutput sourceData)
      in bindR (thrown (derefR (dp_runData dp))) (\<lambda>_.
         case run_at dp name r of
           Some td \<Rightarrow>
             bindR (thrown (derefR (main_data (Some td)))) (\<lambda>main.
               if output \<ge> length main then fail_with ''paired_item_invalid_info''
               else case main ! output of
                 SVal items \<Rightarrow>
                   if pi_item pi \<ge> length items then fail_with ''paired_item_invalid_info''
                   else Inr (RunItem name r output (pi_item pi))
               | _ \<Rightarrow> Inl (Some TypeError))
         | None \<Rightarrow>
             bindR (thrown (derefR (pinned_items dp name))) (\<lambda>items.
               if output \<ge> 1 \<or> pi_item pi \<ge> length items then fail_with ''paired_item_invalid_info''
               else Inr (PinnedItem name (pi_item pi)))))"

section \<open>getPairedItem\<close>

definition as_pairedItem :: "nat \<Rightarrow> IPairedItemData" where
  "as_pairedItem n = \<lparr>pi_item = n, pi_input = None, pi_sourceOverwrite = None\<rparr>"

text \<open>A branch of an item that comes from several items: whatever it throws, it counts as not found.\<close>

definition branch ::
  "(ISourceData slot \<Rightarrow> IPairedItemData \<Rightarrow> item_place slot bounded_res) \<Rightarrow> ISourceData slot list \<Rightarrow>
   IPairedItemData \<Rightarrow> item_place slot list \<Rightarrow> item_place slot list bounded_res" where
  "branch rec source item results =
     (if or_zero (pi_input item) \<ge> length source then Inr results
      else case rec (overwritten item (arr_get source (or_zero (pi_input item)))) item of
        Inl None \<Rightarrow> Inl None
      | Inl (Some e) \<Rightarrow> Inr results
      | Inr r \<Rightarrow> Inr (results @ (if r = SNull then [] else [r])))"

definition single_result :: "item_place slot list \<Rightarrow> item_place slot bounded_res" where
  "single_result results =
     (let firstResult = (case results of [] \<Rightarrow> SUndef | r # _ \<Rightarrow> r) in
      if length results \<noteq> 1 then
        (if list_all (\<lambda>r. r = firstResult) results then Inr firstResult
         else fail_with ''paired_item_multiple_matches'')
      else Inr firstResult)"

fun trace_back :: "nat \<Rightarrow> DataProxy \<Rightarrow> string \<Rightarrow> ISourceData slot \<Rightarrow> IPairedItemData \<Rightarrow> item_place slot bounded_res" where
  "trace_back 0 dp destination source pi = Inl None"
| "trace_back (Suc fuel) dp destination source pi =
     (case source of
        SNull \<Rightarrow> fail_with ''paired_item_no_info''
      | SVal sourceData \<Rightarrow>
          if previousNode sourceData = destination then
            bindR (destination_item dp sourceData pi) (\<lambda>place. Inr (SVal place))
          else
            bindR (item_of dp sourceData pi) (\<lambda>item.
            let go_back = (\<lambda>pi'. bindR (next_source dp sourceData pi') (\<lambda>source'. trace_back fuel dp destination source' pi'))
            in case pairedItem item of
              None \<Rightarrow> fail_with ''paired_item_no_info''
            | Some (PairedMany ps) \<Rightarrow>
                bindR (foldR (branch (trace_back fuel dp destination) (sources_of dp sourceData)) ps []) single_result
            | Some (PairedOne pi') \<Rightarrow> go_back pi'
            | Some (PairedNumber n) \<Rightarrow> go_back (as_pairedItem n))
      | _ \<Rightarrow> Inl (Some TypeError))"

definition getPairedItem ::
  "nat \<Rightarrow> DataProxy \<Rightarrow> string \<Rightarrow> ISourceData slot \<Rightarrow> IPairedItemData \<Rightarrow> item_place slot bounded_res" where
  "getPairedItem fuel dp destination incoming pi = trace_back fuel dp destination (overwritten pi incoming) pi"

section \<open>The data of a node: \<open>$('node')\<close>\<close>

definition item_at :: "DataProxy \<Rightarrow> item_place \<Rightarrow> INodeExecutionData option" where
  "item_at dp place =
     (case place of
        RunItem n r output i \<Rightarrow>
          (case main_data (run_at dp n r) of
             None \<Rightarrow> None
           | Some main \<Rightarrow> (case arr_get main output of SVal items \<Rightarrow> if i < length items then Some (items ! i) else None
               | _ \<Rightarrow> None))
      | PinnedItem n i \<Rightarrow>
          (case pinned_items dp n of None \<Rightarrow> None | Some items \<Rightarrow> if i < length items then Some (items ! i) else None))"

text \<open>\<open>$\<close> itself: the node must exist.\<close>

definition referenced_node :: "DataProxy \<Rightarrow> string \<Rightarrow> unit bounded_res" where
  "referenced_node dp name = (if name = [] \<or> getNode (dp_workflow dp) name = None then fail_with '''' else Inr ())"

definition isExecuted :: "DataProxy \<Rightarrow> string \<Rightarrow> bool" where
  "isExecuted dp name = (case dp_runData dp of None \<Rightarrow> False | Some rd \<Rightarrow> map_of rd name \<noteq> None)"

definition ensureNodeExecutionData :: "DataProxy \<Rightarrow> string \<Rightarrow> unit bounded_res" where
  "ensureNodeExecutionData dp name =
     (if \<not> isExecuted dp name \<and> pinned_items dp name = None then fail_with ''no_node_execution_data'' else Inr ())"

text \<open>
  The node must come before the active one, or before the node that the active sub-node belongs to;
  when the search for that node does not return, nothing does.
\<close>

definition check_before :: "DataProxy \<Rightarrow> string \<Rightarrow> unit bounded_res" where
  "check_before dp name =
     bindR (case getNode (dp_workflow dp) (dp_activeNodeName dp) of
              None \<Rightarrow> Inr (dp_contextNodeName dp)
            | Some activeNode \<Rightarrow>
                (case getParentMainInputNode (dp_workflow dp) activeNode of
                   None \<Rightarrow> Inl None
                 | Some r \<Rightarrow> bindR (thrown r) (\<lambda>parentMainInputNode. Inr (nodeName parentMainInputNode))))
       (\<lambda>contextNode.
          if name \<in> set (getParentNodes (dp_workflow dp) contextNode (OneType Main) (-1)) then Inr ()
          else fail_with ''paired_item_no_connection'')"

text \<open>
  The item of a node that the input item with this index comes from. An input item is paired with one
  item (the comment of the code says so); a list is a \<open>TypeError\<close> here.
\<close>

definition pairedItemMethod :: "nat \<Rightarrow> DataProxy \<Rightarrow> string \<Rightarrow> nat \<Rightarrow> item_place slot bounded_res" where
  "pairedItemMethod fuel dp name itemIndex =
     (case (dp_connectionInputData dp, pinned_items dp name) of
        ([], Some pinnedData) \<Rightarrow> Inr (if itemIndex < length pinnedData then SVal (PinnedItem name itemIndex) else SUndef)
      | (executionData, _) \<Rightarrow>
          if itemIndex \<ge> length executionData then fail_with ''paired_item_intermediate_nodes''
          else case pairedItem (executionData ! itemIndex) of
            None \<Rightarrow> fail_with ''paired_item_no_info''
          | Some p \<Rightarrow>
              bindR (case dp_source dp of None \<Rightarrow> fail_with '''' | Some source \<Rightarrow> thrown (derefR (map_of source Main))) (\<lambda>main.
              let get = (\<lambda>pi. getPairedItem fuel dp name
                     (case arr_get main (or_zero (pi_input pi)) of SVal s \<Rightarrow> SVal s | _ \<Rightarrow> arr_get main 0) pi)
              in case p of
                PairedNumber n \<Rightarrow> get (as_pairedItem n)
              | PairedOne pi \<Rightarrow> get pi
              | PairedMany _ \<Rightarrow> Inl (Some TypeError)))"

text \<open>\<open>$('node').item\<close>, and \<open>itemMatching\<close> or \<open>pairedItem\<close> with an index; \<open>itemMatching\<close> asks for one.\<close>

definition item_of_node :: "nat \<Rightarrow> DataProxy \<Rightarrow> string \<Rightarrow> bool \<Rightarrow> nat option \<Rightarrow> item_place slot bounded_res" where
  "item_of_node fuel dp name itemMatching itemIndex =
     bindR (referenced_node dp name) (\<lambda>_.
     bindR (check_before dp name) (\<lambda>_.
     bindR (ensureNodeExecutionData dp name) (\<lambda>_.
       case itemIndex of
         None \<Rightarrow> if itemMatching then fail_with '''' else pairedItemMethod fuel dp name (dp_itemIndex dp)
       | Some i \<Rightarrow> pairedItemMethod fuel dp name i)))"

section \<open>The data of a run\<close>

definition getNodeExecutionData ::
  "DataProxy \<Rightarrow> string \<Rightarrow> nat option \<Rightarrow> int option \<Rightarrow> INodeExecutionData list slot res" where
  "getNodeExecutionData dp name outputIndex runIndex =
     (case dp_runData dp of
        None \<Rightarrow> Inl (ExpressionError '''')
      | Some rd \<Rightarrow>
          if getNode (dp_workflow dp) name = None then Inl (ExpressionError '''')
          else if map_of rd name = None \<and> pinned_items dp name = None then
            Inl (ExpressionError ''no_node_execution_data'')
          else
            bindR (derefR (map_of rd name)) (\<lambda>runs.
            let r = (case runIndex of None \<Rightarrow> dp_defaultReturnRunIndex dp | Some r \<Rightarrow> r);
                r = (if r = -1 then int (length runs) - 1 else r)
            in if int (length runs) \<le> r then Inl (ExpressionError '''')
            else if r < 0 then Inl TypeError
            else
              bindR (derefR (task_data (runs ! nat r))) (\<lambda>taskData.
              case map_of taskData Main of
                None \<Rightarrow> Inl (ExpressionError '''')
              | Some main \<Rightarrow>
                  if main = [] \<or> main ! 0 = SNull then Inl (ExpressionError '''')
                  else
                    bindR (case outputIndex of
                             Some i \<Rightarrow> Inr i
                           | None \<Rightarrow>
                               bindR (getNodeConnectionIndexes (dp_workflow dp) (dp_contextNodeName dp) name Main (-1))
                                 (\<lambda>c. case c of None \<Rightarrow> Inl (ExpressionError '''') | Some c \<Rightarrow> Inr (sourceIndex c)))
                      (\<lambda>i. if length main \<le> i then Inl (ExpressionError '''') else Inr (main ! i)))))"

definition getNodeExecutionOrPinnedData ::
  "DataProxy \<Rightarrow> string \<Rightarrow> nat option \<Rightarrow> int option \<Rightarrow> INodeExecutionData list slot res" where
  "getNodeExecutionOrPinnedData dp name outputIndex runIndex =
     (case getNodeExecutionData dp name outputIndex runIndex of
        Inr items \<Rightarrow> Inr items
      | Inl e \<Rightarrow> (case pinned_items dp name of Some pinned \<Rightarrow> Inr (SVal pinned) | None \<Rightarrow> Inl e))"

text \<open>\<open>$('node').all\<close>, \<open>first\<close> and \<open>last\<close>: the default branch is the output that leads to the active node.\<close>

definition all_of_node :: "DataProxy \<Rightarrow> string \<Rightarrow> nat option \<Rightarrow> int option \<Rightarrow> INodeExecutionData list slot bounded_res" where
  "all_of_node dp name branchIndex runIndex =
     bindR (referenced_node dp name) (\<lambda>_.
     bindR (ensureNodeExecutionData dp name) (\<lambda>_.
     thrown (
       bindR (case branchIndex of
                Some i \<Rightarrow> Inr i
              | None \<Rightarrow>
                  bindR (getNodeConnectionIndexes (dp_workflow dp) (dp_activeNodeName dp) name Main (-1))
                    (\<lambda>c. Inr (case c of None \<Rightarrow> 0 | Some c \<Rightarrow> sourceIndex c)))
         (\<lambda>i. getNodeExecutionOrPinnedData dp name (Some i) runIndex))))"

definition first_of_node :: "DataProxy \<Rightarrow> string \<Rightarrow> nat option \<Rightarrow> int option \<Rightarrow> INodeExecutionData option bounded_res" where
  "first_of_node dp name branchIndex runIndex =
     bindR (all_of_node dp name branchIndex runIndex) (\<lambda>executionData.
       case executionData of
         SVal items \<Rightarrow> Inr (case items of [] \<Rightarrow> None | i # _ \<Rightarrow> Some i)
       | _ \<Rightarrow> Inl (Some TypeError))"

definition last_of_node :: "DataProxy \<Rightarrow> string \<Rightarrow> nat option \<Rightarrow> int option \<Rightarrow> INodeExecutionData option bounded_res" where
  "last_of_node dp name branchIndex runIndex =
     bindR (all_of_node dp name branchIndex runIndex) (\<lambda>executionData.
       case executionData of
         SVal items \<Rightarrow> Inr (if items = [] then None else Some (last items))
       | _ \<Rightarrow> Inl (Some TypeError))"

section \<open>Where items come from\<close>

definition links :: "INodeExecutionData \<Rightarrow> IPairedItemData list" where
  "links item =
     (case pairedItem item of
        None \<Rightarrow> []
      | Some (PairedNumber n) \<Rightarrow> [as_pairedItem n]
      | Some (PairedOne p) \<Rightarrow> [p]
      | Some (PairedMany ps) \<Rightarrow> ps)"

text \<open>The source of the run of \<open>s\<close> that a paired item of one of its items points to.\<close>

definition leads_back :: "DataProxy \<Rightarrow> ISourceData \<Rightarrow> IPairedItemData \<Rightarrow> ISourceData \<Rightarrow> bool" where
  "leads_back dp s p s' \<longleftrightarrow> or_zero (pi_input p) < length (sources_of dp s) \<and>
     overwritten p (arr_get (sources_of dp s) (or_zero (pi_input p))) = SVal s'"

inductive origin :: "DataProxy \<Rightarrow> string \<Rightarrow> ISourceData \<Rightarrow> IPairedItemData \<Rightarrow> item_place \<Rightarrow> bool" for dp dest where
  here: "previousNode s = dest \<Longrightarrow> destination_item dp s p = Inr place \<Longrightarrow> origin dp dest s p place"
| further: "previousNode s \<noteq> dest \<Longrightarrow> item_of dp s p = Inr item \<Longrightarrow> p' \<in> set (links item) \<Longrightarrow> leads_back dp s p' s' \<Longrightarrow>
    origin dp dest s' p' place \<Longrightarrow> origin dp dest s p place"

inductive_cases origin_elim: "origin dp dest s p place"

definition place_node :: "item_place \<Rightarrow> string" where
  "place_node place = (case place of RunItem n _ _ _ \<Rightarrow> n | PinnedItem n _ \<Rightarrow> n)"

lemma destination_item_place:
  assumes "destination_item dp s p = Inr place"
  shows "place_node place = previousNode s \<and> item_at dp place \<noteq> None"
proof (cases "run_at dp (previousNode s) (or_zero (previousNodeRun s))")
  case None
  with assms show ?thesis
    by (auto simp: destination_item_def Let_def bindR_Inr_iff fail_with_def place_node_def item_at_def split: if_splits)
next
  case (Some td)
  with assms show ?thesis
    by (auto simp: destination_item_def Let_def bindR_Inr_iff fail_with_def place_node_def item_at_def arr_get_def
        split: if_splits slot.splits)
qed

lemma origin_place: "origin dp dest s p place \<Longrightarrow> place_node place = dest \<and> item_at dp place \<noteq> None"
  by (induction rule: origin.induct) (auto dest: destination_item_place)

lemma branch_results:
  assumes "foldR (branch rec source) ps acc = Inr results" "SVal place \<in> set results"
  shows "SVal place \<in> set acc \<or> (\<exists>p \<in> set ps. or_zero (pi_input p) < length source \<and>
    rec (overwritten p (arr_get source (or_zero (pi_input p)))) p = Inr (SVal place))"
  using assms
proof (induction ps arbitrary: acc)
  case Nil
  then show ?case by simp
next
  case (Cons p ps)
  from Cons.prems(1) obtain acc' where acc': "branch rec source p acc = Inr acc'" "foldR (branch rec source) ps acc' = Inr results"
    by (auto simp: bindR_Inr_iff)
  from acc'(1) have "set acc' \<subseteq> insert (SVal place) (set acc) \<union> - {SVal place} \<and> (SVal place \<in> set acc' - set acc \<longrightarrow>
      or_zero (pi_input p) < length source \<and> rec (overwritten p (arr_get source (or_zero (pi_input p)))) p = Inr (SVal place))"
    by (auto simp: branch_def split: if_splits sum.splits option.splits)
  with Cons.IH [OF acc'(2) Cons.prems(2)] show ?case by auto
qed

lemma single_result_SVal:
  "single_result results = Inr (SVal place) \<Longrightarrow> SVal place \<in> set results"
  by (auto simp: single_result_def Let_def fail_with_def split: list.splits if_splits)

lemma leads_back_next: "next_source dp s p = Inr (SVal s') \<Longrightarrow> leads_back dp s p s'"
  by (auto simp: next_source_def leads_back_def Let_def fail_with_def overwritten_def
      split: if_splits slot.splits option.splits)

lemma trace_back_origin:
  "trace_back fuel dp dest (SVal s) p = Inr (SVal place) \<Longrightarrow> origin dp dest s p place"
proof (induction fuel arbitrary: s p)
  case 0
  then show ?case by simp
next
  case (Suc fuel)
  show ?case
  proof (cases "previousNode s = dest")
    case True
    with Suc.prems show ?thesis by (auto simp: bindR_Inr_iff intro: origin.here)
  next
    case False
    with Suc.prems obtain item where item: "item_of dp s p = Inr item" by (auto simp: bindR_Inr_iff)
    have single: "origin dp dest s p place" if "links item = [p']"
      "bindR (next_source dp s p') (\<lambda>source'. trace_back fuel dp dest source' p') = Inr (SVal place)" for p'
    proof -
      from that(2) obtain source' where source': "next_source dp s p' = Inr source'"
        "trace_back fuel dp dest source' p' = Inr (SVal place)" by (auto simp: bindR_Inr_iff)
      then obtain s' where "source' = SVal s'" by (cases source'; cases fuel) (auto simp: fail_with_def)
      with source' Suc.IH leads_back_next show ?thesis
        using origin.further [OF False item, of p' s' place] that(1) by auto
    qed
    show ?thesis
    proof (cases "pairedItem item")
      case None
      with Suc.prems False item show ?thesis by (simp add: fail_with_def)
    next
      case (Some link)
      show ?thesis
      proof (cases link)
        case (PairedMany ps)
        with Suc.prems False item Some obtain results where
          "foldR (branch (trace_back fuel dp dest) (sources_of dp s)) ps [] = Inr results"
          "single_result results = Inr (SVal place)"
          by (auto simp: bindR_Inr_iff Let_def)
        with branch_results single_result_SVal obtain p' where p': "p' \<in> set ps"
          "or_zero (pi_input p') < length (sources_of dp s)"
          "trace_back fuel dp dest (overwritten p' (arr_get (sources_of dp s) (or_zero (pi_input p')))) p' = Inr (SVal place)"
          by fastforce
        then obtain s' where s': "overwritten p' (arr_get (sources_of dp s) (or_zero (pi_input p'))) = SVal s'"
          by (cases "overwritten p' (arr_get (sources_of dp s) (or_zero (pi_input p')))"; cases fuel) (auto simp: fail_with_def)
        with p' Suc.IH have "origin dp dest s' p' place" by simp
        with p' s' show ?thesis
          by (intro origin.further [OF False item]) (auto simp: links_def Some PairedMany leads_back_def)
      qed (use Suc.prems False item Some single in \<open>auto simp: links_def Let_def\<close>)
    qed
  qed
qed


section \<open>Items that come from one item\<close>

text \<open>When no item is based on several, the search finds the origin whenever there is one.\<close>

definition single_links :: "DataProxy \<Rightarrow> bool" where
  "single_links dp \<longleftrightarrow> (\<forall>s p item ps. item_of dp s p = Inr item \<longrightarrow> pairedItem item \<noteq> Some (PairedMany ps))"

lemma next_source_leads_back: "leads_back dp s p s' \<Longrightarrow> next_source dp s p = Inr (SVal s')"
  by (auto simp: next_source_def leads_back_def Let_def overwritten_def split: option.splits)

lemma trace_back_single:
  assumes "single_links dp" "previousNode s \<noteq> dest" "item_of dp s p = Inr item" "p' \<in> set (links item)"
  shows "links item = [p'] \<and> trace_back (Suc fuel) dp dest (SVal s) p =
    bindR (next_source dp s p') (\<lambda>source'. trace_back fuel dp dest source' p')"
proof (cases "pairedItem item")
  case None
  with assms(4) show ?thesis by (simp add: links_def)
next
  case (Some link)
  with assms show ?thesis by (cases link) (auto simp: links_def single_links_def)
qed

lemma origin_traced:
  "origin dp dest s p place \<Longrightarrow> single_links dp \<Longrightarrow> \<exists>fuel. trace_back fuel dp dest (SVal s) p = Inr (SVal place)"
proof (induction rule: origin.induct)
  case (here s p place)
  then have "trace_back (Suc 0) dp dest (SVal s) p = Inr (SVal place)" by simp
  then show ?case by blast
next
  case (further s p item p' s' place)
  then obtain fuel where "trace_back fuel dp dest (SVal s') p' = Inr (SVal place)" by blast
  with trace_back_single [OF further.prems further.hyps(1-3), of fuel] next_source_leads_back [OF further.hyps(4)]
  have "trace_back (Suc fuel) dp dest (SVal s) p = Inr (SVal place)" by simp
  then show ?case by blast
qed

text \<open>More steps change nothing once the search has returned.\<close>

lemma foldR_branch_cong:
  assumes "\<And>source p. p \<in> set ps \<Longrightarrow> rec source p \<noteq> Inl None \<Longrightarrow> rec' source p = rec source p"
    and "foldR (branch rec sources) ps acc \<noteq> Inl None"
  shows "foldR (branch rec' sources) ps acc = foldR (branch rec sources) ps acc"
  using assms
proof (induction ps arbitrary: acc)
  case Nil
  then show ?case by simp
next
  case (Cons p ps)
  have same: "branch rec' sources p acc = branch rec sources p acc"
  proof (cases "rec (overwritten p (arr_get sources (or_zero (pi_input p)))) p = Inl None \<and> or_zero (pi_input p) < length sources")
    case True
    then have "branch rec sources p acc = Inl None" by (simp add: branch_def)
    with Cons.prems(2) show ?thesis by simp
  next
    case False
    with Cons.prems(1) [of p "overwritten p (arr_get sources (or_zero (pi_input p)))"] show ?thesis by (auto simp: branch_def)
  qed
  show ?case
  proof (cases "branch rec sources p acc")
    case (Inl e)
    with same show ?thesis by simp
  next
    case (Inr acc')
    with Cons.prems Cons.IH [of acc'] same show ?thesis by simp
  qed
qed

lemma trace_back_more:
  "trace_back fuel dp dest source p \<noteq> Inl None \<Longrightarrow> trace_back (Suc fuel) dp dest source p = trace_back fuel dp dest source p"
proof (induction fuel arbitrary: source p)
  case 0
  then show ?case by simp
next
  case (Suc fuel)
  show ?case
  proof (cases source)
    case (SVal s)
    show ?thesis
    proof (cases "previousNode s = dest \<or> (\<exists>e. item_of dp s p = Inl e)")
      case True
      with SVal show ?thesis by auto
    next
      case False
      then obtain item where item: "item_of dp s p = Inr item" "previousNode s \<noteq> dest"
        by (cases "item_of dp s p") auto
      show ?thesis
      proof (cases "\<exists>ps. pairedItem item = Some (PairedMany ps)")
        case True
        then obtain ps where ps: "pairedItem item = Some (PairedMany ps)" by blast
        let ?fold = "\<lambda>f. foldR (branch (trace_back f dp dest) (sources_of dp s)) ps []"
        have eq: "trace_back (Suc f) dp dest source p = bindR (?fold f) single_result" for f
          by (simp add: SVal item ps)
        with Suc.prems have "?fold fuel \<noteq> Inl None" by fastforce
        with Suc.IH have "?fold (Suc fuel) = ?fold fuel" by (intro foldR_branch_cong) auto
        with eq [of fuel] eq [of "Suc fuel"] show ?thesis by (simp del: trace_back.simps)
      next
        case single: False
        show ?thesis
        proof (cases "links item")
          case Nil
          with single SVal item show ?thesis by (auto simp: links_def split: option.splits pairedItem.splits)
        next
          case (Cons p' rest)
          let ?go = "\<lambda>f. bindR (next_source dp s p') (\<lambda>source'. trace_back f dp dest source' p')"
          have eq: "trace_back (Suc f) dp dest source p = ?go f" for f
            using single Cons by (auto simp: SVal item links_def split: option.splits pairedItem.splits)
          show ?thesis
          proof (cases "next_source dp s p'")
            case (Inl e)
            with eq [of fuel] eq [of "Suc fuel"] show ?thesis by (simp del: trace_back.simps)
          next
            case (Inr source')
            with Suc.prems eq [of fuel] have "trace_back fuel dp dest source' p' \<noteq> Inl None"
              by (simp del: trace_back.simps)
            with Suc.IH Inr eq [of fuel] eq [of "Suc fuel"] show ?thesis by (simp del: trace_back.simps)
          qed
        qed
      qed
    qed
  qed simp_all
qed

lemma trace_back_mono:
  assumes "trace_back fuel dp dest source p \<noteq> Inl None" "fuel \<le> fuel'"
  shows "trace_back fuel' dp dest source p = trace_back fuel dp dest source p"
  using assms(2)
proof (induction fuel' rule: dec_induct)
  case base
  show ?case ..
next
  case (step n)
  with assms(1) trace_back_more [of n dp dest source p] show ?case by simp
qed

section \<open>The search ends\<close>

text \<open>
  The runs are ordered when some rank falls from each run to the runs that its sources name. That is
  so when sources name earlier runs only. \<open>sourceOverwrite\<close> can name any run.
\<close>

definition source_run :: "ISourceData \<Rightarrow> string \<times> nat" where
  "source_run s = (previousNode s, or_zero (previousNodeRun s))"

definition ordered_runs :: "DataProxy \<Rightarrow> (string \<times> nat \<Rightarrow> nat) \<Rightarrow> bool" where
  "ordered_runs dp rk \<longleftrightarrow> (\<forall>n r td s. run_at dp n r = Some td \<longrightarrow> SVal s \<in> set (task_source td) \<longrightarrow>
     rk (source_run s) < rk (n, r))"

definition no_overwrites :: "DataProxy \<Rightarrow> bool" where
  "no_overwrites dp \<longleftrightarrow> (\<forall>s p item. item_of dp s p = Inr item \<longrightarrow> (\<forall>p' \<in> set (links item). pi_sourceOverwrite p' = None))"

definition height :: "(string \<times> nat \<Rightarrow> nat) \<Rightarrow> ISourceData slot \<Rightarrow> nat" where
  "height rk source = (case source of SVal s \<Rightarrow> Suc (rk (source_run s)) | _ \<Rightarrow> 0)"

lemma height_source:
  assumes "ordered_runs dp rk" "i < length (sources_of dp s)"
  shows "height rk (arr_get (sources_of dp s) i) \<le> rk (source_run s)"
proof (cases "sources_of dp s ! i")
  case (SVal s')
  obtain td where "run_at dp (previousNode s) (or_zero (previousNodeRun s)) = Some td" "SVal s' \<in> set (task_source td)"
    using assms(2) nth_mem [OF assms(2)] SVal by (auto simp: sources_of_def split: option.splits)
  with assms(1) show ?thesis by (auto simp: ordered_runs_def height_def arr_get_def SVal source_run_def Suc_le_eq)
qed (simp_all add: height_def arr_get_def)

lemma foldR_branch_bound:
  assumes "\<And>p. p \<in> set ps \<Longrightarrow> or_zero (pi_input p) < length sources \<Longrightarrow>
      rec (overwritten p (arr_get sources (or_zero (pi_input p)))) p \<noteq> Inl None"
  shows "foldR (branch rec sources) ps acc \<noteq> Inl None"
  using assms
proof (induction ps arbitrary: acc)
  case Nil
  then show ?case by simp
next
  case (Cons p ps)
  have "branch rec sources p acc \<noteq> Inl None"
    using Cons.prems [of p] by (cases "or_zero (pi_input p) < length sources")
      (auto simp: branch_def split: sum.splits option.splits)
  with Cons show ?case by (cases "branch rec sources p acc") auto
qed

lemma trace_back_bound:
  assumes "ordered_runs dp rk" "no_overwrites dp"
  shows "height rk source < fuel \<Longrightarrow> trace_back fuel dp dest source p \<noteq> Inl None"
proof (induction fuel arbitrary: source p)
  case 0
  then show ?case by simp
next
  case (Suc fuel)
  show ?case
  proof (cases source)
    case (SVal s)
    have destination: "destination_item dp s p \<noteq> Inl None" and item: "item_of dp s p \<noteq> Inl None"
      and next_source: "next_source dp s p' \<noteq> Inl None" for p'
      by (auto simp: destination_item_def item_of_def next_source_def Let_def fail_with_def bindR_Inl_iff thrown_def
          derefR_def split: option.splits slot.splits sum.splits)
    have lower: "trace_back fuel dp dest (arr_get (sources_of dp s) (or_zero (pi_input p'))) q \<noteq> Inl None"
      if "or_zero (pi_input p') < length (sources_of dp s)" for p' q
      using Suc.prems height_source [OF assms(1) that] by (intro Suc.IH) (simp add: SVal height_def)
    show ?thesis
    proof (cases "item_of dp s p")
      case (Inl e)
      with item destination show ?thesis by (auto simp: SVal bindR_Inl_iff)
    next
      case (Inr i)
      with assms(2) have overwrite: "overwritten p' x = x" if "p' \<in> set (links i)" for p' x
        using that by (auto simp: no_overwrites_def overwritten_def)
      have go: "bindR (next_source dp s p') (\<lambda>source'. trace_back fuel dp dest source' p') \<noteq> Inl None"
        if "p' \<in> set (links i)" for p'
        using next_source [of p'] lower [of p' p'] Suc.prems Suc.IH [of SNull p'] overwrite [OF that]
        by (auto simp: next_source_def bindR_Inl_iff fail_with_def Let_def height_def SVal
            split: if_splits slot.splits)
      have "foldR (branch (trace_back fuel dp dest) (sources_of dp s)) ps [] \<noteq> Inl None"
        if "pairedItem i = Some (PairedMany ps)" for ps
        using that overwrite lower by (intro foldR_branch_bound) (auto simp: links_def)
      with go destination Inr show ?thesis
        by (auto simp: SVal bindR_Inl_iff fail_with_def Let_def links_def single_result_def split: option.split pairedItem.split
            if_splits)
    qed
  qed (simp_all add: fail_with_def)
qed


section \<open>Examples\<close>

definition item_from :: "pairedItem option \<Rightarrow> INodeExecutionData" where
  "item_from p = empty_item\<lparr>pairedItem := p\<rparr>"

definition run_from :: "string list \<Rightarrow> pairedItem option \<Rightarrow> ITaskData" where
  "run_from parents p =
     \<lparr>executionStatus = Success, task_data = Some [(Main, [SVal [item_from p]])], task_error = None,
      task_source = map (\<lambda>n. SVal (source_of n 0 0)) parents, task_metadata = JUndef\<rparr>"

definition from_first :: "pairedItem option" where
  "from_first = Some (PairedNumber 0)"

text \<open>\<open>C\<close> has run after \<open>B\<close>, and \<open>B\<close> after the trigger \<open>T\<close>.\<close>

definition chain_proxy :: DataProxy where
  "chain_proxy =
     \<lparr>dp_workflow = sample_workflow,
      dp_runData = Some [(''T'', [run_from [] None]), (''B'', [run_from [''T''] from_first]), (''C'', [run_from [''B''] from_first])],
      dp_itemIndex = 0, dp_activeNodeName = ''D'', dp_connectionInputData = [item_from from_first], dp_mode = ''trigger'',
      dp_source = Some [(Main, [SVal (source_of ''C'' 0 0)])], dp_defaultReturnRunIndex = -1, dp_contextNodeName = ''D''\<rparr>"


definition chain_rank :: "string \<times> nat \<Rightarrow> nat" where
  "chain_rank nr = (if fst nr = ''C'' then 2 else if fst nr = ''B'' then 1 else 0)"

lemma chain_runs:
  "run_at chain_proxy n r = Some td \<longleftrightarrow> r = 0 \<and>
     (n = ''T'' \<and> td = run_from [] None \<or> n = ''B'' \<and> td = run_from [''T''] from_first \<or>
      n = ''C'' \<and> td = run_from [''B''] from_first)"
  by (auto simp: run_at_def chain_proxy_def)

lemma chain_pins: "pinned_items chain_proxy n = None"
  by (simp add: pinned_items_def getPinDataIfManualExecution_def chain_proxy_def)

lemma chain_items:
  "item_of chain_proxy s p = Inr item \<Longrightarrow> item = item_from None \<or> item = item_from from_first"
  by (cases "run_at chain_proxy (previousNode s) (or_zero (previousNodeRun s))")
    (auto simp: item_of_def Let_def main_data_def chain_runs chain_pins run_from_def fail_with_def Suc_le_eq split: if_splits)


text \<open>
  \<open>C\<close> has an item that comes from \<open>B\<close> and from \<open>E\<close>. \<open>E\<close> leads to the trigger; \<open>B\<close> leads to a node that has not run, so
  that no item is found there. For that branch the result is \<open>undefined\<close>, which is not left out, and
  the one item that is found does not count as the only one.
\<close>

definition nested_proxy :: DataProxy where
  "nested_proxy = chain_proxy\<lparr>dp_runData := Some
     [(''T'', [run_from [] None]), (''E'', [run_from [''T''] from_first]),
      (''B'', [run_from [''X''] (Some (PairedMany [as_pairedItem 0]))]),
      (''C'', [run_from [''B'', ''E''] (Some (PairedMany [as_pairedItem 0, (as_pairedItem 0)\<lparr>pi_input := Some 1\<rparr>]))])]\<rparr>"

lemma unresolved_branch_hides_match:
  "getPairedItem 9 nested_proxy ''T'' (SVal (source_of ''B'' 0 0)) (as_pairedItem 0) = Inr SUndef \<and>
   getPairedItem 9 nested_proxy ''T'' (SVal (source_of ''E'' 0 0)) (as_pairedItem 0) = Inr (SVal (RunItem ''T'' 0 0 0)) \<and>
   getPairedItem 9 nested_proxy ''T'' (SVal (source_of ''C'' 0 0)) (as_pairedItem 0) =
     Inl (Some (ExpressionError ''paired_item_multiple_matches''))"
  by code_simp

text \<open>An output that is \<open>null\<close> makes the data of the other outputs unreadable when it is the first one.\<close>

definition null_first_proxy :: DataProxy where
  "null_first_proxy = chain_proxy\<lparr>dp_runData := Some
     [(''A'', [(run_from [] None)\<lparr>task_data := Some [(Main, [SNull, SVal [empty_item]])]\<rparr>])]\<rparr>"

lemma null_first_output_hides_second:
  "getNodeExecutionData null_first_proxy ''A'' (Some 1) None = Inl (ExpressionError '''')"
  by code_simp

end
