(* ===== verification/RunSources.thy ===== *)
theory RunSources
  imports LoopTransitions ItemTracing
begin

text \<open>
  The sources that the execution loop records. Every source on the stack or among the waiting nodes
  names a run that has been recorded, so the sources of a run name earlier runs; hence the search
  for the origin of an item ends on the data of an execution.
\<close>

section \<open>The sources a state holds\<close>

definition sources_ok :: "(ISourceData \<Rightarrow> bool) \<Rightarrow> ITaskDataConnectionsSource \<Rightarrow> bool" where
  "sources_ok P d = (\<forall>(type, arr) \<in> set d. \<forall>s. SVal s \<in> set arr \<longrightarrow> P s)"

definition job_ok :: "(ISourceData \<Rightarrow> bool) \<Rightarrow> IExecuteData \<Rightarrow> bool" where
  "job_ok P job = (case ed_source job of None \<Rightarrow> True | Some d \<Rightarrow> sources_ok P d)"

definition entries_ok :: "(ISourceData \<Rightarrow> bool) \<Rightarrow> (nat \<times> ITaskDataConnectionsSource) list \<Rightarrow> bool" where
  "entries_ok P runs = (\<forall>(i, d) \<in> set runs. sources_ok P d)"

definition table_ok :: "(ISourceData \<Rightarrow> bool) \<Rightarrow> IWaitingForExecutionSource option \<Rightarrow> bool" where
  "table_ok P table = (case table of None \<Rightarrow> True | Some t \<Rightarrow> \<forall>(name, runs) \<in> set t. entries_ok P runs)"

definition held :: "(ISourceData \<Rightarrow> bool) \<Rightarrow> IRunExecutionData \<Rightarrow> bool" where
  "held P s \<longleftrightarrow> (\<forall>job \<in> set (nodeExecutionStack s). job_ok P job) \<and> table_ok P (waitingExecutionSource s)"

lemma set_update_subset: "set (AList.update k v xs) \<subseteq> insert (k, v) (set xs)"
  by (induction xs) auto

lemma set_obj_put_subset: "set (obj_put k v ob) \<subseteq> insert (k, v) (set ob)"
  using set_update_subset [of k v ob] by (auto simp: obj_put_def insert_index_set split: option.splits)

lemma set_num_put_subset: "set (num_put i v ob) \<subseteq> insert (i, v) (set ob)"
proof (induction ob)
  case Nil
  then show ?case by simp
next
  case (Cons p ob)
  then show ?case by (cases p) auto
qed

lemma set_delete_subset: "set (AList.delete k xs) \<subseteq> set xs"
  by (auto simp: AList.delete_eq)

lemma set_arr_set_subset: "set (arr_set i v xs) \<subseteq> insert v (insert SHole (set xs))"
  by (auto simp: arr_set_def dest: set_update_subset_insert [THEN subsetD])

lemma sources_ok_put: "sources_ok P d \<Longrightarrow> (\<And>s. SVal s \<in> set arr \<Longrightarrow> P s) \<Longrightarrow> sources_ok P (obj_put type arr d)"
  using set_obj_put_subset [of type arr d] by (fastforce simp: sources_ok_def)

lemma entries_ok_put: "entries_ok P runs \<Longrightarrow> sources_ok P d \<Longrightarrow> entries_ok P (num_put i d runs)"
  using set_num_put_subset [of i d runs] by (fastforce simp: entries_ok_def)

lemma entries_ok_delete: "entries_ok P runs \<Longrightarrow> entries_ok P (AList.delete i runs)"
  using set_delete_subset [of i runs] by (fastforce simp: entries_ok_def)

lemma table_ok_put: "table_ok P (Some t) \<Longrightarrow> entries_ok P runs \<Longrightarrow> table_ok P (Some (obj_put name runs t))"
  using set_obj_put_subset [of name runs t] by (fastforce simp: table_ok_def)

lemma table_ok_delete: "table_ok P (Some t) \<Longrightarrow> table_ok P (Some (AList.delete name t))"
  using set_delete_subset [of name t] by (fastforce simp: table_ok_def)

lemma table_ok_entries: "table_ok P (Some t) \<Longrightarrow> map_of t name = Some runs \<Longrightarrow> entries_ok P runs"
  by (fastforce simp: table_ok_def dest: map_of_SomeD)

lemma entries_ok_sources: "entries_ok P runs \<Longrightarrow> map_of runs i = Some d \<Longrightarrow> sources_ok P d"
  by (fastforce simp: entries_ok_def dest: map_of_SomeD)

lemma sources_ok_main: "sources_ok P d \<Longrightarrow> map_of d type = Some arr \<Longrightarrow> SVal s \<in> set arr \<Longrightarrow> P s"
  by (fastforce simp: sources_ok_def dest: map_of_SomeD)

lemma held_source_at: "held P s \<Longrightarrow> source_at s name i = Some d \<Longrightarrow> sources_ok P d"
  by (auto simp: held_def source_at_def split: option.splits dest: table_ok_entries entries_ok_sources)

lemma held_mono: "held P s \<Longrightarrow> (\<And>sd. P sd \<Longrightarrow> Q sd) \<Longrightarrow> held Q s"
  by (fastforce simp: held_def job_ok_def sources_ok_def table_ok_def entries_ok_def split: option.splits)

section \<open>The operations of the queue\<close>

lemma held_stack: "held P s \<Longrightarrow> \<forall>job \<in> set stack. job_ok P job \<Longrightarrow> held P (s\<lparr>nodeExecutionStack := stack\<rparr>)"
  by (simp add: held_def)

lemma held_enqueue: "held P s \<Longrightarrow> job_ok P job \<Longrightarrow> held P (enqueue w job s)"
  by (auto simp: held_def enqueue_def)

lemma held_put_waiting: "put_waiting name i d s = Inr s' \<Longrightarrow> held P s \<Longrightarrow> held P s'"
  by (auto simp: put_waiting_def bindR_Inr_iff held_def)

lemma held_set_waiting: "set_waiting_input name i k v s = Inr s' \<Longrightarrow> held P s \<Longrightarrow> held P s'"
  by (auto simp: set_waiting_input_def bindR_Inr_iff intro: held_put_waiting)

lemma held_put_source:
  assumes "put_source name i d s = Inr s'" "held P s" "sources_ok P d"
  shows "held P s'"
  using assms by (auto simp: put_source_def bindR_Inr_iff held_def intro!: table_ok_put entries_ok_put
      dest: table_ok_entries)

lemma held_set_source:
  assumes "set_source_input name i k v s = Inr s'" "held P s" "\<And>sd. v = SVal sd \<Longrightarrow> P sd"
  shows "held P s'"
proof -
  from assms(1) obtain d m where d: "source_at s name i = Some d" "map_of d Main = Some m"
    "put_source name i (obj_put Main (arr_set k v m) d) s = Inr s'"
    by (auto simp: set_source_input_def bindR_Inr_iff)
  have ok: "sources_ok P d" by (rule held_source_at [OF assms(2) d(1)])
  have "sources_ok P (obj_put Main (arr_set k v m) d)"
    using set_arr_set_subset [of k v m] sources_ok_main [OF ok d(2)] assms(3)
    by (intro sources_ok_put [OF ok]) auto
  then show ?thesis by (rule held_put_source [OF d(3) assms(2)])
qed

lemma held_with_sources: "held P s \<Longrightarrow> held P (with_sources s)"
  by (auto simp: with_sources_def held_def table_ok_def split: option.split)

lemma empty_sources_ok: "sources_ok P [(Main, replicate n SNull)]"
  by (simp add: sources_ok_def)

lemma held_prepare: "prepareWaitingToExecution name n i s = Inr s' \<Longrightarrow> held P s \<Longrightarrow> held P s'"
  unfolding prepareWaitingToExecution_def
  by (elim bindR_InrE) (blast intro: held_put_source empty_sources_ok held_put_waiting held_with_sources)

lemma held_choose:
  assumes "chooseWaiting w c s = Inr (s', i, was)" "held P s"
  shows "held P s'"
proof -
  let ?s1 = "with_sources s"
  define s2 where "s2 = (if map_of (waitingExecution ?s1) (cnode c) \<noteq> None then ?s1
    else ?s1\<lparr>waitingExecution := obj_put (cnode c) [] (waitingExecution ?s1),
             waitingExecutionSource := map_option (obj_put (cnode c) []) (waitingExecutionSource ?s1)\<rparr>)"
  have "held P ?s1" by (rule held_with_sources [OF assms(2)])
  moreover have "entries_ok P []" by (simp add: entries_ok_def)
  ultimately have "held P s2" unfolding s2_def
    by (cases "waitingExecutionSource ?s1") (auto simp: held_def intro: table_ok_put)
  moreover have "s' = s2 \<or> (\<exists>k j. prepareWaitingToExecution (cnode c) k j s2 = Inr s')"
    using assms(1) unfolding chooseWaiting_def Let_def s2_def [symmetric]
    by (auto simp: bindR_Inr_iff split: option.splits)
  ultimately show ?thesis using held_prepare by blast
qed

lemma held_remove: "remove_waiting name i s = Inr s' \<Longrightarrow> held P s \<Longrightarrow> held P s'"
  by (auto simp: remove_waiting_def bindR_Inr_iff Let_def held_def split: if_splits
      intro: table_ok_put [OF _ entries_ok_delete [OF table_ok_entries]] table_ok_delete)

text \<open>What \<open>addNodeToBeExecuted\<close> adds comes from the run it is called for.\<close>

lemma held_addData:
  assumes "addWaitingData c outputIndex parent data runIndex i s = Inr s'" "held P s"
    and "P (source_of parent outputIndex runIndex)"
  shows "held P s'"
  using assms by (cases data) (auto simp: addWaitingData_def bindR_Inr_iff intro: held_set_source held_set_waiting)

lemma new_job_ok: "P sd \<Longrightarrow> job_ok P \<lparr>ed_node = n, ed_data = d, ed_source = Some [(Main, [SVal sd])]\<rparr>"
  by (simp add: job_ok_def sources_ok_def)

lemma held_complete:
  assumes "completeWaiting w c i s = Inr s'" "held P s"
  shows "held P s'"
proof -
  from assms(1) obtain d node where "remove_waiting (cnode c) i
      (enqueue w \<lparr>ed_node = node, ed_data = d, ed_source = source_at s (cnode c) i\<rparr> s) = Inr s'"
    by (auto simp: completeWaiting_def bindR_Inr_iff)
  moreover have "job_ok P \<lparr>ed_node = node, ed_data = d, ed_source = source_at s (cnode c) i\<rparr>"
    using held_source_at [OF assms(2), of "cnode c" i] by (auto simp: job_ok_def split: option.split)
  ultimately show ?thesis using held_remove held_enqueue assms(2) by blast
qed

lemma held_forceInput:
  assumes "forceInput w parent outputIndex data runIndex outputNodes inputData s = Inr s'" "held P s"
    and "P (source_of parent outputIndex runIndex)"
  shows "held P s'"
  using assms
  by (auto simp: forceInput_def bindR_Inr_iff Let_def split: if_splits option.splits
      intro!: held_enqueue new_job_ok)

lemma held_forceInputs:
  assumes "forceInputs w c parent outputIndex data runIndex s = Inr s'" "held P s"
    and "P (source_of parent outputIndex runIndex)"
  shows "held P s'"
proof -
  from assms(1) obtain outputNodes inputs where "foldR (\<lambda>input s. bindR (derefR input) (\<lambda>cs.
      foldR (forceInput w parent outputIndex data runIndex outputNodes) cs s)) inputs s = Inr s'"
    by (auto simp: forceInputs_def bindR_Inr_iff)
  then show ?thesis
  proof (rule foldR_invariant [where P = "held P"])
    fix input u v
    assume "bindR (derefR input) (\<lambda>cs. foldR (forceInput w parent outputIndex data runIndex outputNodes) cs u) = Inr v"
      and u: "held P u"
    then obtain cs where "foldR (forceInput w parent outputIndex data runIndex outputNodes) cs u = Inr v"
      by (auto simp: bindR_Inr_iff)
    then show "held P v" using u by (rule foldR_invariant [where P = "held P"]) (auto intro: held_forceInput assms(3))
  qed (rule assms(2))
qed

lemma held_keep:
  assumes "keepWaiting w c outputIndex parent runIndex i arr s = Inr s'" "held P s"
    and "P (source_of parent outputIndex runIndex)"
  shows "held P s'"
proof -
  from assms(1) obtain n t u where "prepareWaitingToExecution (cnode c) n i s = Inr t"
    "put_waiting (cnode c) i [(Main, arr)] t = Inr u"
    and last: "set_source_input (cnode c) i (cindex c) (SVal (source_of parent outputIndex runIndex)) u = Inr s'"
    by (auto simp: keepWaiting_def bindR_Inr_iff)
  with assms(2) have "held P u" by (blast intro: held_prepare held_put_waiting)
  with last show ?thesis by (rule held_set_source) (simp add: assms(3))
qed

lemma held_addNode:
  assumes "addNodeToBeExecuted w c outputIndex parent data runIndex s = Inr s'" "held P s"
    and "P (source_of parent outputIndex runIndex)"
  shows "held P s'"
proof -
  from assms(1) obtain inputs where inputs: "main_inputs (connectionsByDestinationNode w) (cnode c) = Inr inputs"
    by (auto simp: addNodeToBeExecuted_def bindR_Inr_iff)
  show ?thesis
  proof (cases "length inputs > 1")
    case False
    with assms inputs show ?thesis
      by (auto simp: addNodeToBeExecuted_def runDirectly_def bindR_Inr_iff intro!: held_enqueue new_job_ok)
  next
    case True
    with assms(1) inputs obtain t i was u m where
      t: "chooseWaiting w c s = Inr (t, i, was)" and
      u: "addWaitingData c outputIndex parent data runIndex i t = Inr u" and
      rest: "(if allDataFound m then completeWaiting w c i u
        else bindR (if was then Inr u else forceInputs w c parent outputIndex data runIndex u)
          (\<lambda>s. keepWaiting w c outputIndex parent runIndex i
                (connectionDataArray c outputIndex data (Some i) s) s)) = Inr s'"
      by (auto simp: addNodeToBeExecuted_def bindR_Inr_iff)
    have ok: "held P u" using held_addData [OF u held_choose [OF t assms(2)] assms(3)] .
    show ?thesis
    proof (cases "allDataFound m")
      case True
      with rest ok show ?thesis by (auto intro: held_complete)
    next
      case False
      with rest obtain v arr where "v = u \<or> forceInputs w c parent outputIndex data runIndex u = Inr v"
        "keepWaiting w c outputIndex parent runIndex i arr v = Inr s'"
        by (auto simp: bindR_Inr_iff split: if_splits)
      with ok assms(3) show ?thesis by (blast intro: held_keep held_forceInputs)
    qed
  qed
qed

lemma held_addChildren:
  assumes "addChildren w name out runIndex s = Inr s'" "held P s" "\<And>k. P (source_of name k runIndex)"
  shows "held P s'"
proof -
  have child: "held P v" if "addChild w name out runIndex x u = Inr v" "held P u" for x u v
    using that assms(3) by (auto simp: addChild_def case_prod_beta intro: held_addNode)
  obtain xs where "foldR (addChild w name out runIndex) xs s = Inr s' \<or>
    foldR (\<lambda>x s. bindR (destinationKnown w (snd x)) (\<lambda>_.
      if getsData w out x then addChild w name out runIndex x s else Inr s)) xs s = Inr s'"
    using assms(1) by (auto simp: addChildren_def bindR_Inr_iff split: if_splits)
  then show ?thesis
  proof
    assume "foldR (addChild w name out runIndex) xs s = Inr s'"
    then show ?thesis using assms(2) by (rule foldR_invariant [where P = "held P"]) (rule child)
  next
    assume "foldR (\<lambda>x s. bindR (destinationKnown w (snd x)) (\<lambda>_.
      if getsData w out x then addChild w name out runIndex x s else Inr s)) xs s = Inr s'"
    then show ?thesis using assms(2)
      by (rule foldR_invariant [where P = "held P"]) (auto simp: bindR_Inr_iff split: if_splits intro: child)
  qed
qed

lemma held_tryWaiting:
  assumes "tryWaiting w waitingNodes name s = Inr r" "held P s" "r = Taken s' \<or> r = Removed s'"
  shows "held P s'"
proof -
  from assms(1,3) obtain node i m t where
    t: "t = s \<or> pushWaiting w name node i m s = Inr t" and rem: "remove_waiting name i t = Inr s'"
    by (auto simp: tryWaiting_def bindR_Inr_iff split: option.splits if_splits)
  from t have "held P t"
  proof
    assume "pushWaiting w name node i m s = Inr t"
    then obtain d where "t = s\<lparr>nodeExecutionStack := nodeExecutionStack s @
        [\<lparr>ed_node = node, ed_data = d, ed_source = source_at s name i\<rparr>]\<rparr>"
      by (auto simp: pushWaiting_def bindR_Inr_iff)
    then show ?thesis using assms(2) held_source_at [OF assms(2), of name i]
      by (auto simp: held_def job_ok_def split: option.split)
  qed (simp add: assms(2))
  then show ?thesis by (rule held_remove [OF rem])
qed

lemma held_scanWaiting:
  assumes "scanWaiting w waitingNodes names s = Inr r" "held P s" "r = Taken s' \<or> r = Removed s'"
  shows "held P s'"
  using assms(1)
proof (induction names)
  case Nil
  with assms(3) show ?case by auto
next
  case (Cons name names)
  then obtain q where q: "tryWaiting w waitingNodes name s = Inr q"
    "(case q of PassOver \<Rightarrow> scanWaiting w waitingNodes names s | _ \<Rightarrow> Inr q) = Inr r"
    by (auto simp: bindR_Inr_iff)
  then show ?case using Cons.IH held_tryWaiting [OF q(1) assms(2)] assms(3) by (cases q) auto
qed

lemma held_executeWaiting: "executeWaiting w s = Inr s' \<Longrightarrow> held P s \<Longrightarrow> held P s'"
proof (induction w s rule: executeWaiting.induct)
  case (1 w s)
  let ?scan = "scanWaiting w (map_keys (waitingExecution s)) (map_keys (waitingExecution s)) s"
  from 1(2) obtain r where r: "?scan = Inr r" by (subst (asm) executeWaiting.simps) (auto split: sum.splits)
  show ?case
  proof (cases r)
    case PassOver
    with r 1(2,3) show ?thesis by (subst (asm) executeWaiting.simps) simp
  next
    case (Taken t)
    with r 1(2) have "t = s'" by (subst (asm) executeWaiting.simps) simp
    with held_scanWaiting [OF r 1(3)] Taken show ?thesis by blast
  next
    case (Removed t)
    with r 1(2) have "executeWaiting w t = Inr s'" by (subst (asm) executeWaiting.simps) simp
    with 1(1) [OF r Removed] held_scanWaiting [OF r 1(3)] Removed show ?thesis by blast
  qed
qed

lemma held_resumeWaiting: "resumeWaiting w s = Inr s' \<Longrightarrow> held P s \<Longrightarrow> held P s'"
  by (auto simp: resumeWaiting_def held_executeWaiting split: if_splits)

section \<open>Sources name earlier runs\<close>

definition recorded :: "IRunExecutionData \<Rightarrow> ISourceData \<Rightarrow> bool" where
  "recorded s sd \<longleftrightarrow> snd (source_run sd) < length (runs_of s (previousNode sd))"

text \<open>
  The invariant of the loop: what is held was recorded, and some rank falls from each run to its
  sources.
\<close>

definition falls_back :: "(string \<times> nat \<Rightarrow> nat) \<Rightarrow> IRunExecutionData \<Rightarrow> bool" where
  "falls_back rk s \<longleftrightarrow> (\<forall>n r sd. r < length (runs_of s n) \<longrightarrow> SVal sd \<in> set (task_source (runs_of s n ! r)) \<longrightarrow>
     recorded s sd \<and> rk (source_run sd) < rk (n, r))"

definition well_sourced :: "IRunExecutionData \<Rightarrow> bool" where
  "well_sourced s \<longleftrightarrow> held (recorded s) s \<and> (\<exists>rk. falls_back rk s)"

lemma recorded_same: "runs_of t = runs_of s \<Longrightarrow> recorded t = recorded s"
  by (simp add: recorded_def fun_eq_iff)

lemma falls_back_same: "runs_of t = runs_of s \<Longrightarrow> falls_back rk t = falls_back rk s"
  by (simp add: falls_back_def recorded_same [of t s])

lemma well_sourced_same:
  assumes "runs_of t = runs_of s" "held (recorded s) t" "falls_back rk s"
  shows "well_sourced t"
  using assms(2,3) falls_back_same [OF assms(1), of rk] by (auto simp: well_sourced_def recorded_same [OF assms(1)])

lemma recorded_grows: "runs_of t = (runs_of s)(n := runs_of s n @ [td]) \<Longrightarrow> recorded s sd \<Longrightarrow> recorded t sd"
  by (auto simp: recorded_def)

lemma falls_back_new:
  assumes "falls_back rk s" "runs_of t = (runs_of s)(n := runs_of s n @ [td])"
    and "\<And>sd. SVal sd \<in> set (task_source td) \<Longrightarrow> recorded s sd"
  shows "\<exists>rk. falls_back rk t"
proof -
  let ?new = "(n, length (runs_of s n))"
  let ?sources = "{sd. SVal sd \<in> set (task_source td)}"
  have "finite ?sources" by (rule finite_imageD [of SVal]) (auto intro: finite_subset [of _ "set (task_source td)"] inj_onI)
  then obtain bound where bound: "\<forall>sd \<in> ?sources. rk (source_run sd) < bound"
    using finite_nat_set_iff_bounded [of "(\<lambda>sd. rk (source_run sd)) ` ?sources"] by auto
  have old: "source_run sd \<noteq> ?new" if "recorded s sd" for sd
    using that by (auto simp: recorded_def source_run_def)
  have "falls_back (rk(?new := bound)) t"
    unfolding falls_back_def
  proof (intro allI impI)
    fix m r sd
    assume r: "r < length (runs_of t m)" and sd: "SVal sd \<in> set (task_source (runs_of t m ! r))"
    show "recorded t sd \<and> (rk(?new := bound)) (source_run sd) < (rk(?new := bound)) (m, r)"
    proof (cases "(m, r) = ?new")
      case True
      with sd have "SVal sd \<in> set (task_source td)" by (simp add: assms(2))
      with bound assms(3) old recorded_grows [OF assms(2)] True show ?thesis by simp
    next
      case False
      with r sd have "r < length (runs_of s m)" "SVal sd \<in> set (task_source (runs_of s m ! r))"
        by (auto simp: assms(2) nth_append less_Suc_eq split: if_splits)
      with assms(1) have "recorded s sd" "rk (source_run sd) < rk (m, r)" by (auto simp: falls_back_def)
      with old [of sd] recorded_grows [OF assms(2)] False show ?thesis by auto
    qed
  qed
  then show ?thesis by (intro exI [of _ "rk(?new := bound)"])
qed

lemma job_sources_ok:
  assumes "run_of_job job td" "job_ok P job" "SVal sd \<in> set (task_source td)"
  shows "P sd"
  using assms sources_ok_main [of P _ Main]
  by (auto simp: run_of_job_def taskDataOf_def job_ok_def split: option.splits)

lemma recorded_source_of: "recorded t (source_of n k r) \<longleftrightarrow> r < length (runs_of t n)"
  by (cases r) (simp_all add: recorded_def source_run_def source_of_def or_zero_def)

lemma runIndexOf_length: "runIndexOf s n = length (runs_of s n)"
  by (simp add: runIndexOf_def runs_of_def split: option.split)

lemma held_touched: "touched s t \<Longrightarrow> held P t = held P s"
  by (drule touched_fields) (simp add: held_def)

lemma held_recordRun [simp]: "held P (recordRun n td s) = held P s"
  by (simp add: held_def recordRun_def pushRun_def ensureRuns_def)

lemma transition_well_sourced:
  assumes "transition w s t" "named (nodes w)" "well_sourced s"
  shows "well_sourced t"
proof -
  from assms(3) obtain rk where held: "held (recorded s) s" and rk: "falls_back rk s" by (auto simp: well_sourced_def)
  have jobs: "job_ok (recorded s) job" if "job \<in> set (nodeExecutionStack s)" for job
    using held that by (simp add: held_def)
  have rest: "held (recorded s) (s\<lparr>nodeExecutionStack := stack\<rparr>)" if "set stack \<subseteq> set (nodeExecutionStack s)" for stack
    using held that by (auto simp: held_def)
  show ?thesis using assms(1)
  proof cases
    case (skipped job rest')
    then have "runs_of t = runs_of s" "held (recorded s) t" using rest [of rest'] by auto
    then show ?thesis using rk by (rule well_sourced_same)
  next
    case (requeued job rest')
    moreover have "job_ok (recorded s) (paired job)" using jobs requeued(2) by (simp add: job_ok_def)
    ultimately have "held (recorded s) t" using held by (auto simp: held_def)
    with requeued(1) rk show ?thesis by (intro well_sourced_same [of t s]) auto
  next
    case (no_data job rest')
    have "runs_of t = runs_of s" using runs_of_touched [OF no_data(3)] by simp
    moreover have "held (recorded s) t" using held_touched [OF no_data(3)] rest [of rest'] no_data(1) by auto
    ultimately show ?thesis using rk by (rule well_sourced_same)
  next
    case (arrived job rest' t' td)
    have runs: "runs_of t = (runs_of s)(nodeName (ed_node job) := runs_of s (nodeName (ed_node job)) @ [td])"
      using runs_of_touched [OF arrived(4)] arrived(1) by (simp add: runs_of_recordRun)
    have "held (recorded s) t" using held_touched [OF arrived(4)] rest [of rest'] arrived(1,2) by auto
    moreover have "\<exists>rk. falls_back rk t"
      using job_sources_ok [OF arrived(6) jobs] arrived(2) by (intro falls_back_new [OF rk runs]) simp
    ultimately show ?thesis using held_mono recorded_grows [OF runs] by (auto simp: well_sourced_def)
  next
    case (went_on job rest' t' out runIndex td u)
    let ?name = "nodeName (ed_node job)"
    let ?r = "recordRun ?name td t'"
    have runs: "runs_of ?r = (runs_of s)(?name := runs_of s ?name @ [td])"
      using runs_of_touched [OF went_on(3)] by (simp add: runs_of_recordRun)
    have "held (recorded s) ?r" using held_touched [OF went_on(3)] rest [of rest'] went_on(1) by auto
    then have "held (recorded ?r) ?r" using recorded_grows [OF runs] by (rule held_mono)
    moreover have "recorded ?r (source_of ?name k runIndex)" for k
      by (simp add: recorded_source_of runs went_on(8) runIndexOf_length)
    ultimately have "held (recorded ?r) t"
      using held_resumeWaiting [OF went_on(6)] held_addChildren [OF went_on(5)] by blast
    moreover have "runs_of t = runs_of ?r"
      using frame_addChildren [OF went_on(5) assms(2)] frame_resumeWaiting [OF went_on(6) assms(2)]
      by (intro runs_of_frame) simp
    moreover have "\<exists>rk. falls_back rk ?r"
      using job_sources_ok [OF went_on(7) jobs] went_on(1) by (intro falls_back_new [OF rk runs]) simp
    ultimately show ?thesis by (auto intro: well_sourced_same [of t ?r])
  qed
qed

lemma reachable_well_sourced:
  "(transition w)\<^sup>*\<^sup>* s t \<Longrightarrow> named (nodes w) \<Longrightarrow> well_sourced s \<Longrightarrow> well_sourced t"
  by (induction rule: rtranclp_induct) (auto intro: transition_well_sourced)

section \<open>Properties\<close>

lemma well_sourced_start: "runs_of s = (\<lambda>_. []) \<Longrightarrow> held (\<lambda>_. False) s \<Longrightarrow> well_sourced s"
  by (auto simp: well_sourced_def falls_back_def elim: held_mono)

lemma run_at_runs_of:
  "dp_runData dp = Some (runData t) \<Longrightarrow>
   run_at dp n r = (if r < length (runs_of t n) then Some (runs_of t n ! r) else None)"
  by (simp add: run_at_def runs_of_def split: option.split)

lemma falls_back_ordered:
  assumes "dp_runData dp = Some (runData t)" "falls_back rk t"
  shows "ordered_runs dp rk"
  using assms(2) by (auto simp: ordered_runs_def falls_back_def run_at_runs_of [OF assms(1)] split: if_splits)

text \<open>C14: when an execution begins without runs and sources, every source of a recorded run names a
  run that has been recorded, and so do the sources of the jobs on the stack; no run comes from
  itself, directly or through others.\<close>

theorem sources_name_recorded_runs:
  assumes "(transition w)\<^sup>*\<^sup>* s t" "named (nodes w)" "runs_of s = (\<lambda>_. [])" "held (\<lambda>_. False) s"
  shows "held (recorded t) t \<and>
    (\<forall>n r sd. r < length (runs_of t n) \<longrightarrow> SVal sd \<in> set (task_source (runs_of t n ! r)) \<longrightarrow> recorded t sd) \<and>
    acyclic {(source_run sd, (n, r)) |sd n r. r < length (runs_of t n) \<and> SVal sd \<in> set (task_source (runs_of t n ! r))}"
proof -
  have "well_sourced t" using reachable_well_sourced [OF assms(1,2) well_sourced_start [OF assms(3,4)]] .
  then obtain rk where held: "held (recorded t) t" and rk: "falls_back rk t" by (auto simp: well_sourced_def)
  have "acyclic {(source_run sd, (n, r)) |sd n r. r < length (runs_of t n) \<and> SVal sd \<in> set (task_source (runs_of t n ! r))}"
    by (rule acyclic_subset [OF wf_acyclic [OF wf_measure [of rk]]]) (use rk in \<open>auto simp: falls_back_def\<close>)
  with held rk show ?thesis by (auto simp: falls_back_def)
qed

text \<open>C15: on the runs that an execution has recorded, the search for the origin of an item ends, unless a
  node has overwritten a source.\<close>

theorem tracing_ends:
  assumes "(transition w)\<^sup>*\<^sup>* s t" "named (nodes w)" "runs_of s = (\<lambda>_. [])" "held (\<lambda>_. False) s"
    and "dp_runData dp = Some (runData t)" "no_overwrites dp" "pi_sourceOverwrite p = None"
  shows "\<exists>fuel. getPairedItem fuel dp dest source p \<noteq> Inl None"
proof -
  have "well_sourced t" using reachable_well_sourced [OF assms(1,2) well_sourced_start [OF assms(3,4)]] .
  then obtain rk where "falls_back rk t" by (auto simp: well_sourced_def)
  then have "ordered_runs dp rk" by (rule falls_back_ordered [OF assms(5)])
  then have "trace_back (Suc (height rk source)) dp dest source p \<noteq> Inl None"
    by (rule trace_back_bound [OF _ assms(6)]) simp
  then have "getPairedItem (Suc (height rk source)) dp dest source p \<noteq> Inl None"
    by (simp add: getPairedItem_def overwritten_def assms(7) del: trace_back.simps)
  then show ?thesis by (rule exI)
qed

subsection \<open>Examples\<close>

text \<open>Two iterations from the trigger of the diamond: \<open>T\<close> and \<open>M\<close> have run.\<close>

definition passed_item :: INodeExecutionData where
  "passed_item = empty_item\<lparr>pairedItem := Some (PairedOne (as_pairedItem 0))\<rparr>"

definition passed_run :: "ISourceData slot list \<Rightarrow> ITaskData" where
  "passed_run sources =
     \<lparr>executionStatus = Success, task_data = Some [(Main, [SVal [passed_item]])], task_error = None,
      task_source = sources, task_metadata = JUndef\<rparr>"

lemma two_iterations:
  "\<exists>t. (transition diamond_v1)\<^sup>*\<^sup>* (ls_data (diamond_state ''T'' 1)) t \<and>
     runData t = [(''T'', [passed_run []]), (''M'', [passed_run [SVal (source_of ''T'' 0 0)]])]"
proof -
  have "case step (sample_env passing) diamond_v1 (diamond_state ''T'' 1) of
      Again ls \<Rightarrow> (case step (sample_env passing) diamond_v1 ls of
        Again ls \<Rightarrow> runData (ls_data ls) = [(''T'', [passed_run []]), (''M'', [passed_run [SVal (source_of ''T'' 0 0)]])]
      | _ \<Rightarrow> False) | _ \<Rightarrow> False"
    by code_simp
  then obtain ls ls' where "step (sample_env passing) diamond_v1 (diamond_state ''T'' 1) = Again ls"
    "step (sample_env passing) diamond_v1 ls = Again ls'"
    "runData (ls_data ls') = [(''T'', [passed_run []]), (''M'', [passed_run [SVal (source_of ''T'' 0 0)]])]"
    by (auto split: StepResult.splits)
  with step_transition show ?thesis by (meson converse_rtranclp_into_rtranclp r_into_rtranclp)
qed

lemma diamond_begins:
  "named (nodes diamond_v1)" "runs_of (ls_data (diamond_state ''T'' 1)) = (\<lambda>_. [])"
  "held (\<lambda>_. False) (ls_data (diamond_state ''T'' 1))"
  by (auto simp: named_def wf_keys_def diamond_v1_def diamond_def plain_node_def runs_of_def diamond_state_def
      sample_state_def fresh_run_def held_def job_ok_def diamond_job_def table_ok_def split: option.split)

theorem sources_name_recorded_runs_witness:
  "\<exists>t. (transition diamond_v1)\<^sup>*\<^sup>* (ls_data (diamond_state ''T'' 1)) t \<and> recorded t (source_of ''T'' 0 0)"
proof -
  from two_iterations obtain t where t: "(transition diamond_v1)\<^sup>*\<^sup>* (ls_data (diamond_state ''T'' 1)) t"
    "runData t = [(''T'', [passed_run []]), (''M'', [passed_run [SVal (source_of ''T'' 0 0)]])]" by blast
  then have "0 < length (runs_of t ''M'')" "SVal (source_of ''T'' 0 0) \<in> set (task_source (runs_of t ''M'' ! 0))"
    by (simp_all add: runs_of_def passed_run_def)
  with sources_name_recorded_runs [OF t(1) diamond_begins] t(1) show ?thesis by blast
qed

theorem tracing_ends_witness:
  "\<exists>dp fuel. dp_runData dp \<noteq> None \<and>
     getPairedItem fuel dp ''T'' (SVal (source_of ''M'' 0 0)) (as_pairedItem 0) \<noteq> Inl None"
proof -
  from two_iterations obtain t where t: "(transition diamond_v1)\<^sup>*\<^sup>* (ls_data (diamond_state ''T'' 1)) t"
    "runData t = [(''T'', [passed_run []]), (''M'', [passed_run [SVal (source_of ''T'' 0 0)]])]" by blast
  define dp where "dp = chain_proxy\<lparr>dp_runData := Some (runData t)\<rparr>"
  have runs: "run_at dp n r = Some td \<Longrightarrow> td = passed_run [] \<or> td = passed_run [SVal (source_of ''T'' 0 0)]" for n r td
    by (auto simp: run_at_def dp_def t(2) split: if_splits)
  have pins: "pinned_items dp n = None" for n
    by (simp add: dp_def pinned_items_def getPinDataIfManualExecution_def chain_proxy_def)
  have "item = passed_item" if "item_of dp s p = Inr item" for s p item
    using that
    by (cases "run_at dp (previousNode s) (or_zero (previousNodeRun s))")
      (auto simp: item_of_def Let_def main_data_def pins passed_run_def fail_with_def Suc_le_eq dest!: runs
        split: if_splits)
  then have "no_overwrites dp"
    by (fastforce simp: no_overwrites_def passed_item_def links_def as_pairedItem_def)
  with tracing_ends [OF t(1) diamond_begins, of dp "as_pairedItem 0" "''T''" "SVal (source_of ''M'' 0 0)"]
  show ?thesis by (intro exI [of _ dp]) (auto simp: dp_def as_pairedItem_def)
qed

end
