(* ===== verification/TypeValidation.thy ===== *)
theory TypeValidation
  imports NodeProperties
begin

text \<open>
  The check of a value against a type, which also converts it (\<open>packages/workflow/src/TypeValidation.ts\<close>).
  Values are plain data; dates occur only as results, as their milliseconds. The parsers of JSON and of
  objects written as in JavaScript, the printer of JSON, and the formats of dates that luxon and
  \<open>Date.parse\<close> know are arguments.
\<close>

section \<open>Values of fields\<close>

datatype field_value = Field jsval | DateTimeValue int

record TypeLib =
  tl_stringify :: "jsval \<Rightarrow> string"
  tl_parse :: "string \<Rightarrow> jsval option"
  tl_parseJSObject :: "string \<Rightarrow> jsval option"
  tl_dateTime :: "string \<Rightarrow> int option"

text \<open>\<open>{ valid: true }\<close> without a value is \<open>Valid (Field JUndef)\<close>.\<close>

datatype ValidationResult = Valid field_value | Invalid string

record ValidateFieldTypeOptions =
  valueOptions :: "jsval list"
  strict :: bool
  parseStrings :: bool

section \<open>Parsing\<close>

definition tryToParseNumber :: "jsval \<Rightarrow> number res" where
  "tryToParseNumber v =
     (case number_of v of
        None \<Rightarrow> Inl (ApplicationError ''Failed to parse value to number'')
      | Some i \<Rightarrow> Inr i)"

definition tryToParseString :: "TypeLib \<Rightarrow> jsval \<Rightarrow> string" where
  "tryToParseString lib v =
     (if is_object v then tl_stringify lib v else if v = JUndef then [] else js_string v)"

definition alphanumeric_pattern :: pattern where
  "alphanumeric_pattern =
     Seq (One (\<lambda>c. is_letter c \<or> c = CHR ''_'')) (Many (One is_word_char))"

definition tryToParseAlphanumericString :: "TypeLib \<Rightarrow> jsval \<Rightarrow> string res" where
  "tryToParseAlphanumericString lib v =
     (let parsed = tryToParseString lib v in
      if \<not> matches alphanumeric_pattern parsed then
        Inl (ApplicationError ''Value is not a valid alphanumeric string'')
      else Inr parsed)"

definition bool_of_text :: "string \<Rightarrow> bool option" where
  "bool_of_text s =
     (if js_lower s = ''true'' then Some True else if js_lower s = ''false'' then Some False else None)"

definition tryToParseBoolean :: "jsval \<Rightarrow> bool res" where
  "tryToParseBoolean v =
     (let text = (case v of JStr s \<Rightarrow> bool_of_text s | _ \<Rightarrow> None);
          blank = (case v of JStr s \<Rightarrow> trim s = [] | _ \<Rightarrow> False);
          num = number_of v
      in case v of
           JBool b \<Rightarrow> Inr b
         | _ \<Rightarrow> (case text of
             Some b \<Rightarrow> Inr b
           | None \<Rightarrow>
               if \<not> blank \<and> num = Some (Decimal 0 0) then Inr False
               else if \<not> blank \<and> num = Some (Decimal 1 0) then Inr True
               else Inl (ApplicationError ''Failed to parse value as boolean'')))"

definition tryToParseDateTime :: "TypeLib \<Rightarrow> jsval \<Rightarrow> int res" where
  "tryToParseDateTime lib v =
     (case tl_dateTime lib (trim (js_string v)) of
        Some ms \<Rightarrow> Inr ms
      | None \<Rightarrow> Inl (ApplicationError ''Value is not a valid date''))"

text \<open>
  \<open>/^\d{2}:\d{2}(:\d{2})?((\-|\+)\d{4})?((\-|\+)\d{1,2}(:\d{2})?)?$/s\<close>
\<close>

definition time_pattern :: pattern where
  "time_pattern =
     (let d = One is_digit; sign = One (\<lambda>c. c \<in> {CHR ''-'', CHR ''+''}); colon = exact '':'' in
      in_order [d, d, colon, d, d,
        perhaps (in_order [colon, d, d]),
        perhaps (in_order [sign, d, d, d, d]),
        perhaps (in_order [sign, d, perhaps d, perhaps (in_order [colon, d, d])])])"

definition tryToParseTime :: "jsval \<Rightarrow> string res" where
  "tryToParseTime v =
     (if \<not> matches time_pattern (js_string v) then Inl (ApplicationError ''Value is not a valid time'')
      else Inr (js_string v))"

text \<open>\<open>s.replace(/'/g, '"')\<close>\<close>

definition double_quoted :: "string \<Rightarrow> string" where
  "double_quoted s = map (\<lambda>c. if c = CHR 0x27 then CHR 0x22 else c) s"

definition tryToParseArray :: "TypeLib \<Rightarrow> jsval \<Rightarrow> jsval list res" where
  "tryToParseArray lib v =
     (case v of
        JArr xs \<Rightarrow> Inr xs
      | _ \<Rightarrow>
          (let parsed = (case tl_parse lib (js_string v) of
                 Some w \<Rightarrow> Some w | None \<Rightarrow> tl_parse lib (double_quoted (js_string v)))
           in case parsed of Some (JArr xs) \<Rightarrow> Inr xs | _ \<Rightarrow> Inl (ApplicationError ''Value is not a valid array'')))"

text \<open>\<open>jsonParse(s, { acceptJSObject: true })\<close>\<close>

definition jsonParse_object :: "TypeLib \<Rightarrow> string \<Rightarrow> jsval option" where
  "jsonParse_object lib s = (case tl_parse lib s of Some w \<Rightarrow> Some w | None \<Rightarrow> tl_parseJSObject lib s)"

definition tryToParseObject :: "TypeLib \<Rightarrow> jsval \<Rightarrow> jsval res" where
  "tryToParseObject lib v =
     (case v of
        JObj ob \<Rightarrow> Inr v
      | _ \<Rightarrow> (case jsonParse_object lib (js_string v) of
          Some (JObj ob) \<Rightarrow> Inr (JObj ob)
        | Some JNull \<Rightarrow> Inr JNull
        | _ \<Rightarrow> Inl (ApplicationError ''Value is not a valid object'')))"

definition in_quotes :: "string \<Rightarrow> string" where
  "in_quotes s = CHR 0x27 # s @ [CHR 0x27]"

definition getValueDescription :: "jsval \<Rightarrow> string" where
  "getValueDescription v =
     (case v of
        JNull \<Rightarrow> in_quotes ''null''
      | JArr _ \<Rightarrow> ''array''
      | JObj _ \<Rightarrow> ''object''
      | _ \<Rightarrow> in_quotes (js_string v))"

text \<open>\<open>/^(https?|ftp|file):\/\/\S+|www\.\S+/\<close>: the first alternative only is at the beginning.\<close>

definition url_pattern :: pattern where
  "url_pattern =
     (let nonspace = One (\<lambda>c. \<not> is_space c) in
      Either
        (in_order [Either (in_order [exact ''http'', perhaps (exact ''s'')]) (Either (exact ''ftp'') (exact ''file'')),
           exact ''://'', many1 nonspace, anything])
        (in_order [anything, exact ''www.'', many1 nonspace, anything]))"

definition tryToParseUrl :: "jsval \<Rightarrow> string res" where
  "tryToParseUrl v =
     (let url = (case v of JStr s \<Rightarrow> if \<not> contains s ''://'' then ''http://'' @ s else s | _ \<Rightarrow> js_string v) in
      if \<not> matches url_pattern url then
        Inl (ApplicationError (''The value '' @ CHR 0x22 # url @ CHR 0x22 # '' is not a valid url.''))
      else Inr url)"

text \<open>\<open>/^[A-Za-z0-9-_]+\.[A-Za-z0-9-_]+\.[A-Za-z0-9-_.+/=]*$/\<close>\<close>

definition jwt_pattern :: pattern where
  "jwt_pattern =
     (let part = One (\<lambda>c. is_word_char c \<or> c = CHR ''-'');
          last = One (\<lambda>c. is_word_char c \<or> c \<in> {CHR ''-'', CHR ''.'', CHR ''+'', CHR ''/'', CHR ''=''})
      in in_order [many1 part, exact ''.'', many1 part, exact ''.'', Many last])"

definition tryToParseJwt :: "jsval \<Rightarrow> string res" where
  "tryToParseJwt v =
     (let failure = ApplicationError (''The value '' @ CHR 0x22 # js_string v @ CHR 0x22 # '' is not a valid JWT token.'') in
      if \<not> js_truthy v then Inl failure
      else if \<not> matches jwt_pattern (js_string v) then Inl failure
      else Inr (js_string v))"

section \<open>validateFieldType\<close>

text \<open>\<open>try { return { valid: true, newValue: ... } } catch { return { valid: false, errorMessage } }\<close>\<close>

definition result_of :: "('a \<Rightarrow> jsval) \<Rightarrow> string \<Rightarrow> 'a res \<Rightarrow> ValidationResult" where
  "result_of f message m = (case m of Inr x \<Rightarrow> Valid (Field (f x)) | Inl _ \<Rightarrow> Invalid message)"

definition default_message :: "string \<Rightarrow> jsval \<Rightarrow> string \<Rightarrow> string" where
  "default_message fieldName v type =
     in_quotes fieldName @ '' expects a '' @ type @ '' but we got '' @ getValueDescription v"

definition date_message :: "string \<Rightarrow> string" where
  "date_message message =
     message @ '' <br/><br/> Consider using <a href='' @
     CHR 0x22 # ''https://moment.github.io/luxon/api-docs/index.html#datetimefromformat'' @ CHR 0x22 #
     '' target='' @ CHR 0x22 # ''_blank'' @ CHR 0x22 #
     ''><code>DateTime.fromFormat</code></a> to work with custom date formats.''"

definition validate_options :: "string \<Rightarrow> jsval \<Rightarrow> jsval list \<Rightarrow> ValidationResult" where
  "validate_options fieldName v options =
     (if \<not> list_ex (\<lambda>w. strict_eq w v) options then
        Invalid (in_quotes fieldName @ '' expects one of the following values: ['' @
          join '', '' (map (\<lambda>w. if w = JUndef \<or> w = JNull then [] else js_string w) options) @
          ''] but we got '' @ getValueDescription v)
      else Valid (Field v))"

definition validateFieldType ::
  "TypeLib \<Rightarrow> string \<Rightarrow> jsval \<Rightarrow> string \<Rightarrow> ValidateFieldTypeOptions \<Rightarrow> ValidationResult" where
  "validateFieldType lib fieldName v type options =
     (let message = default_message fieldName v type; kind = js_lower type;
          is_text = (case v of JStr _ \<Rightarrow> True | _ \<Rightarrow> False);
          is_num = (case v of JNum _ \<Rightarrow> True | _ \<Rightarrow> False);
          is_bool = (case v of JBool _ \<Rightarrow> True | _ \<Rightarrow> False);
          is_array = (case v of JArr _ \<Rightarrow> True | _ \<Rightarrow> False)
      in if v = JNull \<or> v = JUndef then Valid (Field JUndef)
      else if kind = ''string'' then
        (if \<not> parseStrings options then Valid (Field v)
         else if strict options \<and> \<not> is_text then Invalid message
         else Valid (Field (JStr (tryToParseString lib v))))
      else if kind = ''string-alphanumeric'' then
        result_of JStr ''Value is not a valid alphanumeric string, only letters, numbers and underscore allowed''
          (tryToParseAlphanumericString lib v)
      else if kind = ''number'' then
        (if strict options \<and> \<not> is_num then Invalid message
         else result_of JNum message (tryToParseNumber v))
      else if kind = ''boolean'' then
        (if strict options \<and> \<not> is_bool then Invalid message
         else result_of JBool message (tryToParseBoolean v))
      else if kind = ''datetime'' then
        (case tryToParseDateTime lib v of
           Inr ms \<Rightarrow> Valid (DateTimeValue ms)
         | Inl _ \<Rightarrow> Invalid (date_message message))
      else if kind = ''time'' then
        result_of JStr (in_quotes fieldName @ '' expects time (hh:mm:(:ss)) but we got '' @ getValueDescription v @ ''.'')
          (tryToParseTime v)
      else if kind = ''object'' then
        (if strict options \<and> \<not> is_object v then Invalid message
         else result_of id message (tryToParseObject lib v))
      else if kind = ''array'' then
        (if strict options \<and> \<not> is_array then Invalid message
         else result_of JArr message (tryToParseArray lib v))
      else if kind = ''options'' then validate_options fieldName v (valueOptions options)
      else if kind = ''url'' then result_of JStr message (tryToParseUrl v)
      else if kind = ''jwt'' then result_of JStr ''Value is not a valid JWT token'' (tryToParseJwt v)
      else Valid (Field v))"


section \<open>What is accepted\<close>

definition has_type :: "string \<Rightarrow> ValidateFieldTypeOptions \<Rightarrow> jsval \<Rightarrow> bool" where
  "has_type kind options v =
     (let text = (\<lambda>p. case v of JStr s \<Rightarrow> matches p s | _ \<Rightarrow> False) in
      if kind = ''string'' then (case v of JStr _ \<Rightarrow> True | _ \<Rightarrow> False)
      else if kind = ''string-alphanumeric'' then text alphanumeric_pattern
      else if kind = ''number'' then (case v of JNum _ \<Rightarrow> True | _ \<Rightarrow> False)
      else if kind = ''boolean'' then (case v of JBool _ \<Rightarrow> True | _ \<Rightarrow> False)
      else if kind = ''datetime'' then False
      else if kind = ''time'' then text time_pattern
      else if kind = ''object'' then (case v of JObj _ \<Rightarrow> True | JNull \<Rightarrow> True | _ \<Rightarrow> False)
      else if kind = ''array'' then (case v of JArr _ \<Rightarrow> True | _ \<Rightarrow> False)
      else if kind = ''options'' then list_ex (\<lambda>w. strict_eq w v) (valueOptions options)
      else if kind = ''url'' then text url_pattern
      else kind = ''jwt'' \<and> text jwt_pattern)"

lemma result_of_Valid: "result_of f message m = Valid w \<longleftrightarrow> (\<exists>x. m = Inr x \<and> w = Field (f x))"
  by (auto simp: result_of_def split: sum.split)

lemma contains_append: "contains (s @ t @ u) t"
  by (auto simp: contains_def list_ex_iff intro!: bexI [of _ "length s"])

text \<open>What a parser returns is of its type, and parsing it again returns it.\<close>

lemma parse_alphanumeric_again:
  "tryToParseAlphanumericString lib v = Inr s \<Longrightarrow>
     matches alphanumeric_pattern s \<and> tryToParseAlphanumericString lib (JStr s) = Inr s"
  by (auto simp: tryToParseAlphanumericString_def tryToParseString_def is_object_def Let_def split: if_splits)

lemma parse_time_again:
  "tryToParseTime v = Inr s \<Longrightarrow> matches time_pattern s \<and> tryToParseTime (JStr s) = Inr s"
  by (auto simp: tryToParseTime_def split: if_splits)

lemma parse_url_type: "tryToParseUrl v = Inr s \<Longrightarrow> matches url_pattern s"
  by (auto simp: tryToParseUrl_def Let_def split: if_splits)

lemma parse_url_again: "tryToParseUrl (JStr s) = Inr u \<Longrightarrow> tryToParseUrl (JStr u) = Inr u"
  using contains_append [of "''http''" "''://''" s] by (auto simp: tryToParseUrl_def Let_def split: if_splits)

lemma parse_jwt_again:
  assumes "tryToParseJwt v = Inr s" shows "matches jwt_pattern s \<and> tryToParseJwt (JStr s) = Inr s"
proof -
  have "\<not> matches jwt_pattern []" by code_simp
  with assms show ?thesis by (auto simp: tryToParseJwt_def js_truthy_def Let_def split: if_splits)
qed

lemma parse_object_type:
  "tryToParseObject lib v = Inr u \<Longrightarrow> u = JNull \<or> (\<exists>ob. u = JObj ob)"
  by (auto simp: tryToParseObject_def split: jsval.splits option.splits)

lemma parsed_values_again [simp]:
  "tryToParseNumber (JNum i) = Inr i" "tryToParseBoolean (JBool b) = Inr b" "tryToParseArray lib (JArr xs) = Inr xs"
  "tryToParseObject lib (JObj ob) = Inr (JObj ob)" "tryToParseString lib (JStr s) = s"
  by (simp_all add: tryToParseNumber_def number_of_def tryToParseBoolean_def tryToParseArray_def tryToParseObject_def
      tryToParseString_def is_object_def)

text \<open>
  The kinds of values that the check knows. Texts are checked with \<open>parseStrings\<close> only; without it, and
  for any other kind, every value passes as it is.
\<close>

definition field_kinds :: "string list" where
  "field_kinds = [''string'', ''string-alphanumeric'', ''number'', ''boolean'', ''datetime'', ''time'', ''object'',
     ''array'', ''options'', ''url'', ''jwt'']"

definition is_checked :: "string \<Rightarrow> ValidateFieldTypeOptions \<Rightarrow> bool" where
  "is_checked kind options = (kind \<in> set field_kinds \<and> (kind = ''string'' \<longrightarrow> parseStrings options))"

lemmas validate_defs = validateFieldType_def has_type_def Let_def result_of_Valid validate_options_def is_object_def

lemma unchecked_value:
  assumes "validateFieldType lib name v type options = Valid w" "v \<noteq> JNull" "v \<noteq> JUndef"
    "\<not> is_checked (js_lower type) options"
  shows "w = Field v"
  using assms by (auto simp: validateFieldType_def Let_def is_checked_def field_kinds_def split: if_splits)

lemma accepted_value:
  assumes "validateFieldType lib name v type options = Valid (Field u)" "v \<noteq> JNull" "v \<noteq> JUndef"
    and "is_checked (js_lower type) options"
  shows "has_type (js_lower type) options u \<and>
    (u \<noteq> JNull \<and> (js_lower type = ''url'' \<longrightarrow> (\<exists>s. v = JStr s)) \<longrightarrow>
      validateFieldType lib name u type options = Valid (Field u))"
proof -
  from assms(4) consider "js_lower type = ''string''" "parseStrings options" | "js_lower type = ''string-alphanumeric''"
    | "js_lower type = ''number''"
    | "js_lower type = ''boolean''" | "js_lower type = ''datetime''" | "js_lower type = ''time''"
    | "js_lower type = ''object''" | "js_lower type = ''array''" | "js_lower type = ''options''"
    | "js_lower type = ''url''" | "js_lower type = ''jwt''"
    by (auto simp: field_kinds_def is_checked_def)
  then show ?thesis
  proof cases
    case 1
    with assms show ?thesis by (auto simp: validate_defs split: if_splits)
  next
    case 2
    with assms show ?thesis by (auto simp: validate_defs dest: parse_alphanumeric_again)
  next
    case 7
    with assms show ?thesis by (auto simp: validate_defs dest: parse_object_type split: if_splits)
  next
    case 10
    with assms show ?thesis by (auto simp: validate_defs dest: parse_url_type parse_url_again)
  qed (use assms in \<open>auto simp: validate_defs dest: parse_time_again parse_jwt_again split: if_splits sum.splits\<close>)
qed

lemma accepted_date:
  "validateFieldType lib name v type options = Valid (DateTimeValue ms) \<Longrightarrow> js_lower type = ''datetime''"
  by (simp add: validate_defs result_of_def split: if_splits sum.splits)

text \<open>C38: a value other than \<open>null\<close> and \<open>undefined\<close> that is accepted for a kind that is checked comes back
  as one of that kind (for an object this may be \<open>null\<close>, which the text \<open>null\<close> stands for), as a date only for a
  date; for the kind \<open>string\<close> without \<open>parseStrings\<close>, and for an unknown kind, it comes back unchanged,
  whatever it is. In each case the value that comes back, unless it is \<open>null\<close>, is accepted again as it is;
  for a web address this is so when the value was a text, as an array is joined without being completed.\<close>

theorem accepted_value_has_type:
  assumes "validateFieldType lib name v type options = Valid w" "v \<noteq> JNull" "v \<noteq> JUndef"
  shows "case w of
      Field u \<Rightarrow>
        (if is_checked (js_lower type) options then has_type (js_lower type) options u else u = v) \<and>
        (u \<noteq> JNull \<and> (js_lower type = ''url'' \<longrightarrow> (\<exists>s. v = JStr s)) \<longrightarrow>
          validateFieldType lib name u type options = Valid (Field u))
    | DateTimeValue _ \<Rightarrow> js_lower type = ''datetime''"
proof (cases "is_checked (js_lower type) options")
  case True
  show ?thesis
  proof (cases w)
    case (Field u)
    with accepted_value [OF assms(1) [unfolded Field] assms(2,3) True] True show ?thesis by simp
  next
    case (DateTimeValue ms)
    with accepted_date [OF assms(1) [unfolded DateTimeValue]] show ?thesis by simp
  qed
next
  case False
  with unchecked_value [OF assms(1-3) False] assms(1) show ?thesis by simp
qed

text \<open>A library for examples, which knows no text.\<close>

definition no_types :: TypeLib where
  "no_types = \<lparr>tl_stringify = (\<lambda>_. ''{}''), tl_parse = (\<lambda>_. None), tl_parseJSObject = (\<lambda>_. None),
     tl_dateTime = (\<lambda>_. None)\<rparr>"

definition plain_options :: ValidateFieldTypeOptions where
  "plain_options = \<lparr>valueOptions = [], strict = False, parseStrings = False\<rparr>"

theorem accepted_value_has_type_witness:
  "validateFieldType no_types ''n'' (JStr '' 1.10 '') ''number'' plain_options = Valid (Field (JNum (Decimal 11 1))) \<and>
   has_type ''number'' plain_options (JNum (Decimal 11 1)) \<and>
   validateFieldType no_types ''n'' (JNum (Decimal 11 1)) ''number'' plain_options = Valid (Field (JNum (Decimal 11 1)))"
proof -
  have "validateFieldType no_types ''n'' (JStr '' 1.10 '') ''number'' plain_options = Valid (Field (JNum (Decimal 11 1)))"
    "js_lower ''number'' = ''number''" "is_checked ''number'' plain_options"
    by code_simp+
  then show ?thesis
    using accepted_value_has_type [of no_types "''n''" "JStr '' 1.10 ''" "''number''" plain_options] by simp
qed

text \<open>A number is accepted as a text as it is, and a web address is completed.\<close>

lemma number_passes_as_text:
  "validateFieldType no_types ''s'' (JInt 42) ''string'' plain_options = Valid (Field (JInt 42))"
  by code_simp

lemma address_is_completed:
  "validateFieldType no_types ''u'' (JStr ''n8n.io'') ''url'' plain_options = Valid (Field (JStr ''http://n8n.io''))"
  by code_simp

text \<open>Only the first alternative of the pattern of addresses is anchored: another scheme passes.\<close>

lemma other_schemes_pass:
  "tryToParseUrl (JStr ''javascript://www.x'') = Inr ''javascript://www.x''"
  by code_simp

end
