(* ===== verification/FilterParameter.thy ===== *)
theory FilterParameter
  imports TypeValidation
begin

text \<open>
  Filters (\<open>packages/workflow/src/NodeParameters/FilterParameter.ts\<close>): the conditions of the If, Filter and
  Switch nodes. A condition converts its two values, then the operator answers; the cases of the operators
  have no \<open>break\<close> after the texts, so that an operation a type does not know is looked for among those of
  the types below it. The engine of regular expressions and the text of a date are arguments; \<open>NaN\<close> is not a value here, and
  warnings of the logger are left out.
\<close>

section \<open>Data\<close>

record FilterOperatorValue =
  op_type :: string
  op_operation :: string
  op_rightType :: "string option"
  op_singleValue :: bool

record FilterConditionValue =
  leftValue :: jsval
  operator :: FilterOperatorValue
  rightValue :: jsval

record FilterOptionsValue =
  caseSensitive :: bool
  typeValidation :: string
  filterVersion :: "number option"

record FilterValue =
  filter_options :: FilterOptionsValue
  conditions :: "FilterConditionValue list"
  combinator :: string

record FilterConditionMetadata =
  fm_index :: "nat option"
  fm_unresolvedExpressions :: bool
  fm_itemIndex :: "nat option"
  fm_inline :: bool

record FilterError =
  fe_message :: string
  fe_description :: string

record FilterLib =
  fl_types :: TypeLib
  fl_regex :: "string \<Rightarrow> string \<Rightarrow> string \<Rightarrow> bool res"
  fl_showDate :: "int \<Rightarrow> string"

section \<open>Converting the values\<close>

definition parseSingleFilterValue ::
  "TypeLib \<Rightarrow> jsval \<Rightarrow> string \<Rightarrow> bool \<Rightarrow> number \<Rightarrow> ValidationResult" where
  "parseSingleFilterValue lib v type strictly version =
     (if type = ''any'' \<or> v = JNull \<or> v = JUndef then Valid (Field v)
      else if type = ''boolean'' \<and> \<not> strictly then
        (case (if \<not> num_less version (Decimal 2 0) then validateFieldType lib ''filter'' v type plain_options else Invalid []) of
           Valid w \<Rightarrow> Valid w
         | Invalid _ \<Rightarrow> Valid (Field (JBool (js_truthy v))))
      else validateFieldType lib ''filter'' v type \<lparr>valueOptions = [], strict = strictly, parseStrings = True\<rparr>)"

definition typeof :: "jsval \<Rightarrow> string" where
  "typeof v =
     (case v of JUndef \<Rightarrow> ''undefined'' | JBool _ \<Rightarrow> ''boolean'' | JNum _ \<Rightarrow> ''number'' | JStr _ \<Rightarrow> ''string'' | _ \<Rightarrow> ''object'')"

definition withIndefiniteArticle :: "string \<Rightarrow> string" where
  "withIndefiniteArticle noun = (if contains ''aeiou'' (take 1 noun) then ''an'' else ''a'') @ '' '' @ noun"

definition condition_suffix :: "FilterConditionMetadata \<Rightarrow> string" where
  "condition_suffix metadata =
     (let number = (\<lambda>i. show_nat (case i of None \<Rightarrow> 0 | Some n \<Rightarrow> n)) in
      if \<not> fm_inline metadata then
        ''[condition '' @ number (fm_index metadata) @ '', item '' @ number (fm_itemIndex metadata) @ '']''
      else ''[item '' @ number (fm_itemIndex metadata) @ '']'')"

definition composeInvalidTypeMessage :: "bool \<Rightarrow> string \<Rightarrow> string \<Rightarrow> string \<Rightarrow> string \<Rightarrow> string" where
  "composeInvalidTypeMessage strictly suffix type fromType text =
     (if strictly then
        ''Wrong type: '' @ in_quotes text @ '' is '' @ withIndefiniteArticle (js_lower fromType) @
        '' but was expecting '' @ withIndefiniteArticle type @ '' '' @ suffix
      else
        ''Conversion error: the '' @ js_lower fromType @ '' '' @ in_quotes text @ '' can'' @ CHR 0x27 #
        ''t be converted to '' @ withIndefiniteArticle type @ '' '' @ suffix)"

definition getTypeDescription :: "bool \<Rightarrow> string" where
  "getTypeDescription isStrict =
     (if isStrict then
        ''Try changing the type of comparison. Alternatively you can enable '' @ in_quotes ''Convert types where required'' @ ''.''
      else ''Try changing the type of the comparison.'')"

definition convertionFunction :: "string \<Rightarrow> string" where
  "convertionFunction type =
     (if type = ''string'' then ''.toString()''
      else if type = ''number'' then ''.toNumber()''
      else if type = ''boolean'' then ''.toBoolean()''
      else [])"

definition composeInvalidTypeDescription :: "bool \<Rightarrow> string \<Rightarrow> string \<Rightarrow> string" where
  "composeInvalidTypeDescription strictly type valuePosition =
     (if strictly \<and> convertionFunction type \<noteq> [] then
        join [CHR 0x0A]
          [[], ''<p>Try either:</p>'', ''<ol>'',
           ''  <li>Enabling '' @ in_quotes ''Convert types where required'' @ ''</li>'',
           ''  <li>Converting the '' @ valuePosition @ '' field to '' @ withIndefiniteArticle type @
             '' by adding <code>'' @ convertionFunction type @ ''</code></li>'',
           ''</ol>'', [CHR 0x09, CHR 0x09, CHR 0x09]]
      else getTypeDescription strictly)"

definition rightType :: "FilterOperatorValue \<Rightarrow> string" where
  "rightType oper = (case op_rightType oper of None \<Rightarrow> op_type oper | Some t \<Rightarrow> t)"

definition new_value :: "ValidationResult \<Rightarrow> field_value" where
  "new_value r = (case r of Valid w \<Rightarrow> w | Invalid _ \<Rightarrow> Field JUndef)"

definition is_valid :: "ValidationResult \<Rightarrow> bool" where
  "is_valid r = (case r of Valid _ \<Rightarrow> True | Invalid _ \<Rightarrow> False)"

definition parseFilterConditionValues ::
  "TypeLib \<Rightarrow> FilterConditionValue \<Rightarrow> FilterOptionsValue \<Rightarrow> FilterConditionMetadata \<Rightarrow>
   FilterError + field_value \<times> field_value" where
  "parseFilterConditionValues lib c options metadata =
     (let strictly = (typeValidation options = ''strict'');
          version = (case filterVersion options of None \<Rightarrow> Decimal 1 0 | Some v \<Rightarrow> v);
          type = op_type (operator c);
          left = leftValue c;
          right = rightValue c;
          parsedLeft = parseSingleFilterValue lib left type strictly version;
          parsedRight = parseSingleFilterValue lib right (rightType (operator c)) strictly version;
          unresolved = (\<lambda>v. fm_unresolvedExpressions metadata \<and> is_expression v);
          leftValid = (is_valid parsedLeft \<or> unresolved left);
          rightValid = (is_valid parsedRight \<or> op_singleValue (operator c) \<or> unresolved right);
          message = composeInvalidTypeMessage strictly (condition_suffix metadata)
      in if \<not> leftValid \<and> \<not> rightValid \<and> typeof left = typeof right then
           Inl \<lparr>fe_message = ''Comparison type expects '' @ withIndefiniteArticle type @ '' but both fields are '' @
               withIndefiniteArticle (typeof left),
             fe_description = getTypeDescription strictly\<rparr>
         else if \<not> leftValid then
           Inl \<lparr>fe_message = message type (typeof left) (js_string left),
             fe_description = composeInvalidTypeDescription strictly type ''first''\<rparr>
         else if \<not> rightValid then
           Inl \<lparr>fe_message = message (rightType (operator c)) (typeof right) (js_string right),
             fe_description = composeInvalidTypeDescription strictly (rightType (operator c)) ''second''\<rparr>
         else Inr (new_value parsedLeft, new_value parsedRight))"

section \<open>Regular expressions\<close>

text \<open>
  \<open>/^\/(.*?)\/([gimusy]*)$/\<close>: the shortest text between two slashes after which only flags follow.
\<close>

definition line_end :: "char \<Rightarrow> bool" where
  "line_end c = (c = CHR 0x0A \<or> c = CHR 0x0D)"

definition split_regex :: "string \<Rightarrow> (string \<times> string) option" where
  "split_regex s =
     (case s of
        [] \<Rightarrow> None
      | c # rest \<Rightarrow>
          if c \<noteq> CHR ''/'' then None
          else map_option (\<lambda>i. (take i rest, drop (Suc i) rest))
            (find (\<lambda>i. rest ! i = CHR ''/'' \<and> \<not> list_ex line_end (take i rest) \<and>
                list_all (\<lambda>d. d \<in> set ''gimusy'') (drop (Suc i) rest)) [0..<length rest]))"

definition fv_truthy :: "field_value \<Rightarrow> bool" where
  "fv_truthy v = (case v of Field w \<Rightarrow> js_truthy w | DateTimeValue _ \<Rightarrow> True)"

text \<open>
  \<open>parseRegexPattern(pattern).test(text)\<close>: what is falsy stands for the empty pattern; of the other values
  only texts have a method \<open>match\<close>.
\<close>

definition test_regex :: "FilterLib \<Rightarrow> field_value \<Rightarrow> string \<Rightarrow> bool res" where
  "test_regex lib right text =
     (if \<not> fv_truthy right then fl_regex lib [] [] text
      else case right of
        Field (JStr s) \<Rightarrow>
          (case split_regex s of
             None \<Rightarrow> fl_regex lib s [] text
           | Some (source, flags) \<Rightarrow> fl_regex lib source flags text)
      | _ \<Rightarrow> Inl TypeError)"

section \<open>Operators\<close>

text \<open>How values of fields are read: as texts, numbers, dates, arrays, and with \<open>===\<close>.\<close>

definition fv_missing :: "field_value \<Rightarrow> bool" where
  "fv_missing v = (v = Field JUndef \<or> v = Field JNull)"

definition fv_lower :: "field_value \<Rightarrow> field_value" where
  "fv_lower v = (case v of Field (JStr s) \<Rightarrow> Field (JStr (js_lower s)) | _ \<Rightarrow> v)"

text \<open>The text a method of strings makes of its argument.\<close>

definition fv_text :: "FilterLib \<Rightarrow> field_value \<Rightarrow> string" where
  "fv_text lib v = (case v of Field w \<Rightarrow> js_string w | DateTimeValue ms \<Rightarrow> fl_showDate lib ms)"

definition fv_eq :: "field_value \<Rightarrow> field_value \<Rightarrow> bool" where
  "fv_eq v w = (case (v, w) of (Field a, Field b) \<Rightarrow> strict_eq a b | _ \<Rightarrow> False)"

definition fv_number :: "field_value \<Rightarrow> jsval" where
  "fv_number v = (case v of Field w \<Rightarrow> w | DateTimeValue ms \<Rightarrow> JInt ms)"

definition fv_less :: "field_value \<Rightarrow> field_value \<Rightarrow> bool" where
  "fv_less v w = js_less (fv_number v) (fv_number w)"

definition fv_less_eq :: "field_value \<Rightarrow> field_value \<Rightarrow> bool" where
  "fv_less_eq v w = js_less_eq (fv_number v) (fv_number w)"

definition toMillis :: "field_value \<Rightarrow> int res" where
  "toMillis v = (case v of DateTimeValue ms \<Rightarrow> Inr ms | Field _ \<Rightarrow> Inl TypeError)"

definition fv_length :: "field_value \<Rightarrow> jsval" where
  "fv_length v =
     (case v of
        Field JUndef \<Rightarrow> JInt 0
      | Field JNull \<Rightarrow> JInt 0
      | Field (JArr xs) \<Rightarrow> JInt (int (length xs))
      | Field (JStr s) \<Rightarrow> JInt (int (length s))
      | Field (JObj ob) \<Rightarrow> obj_read ob ''length''
      | _ \<Rightarrow> JUndef)"

definition arrayContainsValue :: "field_value \<Rightarrow> field_value \<Rightarrow> bool \<Rightarrow> bool res" where
  "arrayContainsValue array v ignoreCase =
     (case (if fv_missing array then Field (JArr []) else array) of
        Field (JArr xs) \<Rightarrow>
          Inr (case v of
            Field (JStr s) \<Rightarrow>
              if ignoreCase then
                list_ex (\<lambda>item. case item of JStr t \<Rightarrow> js_lower t = js_lower s | _ \<Rightarrow> False) xs
              else list_ex (\<lambda>item. strict_eq item (JStr s)) xs
          | Field w \<Rightarrow> list_ex (\<lambda>item. strict_eq item w) xs
          | DateTimeValue _ \<Rightarrow> False)
      | _ \<Rightarrow> Inl TypeError)"

text \<open>The groups of cases: \<open>None\<close> when none of them is that of the operation.\<close>

definition string_operation ::
  "FilterLib \<Rightarrow> bool \<Rightarrow> field_value \<Rightarrow> field_value \<Rightarrow> string \<Rightarrow> bool res option" where
  "string_operation lib ignoreCase left right operation =
     (let is_regex = (operation \<in> {''regex'', ''notRegex''});
          left = (if ignoreCase then fv_lower left else left);
          right = (if ignoreCase \<and> \<not> is_regex then fv_lower right else right);
          l = (if fv_missing left then [] else fv_text lib left);
          right = (if fv_missing right then Field (JStr []) else right);
          r = fv_text lib right
      in if operation = ''empty'' then Some (Inr (l = []))
      else if operation = ''notEmpty'' then Some (Inr (l \<noteq> []))
      else if operation = ''equals'' then Some (Inr (fv_eq (Field (JStr l)) right))
      else if operation = ''notEquals'' then Some (Inr (\<not> fv_eq (Field (JStr l)) right))
      else if operation = ''contains'' then Some (Inr (contains l r))
      else if operation = ''notContains'' then Some (Inr (\<not> contains l r))
      else if operation = ''startsWith'' then Some (Inr (starts_with l r))
      else if operation = ''notStartsWith'' then Some (Inr (\<not> starts_with l r))
      else if operation = ''endsWith'' then Some (Inr (ends_with l r))
      else if operation = ''notEndsWith'' then Some (Inr (\<not> ends_with l r))
      else if operation = ''regex'' then Some (test_regex lib right l)
      else if operation = ''notRegex'' then Some (bindR (test_regex lib right l) (\<lambda>b. Inr (\<not> b)))
      else None)"

definition number_operation :: "field_value \<Rightarrow> field_value \<Rightarrow> string \<Rightarrow> bool res option" where
  "number_operation left right operation =
     (if operation = ''empty'' then Some (Inr (fv_missing left))
      else if operation = ''notEmpty'' then Some (Inr (\<not> fv_missing left))
      else if operation = ''equals'' then Some (Inr (fv_eq left right))
      else if operation = ''notEquals'' then Some (Inr (\<not> fv_eq left right))
      else if operation = ''gt'' then Some (Inr (fv_less right left))
      else if operation = ''lt'' then Some (Inr (fv_less left right))
      else if operation = ''gte'' then Some (Inr (fv_less_eq right left))
      else if operation = ''lte'' then Some (Inr (fv_less_eq left right))
      else None)"

definition dateTime_operation :: "field_value \<Rightarrow> field_value \<Rightarrow> string \<Rightarrow> bool res option" where
  "dateTime_operation left right operation =
     (let compare = (\<lambda>f. Some (bindR (toMillis left) (\<lambda>l. bindR (toMillis right) (\<lambda>r. Inr (f l r))))) in
      if operation = ''empty'' then Some (Inr (fv_missing left))
      else if operation = ''notEmpty'' then Some (Inr (\<not> fv_missing left))
      else if \<not> fv_truthy left \<or> \<not> fv_truthy right then Some (Inr False)
      else if operation = ''equals'' then compare (=)
      else if operation = ''notEquals'' then compare (\<noteq>)
      else if operation = ''after'' then compare (>)
      else if operation = ''before'' then compare (<)
      else if operation = ''afterOrEquals'' then compare (\<ge>)
      else if operation = ''beforeOrEquals'' then compare (\<le>)
      else None)"

definition boolean_operation :: "field_value \<Rightarrow> field_value \<Rightarrow> string \<Rightarrow> bool res option" where
  "boolean_operation left right operation =
     (if operation = ''empty'' then Some (Inr (fv_missing left))
      else if operation = ''notEmpty'' then Some (Inr (\<not> fv_missing left))
      else if operation = ''true'' then Some (Inr (fv_truthy left))
      else if operation = ''false'' then Some (Inr (\<not> fv_truthy left))
      else if operation = ''equals'' then Some (Inr (fv_eq left right))
      else if operation = ''notEquals'' then Some (Inr (\<not> fv_eq left right))
      else None)"

definition array_operation :: "bool \<Rightarrow> field_value \<Rightarrow> field_value \<Rightarrow> string \<Rightarrow> bool res option" where
  "array_operation ignoreCase left right operation =
     (let n = fv_length left; len = Field n in
      if operation = ''contains'' then Some (arrayContainsValue left right ignoreCase)
      else if operation = ''notContains'' then
        Some (bindR (arrayContainsValue left right ignoreCase) (\<lambda>b. Inr (\<not> b)))
      else if operation = ''lengthEquals'' then Some (Inr (fv_eq len right))
      else if operation = ''lengthNotEquals'' then Some (Inr (\<not> fv_eq len right))
      else if operation = ''lengthGt'' then Some (Inr (fv_less right len))
      else if operation = ''lengthLt'' then Some (Inr (fv_less len right))
      else if operation = ''lengthGte'' then Some (Inr (fv_less_eq right len))
      else if operation = ''lengthLte'' then Some (Inr (fv_less_eq len right))
      else if operation = ''empty'' then Some (Inr (n = JInt 0))
      else if operation = ''notEmpty'' then Some (Inr (n \<noteq> JInt 0))
      else None)"

definition object_operation :: "field_value \<Rightarrow> string \<Rightarrow> bool res option" where
  "object_operation left operation =
     (let empty = (case left of Field w \<Rightarrow> \<not> js_truthy w \<or> keys_of w = [] | DateTimeValue _ \<Rightarrow> False) in
      if operation = ''empty'' then Some (Inr empty)
      else if operation = ''notEmpty'' then Some (Inr (\<not> empty))
      else None)"

section \<open>Conditions and filters\<close>

text \<open>The cases from that of the type on; without a case the operator is unknown.\<close>

definition operator_cases :: "bool \<Rightarrow> field_value \<Rightarrow> field_value \<Rightarrow> string \<Rightarrow> (string \<times> bool res option) list" where
  "operator_cases ignoreCase left right operation =
     [(''number'', number_operation left right operation),
      (''dateTime'', dateTime_operation left right operation),
      (''boolean'', boolean_operation left right operation),
      (''array'', array_operation ignoreCase left right operation),
      (''object'', object_operation left operation)]"

fun first_answer :: "(string \<times> bool res option) list \<Rightarrow> bool res" where
  "first_answer [] = Inr False"
| "first_answer ((_, None) # groups) = first_answer groups"
| "first_answer ((_, Some answer) # groups) = answer"

definition apply_operator ::
  "FilterLib \<Rightarrow> bool \<Rightarrow> string \<Rightarrow> string \<Rightarrow> field_value \<Rightarrow> field_value \<Rightarrow> bool res" where
  "apply_operator lib ignoreCase type operation left right =
     (if operation = ''exists'' then Inr (\<not> fv_missing left)
      else if operation = ''notExists'' then Inr (fv_missing left)
      else if type = ''string'' then
        (case string_operation lib ignoreCase left right operation of Some answer \<Rightarrow> answer | None \<Rightarrow> Inr False)
      else first_answer (dropWhile (\<lambda>g. fst g \<noteq> type) (operator_cases ignoreCase left right operation)))"

definition executeFilterCondition ::
  "FilterLib \<Rightarrow> FilterConditionValue \<Rightarrow> FilterOptionsValue \<Rightarrow> FilterConditionMetadata \<Rightarrow> bool res" where
  "executeFilterCondition lib c options metadata =
     (case parseFilterConditionValues (fl_types lib) c options metadata of
        Inl e \<Rightarrow> Inl (ApplicationError (fe_message e))
      | Inr (left, right) \<Rightarrow>
          apply_operator lib (\<not> caseSensitive options) (op_type (operator c)) (op_operation (operator c)) left right)"

definition conditionPass :: "FilterLib \<Rightarrow> FilterOptionsValue \<Rightarrow> nat option \<Rightarrow> nat \<times> FilterConditionValue \<Rightarrow> bool res" where
  "conditionPass lib options itemIndex c =
     executeFilterCondition lib (snd c) options
       \<lparr>fm_index = Some (fst c), fm_unresolvedExpressions = False, fm_itemIndex = itemIndex, fm_inline = False\<rparr>"

definition executeFilter :: "FilterLib \<Rightarrow> FilterValue \<Rightarrow> nat option \<Rightarrow> bool res" where
  "executeFilter lib v itemIndex =
     (if combinator v = ''and'' then
        everyR (conditionPass lib (filter_options v) itemIndex) (enumerate 0 (conditions v))
      else if combinator v = ''or'' then
        someR (conditionPass lib (filter_options v) itemIndex) (enumerate 0 (conditions v))
      else Inr False)"

text \<open>
  The check of a filter before an execution. The loop looks at exceptions of the conversion, which however
  returns its errors.
\<close>

definition validateFilterParameter :: "TypeLib \<Rightarrow> INodeProperties \<Rightarrow> FilterValue \<Rightarrow> string list jsobj" where
  "validateFilterParameter lib nodeProperties v =
     fold (\<lambda>(index, c) issues.
       case parseFilterConditionValues lib c (filter_options v)
           \<lparr>fm_index = Some index, fm_unresolvedExpressions = True, fm_itemIndex = None, fm_inline = True\<rparr> of
         Inl _ \<Rightarrow> issues
       | Inr _ \<Rightarrow> issues) (enumerate 0 (conditions v)) []"

section \<open>Negation\<close>

text \<open>The operations of each type that have an opposite, besides \<open>exists\<close>.\<close>

definition opposites :: "(string \<times> string \<times> string) list" where
  "opposites =
     [(''string'', ''empty'', ''notEmpty''), (''string'', ''equals'', ''notEquals''), (''string'', ''contains'', ''notContains''),
      (''string'', ''startsWith'', ''notStartsWith''), (''string'', ''endsWith'', ''notEndsWith''), (''string'', ''regex'', ''notRegex''),
      (''number'', ''empty'', ''notEmpty''), (''number'', ''equals'', ''notEquals''),
      (''dateTime'', ''empty'', ''notEmpty''),
      (''boolean'', ''empty'', ''notEmpty''), (''boolean'', ''equals'', ''notEquals''), (''boolean'', ''true'', ''false''),
      (''array'', ''contains'', ''notContains''), (''array'', ''lengthEquals'', ''lengthNotEquals''),
      (''array'', ''empty'', ''notEmpty''),
      (''object'', ''empty'', ''notEmpty'')]"

definition opposite :: "string \<Rightarrow> string \<Rightarrow> string \<Rightarrow> bool" where
  "opposite type operation operation' \<longleftrightarrow>
     operation = ''exists'' \<and> operation' = ''notExists'' \<or> (type, operation, operation') \<in> set opposites"

definition notR :: "bool res \<Rightarrow> bool res" where
  "notR m = bindR m (\<lambda>b. Inr (\<not> b))"

lemma notR_simps [simp]: "notR (Inl e) = Inl e" "notR (Inr b) = Inr (\<not> b)"
  by (simp_all add: notR_def)

lemma notR_notR [simp]: "notR (notR m) = m"
  by (cases m) simp_all

lemma bindR_not [simp]: "bindR m (\<lambda>b. Inr (\<not> b)) = notR m"
  by (simp add: notR_def)

lemma everyR_not: "everyR (\<lambda>x. notR (p x)) xs = notR (someR p xs)"
proof (induction xs)
  case (Cons x xs)
  then show ?case by (cases "p x") simp_all
qed simp

lemmas operator_defs = apply_operator_def operator_cases_def number_operation_def
  dateTime_operation_def boolean_operation_def array_operation_def object_operation_def Let_def

text \<open>The table is checked entry by entry.\<close>

definition answers_opposite ::
  "FilterLib \<Rightarrow> bool \<Rightarrow> field_value \<Rightarrow> field_value \<Rightarrow> string \<times> string \<times> string \<Rightarrow> bool" where
  "answers_opposite lib ignoreCase left right row =
     (case row of (type, operation, operation') \<Rightarrow>
        apply_operator lib ignoreCase type operation' left right =
        notR (apply_operator lib ignoreCase type operation left right))"

lemma opposites_answer: "list_all (answers_opposite lib ignoreCase left right) opposites"
  unfolding opposites_def list.pred_inject
  by (intro conjI; simp add: answers_opposite_def operator_defs string_operation_def)

lemma opposite_answers:
  assumes "opposite type operation operation'"
  shows "apply_operator lib ignoreCase type operation' left right =
    notR (apply_operator lib ignoreCase type operation left right)"
proof (cases "(type, operation, operation') \<in> set opposites")
  case True
  with opposites_answer [of lib ignoreCase left right]
  have "answers_opposite lib ignoreCase left right (type, operation, operation')" by (simp only: list_all_iff)
  then show ?thesis by (simp add: answers_opposite_def)
next
  case False
  with assms show ?thesis by (simp add: opposite_def apply_operator_def)
qed

definition negates :: "FilterConditionValue \<Rightarrow> FilterConditionValue \<Rightarrow> bool" where
  "negates c c' \<longleftrightarrow>
     opposite (op_type (operator c)) (op_operation (operator c)) (op_operation (operator c')) \<and>
     c' = c\<lparr>operator := operator c\<lparr>op_operation := op_operation (operator c')\<rparr>\<rparr>"

lemma conditionPass_negates:
  assumes "negates c c'"
  shows "conditionPass lib options itemIndex (n, c') = notR (conditionPass lib options itemIndex (n, c))"
proof -
  from assms obtain operation' where c': "c' = c\<lparr>operator := operator c\<lparr>op_operation := operation'\<rparr>\<rparr>"
    and op: "opposite (op_type (operator c)) (op_operation (operator c)) operation'"
    by (auto simp: negates_def)
  have "parseFilterConditionValues types c' options metadata = parseFilterConditionValues types c options metadata"
    for types metadata
    by (cases c; cases "operator c") (simp only: c' parseFilterConditionValues_def rightType_def
        FilterConditionValue.simps FilterOperatorValue.simps)
  then show ?thesis using opposite_answers [OF op]
    by (auto simp: conditionPass_def executeFilterCondition_def c' split: sum.split)
qed

lemma all_negated:
  assumes "list_all2 negates cs cs'"
  shows "everyR (conditionPass lib options itemIndex) (enumerate n cs') =
      notR (someR (conditionPass lib options itemIndex) (enumerate n cs))"
    and "someR (conditionPass lib options itemIndex) (enumerate n cs') =
      notR (everyR (conditionPass lib options itemIndex) (enumerate n cs))"
  using assms
proof (induction arbitrary: n rule: list_all2_induct)
  case (Cons c cs c' cs')
  {
    case 1
    show ?case using Cons by (cases "conditionPass lib options itemIndex (n, c)") (simp_all add: conditionPass_negates)
  next
    case 2
    show ?case using Cons by (cases "conditionPass lib options itemIndex (n, c)") (simp_all add: conditionPass_negates)
  }
qed simp_all

text \<open>C39: the filter of the opposite conditions, joined the other way, gives the opposite answer, and fails
  with the same error if it fails.\<close>

theorem filter_de_morgan:
  assumes "list_all2 negates cs cs'"
  shows "executeFilter lib \<lparr>filter_options = options, conditions = cs', combinator = ''and''\<rparr> itemIndex =
      notR (executeFilter lib \<lparr>filter_options = options, conditions = cs, combinator = ''or''\<rparr> itemIndex) \<and>
    executeFilter lib \<lparr>filter_options = options, conditions = cs', combinator = ''or''\<rparr> itemIndex =
      notR (executeFilter lib \<lparr>filter_options = options, conditions = cs, combinator = ''and''\<rparr> itemIndex)"
  by (simp add: executeFilter_def all_negated [OF assms])

text \<open>A library for examples, whose regular expressions are plain texts.\<close>

definition plain_filter :: FilterLib where
  "plain_filter = \<lparr>fl_types = no_types, fl_regex = (\<lambda>source flags text. Inr (contains text source)),
     fl_showDate = (\<lambda>ms. show_int ms)\<rparr>"

definition condition :: "string \<Rightarrow> string \<Rightarrow> jsval \<Rightarrow> jsval \<Rightarrow> FilterConditionValue" where
  "condition type operation left right =
     \<lparr>leftValue = left,
      operator = \<lparr>op_type = type, op_operation = operation, op_rightType = None, op_singleValue = False\<rparr>,
      rightValue = right\<rparr>"

definition loose :: FilterOptionsValue where
  "loose = \<lparr>caseSensitive = False, typeValidation = ''loose'', filterVersion = Some (Decimal 2 0)\<rparr>"

theorem filter_de_morgan_witness:
  "executeFilter plain_filter \<lparr>filter_options = loose, conditions =
       [condition ''string'' ''notContains'' (JStr ''n8n'') (JStr ''N''),
        condition ''number'' ''notEquals'' (JInt 1) (JStr ''1'')], combinator = ''or''\<rparr> None = Inr False"
proof -
  have negated: "list_all2 negates
      [condition ''string'' ''contains'' (JStr ''n8n'') (JStr ''N''), condition ''number'' ''equals'' (JInt 1) (JStr ''1'')]
      [condition ''string'' ''notContains'' (JStr ''n8n'') (JStr ''N''), condition ''number'' ''notEquals'' (JInt 1) (JStr ''1'')]"
    by (simp add: negates_def condition_def opposite_def opposites_def)
  have "executeFilter plain_filter \<lparr>filter_options = loose, conditions =
       [condition ''string'' ''contains'' (JStr ''n8n'') (JStr ''N''),
        condition ''number'' ''equals'' (JInt 1) (JStr ''1'')], combinator = ''and''\<rparr> None = Inr True"
    by code_simp
  then show ?thesis
    using filter_de_morgan [OF negated, of plain_filter loose None] by (simp only: notR_simps simp_thms)
qed

section \<open>Three remarks\<close>

text \<open>
  The check before an execution never reports a filter, though its conversion fails. An operation that
  numbers do not know is taken as one of arrays. Without regard to case the text is put into lower case
  for a regular expression, but the expression is not.
\<close>

lemma validateFilterParameter_reports_nothing: "validateFilterParameter lib nodeProperties v = []"
proof -
  have "fold (\<lambda>(index, c) issues.
      case parseFilterConditionValues lib c options \<lparr>fm_index = Some index, fm_unresolvedExpressions = True,
          fm_itemIndex = None, fm_inline = True\<rparr> of
        Inl _ \<Rightarrow> issues | Inr _ \<Rightarrow> issues) cs issues = issues" for options cs and issues :: "string list jsobj"
    by (induction cs arbitrary: issues) (auto split: sum.split)
  then show ?thesis by (simp add: validateFilterParameter_def)
qed

lemma number_operation_falls_through:
  "executeFilter plain_filter \<lparr>filter_options = loose, conditions =
     [condition ''number'' ''contains'' (JInt 1) (JInt 1)], combinator = ''and''\<rparr> None = Inl TypeError"
  by code_simp

lemma regex_ignoring_case_misses:
  "executeFilter plain_filter \<lparr>filter_options = loose, conditions =
     [condition ''string'' ''regex'' (JStr ''N8N'') (JStr ''N8N'')], combinator = ''and''\<rparr> None = Inr False"
  by code_simp

end
