(* ===== verification/ParameterIssues.thy ===== *)
theory ParameterIssues
  imports FilterParameter NodeParameters WorkflowQueries
begin

text \<open>
  The issues of the parameters of a node, their texts and the merging of lists of properties (\<open>getNodeParametersIssues\<close> and what it calls in
  \<open>packages/workflow/src/NodeHelpers.ts\<close>): required parameters without a value, resource locators and
  mappers, filters and types. A call looks at one parameter and calls itself for the parameters in its
  collections, so that the depth of the descriptions bounds the recursion. A check that is found in the
  description of a mode is a regular expression.
\<close>

section \<open>Collecting issues\<close>

record IssueLib =
  il_parameters :: ParameterLib
  il_types :: TypeLib

definition parameter_issues :: "INodeIssues \<Rightarrow> string list jsobj" where
  "parameter_issues issues = (case iss_parameters issues of None \<Rightarrow> [] | Some ps \<Rightarrow> ps)"

definition messages :: "INodeIssues \<Rightarrow> string \<Rightarrow> string list" where
  "messages issues name = (case map_of (parameter_issues issues) name of None \<Rightarrow> [] | Some ms \<Rightarrow> ms)"

definition push_issue :: "string \<Rightarrow> string \<Rightarrow> INodeIssues \<Rightarrow> INodeIssues" where
  "push_issue name message issues =
     issues\<lparr>iss_parameters := Some (obj_put name (messages issues name @ [message]) (parameter_issues issues))\<rparr>"

text \<open>\<open>{ ...foundIssues.parameters, ...issues }\<close>\<close>

definition add_issues :: "string list jsobj \<Rightarrow> INodeIssues \<Rightarrow> INodeIssues" where
  "add_issues extra issues = issues\<lparr>iss_parameters := Some (spread (parameter_issues issues) extra)\<rparr>"

text \<open>One of the two objects with messages that \<open>mergeIssues\<close> joins.\<close>

definition merge_messages :: "string list jsobj option \<Rightarrow> string list jsobj option \<Rightarrow> string list jsobj option" where
  "merge_messages destination source =
     (case source of
        None \<Rightarrow> destination
      | Some src \<Rightarrow>
          Some (fold (\<lambda>(name, ms) dst.
              obj_put name ((case map_of dst name of None \<Rightarrow> [] | Some old \<Rightarrow> old) @ ms) dst) src
            (case destination of None \<Rightarrow> [] | Some dst \<Rightarrow> dst)))"

definition mergeIssues :: "INodeIssues \<Rightarrow> INodeIssues option \<Rightarrow> INodeIssues" where
  "mergeIssues destination source =
     (case source of
        None \<Rightarrow> destination
      | Some src \<Rightarrow>
          \<lparr>iss_execution = (if iss_execution src = Some True then Some True else iss_execution destination),
           iss_credentials = merge_messages (iss_credentials destination) (iss_credentials src),
           iss_parameters = merge_messages (iss_parameters destination) (iss_parameters src),
           iss_typeUnknown = (if iss_typeUnknown src = Some True then Some True else iss_typeUnknown destination)\<rparr>)"

section \<open>Required parameters\<close>

text \<open>A value of \<open>null\<close> is an object for \<open>typeof\<close>, so that reading it throws.\<close>

definition isValidResourceLocatorParameterValue :: "jsval \<Rightarrow> bool res" where
  "isValidResourceLocatorParameterValue v =
     (if is_object v then
        bindR (js_read v ''value'') (\<lambda>w. Inr (case w of JNum _ \<Rightarrow> True | _ \<Rightarrow> js_truthy w))
      else Inr (js_truthy v))"

definition is_locator_type :: "string \<Rightarrow> bool" where
  "is_locator_type type = (type \<in> {''resourceLocator'', ''workflowSelector''})"

definition value_missing :: "INodeProperties \<Rightarrow> jsval \<Rightarrow> bool res" where
  "value_missing p v =
     (if np_type p \<in> {''string'', ''options''} then Inr (v = JStr [] \<or> v = JUndef)
      else if np_type p = ''multiOptions'' then Inr (v = JArr [])
      else if np_type p = ''dateTime'' then Inr (v = JUndef)
      else if is_locator_type (np_type p) then bindR (isValidResourceLocatorParameterValue v) (\<lambda>valid. Inr (\<not> valid))
      else Inr False)"

definition required_message :: "INodeProperties \<Rightarrow> string" where
  "required_message p = ''Parameter '' @ CHR 0x22 # np_displayName p @ CHR 0x22 # '' is required.''"

definition addToIssuesIfMissing :: "INodeProperties \<Rightarrow> jsval \<Rightarrow> INodeIssues \<Rightarrow> INodeIssues res" where
  "addToIssuesIfMissing p v issues =
     bindR (value_missing p v) (\<lambda>missing.
       Inr (if missing then push_issue (np_name p) (required_message p) issues else issues))"

definition getParameterValueByPath :: "ParameterLib \<Rightarrow> jsval \<Rightarrow> string \<Rightarrow> string \<Rightarrow> jsval" where
  "getParameterValueByPath lib nodeValues parameterName path =
     lib_get lib nodeValues (if path \<noteq> [] then path @ ''.'' @ parameterName else parameterName)"

definition required_issues :: "INodeProperties \<Rightarrow> jsval \<Rightarrow> INodeIssues \<Rightarrow> INodeIssues res" where
  "required_issues p v issues =
     (if np_multipleValues p \<noteq> None then
        (case v of JArr vs \<Rightarrow> foldR (addToIssuesIfMissing p) vs issues | _ \<Rightarrow> Inr issues)
      else addToIssuesIfMissing p v issues)"

text \<open>\<open>path.split('.').indexOf('parameters') === 0\<close>\<close>

definition in_parameters :: "string \<Rightarrow> bool" where
  "in_parameters path = (takeWhile (\<lambda>c. c \<noteq> CHR ''.'') path = ''parameters'')"

definition displayParameterPath :: "ParameterLib \<Rightarrow> jsval \<Rightarrow> INodeProperties \<Rightarrow> string \<Rightarrow> number option \<Rightarrow> bool res" where
  "displayParameterPath lib nodeValues parameter path version =
     displayParameter lib (if path \<noteq> [] then lib_get lib nodeValues path else nodeValues) parameter version
       (Some (if in_parameters path then lib_get lib nodeValues ''parameters'' else nodeValues))"

section \<open>Resource locators\<close>

definition has_fields :: "jsval \<Rightarrow> string list \<Rightarrow> bool" where
  "has_fields v names = (case v of JObj ob \<Rightarrow> list_all (obj_has ob) names | _ \<Rightarrow> False)"

definition mode_error :: "ParameterLib \<Rightarrow> string \<Rightarrow> string \<times> string \<Rightarrow> string list \<Rightarrow> string list res" where
  "mode_error lib text check errors =
     bindR (lib_regex lib (''^'' @ fst check @ ''$'') (JStr text)) (\<lambda>passes.
       Inr (if \<not> passes then errors @ [snd check] else errors))"

definition validateResourceLocatorParameter :: "ParameterLib \<Rightarrow> jsval \<Rightarrow> INodePropertyMode \<Rightarrow> string list res" where
  "validateResourceLocatorParameter lib v parameterMode =
     bindR (js_read v ''value'') (\<lambda>w.
       let text = (if nullish w then [] else js_string w) in
       if starts_with text ''='' then Inr []
       else foldR (mode_error lib text) (mode_validation parameterMode) [])"

definition locator_issues :: "ParameterLib \<Rightarrow> INodeProperties \<Rightarrow> jsval \<Rightarrow> INodeIssues \<Rightarrow> INodeIssues res" where
  "locator_issues lib p v issues =
     (if has_fields v [''value'', ''mode''] then
        bindR (js_read v ''mode'') (\<lambda>mode.
          case find (\<lambda>m. strict_eq (JStr (mode_name m)) mode) (case np_modes p of None \<Rightarrow> [] | Some ms \<Rightarrow> ms) of
            None \<Rightarrow> Inr issues
          | Some m \<Rightarrow> bindR (validateResourceLocatorParameter lib v m) (\<lambda>errors.
              Inr (fold (push_issue (np_name p)) errors issues)))
      else Inr issues)"

section \<open>Types\<close>

definition text_starts_expression :: "jsval \<Rightarrow> bool" where
  "text_starts_expression v = (\<not> nullish v \<and> starts_with (js_string v) ''='')"

definition error_of :: "ValidationResult \<Rightarrow> string option" where
  "error_of r = (case r of Valid _ \<Rightarrow> None | Invalid message \<Rightarrow> if message \<noteq> [] then Some message else None)"

definition option_value :: "INodePropertyOption \<Rightarrow> jsval" where
  "option_value o' = (case o' of OptionValue _ v \<Rightarrow> v | _ \<Rightarrow> JUndef)"

definition value_options :: "jsval list \<Rightarrow> ValidateFieldTypeOptions" where
  "value_options options = \<lparr>valueOptions = options, strict = False, parseStrings = False\<rparr>"

definition validateParameter :: "TypeLib \<Rightarrow> INodeProperties \<Rightarrow> jsval \<Rightarrow> string \<Rightarrow> string option" where
  "validateParameter lib p v type =
     (let options = (if type = ''options'' then map option_value (case np_options p of None \<Rightarrow> [] | Some os \<Rightarrow> os) else [])
      in if \<not> text_starts_expression v then error_of (validateFieldType lib (np_name p) v type (value_options options))
      else None)"

section \<open>Resource mappers\<close>

definition upper_char :: "char \<Rightarrow> char" where
  "upper_char c =
     (let n = of_char c :: nat in
      if 97 \<le> n \<and> n \<le> 122 \<or> 224 \<le> n \<and> n \<le> 254 \<and> n \<noteq> 247 then char_of (n - 32) else c)"

definition fieldWordSingular :: "INodeProperties \<Rightarrow> string" where
  "fieldWordSingular p =
     (let word = (case Option.bind (np_resourceMapper p) mapper_singular of None \<Rightarrow> ''Field'' | Some w \<Rightarrow> if w = [] then ''Field'' else w)
      in map upper_char (take 1 word) @ drop 1 word)"

text \<open>The errors of one field of the schema.\<close>

definition field_errors ::
  "TypeLib \<Rightarrow> INodeProperties \<Rightarrow> bool \<Rightarrow> jsval \<Rightarrow> jsval \<Rightarrow> string list jsobj \<Rightarrow> string list jsobj res" where
  "field_errors lib p skipRequiredCheck vals field issues =
     bindR (js_read field ''id'') (\<lambda>fid.
     bindR (js_read field ''required'') (\<lambda>required.
     bindR (js_read field ''type'') (\<lambda>type.
     bindR (js_read field ''options'') (\<lambda>options.
     bindR (if js_truthy vals then js_read vals (js_string fid) else Inr JNull) (\<lambda>fieldValue.
       let name = js_string fid;
           checked = (\<not> text_starts_expression fieldValue \<and> js_truthy type);
           missing = (if js_truthy required \<and> \<not> skipRequiredCheck \<and> (vals = JNull \<or> fieldValue = JUndef)
             then [fieldWordSingular p @ '' '' @ CHR 0x22 # name @ CHR 0x22 # '' is required''] else [])
       in bindR (case (if checked \<and> \<not> nullish fieldValue \<and> js_lower (js_string type) = ''options'' then options else JNull) of
            JArr os \<Rightarrow> foldR (\<lambda>x xs. bindR (js_read x ''value'') (\<lambda>v. Inr (xs @ [v]))) os []
          | _ \<Rightarrow> Inr []) (\<lambda>choices.
       let wrong = (if checked then (case error_of (validateFieldType lib name fieldValue (js_string type) (value_options choices)) of
                None \<Rightarrow> [] | Some m \<Rightarrow> [m]) else [])
       in Inr (if missing @ wrong \<noteq> [] then obj_put (np_name p @ ''.'' @ name) (missing @ wrong) issues
               else issues)))))))"

definition validateResourceMapperParameter ::
  "TypeLib \<Rightarrow> INodeProperties \<Rightarrow> jsval \<Rightarrow> bool \<Rightarrow> string list jsobj res" where
  "validateResourceMapperParameter lib p v skipRequiredCheck =
     bindR (js_read v ''mappingMode'') (\<lambda>mode.
       if mode = JStr ''autoMapInputData'' then Inr []
       else bindR (js_read v ''schema'') (\<lambda>schema.
         bindR (js_read v ''value'') (\<lambda>vals.
           case schema of
             JArr fs \<Rightarrow> foldR (field_errors lib p skipRequiredCheck vals) fs []
           | _ \<Rightarrow> Inl TypeError)))"

definition mapper_issues :: "TypeLib \<Rightarrow> INodeProperties \<Rightarrow> jsval \<Rightarrow> INodeIssues \<Rightarrow> INodeIssues res" where
  "mapper_issues lib p v issues =
     (if has_fields v [''mappingMode'', ''schema'', ''value''] then
        bindR (validateResourceMapperParameter lib p v
            (map_option mapper_mode (np_resourceMapper p) \<noteq> Some ''add'')) (\<lambda>found.
          Inr (if found \<noteq> [] then
                 add_issues found (issues\<lparr>iss_parameters :=
                   Some (if obj_has (parameter_issues issues) (np_name p) then parameter_issues issues
                         else obj_put (np_name p) [] (parameter_issues issues))\<rparr>)
               else issues))
      else Inr issues)"

section \<open>Filters\<close>

text \<open>A filter as it is in the values of a node.\<close>

definition text_of :: "jsval \<Rightarrow> string" where
  "text_of v = (case v of JStr s \<Rightarrow> s | _ \<Rightarrow> [])"

definition condition_of :: "jsval \<Rightarrow> FilterConditionValue res" where
  "condition_of v =
     bindR (js_read v ''leftValue'') (\<lambda>left.
     bindR (js_read v ''rightValue'') (\<lambda>right.
     bindR (js_read v ''operator'') (\<lambda>oper.
     bindR (js_read oper ''type'') (\<lambda>type.
     bindR (js_read oper ''operation'') (\<lambda>operation.
     bindR (js_read oper ''rightType'') (\<lambda>rtype.
     bindR (js_read oper ''singleValue'') (\<lambda>single.
       Inr \<lparr>leftValue = left,
         operator = \<lparr>op_type = text_of type, op_operation = text_of operation,
           op_rightType = (if nullish rtype then None else Some (text_of rtype)), op_singleValue = js_truthy single\<rparr>,
         rightValue = right\<rparr>)))))))"

definition options_of :: "jsval \<Rightarrow> FilterOptionsValue" where
  "options_of v =
     (let field = (\<lambda>name. case v of JObj ob \<Rightarrow> obj_read ob name | _ \<Rightarrow> JUndef) in
      \<lparr>caseSensitive = js_truthy (field ''caseSensitive''),
       typeValidation = text_of (field ''typeValidation''),
       filterVersion = (case field ''version'' of JNum n \<Rightarrow> Some n | _ \<Rightarrow> None)\<rparr>)"

text \<open>A condition that cannot be read is caught by the loop of the check, as every exception is.\<close>

definition filter_issues :: "TypeLib \<Rightarrow> INodeProperties \<Rightarrow> jsval \<Rightarrow> INodeIssues \<Rightarrow> INodeIssues res" where
  "filter_issues lib p v issues =
     (if has_fields v [''conditions'', ''combinator''] then
        bindR (js_read v ''conditions'') (\<lambda>conds.
        bindR (js_read v ''options'') (\<lambda>options.
        bindR (js_read v ''combinator'') (\<lambda>comb.
          case conds of
            JArr cs \<Rightarrow>
              let found = validateFilterParameter lib p
                    \<lparr>filter_options = options_of options,
                     conditions = concat (map (\<lambda>c. case condition_of c of Inr d \<Rightarrow> [d] | Inl _ \<Rightarrow> []) cs),
                     combinator = text_of comb\<rparr>
              in Inr (if found \<noteq> [] then add_issues found issues else issues)
          | _ \<Rightarrow> Inl TypeError)))
      else Inr issues)"

section \<open>The issues of a parameter\<close>

definition type_issues :: "IssueLib \<Rightarrow> INodeProperties \<Rightarrow> bool \<Rightarrow> jsval \<Rightarrow> INodeIssues \<Rightarrow> INodeIssues res" where
  "type_issues lib p isDisplayed v issues =
     (if is_locator_type (np_type p) \<and> isDisplayed then locator_issues (il_parameters lib) p v issues
      else if np_type p = ''resourceMapper'' \<and> isDisplayed then mapper_issues (il_types lib) p v issues
      else if np_type p = ''filter'' \<and> isDisplayed then filter_issues (il_types lib) p v issues
      else (case nonempty_str (np_validateType p) of
          None \<Rightarrow> Inr issues
        | Some type \<Rightarrow> (case validateParameter (il_types lib) p v type of
            None \<Rightarrow> Inr issues
          | Some message \<Rightarrow> Inr (push_issue (np_name p) message issues))))"

text \<open>What is found of the parameter itself.\<close>

definition own_issues ::
  "IssueLib \<Rightarrow> INodeProperties \<Rightarrow> jsval \<Rightarrow> string \<Rightarrow> number option \<Rightarrow> INodeIssues res" where
  "own_issues lib p nodeValues path version =
     bindR (displayParameterPath (il_parameters lib) nodeValues p path version) (\<lambda>isDisplayed.
       let v = getParameterValueByPath (il_parameters lib) nodeValues (np_name p) path in
       bindR (if np_required p \<and> isDisplayed then required_issues p v no_issues else Inr no_issues)
         (type_issues lib p isDisplayed v))"

text \<open>
  The parameters to check with their base path. That of a collection has no name of its own, that of a
  fixed collection inside another parameter gets a second dot in place of the name.
\<close>

definition fixed_children ::
  "ParameterLib \<Rightarrow> INodeProperties \<Rightarrow> jsval \<Rightarrow> string \<Rightarrow> INodePropertyOption \<Rightarrow>
   (string \<times> INodeProperties) list \<Rightarrow> (string \<times> INodeProperties) list res" where
  "fixed_children lib p nodeValues basePath propertyOptions checks =
     (let name = option_name propertyOptions;
          v = getParameterValueByPath lib nodeValues name (butlast basePath);
          checks_at = (\<lambda>base. bindR (derefR (option_values propertyOptions)) (\<lambda>qs. Inr (map (Pair base) qs)))
      in if v = JUndef then Inr checks
      else if np_multipleValues p \<noteq> None then
        (case v of
           JArr vs \<Rightarrow>
             foldR (\<lambda>i acc. bindR (checks_at (basePath @ name @ ''['' @ show_nat i @ '']'')) (\<lambda>cs. Inr (acc @ cs)))
               [0..<length vs] checks
         | _ \<Rightarrow> Inr checks)
      else bindR (checks_at (basePath @ name)) (\<lambda>cs. Inr (checks @ cs)))"

definition child_checks ::
  "ParameterLib \<Rightarrow> INodeProperties \<Rightarrow> jsval \<Rightarrow> string \<Rightarrow> (string \<times> INodeProperties) list res" where
  "child_checks lib p nodeValues path =
     (let basePath = (if path \<noteq> [] then path @ ''.'' else []) in
      case np_options p of
        None \<Rightarrow> Inr []
      | Some os \<Rightarrow>
          if np_type p = ''collection'' then
            Inr (map (Pair basePath) (case collection_options p of None \<Rightarrow> [] | Some qs \<Rightarrow> qs))
          else if np_type p = ''fixedCollection'' then
            foldR (fixed_children lib p nodeValues (if basePath \<noteq> [] then basePath @ ''.'' else np_name p @ ''.'')) os []
          else Inr [])"

fun getParameterIssues ::
  "nat \<Rightarrow> IssueLib \<Rightarrow> INodeProperties \<Rightarrow> jsval \<Rightarrow> string \<Rightarrow> number option \<Rightarrow> INodeIssues bounded_res" where
  "getParameterIssues 0 lib p nodeValues path version = Inl None"
| "getParameterIssues (Suc depth) lib p nodeValues path version =
     bindR (thrown (own_issues lib p nodeValues path version)) (\<lambda>foundIssues.
     bindR (thrown (child_checks (il_parameters lib) p nodeValues path)) (\<lambda>checks.
       foldR (\<lambda>(base, q) found.
         bindR (getParameterIssues depth lib q nodeValues base version) (\<lambda>propertyIssues.
           Inr (mergeIssues found (Some propertyIssues)))) checks foundIssues))"

section \<open>The issues of a node\<close>

definition not_checked :: "INode \<Rightarrow> string list option \<Rightarrow> bool" where
  "not_checked node pinDataNodeNames \<longleftrightarrow>
     disabled node = Some True \<or> (case pinDataNodeNames of None \<Rightarrow> False | Some ns \<Rightarrow> nodeName node \<in> set ns)"

definition getNodeParametersIssues ::
  "nat \<Rightarrow> IssueLib \<Rightarrow> INodeProperties list \<Rightarrow> INode \<Rightarrow> string list option \<Rightarrow> INodeIssues option bounded_res" where
  "getNodeParametersIssues depth lib nodePropertiesArray node pinDataNodeNames =
     (if not_checked node pinDataNodeNames then Inr None
      else
        bindR (foldR (\<lambda>p found.
            bindR (getParameterIssues depth lib p (JObj (parameters node)) [] (Some (typeVersion node)))
              (\<lambda>propertyIssues. Inr (mergeIssues found (Some propertyIssues)))) nodePropertiesArray no_issues)
          (\<lambda>found. Inr (if found = no_issues then None else Some found)))"

section \<open>Texts of issues and lists of properties\<close>

definition issue_texts :: "string list jsobj option \<Rightarrow> string list" where
  "issue_texts ob = (case ob of None \<Rightarrow> [] | Some ms \<Rightarrow> concat (map snd ms))"

definition nodeIssuesToString :: "INodeIssues \<Rightarrow> INode option \<Rightarrow> string list" where
  "nodeIssuesToString issues node =
     (if iss_execution issues \<noteq> None then [''Execution Error.''] else []) @
     issue_texts (iss_parameters issues) @ issue_texts (iss_credentials issues) @
     (if iss_typeUnknown issues \<noteq> None then
        [case node of
           None \<Rightarrow> ''Node Type is not known.''
         | Some n \<Rightarrow> ''Node Type '' @ CHR 0x22 # ntype n @ CHR 0x22 # '' is not known.'']
      else [])"

text \<open>The list that the code changes in place is returned.\<close>

definition merge_property :: "INodeProperties \<Rightarrow> INodeProperties list \<Rightarrow> INodeProperties list" where
  "merge_property property mainProperties =
     (if np_doNotInherit property then mainProperties
      else case find (\<lambda>i. np_name (mainProperties ! i) = np_name property) [0..<length mainProperties] of
          None \<Rightarrow> mainProperties @ [property]
        | Some existingIndex \<Rightarrow> mainProperties[existingIndex := property])"

definition mergeNodeProperties :: "INodeProperties list \<Rightarrow> INodeProperties list \<Rightarrow> INodeProperties list" where
  "mergeNodeProperties mainProperties addProperties = fold merge_property addProperties mainProperties"

end
