(* ===== verification/IssueLaws.thy ===== *)
theory IssueLaws
  imports ParameterIssues
begin

text \<open>
  Laws of the issues of parameters: the recursion ends, the messages of a node are those of its
  parameters in order, and a workflow of plain parameters is ready exactly when every required parameter
  that is displayed has a value.
\<close>

section \<open>The recursion ends\<close>

definition shallower :: "INodeProperties \<Rightarrow> (string \<times> INodeProperties) list \<Rightarrow> bool" where
  "shallower p checks = list_all (\<lambda>(_, q). property_depth q < property_depth p) checks"

lemma shallower_simps [simp]:
  "shallower p []" "shallower p (xs @ ys) \<longleftrightarrow> shallower p xs \<and> shallower p ys"
  "shallower p (map (Pair base) qs) \<longleftrightarrow> (\<forall>q \<in> set qs. property_depth q < property_depth p)"
  by (auto simp: shallower_def list_all_iff)

lemma option_values_shallower:
  assumes "np_options p = Some os" "o' \<in> set os" "option_values o' = Some qs" "q \<in> set qs"
  shows "property_depth q < property_depth p"
proof -
  from assms(3,4) have "property_depth q \<le> option_depth o'"
    using nesting_le [of qs "nesting qs"]
    by (auto simp: option_values_def nesting_def split: INodePropertyOption.splits)
  with option_depth_less [OF assms(1,2)] show ?thesis by simp
qed

lemma fixed_children_shallower:
  assumes "fixed_children lib p nodeValues base o' checks = Inr checks'" "shallower p checks"
    and "np_options p = Some os" "o' \<in> set os"
  shows "shallower p checks'"
proof -
  have "shallower p acc'" if "foldR (\<lambda>i acc. bindR (bindR (derefR (option_values o')) (\<lambda>qs. Inr (map (Pair (f i)) qs)))
      (\<lambda>cs. Inr (acc @ cs))) is checks = Inr acc'" for f acc' and "is" :: "nat list"
    using that assms(2)
    by (rule foldR_invariant) (auto simp: bindR_Inr_iff intro: option_values_shallower [OF assms(3,4)])
  with assms(1,2) option_values_shallower [OF assms(3,4)] show ?thesis
    by (auto simp: fixed_children_def Let_def bindR_Inr_iff split: if_splits jsval.splits)
qed

lemma child_checks_shallower:
  assumes "child_checks lib p nodeValues path = Inr checks" shows "shallower p checks"
proof (cases "np_options p")
  case None
  with assms show ?thesis by (simp add: child_checks_def)
next
  case (Some os)
  have "shallower p checks" if "foldR (fixed_children lib p nodeValues base) os [] = Inr checks" for base
    using that by (rule foldR_invariant) (auto intro: fixed_children_shallower [OF _ _ Some])
  moreover have "property_depth q < property_depth p" if "collection_options p = Some qs" "q \<in> set qs" for q qs
    using nesting_collection_options [OF that(1)] that(2) nesting_le [of qs "nesting qs"] by fastforce
  ultimately show ?thesis using assms Some
    by (auto simp: child_checks_def Let_def split: if_splits option.splits)
qed

lemma getParameterIssues_in_bound:
  "property_depth p < depth \<Longrightarrow> in_bound (getParameterIssues depth lib p nodeValues path version)"
proof (induction depth arbitrary: p path)
  case (Suc depth)
  have "in_bound (getParameterIssues depth lib q nodeValues base version)"
    if "child_checks (il_parameters lib) p nodeValues path = Inr checks" "(base, q) \<in> set checks" for base q checks
    using child_checks_shallower [OF that(1)] that(2) Suc by (fastforce simp: shallower_def list_all_iff)
  then show ?case by (auto intro!: in_bound_bindR in_bound_foldR)
qed simp

lemma getNodeParametersIssues_in_bound:
  assumes "nesting ps < depth" shows "in_bound (getNodeParametersIssues depth lib ps node pins)"
proof -
  have "property_depth p < depth" if "p \<in> set ps" for p
    using that assms nesting_le [of ps "nesting ps"] by fastforce
  then show ?thesis unfolding getNodeParametersIssues_def
    by (auto intro!: in_bound_intros getParameterIssues_in_bound)
qed

text \<open>The finder of issues that \<open>checkReadyForExecution\<close> calls, with the bound that is enough.\<close>

definition parameter_checks :: "IssueLib \<Rightarrow> issue_finder" where
  "parameter_checks lib ps node pins =
     (case getNodeParametersIssues (Suc (nesting ps)) lib ps node pins of
        Inl (Some e) \<Rightarrow> Inl e
      | Inl None \<Rightarrow> Inl AssertionError
      | Inr issues \<Rightarrow> Inr issues)"

lemma thrown_parameter_checks:
  "thrown (parameter_checks lib ps node pins) = getNodeParametersIssues (Suc (nesting ps)) lib ps node pins"
  using getNodeParametersIssues_in_bound [of ps "Suc (nesting ps)" lib node pins]
  by (auto simp: parameter_checks_def in_bound_def thrown_def split: sum.splits option.splits)

section \<open>Messages\<close>

text \<open>The issues of parameters have messages only, each name once.\<close>

definition issues_ok :: "INodeIssues \<Rightarrow> bool" where
  "issues_ok issues \<longleftrightarrow> distinct (map fst (parameter_issues issues)) \<and>
     iss_execution issues = None \<and> iss_credentials issues = None \<and> iss_typeUnknown issues = None"

lemma no_issues_simps [simp]:
  "issues_ok no_issues" "messages no_issues name = []" "parameter_issues no_issues = []"
  by (simp_all add: issues_ok_def messages_def parameter_issues_def no_issues_def)

lemma issues_ok_none: "issues_ok issues \<Longrightarrow> issues = no_issues \<longleftrightarrow> iss_parameters issues = None"
  by (cases issues) (auto simp: issues_ok_def no_issues_def)

lemma messages_push_issue [simp]:
  "messages (push_issue name m issues) k = messages issues k @ (if k = name then [m] else [])"
  by (simp add: messages_def push_issue_def parameter_issues_def)

lemma push_issue_ok [simp]: "issues_ok issues \<Longrightarrow> issues_ok (push_issue name m issues)"
  by (simp add: issues_ok_def push_issue_def parameter_issues_def obj_put_distinct)

lemma merge_fold:
  assumes "distinct (map fst src)"
  shows "map_of (fold (\<lambda>(name, ms) dst.
      obj_put name ((case map_of dst name of None \<Rightarrow> [] | Some old \<Rightarrow> old) @ ms) dst) src dst) k =
    (case map_of src k of None \<Rightarrow> map_of dst k
     | Some ms \<Rightarrow> Some ((case map_of dst k of None \<Rightarrow> [] | Some old \<Rightarrow> old) @ ms))"
  using assms
proof (induction src arbitrary: dst)
  case (Cons x src)
  obtain name ms where x: "x = (name, ms)" by (cases x)
  with Cons.prems have "map_of src name = None" by (simp add: map_of_eq_None_iff)
  with Cons x show ?case by (auto split: option.split)
qed simp

lemma merge_messages_of:
  assumes "case src of None \<Rightarrow> True | Some s \<Rightarrow> distinct (map fst s)"
  shows "(case merge_messages dst src of None \<Rightarrow> None | Some m \<Rightarrow> map_of m k) =
    (case (case src of None \<Rightarrow> None | Some s \<Rightarrow> map_of s k) of
       None \<Rightarrow> (case dst of None \<Rightarrow> None | Some d \<Rightarrow> map_of d k)
     | Some ms \<Rightarrow> Some ((case (case dst of None \<Rightarrow> None | Some d \<Rightarrow> map_of d k) of None \<Rightarrow> [] | Some old \<Rightarrow> old) @ ms))"
  using assms by (cases src; cases dst) (simp_all add: merge_messages_def merge_fold split: option.split)

lemma messages_eq:
  "messages issues k =
     (case (case iss_parameters issues of None \<Rightarrow> None | Some ps \<Rightarrow> map_of ps k) of None \<Rightarrow> [] | Some ms \<Rightarrow> ms)"
  by (simp add: messages_def parameter_issues_def split: option.split)

lemma messages_mergeIssues:
  assumes "issues_ok src"
  shows "messages (mergeIssues dst (Some src)) k = messages dst k @ messages src k"
proof -
  from assms have "case iss_parameters src of None \<Rightarrow> True | Some s \<Rightarrow> distinct (map fst s)"
    by (simp add: issues_ok_def parameter_issues_def split: option.splits)
  from merge_messages_of [OF this] show ?thesis
    by (simp add: messages_eq mergeIssues_def split: option.split)
qed

lemma merge_distinct:
  "distinct (map fst dst) \<Longrightarrow> distinct (map fst (fold (\<lambda>(name, ms) dst.
     obj_put name ((case map_of dst name of None \<Rightarrow> [] | Some old \<Rightarrow> old) @ ms) dst) src dst))"
  by (induction src arbitrary: dst) (auto simp: obj_put_distinct)

lemma mergeIssues_ok: "issues_ok dst \<Longrightarrow> issues_ok src \<Longrightarrow> issues_ok (mergeIssues dst (Some src))"
  by (auto simp: issues_ok_def mergeIssues_def parameter_issues_def merge_messages_def merge_distinct
      split: option.splits)

lemma spread_distinct: "distinct (map fst a) \<Longrightarrow> distinct (map fst (spread a b))"
  by (induction b arbitrary: a) (auto simp: spread_def obj_put_distinct)

lemma add_issues_ok: "issues_ok issues \<Longrightarrow> issues_ok (add_issues extra issues)"
  by (simp add: issues_ok_def add_issues_def parameter_issues_def spread_distinct)

lemma fold_push_issue_ok: "issues_ok issues \<Longrightarrow> issues_ok (fold (push_issue name) ms issues)"
  by (induction ms arbitrary: issues) simp_all

lemma addToIssuesIfMissing_ok: "addToIssuesIfMissing p v issues = Inr issues' \<Longrightarrow> issues_ok issues \<Longrightarrow> issues_ok issues'"
  by (auto simp: addToIssuesIfMissing_def bindR_Inr_iff)

lemma required_issues_ok:
  assumes "required_issues p v issues = Inr issues'" "issues_ok issues" shows "issues_ok issues'"
proof -
  have "issues_ok t" if "foldR (addToIssuesIfMissing p) vs issues = Inr t" for vs t
    using that assms(2) by (rule foldR_invariant) (rule addToIssuesIfMissing_ok)
  with assms addToIssuesIfMissing_ok show ?thesis
    by (auto simp: required_issues_def split: if_splits jsval.splits)
qed

lemma named_issues_ok [simp]:
  "issues_ok issues \<Longrightarrow> issues_ok (issues\<lparr>iss_parameters := Some (parameter_issues issues)\<rparr>)"
  "issues_ok issues \<Longrightarrow> issues_ok (issues\<lparr>iss_parameters := Some (obj_put name [] (parameter_issues issues))\<rparr>)"
  by (auto simp: issues_ok_def parameter_issues_def obj_put_distinct split: option.splits)

lemma type_issues_ok:
  assumes "type_issues lib p shown v issues = Inr issues'" "issues_ok issues" shows "issues_ok issues'"
proof -
  have "issues_ok t" if "locator_issues lib' p v issues = Inr t" for lib' t
    using that assms(2) by (auto simp: locator_issues_def bindR_Inr_iff fold_push_issue_ok split: if_splits option.splits)
  moreover have "issues_ok t" if "mapper_issues lib' p v issues = Inr t" for lib' t
    using that assms(2)
    by (auto simp: mapper_issues_def bindR_Inr_iff intro!: add_issues_ok split: if_splits)
  moreover have "issues_ok t" if "filter_issues lib' p v issues = Inr t" for lib' t
    using that assms(2)
    by (auto simp: filter_issues_def validateFilterParameter_reports_nothing elim!: bindR_InrE
        split: if_split_asm jsval.split_asm)
  ultimately show ?thesis using assms by (auto simp: type_issues_def split: if_splits option.splits)
qed

lemma own_issues_ok: "own_issues lib p nodeValues path version = Inr issues \<Longrightarrow> issues_ok issues"
  by (auto simp: own_issues_def bindR_Inr_iff Let_def split: if_splits dest: type_issues_ok dest!: required_issues_ok)

lemma getParameterIssues_ok: "getParameterIssues depth lib p nodeValues path version = Inr issues \<Longrightarrow> issues_ok issues"
proof (induction depth arbitrary: p path issues)
  case (Suc d)
  then obtain own checks where "own_issues lib p nodeValues path version = Inr own"
    and "foldR (\<lambda>(base, q) found. bindR (getParameterIssues d lib q nodeValues base version)
      (\<lambda>i. Inr (mergeIssues found (Some i)))) checks own = Inr issues"
    by (auto simp: bindR_Inr_iff)
  from this(2) own_issues_ok [OF this(1)] show ?case
    by (rule foldR_invariant) (auto simp: bindR_Inr_iff mergeIssues_ok Suc.IH)
qed simp

section \<open>The messages of a node\<close>

lemma merge_loop:
  assumes "foldR (\<lambda>p found. bindR (f p) (\<lambda>i. Inr (mergeIssues found (Some i)))) ps issues = Inr issues'"
    and "\<And>p i. p \<in> set ps \<Longrightarrow> f p = Inr i \<Longrightarrow> issues_ok i"
  shows "messages issues' k = messages issues k @ concat (map (\<lambda>p. messages (projr (f p)) k) ps) \<and>
    (iss_parameters issues' = None \<longleftrightarrow>
       iss_parameters issues = None \<and> list_all (\<lambda>p. iss_parameters (projr (f p)) = None) ps)"
  using assms
proof (induction ps arbitrary: issues)
  case (Cons p ps)
  then obtain i where i: "f p = Inr i" "foldR (\<lambda>p found. bindR (f p) (\<lambda>i. Inr (mergeIssues found (Some i)))) ps
      (mergeIssues issues (Some i)) = Inr issues'"
    by (auto simp: bindR_Inr_iff)
  moreover have "iss_parameters (mergeIssues issues (Some i)) = None \<longleftrightarrow>
      iss_parameters issues = None \<and> iss_parameters i = None"
    by (auto simp: mergeIssues_def merge_messages_def split: option.split)
  moreover have "issues_ok i" by (rule Cons.prems(2) [OF _ i(1)]) simp
  moreover have "issues_ok j" if "q \<in> set ps" "f q = Inr j" for q j
    by (rule Cons.prems(2) [OF _ that(2)]) (simp add: that(1))
  note Cons.IH [OF i(2) this]
  ultimately show ?case by (simp add: messages_mergeIssues)
qed simp

text \<open>The messages for a name are those of the parameters, in their order.\<close>

definition issues_in :: "IssueLib \<Rightarrow> nat \<Rightarrow> INode \<Rightarrow> INodeProperties \<Rightarrow> INodeIssues bounded_res" where
  "issues_in lib depth node p = getParameterIssues depth lib p (JObj (parameters node)) [] (Some (typeVersion node))"

lemma node_issues:
  assumes "getNodeParametersIssues depth lib ps node pins = Inr r" "\<not> not_checked node pins"
  shows "(case r of None \<Rightarrow> [] | Some issues \<Rightarrow> messages issues k) =
      concat (map (\<lambda>p. messages (projr (issues_in lib depth node p)) k) ps) \<and>
    (r = None \<longleftrightarrow> list_all (\<lambda>p. iss_parameters (projr (issues_in lib depth node p)) = None) ps)"
proof -
  from assms obtain found where loop: "foldR (\<lambda>p found. bindR (issues_in lib depth node p)
      (\<lambda>i. Inr (mergeIssues found (Some i)))) ps no_issues = Inr found" and r: "r = (if found = no_issues then None else Some found)"
    by (auto simp: getNodeParametersIssues_def bindR_Inr_iff issues_in_def)
  have "issues_ok found"
    using loop no_issues_simps(1) by (rule foldR_invariant)
      (auto simp: bindR_Inr_iff mergeIssues_ok issues_in_def getParameterIssues_ok)
  then have "found = no_issues \<longleftrightarrow> iss_parameters found = None" by (rule issues_ok_none)
  with merge_loop [OF loop, of k] r show ?thesis
    by (auto simp: issues_in_def getParameterIssues_ok) (simp_all add: no_issues_def)
qed

section \<open>Plain parameters\<close>

text \<open>Parameters of a simple type that can be required, with one value and without a type to validate.\<close>

definition plain_required :: "INodeProperties \<Rightarrow> bool" where
  "plain_required p \<longleftrightarrow> np_type p \<in> {''string'', ''options'', ''multiOptions'', ''dateTime''} \<and>
     np_multipleValues p = None \<and> nonempty_str (np_validateType p) = None"

definition empty_value :: "string \<Rightarrow> jsval \<Rightarrow> bool" where
  "empty_value type v =
     (if type \<in> {''string'', ''options''} then v = JStr [] \<or> v = JUndef
      else if type = ''multiOptions'' then v = JArr []
      else v = JUndef)"

definition shown_in :: "IssueLib \<Rightarrow> INode \<Rightarrow> INodeProperties \<Rightarrow> bool res" where
  "shown_in lib node p =
     displayParameterPath (il_parameters lib) (JObj (parameters node)) p [] (Some (typeVersion node))"

definition is_required_but_empty :: "IssueLib \<Rightarrow> INode \<Rightarrow> INodeProperties \<Rightarrow> bool" where
  "is_required_but_empty lib node p \<longleftrightarrow> np_required p \<and> shown_in lib node p = Inr True \<and>
     empty_value (np_type p) (lib_get (il_parameters lib) (JObj (parameters node)) (np_name p))"

lemma plain_parameter_issues:
  assumes "plain_required p" "shown_in lib node p = Inr b"
  shows "issues_in lib (Suc depth) node p = Inr (if is_required_but_empty lib node p
    then push_issue (np_name p) (required_message p) no_issues else no_issues)"
proof -
  let ?v = "lib_get (il_parameters lib) (JObj (parameters node)) (np_name p)"
  have missing: "value_missing p ?v = Inr (empty_value (np_type p) ?v)"
    using assms(1) by (auto simp: plain_required_def value_missing_def empty_value_def)
  have "type_issues lib p b ?v issues = Inr issues" for issues
    using assms(1) by (auto simp: plain_required_def type_issues_def is_locator_type_def)
  moreover have "child_checks (il_parameters lib) p (JObj (parameters node)) [] = Inr []"
    using assms(1) by (auto simp: plain_required_def child_checks_def split: option.split)
  ultimately show ?thesis using assms missing
    by (auto simp: issues_in_def own_issues_def is_required_but_empty_def shown_in_def getParameterValueByPath_def
        plain_required_def required_issues_def addToIssuesIfMissing_def Let_def)
qed

lemma plain_node_issues:
  assumes "list_all (\<lambda>p. plain_required p \<and> (\<exists>b. shown_in lib node p = Inr b)) ps"
  shows "\<exists>r. parameter_checks lib ps node pins = Inr r \<and>
    (r = None \<longleftrightarrow> not_checked node pins \<or> \<not> list_ex (is_required_but_empty lib node) ps) \<and>
    (\<forall>k. (case r of None \<Rightarrow> [] | Some issues \<Rightarrow> messages issues k) =
      (if not_checked node pins then [] else
         map required_message (filter (\<lambda>p. np_name p = k \<and> is_required_but_empty lib node p) ps)))"
proof (cases "not_checked node pins")
  case True
  then show ?thesis by (simp add: parameter_checks_def getNodeParametersIssues_def)
next
  case False
  have each: "issues_in lib (Suc (nesting ps)) node p = Inr (if is_required_but_empty lib node p
      then push_issue (np_name p) (required_message p) no_issues else no_issues)" if "p \<in> set ps" for p
    using that assms plain_parameter_issues by (fastforce simp: list_all_iff)
  have "\<exists>t. foldR (\<lambda>p found. bindR (issues_in lib (Suc (nesting ps)) node p)
      (\<lambda>i. Inr (mergeIssues found (Some i)))) ps no_issues = Inr t \<and> True"
    by (rule foldR_total) (auto simp: each)
  then obtain r where r: "getNodeParametersIssues (Suc (nesting ps)) lib ps node pins = Inr r"
    using False by (auto simp: getNodeParametersIssues_def issues_in_def)
  then have "parameter_checks lib ps node pins = Inr r" by (simp add: parameter_checks_def)
  moreover have "(case r of None \<Rightarrow> [] | Some issues \<Rightarrow> messages issues k) =
      map required_message (filter (\<lambda>p. np_name p = k \<and> is_required_but_empty lib node p) ps)" for k
  proof -
    have "concat (map (\<lambda>p. messages (projr (issues_in lib (Suc (nesting ps)) node p)) k) qs) =
        map required_message (filter (\<lambda>p. np_name p = k \<and> is_required_but_empty lib node p) qs)"
      if "set qs \<subseteq> set ps" for qs
      using that by (induction qs) (auto simp: each)
    then show ?thesis using node_issues [OF r False, of k] by simp
  qed
  moreover have "iss_parameters (projr (issues_in lib (Suc (nesting ps)) node p)) = None \<longleftrightarrow>
      \<not> is_required_but_empty lib node p" if "p \<in> set ps" for p
    using that by (simp add: each push_issue_def no_issues_def)
  then have "r = None \<longleftrightarrow> \<not> list_ex (is_required_but_empty lib node) ps"
    using node_issues [OF r False] by (auto simp: list_all_iff list_ex_iff)
  ultimately show ?thesis using False by auto
qed

section \<open>Ready for execution\<close>

text \<open>The contract of the checks, for descriptions of plain parameters with rules that can be evaluated.\<close>

definition plainly_described :: "IssueLib \<Rightarrow> INodeProperties list \<Rightarrow> INode \<Rightarrow> bool" where
  "plainly_described lib ps n = list_all (\<lambda>p. plain_required p \<and> (\<exists>b. shown_in lib n p = Inr b)) ps"

definition lacks_required :: "IssueLib \<Rightarrow> INodeProperties list \<Rightarrow> INode \<Rightarrow> string list option \<Rightarrow> bool" where
  "lacks_required lib ps n pins \<longleftrightarrow> \<not> not_checked n pins \<and> list_ex (is_required_but_empty lib n) ps"

interpretation plain_checker: parameter_checker "parameter_checks lib" "plainly_described lib" "lacks_required lib" for lib
proof unfold_locales
  show "\<exists>r. parameter_checks lib ps n pins = Inr r \<and> (r = None \<longleftrightarrow> \<not> lacks_required lib ps n pins)"
    if "plainly_described lib ps n" for ps n pins
    using plain_node_issues [OF that [unfolded plainly_described_def], of pins] by (auto simp: lacks_required_def)
qed

text \<open>C37: a workflow whose nodes have plain parameters is ready for execution exactly when no enabled node
  without pinned data, among those that are checked, lacks a required parameter that is displayed.\<close>

theorem ready_iff_required_given:
  assumes "wf_workflow w" "list_all (described_at (plainly_described lib) w) (nodes_to_check w start dest)"
  shows "\<exists>r. checkReadyForExecution (parameter_checks lib) w start dest pins = Inr r \<and>
    (r = None \<longleftrightarrow> \<not> list_ex (lacking_at (\<lambda>ps n. lacks_required lib ps n pins) w) (nodes_to_check w start dest))"
  using assms by (rule plain_checker.ready_iff)

text \<open>A workflow with one node that lacks its web address.\<close>

definition plain_checks :: IssueLib where
  "plain_checks = \<lparr>il_parameters = plain_lib, il_types = no_types\<rparr>"

definition required_url :: INodeProperties where
  "required_url = INodeProperties ''URL'' ''url'' ''string'' (JStr []) True None None False None None None None"

definition fetch_type :: INodeType where
  "fetch_type = \<lparr>td_name = ''fetch'', td_group = [], td_properties = [required_url], td_inputs = [Main],
     td_outputs = [Main], td_requiredInputs = NoRequirement, has_execute = True, has_poll = False,
     has_trigger = False, has_webhook = False\<rparr>"

definition fetch_workflow :: Workflow where
  "fetch_workflow = \<lparr>wf_id = None, wf_name = None, nodes = [(''A'', plain_node 1 ''A'' ''fetch'')],
     connectionsBySourceNode = [], connectionsByDestinationNode = getConnectionsByDestination [],
     nodeTypes = (\<lambda>_ _. Some fetch_type), active = False, executionOrder = None, staticData = [],
     testStaticData = None, wf_pinData = None\<rparr>"

theorem ready_iff_required_given_witness:
  "(\<exists>issues. checkReadyForExecution (parameter_checks plain_checks) fetch_workflow None (Some ''A'') None =
      Inr (Some issues)) \<and>
   checkReadyForExecution (parameter_checks plain_checks) fetch_workflow None (Some ''A'') (Some [''A'']) = Inr None"
proof -
  have wf: "wf_workflow fetch_workflow"
    by (simp add: wf_workflow_def fetch_workflow_def named_def wf_keys_def wf_connections_def plain_node_def)
  have "getConnectedNodes (getConnectionsByDestination []) ''A'' (OneType Main) (-1) [] = []" by code_simp
  then have chk: "nodes_to_check fetch_workflow None (Some ''A'') = [''A'']"
    by (simp add: nodes_to_check_def nonempty_str_def getParentNodes_def fetch_workflow_def)
  note defs = fetch_workflow_def fetch_type_def required_url_def plain_node_def shown_in_def displayParameterPath_def
    displayParameter_def
  have "list_all (described_at (plainly_described plain_checks) fetch_workflow) (nodes_to_check fetch_workflow None (Some ''A''))"
    unfolding chk by (simp add: described_at_def plainly_described_def plain_required_def nonempty_str_def defs ex_bool_eq)
  note ready = ready_iff_required_given [OF wf this]
  have "lacking_at (\<lambda>ps n. lacks_required plain_checks ps n None) fetch_workflow ''A''"
    by (simp add: lacking_at_def lacks_required_def not_checked_def is_required_but_empty_def empty_value_def defs
        plain_checks_def plain_lib_def obj_read_def)
  moreover have "\<not> lacking_at (\<lambda>ps n. lacks_required plain_checks ps n (Some [''A''])) fetch_workflow ''A''"
    by (simp add: lacking_at_def lacks_required_def not_checked_def defs)
  ultimately show ?thesis using ready [of None] ready [of "Some [''A'']"] unfolding chk by auto
qed

section \<open>Three remarks\<close>

text \<open>
  The children of a collection are read beside the collection: a required child that has a value is
  reported. A parameter is checked for its type though it is not displayed. A locator that is \<open>null\<close> makes
  the check fail with a \<open>TypeError\<close>.
\<close>

definition extra_options :: INodeProperties where
  "extra_options = INodeProperties ''Options'' ''options'' ''collection'' (JObj []) False None None False None None None
     (Some [OptionProperties required_url])"

lemma child_of_collection_is_not_found:
  "parameter_checks plain_checks [extra_options]
     ((plain_node 1 ''A'' ''fetch'')\<lparr>parameters := [(''options'', JObj [(''url'', JStr ''n8n.io'')])]\<rparr>) None =
   Inr (Some (no_issues\<lparr>iss_parameters := Some [(''url'', [required_message required_url])]\<rparr>))"
  by code_simp

definition hidden_number :: INodeProperties where
  "hidden_number = INodeProperties ''Limit'' ''limit'' ''number'' (JInt 0) False
     (Some [(''show'', [(''paged'', [Plain (JBool True)])])]) None False None (Some ''number'') None None"

lemma hidden_parameter_is_validated:
  "displayParameter plain_lib (JObj [(''limit'', JStr ''x'')]) hidden_number (Some (Decimal 1 0)) None = Inr False \<and>
   (\<exists>issues. parameter_checks plain_checks [hidden_number]
     ((plain_node 1 ''A'' ''fetch'')\<lparr>parameters := [(''limit'', JStr ''x'')]\<rparr>) None = Inr (Some issues))"
proof -
  have "map_option (\<lambda>_. ()) (projr (parameter_checks plain_checks [hidden_number]
      ((plain_node 1 ''A'' ''fetch'')\<lparr>parameters := [(''limit'', JStr ''x'')]\<rparr>) None)) = Some ()"
    "case parameter_checks plain_checks [hidden_number]
      ((plain_node 1 ''A'' ''fetch'')\<lparr>parameters := [(''limit'', JStr ''x'')]\<rparr>) None of Inl _ \<Rightarrow> False | Inr _ \<Rightarrow> True"
    by code_simp+
  moreover have "displayParameter plain_lib (JObj [(''limit'', JStr ''x'')]) hidden_number (Some (Decimal 1 0)) None = Inr False"
    by code_simp
  ultimately show ?thesis by (auto split: sum.splits)
qed

lemma null_locator_throws:
  "parameter_checks plain_checks
     [INodeProperties ''Sheet'' ''sheet'' ''resourceLocator'' JNull True None None False None None None None]
     ((plain_node 1 ''A'' ''fetch'')\<lparr>parameters := [(''sheet'', JNull)]\<rparr>) None = Inl TypeError"
  by code_simp

section \<open>Merging properties\<close>

lemma merge_property_names:
  assumes "distinct (map np_name ps)"
  shows "distinct (map np_name (merge_property q ps))"
    and "x \<in> set (merge_property q ps) \<longleftrightarrow>
      (if np_doNotInherit q then x \<in> set ps else x = q \<or> x \<in> set ps \<and> np_name x \<noteq> np_name q)"
proof -
  let ?find = "find (\<lambda>i. np_name (ps ! i) = np_name q) [0..<length ps]"
  have "distinct (map np_name (merge_property q ps)) \<and> (x \<in> set (merge_property q ps) \<longleftrightarrow>
      (if np_doNotInherit q then x \<in> set ps else x = q \<or> x \<in> set ps \<and> np_name x \<noteq> np_name q))"
  proof (cases ?find)
    case None
    then have "np_name q \<notin> np_name ` set ps" by (fastforce simp: find_None_iff in_set_conv_nth)
    then have "np_name x \<noteq> np_name q" if "x \<in> set ps" using that by (metis image_eqI)
    with assms None \<open>np_name q \<notin> np_name ` set ps\<close> show ?thesis by (auto simp: merge_property_def)
  next
    case (Some i)
    then have i: "i < length ps" "np_name (ps ! i) = np_name q" by (auto simp: find_Some_iff)
    have names: "map np_name (ps[i := q]) = map np_name ps" using i by (simp add: map_update list_update_same_conv)
    have other: "np_name (ps ! j) \<noteq> np_name q" if "j < length ps" "j \<noteq> i" for j
      using that i assms by (metis length_map nth_eq_iff_index_eq nth_map)
    have "x \<in> set (ps[i := q]) \<longleftrightarrow> x = q \<or> x \<in> set ps \<and> np_name x \<noteq> np_name q"
      using i other by (auto simp: in_set_conv_nth nth_list_update) metis+
    with assms names Some show ?thesis by (auto simp: merge_property_def)
  qed
  then show "distinct (map np_name (merge_property q ps))"
    and "x \<in> set (merge_property q ps) \<longleftrightarrow>
      (if np_doNotInherit q then x \<in> set ps else x = q \<or> x \<in> set ps \<and> np_name x \<noteq> np_name q)" by simp_all
qed

text \<open>Merging keeps names distinct, and a property that is added wins over one of its name.\<close>

lemma mergeNodeProperties_last_wins:
  assumes "distinct (map np_name ps)" "distinct (map np_name qs)"
  shows "distinct (map np_name (mergeNodeProperties ps qs)) \<and>
    (x \<in> set (mergeNodeProperties ps qs) \<longleftrightarrow>
      x \<in> set qs \<and> \<not> np_doNotInherit x \<or>
      x \<in> set ps \<and> (\<forall>q \<in> set qs. \<not> np_doNotInherit q \<longrightarrow> np_name q \<noteq> np_name x))"
  using assms
proof (induction qs arbitrary: ps)
  case (Cons q qs)
  have q: "np_name q \<noteq> np_name x" if "x \<in> set qs" using that Cons.prems(2) by (auto simp: image_iff)
  have merged: "distinct (map np_name (merge_property q ps))" "x \<in> set (merge_property q ps) \<longleftrightarrow>
      (if np_doNotInherit q then x \<in> set ps else x = q \<or> x \<in> set ps \<and> np_name x \<noteq> np_name q)"
    using merge_property_names [OF Cons.prems(1)] by blast+
  have fresh: "np_name r \<noteq> np_name q" if "r \<in> set qs" for r using that Cons.prems(2) by (auto simp: image_iff)
  have "mergeNodeProperties ps (q # qs) = mergeNodeProperties (merge_property q ps) qs"
    by (simp add: mergeNodeProperties_def)
  moreover have "distinct (map np_name qs)" using Cons.prems(2) by simp
  ultimately show ?case using Cons.IH [OF merged(1)] merged(2) q fresh
    by (cases "np_doNotInherit q") auto
qed (simp add: mergeNodeProperties_def)

end
