(* ===== verification/ExecutionMetadata.thy ===== *)
theory ExecutionMetadata
  imports JsText
begin

text \<open>
  The metadata that an execution can keep (\<open>packages/core/src/ExecutionMetadata.ts\<close>). The state is
  \<open>executionData.resultData.metadata\<close>, \<open>None\<close> as long as it is not set. Keys and values come from the
  code of users, so that they can be any value. \<open>in\<close> and a read also find what objects inherit.
\<close>

type_synonym metadata = "string jsobj option"

definition KV_LIMIT :: nat where
  "KV_LIMIT = 10"

text \<open>\<open>in\<close>; an assignment of a text to \<open>__proto__\<close> has no effect.\<close>

definition is_in :: "string \<Rightarrow> string jsobj \<Rightarrow> bool" where
  "is_in k m = (obj_has m k \<or> k \<in> set inherited_names)"

definition assign :: "string \<Rightarrow> string \<Rightarrow> string jsobj \<Rightarrow> string jsobj" where
  "assign k v m = (if k = ''__proto__'' then m else obj_put k v m)"

section \<open>Setting metadata\<close>

definition InvalidExecutionMetadataError :: "string \<Rightarrow> jsval \<Rightarrow> string option \<Rightarrow> js_error" where
  "InvalidExecutionMetadataError type key message =
     ApplicationError (case message of
       Some m \<Rightarrow> m
     | None \<Rightarrow> ''Custom data '' @ type @ ''s must be a string (key '' @ CHR 0x22 # js_string key @ CHR 0x22 # '')'')"

definition metadata_text :: "jsval \<Rightarrow> string option" where
  "metadata_text v = (case v of JStr s \<Rightarrow> Some s | JNum n \<Rightarrow> Some (show_number n) | _ \<Rightarrow> None)"

text \<open>The metadata afterwards, also when the call throws.\<close>

definition setWorkflowExecutionMetadata :: "jsval \<Rightarrow> jsval \<Rightarrow> metadata \<Rightarrow> metadata \<times> unit res" where
  "setWorkflowExecutionMetadata key val executionData =
     (let m = (case executionData of None \<Rightarrow> [] | Some m \<Rightarrow> m) in
      if \<not> is_in (js_string key) m \<and> KV_LIMIT \<le> length m then (Some m, Inr ())
      else (case key of
        JStr k \<Rightarrow>
          if filter (\<lambda>c. \<not> is_word_char c) k \<noteq> [] then
            (Some m, Inl (InvalidExecutionMetadataError ''key'' key
               (Some (''Custom date key can only contain characters '' @ CHR 0x22 # ''A-Za-z0-9_'' @ CHR 0x22 # '' (key '' @
                 CHR 0x22 # k @ CHR 0x22 # '')''))))
          else (case metadata_text val of
              None \<Rightarrow> (Some m, Inl (InvalidExecutionMetadataError ''value'' key None))
            | Some v \<Rightarrow> (Some (assign (take 50 k) (take 255 v) m), Inr ()))
      | _ \<Rightarrow> (Some m, Inl (InvalidExecutionMetadataError ''key'' key None))))"

definition setAllWorkflowExecutionMetadata :: "jsval jsobj \<Rightarrow> metadata \<Rightarrow> metadata \<times> unit res" where
  "setAllWorkflowExecutionMetadata ob executionData =
     (let (executionData', errors) =
        fold (\<lambda>(key, val) (data, errors).
          case setWorkflowExecutionMetadata (JStr key) val data of
            (data', Inl e) \<Rightarrow> (data', errors @ [e])
          | (data', Inr _) \<Rightarrow> (data', errors)) ob (executionData, [])
      in (executionData', case errors of [] \<Rightarrow> Inr () | e # _ \<Rightarrow> Inl e))"

section \<open>Reading metadata\<close>

definition getAllWorkflowExecutionMetadata :: "metadata \<Rightarrow> string jsobj" where
  "getAllWorkflowExecutionMetadata executionData = (case executionData of None \<Rightarrow> [] | Some m \<Rightarrow> m)"

datatype metadata_read = Own string | Inherited string | Missing

definition getWorkflowExecutionMetadata :: "metadata \<Rightarrow> jsval \<Rightarrow> metadata_read" where
  "getWorkflowExecutionMetadata executionData key =
     (let k = take 50 (js_string key) in
      case map_of (getAllWorkflowExecutionMetadata executionData) k of
        Some v \<Rightarrow> Own v
      | None \<Rightarrow> if k \<in> set inherited_names then Inherited k else Missing)"

section \<open>Bounds\<close>

definition own_names :: "string jsobj \<Rightarrow> string set" where
  "own_names m = fst ` set m - set inherited_names"

definition metadata_ok :: "string jsobj \<Rightarrow> bool" where
  "metadata_ok m \<longleftrightarrow> distinct (map fst m) \<and> ''__proto__'' \<notin> fst ` set m \<and> card (own_names m) \<le> KV_LIMIT \<and>
     list_all (\<lambda>(k, v). length k \<le> 50 \<and> list_all is_word_char k \<and> length v \<le> 255) m"

lemma set_obj_put: "distinct (map fst m) \<Longrightarrow> set (obj_put k v m) = insert (k, v) {x \<in> set m. fst x \<noteq> k}"
proof -
  assume m: "distinct (map fst m)"
  then have "distinct (map fst (obj_put k v m))" by (rule obj_put_distinct)
  then have "x \<in> set (obj_put k v m) \<longleftrightarrow> ((map_of m)(k \<mapsto> v)) (fst x) = Some (snd x)" for x
    by (cases x) (simp flip: map_of_eq_Some_iff)
  with m show ?thesis by (auto split: if_splits)
qed

lemma inherited_name_short: "k \<in> set inherited_names \<Longrightarrow> length k \<le> 50"
  by (auto simp: inherited_names_def)

lemma own_names_obj_put:
  "distinct (map fst m) \<Longrightarrow> own_names (obj_put k v m) = own_names m \<union> ({k} - set inherited_names)"
  by (force simp: own_names_def set_obj_put)

lemma card_own_names_obj_put:
  assumes "metadata_ok m" "is_in k m \<or> length m < KV_LIMIT"
  shows "card (own_names (obj_put (take 50 k) v m)) \<le> KV_LIMIT"
proof -
  have m: "distinct (map fst m)" "card (own_names m) \<le> KV_LIMIT"
    using assms(1) by (simp_all add: metadata_ok_def)
  have finite: "finite (own_names m)" by (simp add: own_names_def)
  consider "take 50 k \<in> own_names m \<union> set inherited_names" | "length m < KV_LIMIT"
  proof (cases "is_in k m")
    case True
    have "length k \<le> 50 \<and> k \<in> own_names m \<union> set inherited_names"
    proof (cases "k \<in> set inherited_names")
      case False
      with True obtain v where "(k, v) \<in> set m" by (auto simp: is_in_def obj_has_def dest: map_of_SomeD)
      with False assms(1) show ?thesis by (force simp: own_names_def metadata_ok_def list_all_iff)
    qed (simp add: inherited_name_short)
    then show ?thesis using that(1) by simp
  qed (use assms(2) that(2) in simp)
  then show ?thesis
  proof cases
    case 1
    then have "own_names (obj_put (take 50 k) v m) = own_names m"
      unfolding own_names_obj_put [OF m(1)] by auto
    with m show ?thesis by simp
  next
    case 2
    have "card (own_names m) \<le> card (fst ` set m)" by (rule card_mono) (auto simp: own_names_def)
    also have "\<dots> \<le> length m" by (metis card_length length_map list.set_map)
    finally have "card (insert (take 50 k) (own_names m)) \<le> KV_LIMIT"
      using 2 finite by (simp add: card_insert_if)
    moreover have "own_names (obj_put (take 50 k) v m) \<subseteq> insert (take 50 k) (own_names m)"
      unfolding own_names_obj_put [OF m(1)] by auto
    ultimately show ?thesis using finite by (meson card_mono finite.insertI le_trans)
  qed
qed

lemma metadata_ok_assign:
  assumes "metadata_ok m" "is_in k m \<or> length m < KV_LIMIT" "list_all is_word_char k"
  shows "metadata_ok (assign (take 50 k) (take 255 v) m)"
proof (cases "take 50 k = ''__proto__''")
  case False
  from assms(3) have "list_all is_word_char (take 50 k)"
    by (metis append_take_drop_id list_all_append)
  with False assms card_own_names_obj_put [OF assms(1,2)] show ?thesis
    by (auto simp: assign_def metadata_ok_def obj_put_distinct set_obj_put list_all_iff)
qed (simp add: assign_def assms)

lemma setWorkflowExecutionMetadata_ok:
  assumes "metadata_ok (getAllWorkflowExecutionMetadata data)"
  shows "metadata_ok (getAllWorkflowExecutionMetadata (fst (setWorkflowExecutionMetadata key val data)))"
  using assms metadata_ok_assign
  by (auto simp: setWorkflowExecutionMetadata_def getAllWorkflowExecutionMetadata_def Let_def not_le list_all_iff
      filter_empty_conv split: jsval.split option.splits)

lemma length_metadata:
  assumes "metadata_ok m" shows "length m \<le> KV_LIMIT + 11"
proof -
  have "length m = card (fst ` set m)"
    using assms distinct_card [of "map fst m"] by (simp add: metadata_ok_def)
  also have "fst ` set m \<subseteq> own_names m \<union> (set inherited_names - {''__proto__''})"
    using assms by (force simp: own_names_def metadata_ok_def)
  then have "card (fst ` set m) \<le> card (own_names m \<union> (set inherited_names - {''__proto__''}))"
    by (rule card_mono [rotated]) (simp add: own_names_def)
  also have "\<dots> \<le> card (own_names m) + card (set inherited_names - {''__proto__''})" by (rule card_Un_le)
  also have "card (set inherited_names - {''__proto__''}) = 11" by (simp add: inherited_names_def)
  finally show ?thesis using assms by (simp add: metadata_ok_def)
qed

text \<open>Whatever calls are made, at most ten keys that objects do not inherit are kept, and at most 21
  keys in all; keys are words of at most 50 characters, values have at most 255.\<close>

theorem metadata_is_bounded:
  "let m = getAllWorkflowExecutionMetadata
       (fold (\<lambda>(key, val) data. fst (setWorkflowExecutionMetadata key val data)) calls None)
   in card (own_names m) \<le> KV_LIMIT \<and> length m \<le> KV_LIMIT + 11 \<and>
     list_all (\<lambda>(k, v). length k \<le> 50 \<and> list_all is_word_char k \<and> length v \<le> 255) m"
proof -
  have "metadata_ok (getAllWorkflowExecutionMetadata data) \<Longrightarrow> metadata_ok (getAllWorkflowExecutionMetadata
      (fold (\<lambda>(key, val) data. fst (setWorkflowExecutionMetadata key val data)) calls data))" for data
    by (induction calls arbitrary: data) (auto simp: setWorkflowExecutionMetadata_ok)
  moreover have "metadata_ok (getAllWorkflowExecutionMetadata None)"
    by (simp add: getAllWorkflowExecutionMetadata_def metadata_ok_def own_names_def)
  ultimately have "metadata_ok (getAllWorkflowExecutionMetadata
      (fold (\<lambda>(key, val) data. fst (setWorkflowExecutionMetadata key val data)) calls None))" by blast
  then show ?thesis by (simp add: Let_def length_metadata) (simp add: metadata_ok_def)
qed

section \<open>Reading what was set\<close>

text \<open>A call that is let in and does not throw is read back, shortened.\<close>

lemma read_what_was_set:
  assumes "setWorkflowExecutionMetadata (JStr k) val data = (data', Inr ())"
    and "is_in k (getAllWorkflowExecutionMetadata data) \<or> length (getAllWorkflowExecutionMetadata data) < KV_LIMIT"
    and "metadata_text val = Some v" "k \<noteq> ''__proto__''"
  shows "getWorkflowExecutionMetadata data' (JStr k) = Own (take 255 v)"
proof -
  have "take 50 k \<noteq> ''__proto__''"
  proof
    assume "take 50 k = ''__proto__''"
    moreover from this have "length (take 50 k) = 9" by simp
    then have "take 50 k = k" by simp
    ultimately show False using assms(4) by simp
  qed
  with assms show ?thesis
    by (auto simp: setWorkflowExecutionMetadata_def getWorkflowExecutionMetadata_def assign_def
        getAllWorkflowExecutionMetadata_def Let_def split: if_splits option.splits)
qed

text \<open>
  The names that objects inherit are let in above the limit, and a key of more than 50 characters that
  is kept, shortened, cannot be set again at the limit.
\<close>

definition ten_entries :: "string jsobj" where
  "ten_entries = map (\<lambda>i. (CHR ''k'' # show_nat i, ''v'')) [0..<10]"

lemma inherited_names_pass_the_limit:
  "length (getAllWorkflowExecutionMetadata
     (fst (setWorkflowExecutionMetadata (JStr ''toString'') (JStr ''v'') (Some ten_entries)))) = 11"
  by code_simp

lemma long_key_stays_at_the_limit:
  "let k = replicate 51 (CHR ''k''); data = Some ((take 50 k, ''old'') # take 9 ten_entries) in
     setWorkflowExecutionMetadata (JStr k) (JStr ''new'') data = (data, Inr ()) \<and>
     getWorkflowExecutionMetadata data (JStr k) = Own ''old''"
  by code_simp

end
