(* ===== verification/WaitTracker.thy ===== *)
theory WaitTracker
  imports JsPrelude
begin

text \<open>
  Executions that wait (\<open>packages/cli/src/wait-tracker.ts\<close>). The leader asks the database every minute for
  executions that are due within 70 seconds, and sets a timer for each. The steps of the system are the
  events of the leadership, of timers and of the database; time is in milliseconds. What was found and
  what was started is recorded beside the state of the class.
\<close>

section \<open>State\<close>

record Timeout =
  to_ref :: nat
  to_execution :: string
  to_due :: int

record WaitTracker =
  waitingExecutions :: "nat jsobj"
  mainTimer :: "nat option"
  intervals :: "nat list"
  timeouts :: "Timeout list"
  nextRef :: nat
  queries :: nat
  clock :: int
  found :: "(string \<times> int) list"
  started :: "(string \<times> int) list"
  wasStopped :: bool

definition new_tracker :: "int \<Rightarrow> WaitTracker" where
  "new_tracker now = \<lparr>waitingExecutions = [], mainTimer = None, intervals = [], timeouts = [], nextRef = 0,
     queries = 0, clock = now, found = [], started = [], wasStopped = False\<rparr>"

definition has_waiting :: "string \<Rightarrow> WaitTracker \<Rightarrow> bool" where
  "has_waiting executionId s = obj_has (waitingExecutions s) executionId"

section \<open>Timers of the run-time system\<close>

text \<open>A delay of \<open>setTimeout\<close> that is below one or does not fit into 32 bits is one millisecond.\<close>

definition timeout_delay :: "int \<Rightarrow> int" where
  "timeout_delay ms = (if ms < 1 \<or> ms > 2147483647 then 1 else ms)"

definition clearTimeout :: "nat \<Rightarrow> WaitTracker \<Rightarrow> WaitTracker" where
  "clearTimeout ref s = s\<lparr>timeouts := filter (\<lambda>t. to_ref t \<noteq> ref) (timeouts s)\<rparr>"

definition clearInterval :: "nat option \<Rightarrow> WaitTracker \<Rightarrow> WaitTracker" where
  "clearInterval ref s = s\<lparr>intervals := filter (\<lambda>i. Some i \<noteq> ref) (intervals s)\<rparr>"

section \<open>Operations\<close>

text \<open>The call sends a query; its answer is handled by \<open>set_timers\<close>.\<close>

definition getWaitingExecutions :: "WaitTracker \<Rightarrow> WaitTracker" where
  "getWaitingExecutions s = s\<lparr>queries := Suc (queries s)\<rparr>"

definition startTracking :: "WaitTracker \<Rightarrow> WaitTracker" where
  "startTracking s =
     getWaitingExecutions (s\<lparr>mainTimer := Some (nextRef s), intervals := intervals s @ [nextRef s],
       nextRef := Suc (nextRef s)\<rparr>)"

definition init_tracker :: "bool \<Rightarrow> WaitTracker \<Rightarrow> WaitTracker" where
  "init_tracker isLeader s = (if isLeader then startTracking s else s)"

definition set_timer :: "string \<times> int \<Rightarrow> WaitTracker \<Rightarrow> WaitTracker" where
  "set_timer execution s =
     (case execution of (executionId, waitTill) \<Rightarrow>
        if \<not> has_waiting executionId s then
          let triggerTime = waitTill - clock s in
          s\<lparr>waitingExecutions := obj_put executionId (nextRef s) (waitingExecutions s),
            timeouts := timeouts s @ [\<lparr>to_ref = nextRef s, to_execution = executionId,
              to_due = clock s + timeout_delay triggerTime\<rparr>],
            nextRef := Suc (nextRef s)\<rparr>
        else s)"

definition set_timers :: "(string \<times> int) list \<Rightarrow> WaitTracker \<Rightarrow> WaitTracker" where
  "set_timers executions s =
     fold set_timer executions (s\<lparr>queries := queries s - 1, found := found s @ executions\<rparr>)"

definition forget :: "string \<Rightarrow> WaitTracker \<Rightarrow> WaitTracker" where
  "forget executionId s = s\<lparr>waitingExecutions := AList.delete executionId (waitingExecutions s)\<rparr>"

definition stopWaitingExecution :: "string \<Rightarrow> WaitTracker \<Rightarrow> WaitTracker" where
  "stopWaitingExecution executionId s =
     (case map_of (waitingExecutions s) executionId of
        None \<Rightarrow> s
      | Some ref \<Rightarrow> forget executionId (clearTimeout ref s))"

text \<open>The first part of \<open>startExecution\<close>; the rest goes on by itself with the data of the execution.\<close>

definition startExecution :: "string \<Rightarrow> WaitTracker \<Rightarrow> WaitTracker" where
  "startExecution executionId s = (forget executionId s)\<lparr>started := started s @ [(executionId, clock s)]\<rparr>"

definition stopTracking :: "WaitTracker \<Rightarrow> WaitTracker" where
  "stopTracking s =
     fold clearTimeout (map_values (waitingExecutions s)) ((clearInterval (mainTimer s) s)\<lparr>wasStopped := True\<rparr>)"

text \<open>What \<open>startExecution\<close> hands to the runner; an error is reported. The id of the workflow is kept apart
  from its other data.\<close>

record IExecutionResponse =
  er_finished :: bool
  er_workflowId :: "string option"
  er_mode :: string
  er_data :: jsval
  er_workflowData :: jsval

record ResumeData =
  rd_executionMode :: string
  rd_executionData :: jsval
  rd_workflowData :: jsval
  rd_projectId :: string

definition execution_to_run ::
  "(string \<Rightarrow> string res) \<Rightarrow> IExecutionResponse option \<Rightarrow> ResumeData res" where
  "execution_to_run getWorkflowProjectCached fullExecutionData =
     (case fullExecutionData of
        None \<Rightarrow> Inl (ApplicationError ''Execution does not exist.'')
      | Some ex \<Rightarrow>
          if er_finished ex then
            Inl (ApplicationError ''The execution did succeed and can so not be started again.'')
          else (case er_workflowId ex of
              None \<Rightarrow> Inl (ApplicationError ''Only saved workflows can be resumed.'')
            | Some workflowId \<Rightarrow>
                if workflowId = [] then Inl (ApplicationError ''Only saved workflows can be resumed.'')
                else bindR (getWorkflowProjectCached workflowId) (\<lambda>projectId.
                  Inr \<lparr>rd_executionMode = er_mode ex, rd_executionData = er_data ex,
                    rd_workflowData = er_workflowData ex, rd_projectId = projectId\<rparr>)))"

section \<open>Steps\<close>

text \<open>The database answers with executions that are due at most 70 seconds after the query.\<close>

definition query_window :: int where
  "query_window = 70000"

inductive tracker_step :: "WaitTracker \<Rightarrow> WaitTracker \<Rightarrow> bool" where
  takeover: "tracker_step s (startTracking s)"
| stepdown: "tracker_step s (stopTracking s)"
| interval: "i \<in> set (intervals s) \<Longrightarrow> tracker_step s (getWaitingExecutions s)"
| answer: "0 < queries s \<Longrightarrow> list_all (\<lambda>(executionId, waitTill). waitTill \<le> clock s + query_window) executions \<Longrightarrow>
    tracker_step s (set_timers executions s)"
| fires: "t \<in> set (timeouts s) \<Longrightarrow> to_due t \<le> clock s \<Longrightarrow>
    tracker_step s (startExecution (to_execution t) (clearTimeout (to_ref t) s))"
| stop: "tracker_step s (stopWaitingExecution executionId s)"
| tick: "clock s \<le> now \<Longrightarrow> tracker_step s (s\<lparr>clock := now\<rparr>)"

inductive tracker_reachable :: "WaitTracker \<Rightarrow> bool" where
  init: "tracker_reachable (init_tracker isLeader (new_tracker now))"
| step: "tracker_reachable s \<Longrightarrow> tracker_step s s' \<Longrightarrow> tracker_reachable s'"

section \<open>Invariant\<close>

definition occurrences :: "string \<Rightarrow> (string \<times> int) list \<Rightarrow> nat" where
  "occurrences executionId log = length (filter (\<lambda>x. fst x = executionId) log)"

definition pending_timers :: "string \<Rightarrow> WaitTracker \<Rightarrow> Timeout list" where
  "pending_timers executionId s = filter (\<lambda>t. to_execution t = executionId) (timeouts s)"

text \<open>Every timer belongs to the entry of its execution, with a number of its own.\<close>

definition tracked_entries_ok :: "WaitTracker \<Rightarrow> bool" where
  "tracked_entries_ok s \<longleftrightarrow>
     (\<forall>i r. map_of (waitingExecutions s) i = Some r \<longrightarrow>
        r < nextRef s \<and> (\<forall>j. map_of (waitingExecutions s) j = Some r \<longrightarrow> j = i))"

definition timers_ok :: "WaitTracker \<Rightarrow> bool" where
  "timers_ok s \<longleftrightarrow> tracked_entries_ok s \<and> distinct (map fst (waitingExecutions s)) \<and> distinct (map to_ref (timeouts s)) \<and>
     (\<forall>t \<in> set (timeouts s). map_of (waitingExecutions s) (to_execution t) = Some (to_ref t) \<and> to_ref t < nextRef s)"

text \<open>A timer, and a start, comes from an answer, and not before the time of the answer.\<close>

definition due_ok :: "WaitTracker \<Rightarrow> bool" where
  "due_ok s \<longleftrightarrow>
     (\<forall>t \<in> set (timeouts s). \<exists>w. (to_execution t, w) \<in> set (found s) \<and> w \<le> to_due t) \<and>
     (\<forall>(executionId, time) \<in> set (started s). \<exists>w. (executionId, w) \<in> set (found s) \<and> w \<le> time)"

definition counts_ok :: "WaitTracker \<Rightarrow> bool" where
  "counts_ok s \<longleftrightarrow> (\<forall>executionId.
     occurrences executionId (started s) + length (pending_timers executionId s) \<le> occurrences executionId (found s))"

definition entries_timed :: "WaitTracker \<Rightarrow> bool" where
  "entries_timed s \<longleftrightarrow> (wasStopped s \<or> (\<forall>executionId ref. map_of (waitingExecutions s) executionId = Some ref \<longrightarrow>
     (\<exists>t \<in> set (timeouts s). to_ref t = ref \<and> to_execution t = executionId)))"

lemmas tracker_defs = timers_ok_def due_ok_def counts_ok_def entries_timed_def

definition tracker_ok :: "WaitTracker \<Rightarrow> bool" where
  "tracker_ok s \<longleftrightarrow> timers_ok s \<and> due_ok s \<and> counts_ok s \<and> entries_timed s"

declare map_of_eq_Some_iff [simp del]

text \<open>Steps that leave entries and timers alone.\<close>

lemma timers_ok_same:
  assumes "timers_ok s" "waitingExecutions s' = waitingExecutions s" "timeouts s' = timeouts s" "nextRef s \<le> nextRef s'"
  shows "timers_ok s'"
  using assms(1,4) unfolding timers_ok_def tracked_entries_ok_def assms(2,3) by (meson less_le_trans)

lemma due_ok_same:
  assumes "due_ok s" "timeouts s' = timeouts s" "started s' = started s" "set (found s) \<subseteq> set (found s')"
  shows "due_ok s'"
  using assms(1,4) unfolding due_ok_def assms(2,3) by fast

lemma tracker_ok_same:
  assumes "tracker_ok s" "waitingExecutions s' = waitingExecutions s" "timeouts s' = timeouts s" "nextRef s \<le> nextRef s'"
    and "started s' = started s" "found s' = found s" "wasStopped s' = wasStopped s"
  shows "tracker_ok s'"
  using assms timers_ok_same [of s s'] due_ok_same [of s s']
  by (simp add: tracker_ok_def counts_ok_def entries_timed_def pending_timers_def)

lemma pending_at_most_one:
  assumes "timers_ok s" shows "length (pending_timers executionId s) \<le> 1"
proof -
  have "t = u" if "t \<in> set (pending_timers executionId s)" "u \<in> set (pending_timers executionId s)" for t u
  proof -
    from that assms have "map_of (waitingExecutions s) executionId = Some (to_ref t)"
      "map_of (waitingExecutions s) executionId = Some (to_ref u)"
      by (auto simp: timers_ok_def pending_timers_def)
    then have "to_ref t = to_ref u" by simp
    with that assms show ?thesis by (auto simp: timers_ok_def pending_timers_def distinct_map inj_on_def)
  qed
  moreover have "distinct (pending_timers executionId s)" using assms by (simp add: timers_ok_def pending_timers_def distinct_map)
  ultimately show ?thesis using card_le_Suc0_iff_eq [of "set (pending_timers executionId s)"]
    by (simp flip: distinct_card)
qed

lemma start_waitTill: "w \<le> now + query_window \<Longrightarrow> w \<le> now + timeout_delay (w - now)"
  by (auto simp: timeout_delay_def query_window_def)

lemma set_timer_ok:
  assumes "timers_ok s" "due_ok s" "entries_timed s" "(executionId, w) \<in> set (found s)" "w \<le> clock s + query_window"
  shows "timers_ok (set_timer (executionId, w) s) \<and> due_ok (set_timer (executionId, w) s) \<and>
    entries_timed (set_timer (executionId, w) s)"
proof (cases "has_waiting executionId s")
  case False
  then have "map_of (waitingExecutions s) executionId = None" by (simp add: has_waiting_def obj_has_def)
  moreover have "to_ref t \<noteq> nextRef s" if "t \<in> set (timeouts s)" for t using assms(1) that by (auto simp: timers_ok_def)
  moreover have "tracked_entries_ok (set_timer (executionId, w) s)"
  proof -
    have "r < nextRef s" "j = i" if "map_of (waitingExecutions s) i = Some r" "map_of (waitingExecutions s) j = Some r" for i j r
      using assms(1) that by (auto simp: timers_ok_def tracked_entries_ok_def)
    with False show ?thesis
      by (auto simp: set_timer_def Let_def tracked_entries_ok_def less_SucI)
  qed
  ultimately show ?thesis using assms False start_waitTill [OF assms(5)]
    by (auto simp: set_timer_def Let_def tracker_defs obj_put_distinct fun_upd_apply image_iff)
qed (simp add: set_timer_def assms)

lemma set_timer_simps [simp]:
  "found (set_timer e s) = found s" "started (set_timer e s) = started s" "clock (set_timer e s) = clock s"
  "wasStopped (set_timer e s) = wasStopped s"
  by (simp_all add: set_timer_def Let_def split: prod.split)

lemma set_timers_simps [simp]:
  "found (fold set_timer es s) = found s" "started (fold set_timer es s) = started s"
  "clock (fold set_timer es s) = clock s" "wasStopped (fold set_timer es s) = wasStopped s"
  by (induction es arbitrary: s) simp_all

lemma set_timer_fold_ok:
  assumes "timers_ok s \<and> due_ok s \<and> entries_timed s" "set es \<subseteq> set (found s)"
    and "list_all (\<lambda>(executionId, w). w \<le> clock s + query_window) es"
  shows "timers_ok (fold set_timer es s) \<and> due_ok (fold set_timer es s) \<and> entries_timed (fold set_timer es s)"
  using assms
proof (induction es arbitrary: s)
  case (Cons e es)
  obtain executionId w where e: "e = (executionId, w)" by (cases e)
  show ?case using Cons.IH [of "set_timer e s"] Cons.prems set_timer_ok [of s executionId w] by (simp add: e)
qed simp

lemma pending_set_timer:
  "length (pending_timers executionId (set_timer e s)) \<le> length (pending_timers executionId s) + (if fst e = executionId then 1 else 0)"
  by (simp add: set_timer_def pending_timers_def Let_def split: prod.split)

lemma pending_set_timers:
  "length (pending_timers executionId (fold set_timer es s)) \<le> length (pending_timers executionId s) + occurrences executionId es"
proof (induction es arbitrary: s)
  case (Cons e es)
  show ?case using Cons.IH [of "set_timer e s"] pending_set_timer [of executionId e s]
    by (simp add: occurrences_def split: if_splits)
qed (simp add: occurrences_def)

lemma answer_ok:
  assumes "tracker_ok s" "list_all (\<lambda>(executionId, waitTill). waitTill \<le> clock s + query_window) es"
  shows "tracker_ok (set_timers es s)"
proof -
  let ?s = "s\<lparr>queries := queries s - 1, found := found s @ es\<rparr>"
  have "timers_ok ?s \<and> due_ok ?s \<and> entries_timed ?s"
    using assms(1) timers_ok_same [of s ?s] due_ok_same [of s ?s] by (simp add: tracker_ok_def entries_timed_def)
  then have ok: "timers_ok (set_timers es s) \<and> due_ok (set_timers es s) \<and> entries_timed (set_timers es s)"
    unfolding set_timers_def using assms(2) by (intro set_timer_fold_ok) auto
  have "occurrences executionId (started s) + length (pending_timers executionId (set_timers es s)) \<le>
      occurrences executionId (found s) + occurrences executionId es" for executionId
  proof -
    have "occurrences executionId (started s) + length (pending_timers executionId s) \<le> occurrences executionId (found s)"
      using assms(1) by (simp add: tracker_ok_def counts_ok_def)
    moreover have "pending_timers executionId ?s = pending_timers executionId s" by (simp add: pending_timers_def)
    then have "length (pending_timers executionId (set_timers es s)) \<le> length (pending_timers executionId s) + occurrences executionId es"
      using pending_set_timers [of executionId es ?s] by (simp add: set_timers_def)
    ultimately show ?thesis by linarith
  qed
  then have "counts_ok (set_timers es s)"
    by (simp add: counts_ok_def set_timers_def occurrences_def)
  with ok show ?thesis by (simp add: tracker_ok_def)
qed

lemma fold_clearTimeout:
  "fold clearTimeout refs s = s\<lparr>timeouts := filter (\<lambda>t. to_ref t \<notin> set refs) (timeouts s)\<rparr>"
  by (induction refs arbitrary: s) (auto simp: clearTimeout_def intro!: arg_cong [where f = "\<lambda>ts. s\<lparr>timeouts := ts\<rparr>" for s] filter_cong)

lemma stopTracking_timeouts: "timers_ok s \<Longrightarrow> timeouts (stopTracking s) = []"
  by (auto simp: stopTracking_def fold_clearTimeout clearInterval_def timers_ok_def map_values_def
      filter_empty_conv image_iff dest!: map_of_SomeD intro: bexI [rotated])

lemma stopTracking_simps [simp]:
  "waitingExecutions (stopTracking s) = waitingExecutions s" "found (stopTracking s) = found s"
  "started (stopTracking s) = started s" "wasStopped (stopTracking s)"
  by (simp_all add: stopTracking_def fold_clearTimeout clearInterval_def)

lemma stepdown_ok:
  assumes "tracker_ok s" shows "tracker_ok (stopTracking s)"
proof -
  have "timeouts (stopTracking s) = []" using assms stopTracking_timeouts by (simp add: tracker_ok_def)
  moreover have "occurrences executionId (started s) \<le> occurrences executionId (found s)" for executionId
    using assms le_trans [OF le_add1] by (fastforce simp: tracker_ok_def counts_ok_def)
  moreover have "nextRef (stopTracking s) = nextRef s"
    by (simp add: stopTracking_def fold_clearTimeout clearInterval_def)
  ultimately show ?thesis using assms by (simp add: tracker_ok_def tracker_defs pending_timers_def tracked_entries_ok_def)
qed

text \<open>Dropping the timer of an execution and its entry leaves those of all others.\<close>

lemma forget_ok:
  assumes "timers_ok s" "entries_timed s" "map_of (waitingExecutions s) executionId = Some ref"
    and "\<And>t. t \<in> set (timeouts s) \<Longrightarrow> to_ref t = ref \<Longrightarrow> to_execution t = executionId"
    and s': "waitingExecutions s' = AList.delete executionId (waitingExecutions s)"
      "timeouts s' = filter (\<lambda>t. to_ref t \<noteq> ref) (timeouts s)" "nextRef s' = nextRef s" "wasStopped s' = wasStopped s"
  shows "timers_ok s' \<and> entries_timed s'"
proof
  have waiting: "map_of (waitingExecutions s') = (map_of (waitingExecutions s))(executionId := None)"
    by (simp add: s' delete_conv')
  have t: "map_of (waitingExecutions s) (to_execution t) = Some (to_ref t)" "to_ref t < nextRef s"
    if "t \<in> set (timeouts s)" for t using assms(1) that by (simp_all add: timers_ok_def)
  have other: "to_execution t \<noteq> executionId" if "t \<in> set (timeouts s)" "to_ref t \<noteq> ref" for t
    using t(1) [OF that(1)] assms(3) that(2) by auto
  have "tracked_entries_ok s'" using assms(1) unfolding timers_ok_def tracked_entries_ok_def waiting s' by auto
  then show "timers_ok s'"
    using assms(1) t other by (simp add: timers_ok_def waiting s' distinct_delete distinct_map_filter)
  show "entries_timed s'"
    using assms(2,4) t unfolding entries_timed_def waiting s' by (fastforce simp: fun_upd_apply split: if_splits)
qed

lemma timeout_of_entry:
  assumes "timers_ok s" "t \<in> set (timeouts s)"
  shows "map_of (waitingExecutions s) (to_execution t) = Some (to_ref t)"
    and "map_of (waitingExecutions s) executionId = Some (to_ref t) \<Longrightarrow> to_execution t = executionId"
  using assms by (auto simp: timers_ok_def tracked_entries_ok_def)

lemma due_ok_filter: "due_ok s \<Longrightarrow> due_ok (s\<lparr>timeouts := filter P (timeouts s), waitingExecutions := ws\<rparr>)"
  by (auto simp: due_ok_def)

lemma counts_ok_filter:
  assumes "counts_ok s" shows "counts_ok (s\<lparr>timeouts := filter P (timeouts s), waitingExecutions := ws\<rparr>)"
proof -
  have "length (filter (\<lambda>t. to_execution t = e) (filter P ts)) \<le> length (filter (\<lambda>t. to_execution t = e) ts)" for e ts
    by (induction ts) auto
  with assms show ?thesis unfolding counts_ok_def pending_timers_def
    by (auto intro: order_trans [OF add_left_mono])
qed

lemma stop_ok:
  assumes "tracker_ok s" shows "tracker_ok (stopWaitingExecution executionId s)"
proof (cases "map_of (waitingExecutions s) executionId")
  case (Some ref)
  then have "to_execution t = executionId" if "t \<in> set (timeouts s)" "to_ref t = ref" for t
    using assms that timeout_of_entry(2) by (auto simp: tracker_ok_def)
  then have "timers_ok (stopWaitingExecution executionId s) \<and> entries_timed (stopWaitingExecution executionId s)"
    using assms Some
    by (intro forget_ok [of s executionId ref]) (simp_all add: tracker_ok_def stopWaitingExecution_def forget_def clearTimeout_def)
  with assms Some due_ok_filter counts_ok_filter show ?thesis
    by (auto simp: tracker_ok_def stopWaitingExecution_def forget_def clearTimeout_def)
qed (simp add: stopWaitingExecution_def assms)

lemma fires_ok:
  assumes "tracker_ok s" "t \<in> set (timeouts s)" "to_due t \<le> clock s"
  shows "tracker_ok (startExecution (to_execution t) (clearTimeout (to_ref t) s))" (is "tracker_ok ?s'")
proof -
  have timers: "timers_ok s" using assms(1) by (simp add: tracker_ok_def)
  note entry = timeout_of_entry(1) [OF timers assms(2)]
  have "timers_ok ?s' \<and> entries_timed ?s'"
  proof (rule forget_ok [OF timers _ entry])
    show "entries_timed s" using assms(1) by (simp add: tracker_ok_def)
    show "to_execution u = to_execution t" if "u \<in> set (timeouts s)" "to_ref u = to_ref t" for u
      using timeout_of_entry(2) [OF timers that(1)] entry that(2) by simp
  qed (simp_all add: startExecution_def forget_def clearTimeout_def)
  moreover have "due_ok ?s'" using assms
    by (fastforce simp: tracker_ok_def due_ok_def startExecution_def forget_def clearTimeout_def)
  moreover have "counts_ok ?s'" unfolding counts_ok_def
  proof
    fix e
    have count: "occurrences e (started s) + length (pending_timers e s) \<le> occurrences e (found s)"
      using assms(1) by (simp add: tracker_ok_def counts_ok_def)
    have "length (pending_timers e ?s') + (if e = to_execution t then 1 else 0) \<le> length (pending_timers e s)"
    proof -
      have "pending_timers e ?s' = filter (\<lambda>u. to_ref u \<noteq> to_ref t) (pending_timers e s)"
        by (simp add: pending_timers_def startExecution_def forget_def clearTimeout_def filter_filter conj_commute)
      moreover have "t \<in> set (pending_timers e s)" if "e = to_execution t" using that assms(2) by (simp add: pending_timers_def)
      moreover have "length (filter P xs) < length xs" if "x \<in> set xs" "\<not> P x" for P and x and xs :: "Timeout list"
        using that by (rule length_filter_less)
      ultimately show ?thesis by (auto simp: Suc_le_eq)
    qed
    with count show "occurrences e (started ?s') + length (pending_timers e ?s') \<le> occurrences e (found ?s')"
      by (auto simp: occurrences_def startExecution_def forget_def clearTimeout_def split: if_splits)
  qed
  ultimately show ?thesis by (simp add: tracker_ok_def)
qed

lemma tracker_step_ok: "tracker_step s s' \<Longrightarrow> tracker_ok s \<Longrightarrow> tracker_ok s'"
proof (induction rule: tracker_step.induct)
  case (takeover s)
  then show ?case by (rule tracker_ok_same) (simp_all add: startTracking_def getWaitingExecutions_def)
next
  case (interval i s)
  from interval(2) show ?case by (rule tracker_ok_same) (simp_all add: getWaitingExecutions_def)
next
  case (tick s now)
  from tick(2) show ?case by (rule tracker_ok_same) simp_all
qed (simp_all add: stepdown_ok answer_ok fires_ok stop_ok)

lemma tracker_reachable_ok: "tracker_reachable s \<Longrightarrow> tracker_ok s"
proof (induction rule: tracker_reachable.induct)
  case (init isLeader now)
  show ?case
    by (simp add: init_tracker_def new_tracker_def startTracking_def getWaitingExecutions_def tracker_ok_def tracker_defs
        tracked_entries_ok_def pending_timers_def occurrences_def)
qed (rule tracker_step_ok)

section \<open>What the tracker guarantees\<close>

text \<open>C20: in every reachable state every start of an execution came no earlier than a time at which the
  database said it waits until, an execution has at most one timer, and it is started or about to be
  started at most as often as it was found.\<close>

theorem starts_are_due:
  assumes "tracker_reachable s"
  shows "list_all (\<lambda>(executionId, time). \<exists>w. (executionId, w) \<in> set (found s) \<and> w \<le> time) (started s) \<and>
    length (pending_timers executionId s) \<le> 1 \<and>
    occurrences executionId (started s) + length (pending_timers executionId s) \<le> occurrences executionId (found s)"
proof -
  from tracker_reachable_ok [OF assms] have ok: "timers_ok s" "due_ok s" "counts_ok s" by (simp_all add: tracker_ok_def)
  from ok(2) have "list_all (\<lambda>(executionId, time). \<exists>w. (executionId, w) \<in> set (found s) \<and> w \<le> time) (started s)"
    by (simp add: due_ok_def list_all_iff)
  with pending_at_most_one [OF ok(1)] ok(3) show ?thesis by (simp add: counts_ok_def)
qed

text \<open>C21: as long as the leadership was not lost, every execution that is tracked has a timer, and when it is
  due the execution can be started.\<close>

theorem tracked_execution_is_started:
  assumes "tracker_reachable s" "\<not> wasStopped s" "has_waiting executionId s"
  shows "\<exists>t \<in> set (timeouts s). to_execution t = executionId \<and>
    (\<forall>now \<ge> to_due t. let s' = s\<lparr>clock := now\<rparr>; s'' = startExecution executionId (clearTimeout (to_ref t) s')
       in tracker_step s' s'' \<and> (executionId, now) \<in> set (started s'') \<and> \<not> has_waiting executionId s'')"
proof -
  from assms(3) obtain ref where "map_of (waitingExecutions s) executionId = Some ref"
    by (auto simp: has_waiting_def obj_has_def)
  with tracker_reachable_ok [OF assms(1)] assms(2) obtain t where t: "t \<in> set (timeouts s)" "to_execution t = executionId"
    by (auto simp: tracker_ok_def entries_timed_def)
  have "tracker_step (s\<lparr>clock := now\<rparr>) (startExecution executionId (clearTimeout (to_ref t) (s\<lparr>clock := now\<rparr>)))"
    if "to_due t \<le> now" for now
    using tracker_step.fires [of t "s\<lparr>clock := now\<rparr>"] t that by simp
  with t show ?thesis
    by (auto simp: Let_def startExecution_def forget_def clearTimeout_def has_waiting_def obj_has_def delete_conv'
        intro!: bexI [of _ t])
qed

text \<open>A leader that has found one execution.\<close>

definition one_waiting :: WaitTracker where
  "one_waiting = set_timers [(''e'', 5)] (init_tracker True (new_tracker 0))"

lemma one_waiting_reachable: "tracker_reachable one_waiting"
  unfolding one_waiting_def
  by (rule tracker_reachable.step [OF tracker_reachable.init], rule tracker_step.answer)
    (simp_all add: init_tracker_def new_tracker_def startTracking_def getWaitingExecutions_def query_window_def)

theorem starts_are_due_witness:
  "occurrences ''e'' (started one_waiting) + length (pending_timers ''e'' one_waiting) \<le> occurrences ''e'' (found one_waiting) \<and>
   length (pending_timers ''e'' one_waiting) = 1"
proof -
  have "length (pending_timers ''e'' one_waiting) = 1" by code_simp
  with starts_are_due [OF one_waiting_reachable, of "''e''"] show ?thesis by simp
qed

theorem tracked_execution_is_started_witness:
  "\<exists>t \<in> set (timeouts one_waiting). to_execution t = ''e''"
proof -
  have "\<not> wasStopped one_waiting" "has_waiting ''e'' one_waiting" by code_simp+
  from tracked_execution_is_started [OF one_waiting_reachable this] show ?thesis by blast
qed

section \<open>Lost and repeated executions\<close>

text \<open>
  \<open>stopTracking\<close> clears the timers but keeps the entries. An entry without a timer stays as it is, whatever
  happens, until the execution is stopped: it is not started any more, because an answer of the database sets
  no timer for it.
\<close>

definition lost :: "string \<Rightarrow> WaitTracker \<Rightarrow> bool" where
  "lost executionId s \<longleftrightarrow> has_waiting executionId s \<and> pending_timers executionId s = []"

lemma stopTracking_loses:
  "timers_ok s \<Longrightarrow> has_waiting executionId s \<Longrightarrow> lost executionId (stopTracking s)"
  by (simp add: lost_def pending_timers_def stopTracking_timeouts has_waiting_def)

lemma set_timer_lost: "lost executionId s \<Longrightarrow> lost executionId (set_timer e s)"
  by (auto simp: lost_def set_timer_def pending_timers_def has_waiting_def obj_has_def Let_def split: prod.split)

lemma set_timers_lost: "lost executionId s \<Longrightarrow> lost executionId (fold set_timer es s)"
  by (induction es arbitrary: s) (simp_all add: set_timer_lost)

lemma lost_execution_stays_lost:
  assumes "tracker_step s s'" "lost executionId s" "timers_ok s" "s' \<noteq> stopWaitingExecution executionId s"
  shows "lost executionId s' \<and> occurrences executionId (started s') = occurrences executionId (started s)"
  using assms
proof (induction rule: tracker_step.induct)
  case (stepdown s)
  then show ?case using stopTracking_loses by (simp add: lost_def)
next
  case (answer s es)
  have "lost executionId (s\<lparr>queries := queries s - 1, found := found s @ es\<rparr>)"
    using answer.prems(1) by (simp add: lost_def has_waiting_def pending_timers_def)
  then show ?case by (simp add: set_timers_def set_timers_lost)
next
  case (fires t s)
  then have "to_execution t \<noteq> executionId" by (auto simp: lost_def pending_timers_def filter_empty_conv)
  with fires show ?case
    by (auto simp: lost_def pending_timers_def filter_empty_conv has_waiting_def obj_has_def startExecution_def forget_def
        clearTimeout_def delete_conv' occurrences_def)
next
  case (stop s other)
  then have "other \<noteq> executionId" by auto
  with stop show ?case
    by (auto simp: lost_def pending_timers_def filter_empty_conv has_waiting_def obj_has_def stopWaitingExecution_def forget_def
        clearTimeout_def delete_conv' split: option.split)
qed (simp_all add: lost_def has_waiting_def pending_timers_def startTracking_def getWaitingExecutions_def)

text \<open>Between the start of an execution and the change of its row the entry is gone: an answer in between sets
  a timer again.\<close>

lemma answer_after_start_sets_timer_again:
  "let s = one_waiting\<lparr>clock := 5, queries := 1\<rparr>;
       s' = set_timers [(''e'', 5)] (startExecution ''e'' (clearTimeout 1 s))
   in started s' = [(''e'', 5)] \<and> length (pending_timers ''e'' s') = 1"
  by code_simp

end
