(* ===== verification/ExecutionRecovery.thy ===== *)
theory ExecutionRecovery
  imports NodeProperties
begin

text \<open>
  The recovery of an execution that was cut off by a crash, from the events that were logged
  (\<open>packages/cli/src/executions/execution-recovery.service.ts\<close>). The table of executions is a map; the
  events sent to others and the hooks are left out. Times are in milliseconds.
\<close>

section \<open>Data\<close>

record EventMessage =
  em_eventName :: string
  em_nodeName :: "string option"
  em_ts :: int

record ITimedTaskData = ITaskData +
  startTime :: int
  executionTime :: int

record IRecoveredData =
  rec_runData :: "ITimedTaskData list jsobj"
  rec_lastNode :: "string option"
  rec_error :: "js_error option"

record IStoredExecution =
  st_status :: ExecutionStatus
  st_nodes :: "INode list"
  st_data :: "IRecoveredData option"
  st_stoppedAt :: "int option"

type_synonym executions = "string \<Rightarrow> IStoredExecution option"

definition NodeCrashedError :: js_error where
  "NodeCrashedError = NodeError ''Execution stopped at this node''"

definition WorkflowCrashedError :: js_error where
  "WorkflowCrashedError = WorkflowOperationError ''Workflow did not finish, possible out-of-memory issue''"

definition ARTIFICIAL_TASK_DATA :: ITaskDataConnections where
  "ARTIFICIAL_TASK_DATA =
     [(''main'', [SVal [empty_item\<lparr>json := [(''isArtificialRecoveredEventItem'', JBool True)]\<rparr>]])]"

section \<open>Messages\<close>

definition nodeMessages :: "EventMessage list \<Rightarrow> EventMessage list" where
  "nodeMessages messages = filter (\<lambda>m. starts_with (em_eventName m) ''n8n.node.'') messages"

definition workflowMessages :: "EventMessage list \<Rightarrow> EventMessage list" where
  "workflowMessages messages =
     filter (\<lambda>m. \<not> starts_with (em_eventName m) ''n8n.node.'' \<and> starts_with (em_eventName m) ''n8n.workflow.'') messages"

definition find_message :: "EventMessage list \<Rightarrow> string \<Rightarrow> string \<Rightarrow> EventMessage option" where
  "find_message messages name eventName =
     find (\<lambda>m. em_nodeName m = Some name \<and> em_eventName m = eventName) messages"

definition WORKFLOW_END_EVENTS :: "string list" where
  "WORKFLOW_END_EVENTS = [''n8n.workflow.success'', ''n8n.workflow.crashed'', ''n8n.workflow.failed'']"

definition toStoppedAt :: "int option \<Rightarrow> EventMessage list \<Rightarrow> int option" where
  "toStoppedAt timestamp messages =
     (case timestamp of
        Some ts \<Rightarrow> Some ts
      | None \<Rightarrow>
          map_option em_ts (case find (\<lambda>m. em_eventName m \<in> set WORKFLOW_END_EVENTS) messages of
            Some m \<Rightarrow> Some m
          | None \<Rightarrow> find (\<lambda>m. em_eventName m = ''n8n.workflow.started'') messages))"

section \<open>Amending an execution\<close>

definition new_task :: "EventMessage \<Rightarrow> EventMessage option \<Rightarrow> ITimedTaskData" where
  "new_task startedMessage finishedMessage =
     \<lparr>executionStatus = (if finishedMessage \<noteq> None then Success else Crashed),
      task_data = (if finishedMessage \<noteq> None then Some ARTIFICIAL_TASK_DATA else None),
      task_error = (if finishedMessage \<noteq> None then None else Some NodeCrashedError),
      task_source = [SNull], task_metadata = JUndef,
      startTime = em_ts startedMessage div 1000,
      executionTime = (case finishedMessage of Some m \<Rightarrow> em_ts m - em_ts startedMessage | None \<Rightarrow> 0)\<rparr>"

text \<open>The body of the loop over the nodes; the time is that of the last node that was amended.\<close>

definition amend_node ::
  "EventMessage list \<Rightarrow> INode \<Rightarrow> IRecoveredData \<times> int option \<Rightarrow> IRecoveredData \<times> int option" where
  "amend_node messages node acc =
     (let name = nodeName node; run = fst acc in
      case find_message messages name ''n8n.node.started'' of
        None \<Rightarrow> acc
      | Some startedMessage \<Rightarrow>
          if obj_has (rec_runData run) name then acc
          else
            let finishedMessage = find_message messages name ''n8n.node.finished'' in
            (run\<lparr>rec_runData := obj_put name [new_task startedMessage finishedMessage] (rec_runData run),
               rec_lastNode := Some name,
               rec_error := (if finishedMessage = None then Some WorkflowCrashedError else rec_error run)\<rparr>,
             Some (em_ts (case finishedMessage of Some m \<Rightarrow> m | None \<Rightarrow> startedMessage))))"

definition no_run_data :: IRecoveredData where
  "no_run_data = \<lparr>rec_runData = [], rec_lastNode = None, rec_error = None\<rparr>"

definition stored_data :: "IStoredExecution \<Rightarrow> IRecoveredData" where
  "stored_data ex = (case st_data ex of None \<Rightarrow> no_run_data | Some d \<Rightarrow> d)"

definition amend_from_messages :: "EventMessage list \<Rightarrow> IStoredExecution \<Rightarrow> IStoredExecution" where
  "amend_from_messages messages ex =
     (let (run, lastNodeRunTimestamp) = fold (amend_node (nodeMessages messages)) (st_nodes ex) (stored_data ex, None)
      in ex\<lparr>st_status := (if st_status ex = StatusError then StatusError else Crashed),
           st_stoppedAt := toStoppedAt lastNodeRunTimestamp (workflowMessages messages),
           st_data := Some run\<rparr>)"

definition markAsCrashed :: "string \<Rightarrow> int \<Rightarrow> executions \<Rightarrow> executions" where
  "markAsCrashed executionId now table =
     (case table executionId of
        None \<Rightarrow> table
      | Some ex \<Rightarrow> table(executionId \<mapsto> ex\<lparr>st_status := Crashed, st_stoppedAt := Some now\<rparr>))"

definition amendWithoutLogs :: "string \<Rightarrow> int \<Rightarrow> executions \<Rightarrow> IStoredExecution option \<times> executions" where
  "amendWithoutLogs executionId now table =
     (if table executionId = None then (None, table)
      else let table' = markAsCrashed executionId now table in (table' executionId, table'))"

definition amend ::
  "string \<Rightarrow> EventMessage list \<Rightarrow> int \<Rightarrow> executions \<Rightarrow> IStoredExecution option \<times> executions" where
  "amend executionId messages now table =
     (if messages = [] then amendWithoutLogs executionId now table
      else if nodeMessages messages = [] then (None, table)
      else case table executionId of
          None \<Rightarrow> (None, table)
        | Some ex \<Rightarrow>
            if st_status ex = Success then (None, table)
            else (Some (amend_from_messages messages ex), table))"

definition recoverFromLogs ::
  "bool \<Rightarrow> string \<Rightarrow> EventMessage list \<Rightarrow> int \<Rightarrow> executions \<Rightarrow> IStoredExecution option \<times> executions" where
  "recoverFromLogs isFollower executionId messages now table =
     (if isFollower then (None, table)
      else case amend executionId messages now table of
          (None, table') \<Rightarrow> (None, table')
        | (Some amended, table') \<Rightarrow> (Some amended, table'(executionId \<mapsto> amended)))"

section \<open>What is recovered\<close>

text \<open>The run that the log tells of a node.\<close>

definition logged_run :: "EventMessage list \<Rightarrow> string \<Rightarrow> ITimedTaskData list option" where
  "logged_run messages name =
     map_option (\<lambda>startedMessage. [new_task startedMessage (find_message messages name ''n8n.node.finished'')])
       (find_message messages name ''n8n.node.started'')"

lemma amend_node_runs:
  "map_of (rec_runData (fst (amend_node messages node acc))) k =
     (case map_of (rec_runData (fst acc)) k of
        Some runs \<Rightarrow> Some runs
      | None \<Rightarrow> if k = nodeName node then logged_run messages k else None)"
  by (auto simp: amend_node_def logged_run_def obj_has_def Let_def split: option.split)

lemma amend_nodes_runs:
  "map_of (rec_runData (fst (fold (amend_node messages) nodes acc))) k =
     (case map_of (rec_runData (fst acc)) k of
        Some runs \<Rightarrow> Some runs
      | None \<Rightarrow> if k \<in> nodeName ` set nodes then logged_run messages k else None)"
proof (induction nodes arbitrary: acc)
  case (Cons n ns)
  show ?case by (auto simp: Cons amend_node_runs split: option.split)
qed (simp split: option.split)

text \<open>A node that is amended as crashed, if there is one, leaves the error of a crash.\<close>

definition crashed_in_log :: "EventMessage list \<Rightarrow> string \<Rightarrow> bool" where
  "crashed_in_log messages name \<longleftrightarrow>
     find_message messages name ''n8n.node.started'' \<noteq> None \<and> find_message messages name ''n8n.node.finished'' = None"

lemma amend_nodes_error:
  "rec_error (fst (fold (amend_node messages) nodes acc)) =
     (if list_ex (\<lambda>n. crashed_in_log messages (nodeName n) \<and> \<not> obj_has (rec_runData (fst acc)) (nodeName n)) nodes
      then Some WorkflowCrashedError else rec_error (fst acc))"
proof (induction nodes arbitrary: acc)
  case (Cons n ns)
  let ?acc = "amend_node messages n acc"
  have has: "obj_has (rec_runData (fst ?acc)) k \<longleftrightarrow> obj_has (rec_runData (fst acc)) k \<or>
      k = nodeName n \<and> find_message messages k ''n8n.node.started'' \<noteq> None" for k
    by (auto simp: obj_has_def amend_node_runs logged_run_def split: option.split)
  have err: "rec_error (fst ?acc) = (if crashed_in_log messages (nodeName n) \<and> \<not> obj_has (rec_runData (fst acc)) (nodeName n)
      then Some WorkflowCrashedError else rec_error (fst acc))"
    by (auto simp: amend_node_def crashed_in_log_def Let_def split: option.split)
  show ?case using Cons [of ?acc] by (auto simp: has err list_ex_iff crashed_in_log_def)
qed simp

text \<open>The nodes of which the log knows a start and for which nothing was saved.\<close>

definition to_recover :: "EventMessage list \<Rightarrow> IStoredExecution \<Rightarrow> string \<Rightarrow> bool" where
  "to_recover messages ex name \<longleftrightarrow> name \<in> nodeName ` set (st_nodes ex) \<and>
     \<not> obj_has (rec_runData (stored_data ex)) name"


text \<open>Recovering again changes neither the runs nor the error.\<close>

lemma amend_nodes_again:
  assumes "\<And>n. n \<in> set nodes \<Longrightarrow> find_message messages (nodeName n) ''n8n.node.started'' \<noteq> None \<Longrightarrow>
    obj_has (rec_runData (fst acc)) (nodeName n)"
  shows "fold (amend_node messages) nodes acc = acc"
  using assms by (induction nodes) (auto simp: amend_node_def Let_def split: option.split)

lemma recovering_again:
  "st_data (amend_from_messages messages (amend_from_messages messages ex)) = st_data (amend_from_messages messages ex)"
proof -
  let ?ms = "nodeMessages messages"
  let ?loop = "fold (amend_node ?ms) (st_nodes ex) (stored_data ex, None)"
  have data: "st_data (amend_from_messages messages ex) = Some (fst ?loop)"
    "st_nodes (amend_from_messages messages ex) = st_nodes ex"
    by (simp_all add: amend_from_messages_def split_beta)
  have "fold (amend_node ?ms) (st_nodes ex) (fst ?loop, None) = (fst ?loop, None)"
    by (rule amend_nodes_again) (auto simp: obj_has_def amend_nodes_runs logged_run_def split: option.split)
  then show ?thesis
    unfolding amend_from_messages_def [of messages "amend_from_messages messages ex"]
    by (simp add: data stored_data_def split_beta)
qed

section \<open>Examples\<close>

definition event :: "string \<Rightarrow> string \<Rightarrow> int \<Rightarrow> EventMessage" where
  "event eventName node ts = \<lparr>em_eventName = eventName, em_nodeName = Some node, em_ts = ts\<rparr>"

definition truncated_run :: "ExecutionStatus \<Rightarrow> IStoredExecution" where
  "truncated_run status = \<lparr>st_status = status, st_nodes = [plain_node 1 ''A'' ''x'', plain_node 2 ''B'' ''x''],
     st_data = None, st_stoppedAt = None\<rparr>"


text \<open>
  The node executed last, and the time, are those of the last node in the list of nodes, not of the last
  that ran. A node that finished once and crashed when it ran again counts as finished.
\<close>

lemma last_node_follows_list:
  "let ex = amend_from_messages [event ''n8n.node.started'' ''B'' 1000, event ''n8n.node.finished'' ''B'' 2000,
       event ''n8n.node.started'' ''A'' 3000] (truncated_run Running)
   in st_stoppedAt ex = Some 2000 \<and> map_option rec_lastNode (st_data ex) = Some (Some ''B'')"
  by code_simp

lemma second_run_counts_as_finished:
  "map_option rec_error (st_data (amend_from_messages [event ''n8n.node.started'' ''A'' 1000,
     event ''n8n.node.finished'' ''A'' 2000, event ''n8n.node.started'' ''A'' 3000] (truncated_run Running))) = Some None"
  by code_simp

text \<open>An execution that crashed before its first node is left as it is, neither recovered nor marked.\<close>

lemma crash_before_first_node_is_not_marked:
  "recoverFromLogs False executionId [\<lparr>em_eventName = ''n8n.workflow.started'', em_nodeName = None, em_ts = 1000\<rparr>] now table =
     (None, table)"
  by (simp add: recoverFromLogs_def amend_def nodeMessages_def starts_with_def)

end
