(* ===== verification/AugmentObject.thy ===== *)
theory AugmentObject
  imports JsPrelude
begin

text \<open>
  The proxies through which expressions and code see the data of an execution
  (\<open>packages/workflow/src/AugmentObject.ts\<close>). Objects live on a heap, so that the model shows what is shared.
  Left out: functions as values (except what objects inherit), assignments to \<open>__proto__\<close>, symbols as keys,
  the methods arrays inherit, properties that are set on dates, and conversions of what is assigned to \<open>length\<close>.
\<close>

section \<open>The heap\<close>

datatype hval = HUndef | HNull | HBool bool | HNum int | HStr string | HInherited string | HRef nat

text \<open>The elements of an array, with holes, and its other properties.\<close>

type_synonym js_array = "hval option list \<times> hval jsobj"

text \<open>
  A regular expression has its text and its properties. An augmented object has its target, the new
  data and the deleted keys; an augmented array has its target and the copy, once there is one. The set
  \<open>augmentedObjects\<close> is that of the last two.
\<close>

datatype heap_cell =
    PlainObject "hval jsobj"
  | PlainArray js_array
  | DateObject int
  | RegExpObject string "hval jsobj"
  | ByteArray "nat list"
  | AugmentedObject nat "hval jsobj" "string list"
  | AugmentedArray nat "js_array option"

type_synonym heap = "heap_cell list"

definition alloc :: "heap_cell \<Rightarrow> heap \<Rightarrow> nat \<times> heap" where
  "alloc c h = (length h, h @ [c])"

definition is_augmented :: "heap \<Rightarrow> nat \<Rightarrow> bool" where
  "is_augmented h a =
     (case h ! a of AugmentedObject _ _ _ \<Rightarrow> True | AugmentedArray _ _ \<Rightarrow> True | _ \<Rightarrow> False)"

subsection \<open>Plain objects and arrays\<close>

definition inherited :: "string \<Rightarrow> hval" where
  "inherited k = (if k \<in> set inherited_names then HInherited k else HUndef)"

definition value_or_inherited :: "string \<Rightarrow> hval option \<Rightarrow> hval" where
  "value_or_inherited k v = (case v of Some x \<Rightarrow> x | None \<Rightarrow> inherited k)"

definition array_own :: "js_array \<Rightarrow> string \<Rightarrow> hval option" where
  "array_own xs k =
     (case array_index k of
        Some i \<Rightarrow> if i < length (fst xs) then fst xs ! i else None
      | None \<Rightarrow> if k = ''length'' then Some (HNum (int (length (fst xs)))) else map_of (snd xs) k)"

definition array_put :: "string \<Rightarrow> hval \<Rightarrow> js_array \<Rightarrow> js_array res" where
  "array_put k v xs =
     (case array_index k of
        Some i \<Rightarrow>
          Inr (if i < length (fst xs) then (fst xs)[i := Some v]
               else fst xs @ replicate (i - length (fst xs)) None @ [Some v], snd xs)
      | None \<Rightarrow>
          if k = ''length'' then
            (case v of
               HNum n \<Rightarrow>
                 if 0 \<le> n \<and> n < 4294967296
                 then Inr (take (nat n) (fst xs) @ replicate (nat n - length (fst xs)) None, snd xs)
                 else Inl (PlainError ''Invalid array length'')
             | _ \<Rightarrow> Inl (PlainError ''Invalid array length''))
          else Inr (fst xs, obj_put k v (snd xs)))"

definition array_delete :: "string \<Rightarrow> js_array \<Rightarrow> bool \<times> js_array" where
  "array_delete k xs =
     (case array_index k of
        Some i \<Rightarrow> (True, if i < length (fst xs) then (fst xs)[i := None] else fst xs, snd xs)
      | None \<Rightarrow> if k = ''length'' then (False, xs) else (True, fst xs, AList.delete k (snd xs)))"

definition array_keys :: "js_array \<Rightarrow> string list" where
  "array_keys xs =
     map show_nat (filter (\<lambda>i. fst xs ! i \<noteq> None) [0..<length (fst xs)]) @ ''length'' # map fst (snd xs)"

text \<open>\<open>[...data]\<close>\<close>

definition copy_array :: "js_array \<Rightarrow> js_array" where
  "copy_array xs = (map (\<lambda>x. Some (case x of Some v \<Rightarrow> v | None \<Rightarrow> HUndef)) (fst xs), [])"

definition plain_own :: "heap \<Rightarrow> nat \<Rightarrow> string \<Rightarrow> hval option" where
  "plain_own h a k =
     (case h ! a of
        PlainObject ob \<Rightarrow> map_of ob k
      | PlainArray xs \<Rightarrow> array_own xs k
      | RegExpObject _ ob \<Rightarrow> map_of ob k
      | ByteArray bs \<Rightarrow>
          (case array_index k of
             Some i \<Rightarrow> if i < length bs then Some (HNum (int (bs ! i))) else None
           | None \<Rightarrow> None)
      | _ \<Rightarrow> None)"

definition plain_keys :: "heap \<Rightarrow> nat \<Rightarrow> string list" where
  "plain_keys h a =
     (case h ! a of
        PlainObject ob \<Rightarrow> map fst ob
      | PlainArray xs \<Rightarrow> array_keys xs
      | RegExpObject _ ob \<Rightarrow> map fst ob
      | ByteArray bs \<Rightarrow> map show_nat [0..<length bs]
      | _ \<Rightarrow> [])"

definition plain_put :: "string \<Rightarrow> hval \<Rightarrow> heap_cell \<Rightarrow> heap_cell res" where
  "plain_put k v c =
     (case c of
        PlainObject ob \<Rightarrow> Inr (PlainObject (obj_put k v ob))
      | PlainArray xs \<Rightarrow> bindR (array_put k v xs) (\<lambda>xs'. Inr (PlainArray xs'))
      | RegExpObject s ob \<Rightarrow> Inr (RegExpObject s (obj_put k v ob))
      | ByteArray bs \<Rightarrow>
          Inr (case (array_index k, v) of
            (Some i, HNum n) \<Rightarrow> ByteArray (bs[i := nat (n mod 256)])
          | _ \<Rightarrow> c)
      | _ \<Rightarrow> Inr c)"

definition plain_delete :: "string \<Rightarrow> heap_cell \<Rightarrow> bool \<times> heap_cell" where
  "plain_delete k c =
     (case c of
        PlainObject ob \<Rightarrow> (True, PlainObject (AList.delete k ob))
      | PlainArray xs \<Rightarrow> map_prod id PlainArray (array_delete k xs)
      | RegExpObject s ob \<Rightarrow> (True, RegExpObject s (AList.delete k ob))
      | _ \<Rightarrow> (True, c))"

subsection \<open>Dates as text\<close>

definition pad :: "nat \<Rightarrow> int \<Rightarrow> string" where
  "pad n i = (let s = show_nat (nat i) in replicate (n - length s) (CHR ''0'') @ s)"

text \<open>Year, month and day of a day that is counted from the first of January 1970.\<close>

definition civil_date :: "int \<Rightarrow> int \<times> int \<times> int" where
  "civil_date days =
     (let z = days + 719468; era = z div 146097; doe = z mod 146097;
          yoe = (doe - doe div 1460 + doe div 36524 - doe div 146096) div 365;
          doy = doe - (365 * yoe + yoe div 4 - yoe div 100);
          mp = (5 * doy + 2) div 153;
          month = (if mp < 10 then mp + 3 else mp - 9)
      in (yoe + era * 400 + (if month \<le> 2 then 1 else 0), month, doy - (153 * mp + 2) div 5 + 1))"

text \<open>\<open>Date.prototype.toJSON\<close>\<close>

definition date_text :: "int \<Rightarrow> string" where
  "date_text t =
     (let (year, month, day) = civil_date (t div 86400000); ms = t mod 86400000 in
      (if 0 \<le> year \<and> year \<le> 9999 then pad 4 year
       else (if year < 0 then CHR ''-'' else CHR ''+'') # pad 6 (abs year)) @
      ''-'' @ pad 2 month @ ''-'' @ pad 2 day @ ''T'' @ pad 2 (ms div 3600000) @ '':'' @
      pad 2 (ms div 60000 mod 60) @ '':'' @ pad 2 (ms div 1000 mod 60) @ ''.'' @ pad 3 (ms mod 1000) @ ''Z'')"

section \<open>Augmenting\<close>

definition augmentArray :: "nat \<Rightarrow> heap \<Rightarrow> nat \<times> heap" where
  "augmentArray a h = (if is_augmented h a then (a, h) else alloc (AugmentedArray a None) h)"

definition augmentObject :: "nat \<Rightarrow> heap \<Rightarrow> nat \<times> heap" where
  "augmentObject a h = (if is_augmented h a then (a, h) else alloc (AugmentedObject a [] []) h)"

definition augment :: "hval \<Rightarrow> heap \<Rightarrow> hval \<times> heap" where
  "augment v h =
     (case v of
        HRef a \<Rightarrow>
          (case h ! a of
             RegExpObject _ _ \<Rightarrow> (v, h)
           | DateObject t \<Rightarrow> apfst HRef (alloc (DateObject t) h)
           | ByteArray bs \<Rightarrow> apfst HRef (alloc (ByteArray bs) h)
           | PlainArray _ \<Rightarrow> apfst HRef (augmentArray a h)
           | AugmentedArray _ _ \<Rightarrow> apfst HRef (augmentArray a h)
           | _ \<Rightarrow> apfst HRef (augmentObject a h))
      | _ \<Rightarrow> (v, h))"

subsection \<open>Traps of an augmented array\<close>

definition array_data :: "heap \<Rightarrow> nat \<Rightarrow> js_array" where
  "array_data h a = (case h ! a of PlainArray xs \<Rightarrow> xs | _ \<Rightarrow> ([], []))"

definition getData :: "nat \<Rightarrow> js_array option \<Rightarrow> heap \<Rightarrow> js_array" where
  "getData target newData h = (case newData of None \<Rightarrow> copy_array (array_data h target) | Some xs \<Rightarrow> xs)"

definition current_data :: "nat \<Rightarrow> js_array option \<Rightarrow> heap \<Rightarrow> js_array" where
  "current_data target newData h = (case newData of None \<Rightarrow> array_data h target | Some xs \<Rightarrow> xs)"

definition array_trap_get :: "nat \<Rightarrow> nat \<Rightarrow> js_array option \<Rightarrow> string \<Rightarrow> heap \<Rightarrow> hval \<times> heap" where
  "array_trap_get a target newData key h =
     (let val = value_or_inherited key (array_own (current_data target newData h) key);
          (newValue, h') = augment val h
      in if newValue \<noteq> val then
           (newValue, h'[a := AugmentedArray target (Some (case array_put key newValue (getData target newData h') of
              Inr xs \<Rightarrow> xs | Inl _ \<Rightarrow> getData target newData h'))])
         else (val, h'))"

definition array_trap_set :: "nat \<Rightarrow> nat \<Rightarrow> js_array option \<Rightarrow> string \<Rightarrow> hval \<Rightarrow> heap \<Rightarrow> unit res \<times> heap" where
  "array_trap_set a target newData key newValue h =
     (let xs = getData target newData h;
          (val, h') = augment newValue h
      in case array_put key val xs of
           Inl e \<Rightarrow> (Inl e, h'[a := AugmentedArray target (Some xs)])
         | Inr xs' \<Rightarrow> (Inr (), h'[a := AugmentedArray target (Some xs')]))"

definition array_trap_delete :: "nat \<Rightarrow> nat \<Rightarrow> js_array option \<Rightarrow> string \<Rightarrow> heap \<Rightarrow> bool \<times> heap" where
  "array_trap_delete a target newData key h =
     (let (done, xs) = array_delete key (getData target newData h)
      in (done, h[a := AugmentedArray target (Some xs)]))"

definition array_trap_has :: "nat \<Rightarrow> js_array option \<Rightarrow> string \<Rightarrow> heap \<Rightarrow> bool" where
  "array_trap_has target newData key h =
     (array_own (current_data target newData h) key \<noteq> None \<or> key \<in> set inherited_names)"

definition array_trap_ownKeys :: "nat \<Rightarrow> js_array option \<Rightarrow> heap \<Rightarrow> string list" where
  "array_trap_ownKeys target newData h = array_keys (current_data target newData h)"

text \<open>The value of the descriptor of a property; the default descriptor has \<open>undefined\<close>.\<close>

definition array_trap_descriptor :: "nat \<Rightarrow> js_array option \<Rightarrow> string \<Rightarrow> heap \<Rightarrow> hval option" where
  "array_trap_descriptor target newData key h =
     (case newData of
        None \<Rightarrow> array_own (array_data h target) key
      | Some xs \<Rightarrow>
          if key = ''length'' then array_own xs key
          else (case array_own (array_data h target) key of Some v \<Rightarrow> Some v | None \<Rightarrow> Some HUndef))"

subsection \<open>Traps of an augmented object\<close>

definition object_read :: "hval jsobj \<Rightarrow> string \<Rightarrow> hval" where
  "object_read ob k = value_or_inherited k (map_of ob k)"

definition object_has :: "hval jsobj \<Rightarrow> string \<Rightarrow> bool" where
  "object_has ob k = (obj_has ob k \<or> k \<in> set inherited_names)"

definition target_has :: "heap \<Rightarrow> nat \<Rightarrow> string \<Rightarrow> bool" where
  "target_has h a k = (plain_own h a k \<noteq> None \<or> k \<in> set inherited_names)"

text \<open>What an object says of itself: \<open>toString\<close> of a regular expression, \<open>toJSON\<close> of a date.\<close>

definition own_text :: "heap \<Rightarrow> hval \<Rightarrow> string option" where
  "own_text h v =
     (case v of
        HRef a \<Rightarrow> (case h ! a of RegExpObject s _ \<Rightarrow> Some s | DateObject t \<Rightarrow> Some (date_text t) | _ \<Rightarrow> None)
      | _ \<Rightarrow> None)"

definition object_trap_get ::
  "nat \<Rightarrow> nat \<Rightarrow> hval jsobj \<Rightarrow> string list \<Rightarrow> string \<Rightarrow> heap \<Rightarrow> hval \<times> heap" where
  "object_trap_get a target newData deleted key h =
     (if key \<in> set deleted then (HUndef, h)
      else if object_read newData key \<noteq> HUndef then (object_read newData key, h)
      else
        let val = value_or_inherited key (plain_own h target key) in
        case own_text h val of
          Some s \<Rightarrow> (HStr s, h)
        | None \<Rightarrow>
            let (newValue, h') = augment val h in
            if newValue \<noteq> val then (newValue, h'[a := AugmentedObject target (obj_put key newValue newData) deleted])
            else (val, h'))"

definition object_trap_delete :: "nat \<Rightarrow> hval jsobj \<Rightarrow> string list \<Rightarrow> string \<Rightarrow> heap \<Rightarrow> hval jsobj \<times> string list" where
  "object_trap_delete target newData deleted key h =
     (if object_has newData key then AList.delete key newData else newData,
      if target_has h target key then set_add key deleted else deleted)"

definition object_trap_set ::
  "nat \<Rightarrow> hval jsobj \<Rightarrow> string list \<Rightarrow> string \<Rightarrow> hval \<Rightarrow> heap \<Rightarrow> hval jsobj \<times> string list" where
  "object_trap_set target newData deleted key newValue h =
     (if newValue = HUndef then object_trap_delete target newData deleted key h
      else (obj_put key newValue newData, filter (\<lambda>k. k \<noteq> key) deleted))"

definition object_trap_has :: "nat \<Rightarrow> hval jsobj \<Rightarrow> string list \<Rightarrow> string \<Rightarrow> heap \<Rightarrow> bool" where
  "object_trap_has target newData deleted key h =
     (key \<notin> set deleted \<and> (object_has newData key \<or> target_has h target key))"

definition object_trap_ownKeys :: "nat \<Rightarrow> hval jsobj \<Rightarrow> string list \<Rightarrow> heap \<Rightarrow> string list" where
  "object_trap_ownKeys target newData deleted h =
     filter (\<lambda>k. k \<notin> set deleted) (fold set_add (plain_keys h target @ map fst newData) [])"

definition object_trap_descriptor :: "nat \<Rightarrow> hval jsobj \<Rightarrow> string list \<Rightarrow> string \<Rightarrow> heap \<Rightarrow> hval option" where
  "object_trap_descriptor target newData deleted key h =
     (if key \<in> set deleted then None
      else if object_has newData key then map_of newData key else plain_own h target key)"

section \<open>Using references\<close>

definition get_property :: "hval \<Rightarrow> string \<Rightarrow> heap \<Rightarrow> hval \<times> heap" where
  "get_property v k h =
     (case v of
        HRef a \<Rightarrow>
          (case h ! a of
             AugmentedObject target newData deleted \<Rightarrow> object_trap_get a target newData deleted k h
           | AugmentedArray target newData \<Rightarrow> array_trap_get a target newData k h
           | _ \<Rightarrow> (value_or_inherited k (plain_own h a k), h))
      | _ \<Rightarrow> (HUndef, h))"

definition set_property :: "hval \<Rightarrow> string \<Rightarrow> hval \<Rightarrow> heap \<Rightarrow> unit res \<times> heap" where
  "set_property v k x h =
     (case v of
        HRef a \<Rightarrow>
          (case h ! a of
             AugmentedObject target newData deleted \<Rightarrow>
               let (newData', deleted') = object_trap_set target newData deleted k x h
               in (Inr (), h[a := AugmentedObject target newData' deleted'])
           | AugmentedArray target newData \<Rightarrow> array_trap_set a target newData k x h
           | c \<Rightarrow> (case plain_put k x c of Inl e \<Rightarrow> (Inl e, h) | Inr c' \<Rightarrow> (Inr (), h[a := c'])))
      | _ \<Rightarrow> (Inl TypeError, h))"

definition delete_property :: "hval \<Rightarrow> string \<Rightarrow> heap \<Rightarrow> bool \<times> heap" where
  "delete_property v k h =
     (case v of
        HRef a \<Rightarrow>
          (case h ! a of
             AugmentedObject target newData deleted \<Rightarrow>
               let (newData', deleted') = object_trap_delete target newData deleted k h
               in (True, h[a := AugmentedObject target newData' deleted'])
           | AugmentedArray target newData \<Rightarrow> array_trap_delete a target newData k h
           | c \<Rightarrow> (let (done, c') = plain_delete k c in (done, h[a := c'])))
      | _ \<Rightarrow> (True, h))"

definition setTime :: "hval \<Rightarrow> int \<Rightarrow> heap \<Rightarrow> heap" where
  "setTime v t h =
     (case v of
        HRef a \<Rightarrow> (case h ! a of DateObject _ \<Rightarrow> h[a := DateObject t] | _ \<Rightarrow> h)
      | _ \<Rightarrow> h)"

text \<open>
  Code that is given references: it can name values it has seen, by their position in a list, and read
  from them, write to them, and make values of its own.
\<close>

datatype code_op =
    Literal hval
  | NewObject
  | NewArray
  | NewDate int
  | NewBytes "nat list"
  | Read nat string
  | Write nat string nat
  | Delete nat string
  | SetTime nat int

definition seen_value :: "hval list \<Rightarrow> nat \<Rightarrow> hval" where
  "seen_value vs i = (if i < length vs then vs ! i else HUndef)"

definition run_op :: "code_op \<Rightarrow> heap \<times> hval list \<Rightarrow> heap \<times> hval list" where
  "run_op op st =
     (let h = fst st; vs = snd st; make = (\<lambda>c. (h @ [c], vs @ [HRef (length h)])) in
      case op of
        Literal v \<Rightarrow> (case v of HRef _ \<Rightarrow> st | _ \<Rightarrow> (h, vs @ [v]))
      | NewObject \<Rightarrow> make (PlainObject [])
      | NewArray \<Rightarrow> make (PlainArray ([], []))
      | NewDate t \<Rightarrow> make (DateObject t)
      | NewBytes bs \<Rightarrow> make (ByteArray bs)
      | Read i k \<Rightarrow> (let (v, h') = get_property (seen_value vs i) k h in (h', vs @ [v]))
      | Write i k j \<Rightarrow> (snd (set_property (seen_value vs i) k (seen_value vs j) h), vs)
      | Delete i k \<Rightarrow> (snd (delete_property (seen_value vs i) k h), vs)
      | SetTime i t \<Rightarrow> (setTime (seen_value vs i) t h, vs))"

section \<open>The data of the execution stay as they are\<close>

definition in_heap :: "nat \<Rightarrow> hval \<Rightarrow> bool" where
  "in_heap N v = (case v of HRef a \<Rightarrow> a < N | _ \<Rightarrow> True)"

definition array_values :: "js_array \<Rightarrow> hval set" where
  "array_values xs = {v. Some v \<in> set (fst xs)} \<union> snd ` set (snd xs)"

text \<open>References that an array may hold: they are not to a regular expression of the original data.\<close>

definition no_regexp :: "heap \<Rightarrow> nat \<Rightarrow> hval \<Rightarrow> bool" where
  "no_regexp h0 N v =
     (case v of
        HRef a \<Rightarrow> a < N \<and> (a < length h0 \<longrightarrow> (case h0 ! a of RegExpObject _ _ \<Rightarrow> False | _ \<Rightarrow> True))
      | _ \<Rightarrow> True)"

text \<open>Cells of the original data: no proxies, and no regular expressions in an array.\<close>

definition original_cell :: "heap \<Rightarrow> heap_cell \<Rightarrow> bool" where
  "original_cell h0 c =
     (case c of
        PlainObject ob \<Rightarrow> list_all (\<lambda>p. in_heap (length h0) (snd p)) ob
      | PlainArray xs \<Rightarrow>
          list_all (pred_option (no_regexp h0 (length h0))) (fst xs) \<and>
          list_all (\<lambda>p. no_regexp h0 (length h0) (snd p)) (snd xs)
      | RegExpObject _ ob \<Rightarrow> list_all (\<lambda>p. in_heap (length h0) (snd p)) ob
      | DateObject _ \<Rightarrow> True
      | ByteArray _ \<Rightarrow> True
      | _ \<Rightarrow> False)"

text \<open>References that code may hold when there are \<open>n\<close> cells of original data, and the cells it may reach.\<close>

definition foreign :: "nat \<Rightarrow> nat \<Rightarrow> hval \<Rightarrow> bool" where
  "foreign n N v = (case v of HRef a \<Rightarrow> n \<le> a \<and> a < N | _ \<Rightarrow> True)"

definition foreign_cell :: "heap \<Rightarrow> nat \<Rightarrow> heap_cell \<Rightarrow> bool" where
  "foreign_cell h0 N c =
     (case c of
        PlainObject ob \<Rightarrow> (\<forall>v \<in> snd ` set ob. foreign (length h0) N v)
      | PlainArray xs \<Rightarrow> (\<forall>v \<in> array_values xs. foreign (length h0) N v)
      | RegExpObject _ _ \<Rightarrow> False
      | AugmentedObject t newData _ \<Rightarrow> t < N \<and> (\<forall>v \<in> snd ` set newData. foreign (length h0) N v)
      | AugmentedArray t newData \<Rightarrow> t < N \<and> (case newData of None \<Rightarrow> True | Some xs \<Rightarrow> \<forall>v \<in> array_values xs. no_regexp h0 N v)
      | _ \<Rightarrow> True)"

definition isolated :: "heap \<Rightarrow> heap \<Rightarrow> bool" where
  "isolated h0 h \<longleftrightarrow> list_all (original_cell h0) h0 \<and> (\<exists>cs. h = h0 @ cs \<and>
     (\<forall>c \<in> set cs. foreign_cell h0 (length h) c))"

lemma foreign_mono: "foreign n N v \<Longrightarrow> N \<le> M \<Longrightarrow> foreign n M v"
  by (auto simp: foreign_def split: hval.splits)

lemma in_heap_mono: "in_heap N v \<Longrightarrow> N \<le> M \<Longrightarrow> in_heap M v"
  by (auto simp: in_heap_def split: hval.splits)

lemma foreign_in_heap: "foreign n N v \<Longrightarrow> in_heap N v"
  by (auto simp: foreign_def in_heap_def split: hval.splits)

lemma no_regexp_mono: "no_regexp h0 N v \<Longrightarrow> N \<le> M \<Longrightarrow> no_regexp h0 M v"
  by (auto simp: no_regexp_def split: hval.splits)

lemma no_regexp_in_heap: "no_regexp h0 N v \<Longrightarrow> in_heap N v"
  by (auto simp: no_regexp_def in_heap_def split: hval.splits)

lemma foreign_no_regexp: "foreign (length h0) N v \<Longrightarrow> no_regexp h0 N v"
  by (auto simp: foreign_def no_regexp_def split: hval.splits)

lemma foreign_cell_mono: "foreign_cell h0 N c \<Longrightarrow> N \<le> M \<Longrightarrow> foreign_cell h0 M c"
  by (auto simp: foreign_cell_def split: heap_cell.splits option.splits intro: foreign_mono no_regexp_mono)

lemma isolated_alloc:
  assumes "isolated h0 h" "foreign_cell h0 (Suc (length h)) c"
  shows "isolated h0 (h @ [c])"
  using assms foreign_cell_mono [of h0 "length h" _ "Suc (length h)"] unfolding isolated_def by auto

lemma isolated_update:
  assumes "isolated h0 h" "length h0 \<le> a" "foreign_cell h0 (length h) c"
  shows "isolated h0 (h[a := c])"
proof -
  from assms(1) obtain cs where cs: "h = h0 @ cs" "\<forall>c \<in> set cs. foreign_cell h0 (length h) c"
    "list_all (original_cell h0) h0"
    by (auto simp: isolated_def)
  then have "h[a := c] = h0 @ cs[a - length h0 := c]" using assms(2) by (simp add: list_update_append)
  with cs assms(3) show ?thesis unfolding isolated_def
    by (metis insertE length_list_update set_update_subset_insert subsetD)
qed

lemma isolated_foreign:
  assumes "isolated h0 h" "length h0 \<le> a" "a < length h"
  shows "foreign_cell h0 (length h) (h ! a)"
  using assms unfolding isolated_def by (auto simp: nth_append)

lemma isolated_original:
  assumes "isolated h0 h" "a < length h0"
  shows "original_cell h0 (h ! a)"
  using assms unfolding isolated_def by (auto simp: nth_append list_all_length)

lemma isolated_nth: "isolated h0 h \<Longrightarrow> a < length h0 \<Longrightarrow> h ! a = h0 ! a"
  by (auto simp: isolated_def nth_append)

lemma isolated_length: "isolated h0 h \<Longrightarrow> length h0 \<le> length h"
  by (auto simp: isolated_def)

subsection \<open>What is read from cells\<close>

lemma foreign_simps [simp]:
  "foreign n N HUndef" "foreign n N (HStr s)" "foreign n N (HNum i)" "foreign n N (inherited k)"
  "in_heap N HUndef" "in_heap N (HNum i)" "in_heap N (inherited k)"
  "no_regexp h0 N HUndef" "no_regexp h0 N (HNum i)" "no_regexp h0 N (inherited k)"
  by (auto simp: foreign_def in_heap_def no_regexp_def inherited_def)

lemma array_own_values: "array_own xs k = Some v \<Longrightarrow> v \<in> array_values xs \<or> (\<exists>i. v = HNum i)"
  by (auto simp: array_own_def array_values_def dest!: map_of_SomeD nth_mem split: option.splits if_splits) force+

lemma obj_put_subset: "set (obj_put k v ob) \<subseteq> insert (k, v) (set ob)"
proof -
  have "set (AList.update k v ob) \<subseteq> insert (k, v) (set ob)" by (induction ob) auto
  then show ?thesis by (auto simp: obj_put_def insert_index_set split: option.split)
qed

lemma array_put_values:
  assumes "array_put k v xs = Inr xs'"
  shows "array_values xs' \<subseteq> insert v (array_values xs)"
proof -
  have "(a, b) \<in> set (obj_put k v (snd xs)) \<Longrightarrow> b = v \<or> b \<in> snd ` set (snd xs)" for a b
    using obj_put_subset [of k v "snd xs"] by force
  with assms show ?thesis unfolding array_put_def array_values_def
    by (auto split: option.splits if_splits hval.splits dest!: set_update_subset_insert [THEN subsetD] in_set_takeD, blast+)
qed

lemma array_delete_values: "array_values (snd (array_delete k xs)) \<subseteq> array_values xs"
  unfolding array_delete_def array_values_def
  by (auto simp: AList.delete_eq split: option.splits if_splits dest!: set_update_subset_insert [THEN subsetD])

lemma copy_array_values: "array_values (copy_array xs) \<subseteq> insert HUndef (array_values xs)"
  by (auto simp: copy_array_def array_values_def split: option.splits)

lemma original_array: "original_cell h0 (PlainArray xs) \<Longrightarrow> v \<in> array_values xs \<Longrightarrow> no_regexp h0 (length h0) v"
  by (auto simp: original_cell_def array_values_def list_all_iff)

text \<open>Whatever a cell holds is in the heap.\<close>

lemma array_data_no_regexp:
  assumes "isolated h0 h" "a < length h" "v \<in> array_values (array_data h a)"
  shows "no_regexp h0 (length h) v"
proof (cases "h ! a")
  case (PlainArray xs)
  with assms(3) have v: "v \<in> array_values xs" by (simp add: array_data_def)
  show ?thesis
  proof (cases "a < length h0")
    case True
    then show ?thesis using isolated_original [OF assms(1)] PlainArray v original_array isolated_length [OF assms(1)]
      by (metis no_regexp_mono)
  next
    case False
    then show ?thesis using isolated_foreign [OF assms(1) _ assms(2)] PlainArray v
      by (auto simp: foreign_cell_def intro: foreign_no_regexp)
  qed
qed (use assms(3) in \<open>auto simp: array_data_def array_values_def\<close>)

lemma plain_own_in_heap:
  assumes "isolated h0 h" "a < length h" "plain_own h a k = Some v"
  shows "in_heap (length h) v"
proof (cases "h ! a")
  case (PlainObject ob)
  with assms(3) have v: "v \<in> snd ` set ob" by (force simp: plain_own_def dest: map_of_SomeD)
  show ?thesis
  proof (cases "a < length h0")
    case True
    then show ?thesis using isolated_original [OF assms(1)] PlainObject v isolated_length [OF assms(1)]
      by (fastforce simp: original_cell_def list_all_iff intro: in_heap_mono)
  next
    case False
    then have "foreign (length h0) (length h) v"
      using isolated_foreign [OF assms(1) _ assms(2)] PlainObject v by (auto simp: foreign_cell_def)
    then show ?thesis by (rule foreign_in_heap)
  qed
next
  case (PlainArray xs)
  then have "array_values xs = array_values (array_data h a)" by (simp add: array_data_def)
  with array_data_no_regexp [OF assms(1,2)] array_own_values [of xs k v] assms(3) PlainArray show ?thesis
    by (auto simp: plain_own_def intro: no_regexp_in_heap)
next
  case (RegExpObject s ob)
  with assms(3) have "v \<in> snd ` set ob" by (force simp: plain_own_def dest: map_of_SomeD)
  with RegExpObject show ?thesis
    using isolated_foreign [OF assms(1) _ assms(2)] isolated_original [OF assms(1), of a] isolated_length [OF assms(1)]
    by (cases "a < length h0") (fastforce simp: foreign_cell_def original_cell_def list_all_iff intro: in_heap_mono)+
qed (use assms(3) in \<open>auto simp: plain_own_def split: option.splits if_splits\<close>)

lemma current_data_no_regexp:
  assumes "isolated h0 h" "foreign_cell h0 (length h) (AugmentedArray t newData)"
    "v \<in> array_values (current_data t newData h)"
  shows "no_regexp h0 (length h) v"
  using assms array_data_no_regexp [OF assms(1), of t v]
  by (auto simp: current_data_def foreign_cell_def split: option.splits)

lemma getData_no_regexp:
  assumes "isolated h0 h" "foreign_cell h0 (length h) (AugmentedArray t newData)"
    "v \<in> array_values (getData t newData h)"
  shows "no_regexp h0 (length h) v"
  using assms array_data_no_regexp [OF assms(1), of t v] copy_array_values [of "array_data h t"]
  by (auto simp: getData_def foreign_cell_def split: option.splits)

subsection \<open>Augmenting and the traps\<close>

text \<open>A new heap in which the original data are as before, and a value that code may hold.\<close>

definition keeps_isolation :: "heap \<Rightarrow> heap \<Rightarrow> heap \<Rightarrow> bool" where
  "keeps_isolation h0 h h' \<longleftrightarrow> isolated h0 h' \<and> length h \<le> length h'"

lemma keeps_alloc:
  "isolated h0 h \<Longrightarrow> foreign_cell h0 (Suc (length h)) c \<Longrightarrow>
     keeps_isolation h0 h (h @ [c]) \<and> foreign (length h0) (Suc (length h)) (HRef (length h))"
  using isolated_alloc [of h0 h c] by (auto simp: keeps_isolation_def foreign_def dest: isolated_length)

lemma keeps_update:
  assumes "keeps_isolation h0 h h'" "foreign (length h0) (length h) (HRef a)" "foreign_cell h0 (length h') c"
  shows "keeps_isolation h0 h (h'[a := c])"
  using assms isolated_update [of h0 h' a c] by (simp add: keeps_isolation_def foreign_def)

lemma foreign_cell_simps [simp]:
  "foreign_cell h0 N (DateObject t)" "foreign_cell h0 N (ByteArray bs)"
  "foreign_cell h0 N (AugmentedArray a None) = (a < N)" "foreign_cell h0 N (AugmentedObject a [] ds) = (a < N)"
  by (simp_all add: foreign_cell_def)

lemma augment_foreign:
  assumes "isolated h0 h" "no_regexp h0 (length h) v" "augment v h = (v', h')"
  shows "keeps_isolation h0 h h' \<and> foreign (length h0) (length h') v'"
proof (cases v)
  case (HRef a)
  with assms(2) have a: "a < length h" by (simp add: no_regexp_def)
  have alloc: "keeps_isolation h0 h (h @ [c])" "foreign (length h0) (Suc (length h)) (HRef (length h))"
    if "foreign_cell h0 (Suc (length h)) c" for c
    using keeps_alloc [OF assms(1) that] by simp_all
  have same: "keeps_isolation h0 h h" using assms(1) by (simp add: keeps_isolation_def)
  have new: "foreign (length h0) (Suc (length h)) (HRef (length h))" using alloc(2) [of "DateObject 0"] by simp
  have own: "foreign (length h0) (length h) (HRef a)" if "length h0 \<le> a" using that a by (simp add: foreign_def)
  show ?thesis
  proof (cases "h ! a")
    case (RegExpObject s ob)
    then show ?thesis using isolated_foreign [OF assms(1) _ a] isolated_nth [OF assms(1), of a] assms(2) HRef
      by (cases "a < length h0") (auto simp: foreign_cell_def no_regexp_def)
  next
    case (AugmentedObject t nd ds)
    then have "length h0 \<le> a" using isolated_original [OF assms(1), of a] by (force simp: original_cell_def)
    with AugmentedObject HRef assms(3) same own show ?thesis
      by (auto simp: augment_def augmentObject_def is_augmented_def)
  next
    case (AugmentedArray t nd)
    then have "length h0 \<le> a" using isolated_original [OF assms(1), of a] by (force simp: original_cell_def)
    with AugmentedArray HRef assms(3) same own show ?thesis
      by (auto simp: augment_def augmentArray_def is_augmented_def)
  qed (use assms(3) HRef a alloc new in
      \<open>auto simp: augment_def augmentObject_def augmentArray_def is_augmented_def alloc_def\<close>)
qed (use assms in \<open>auto simp: augment_def keeps_isolation_def foreign_def\<close>)

lemma plain_own_foreign:
  assumes "isolated h0 h" "foreign (length h0) (length h) (HRef a)" "plain_own h a k = Some v"
  shows "foreign (length h0) (length h) v"
proof -
  from assms(2) have "length h0 \<le> a" "a < length h" by (simp_all add: foreign_def)
  note cell = isolated_foreign [OF assms(1) this]
  show ?thesis
  proof (cases "h ! a")
    case (PlainObject ob)
    with assms(3) have "v \<in> snd ` set ob" by (force simp: plain_own_def dest: map_of_SomeD)
    with cell PlainObject show ?thesis by (auto simp: foreign_cell_def)
  next
    case (PlainArray xs)
    with assms(3) have "v \<in> array_values xs \<or> (\<exists>i. v = HNum i)" by (auto simp: plain_own_def dest: array_own_values)
    with cell PlainArray show ?thesis by (auto simp: foreign_cell_def)
  next
    case (RegExpObject s ob)
    with cell show ?thesis by (simp add: foreign_cell_def)
  qed (use assms(3) in \<open>auto simp: plain_own_def split: option.splits if_splits\<close>)
qed

lemma array_put_no_regexp:
  assumes "array_put k v xs = Inr xs'" "\<And>w. w \<in> array_values xs \<Longrightarrow> no_regexp h0 N w" "no_regexp h0 N v" "t < N"
  shows "foreign_cell h0 N (AugmentedArray t (Some xs'))"
  using assms array_put_values [OF assms(1)] by (auto simp: foreign_cell_def)

lemma getData_later:
  assumes "isolated h0 h" "keeps_isolation h0 h h'" "foreign_cell h0 (length h) (AugmentedArray t newData)"
    "v \<in> array_values (getData t newData h')"
  shows "no_regexp h0 (length h') v"
  using assms foreign_cell_mono [of _ "length h" _ "length h'"]
  by (auto simp: keeps_isolation_def intro: getData_no_regexp)

lemma get_property_foreign:
  assumes h: "isolated h0 h" and v: "foreign (length h0) (length h) v" and get: "get_property v k h = (x, h')"
  shows "keeps_isolation h0 h h' \<and> foreign (length h0) (length h') x"
proof (cases v)
  case (HRef a)
  with v have a: "length h0 \<le> a" "a < length h" by (simp_all add: foreign_def)
  note cell = isolated_foreign [OF h a]
  have same: "keeps_isolation h0 h h" using h by (simp add: keeps_isolation_def)
  have own: "foreign (length h0) (length h) (HRef a)" using a by (simp add: foreign_def)
  have plain: "foreign (length h0) (length h) (value_or_inherited k (plain_own h a k))"
    using plain_own_foreign [OF h own] by (cases "plain_own h a k") (simp_all add: value_or_inherited_def)
  show ?thesis
  proof (cases "h ! a")
    case (AugmentedObject t nd ds)
    with cell have t: "t < length h" "\<forall>w \<in> snd ` set nd. foreign (length h0) (length h) w"
      by (simp_all add: foreign_cell_def)
    let ?val = "value_or_inherited k (plain_own h t k)"
    obtain w hw where w: "augment ?val h = (w, hw)" by (cases "augment ?val h")
    have "in_heap (length h) ?val"
      using plain_own_in_heap [OF h t(1)] by (cases "plain_own h t k") (simp_all add: value_or_inherited_def)
    then have val: "no_regexp h0 (length h) ?val" if "own_text h ?val = None"
      using that isolated_nth [OF h]
      by (cases ?val) (auto simp: in_heap_def no_regexp_def own_text_def split: heap_cell.splits)
    have new: "foreign (length h0) (length h) (object_read nd k)"
      using t(2) by (cases "map_of nd k") (force simp: object_read_def value_or_inherited_def dest: map_of_SomeD)+
    show ?thesis
    proof (cases "own_text h ?val")
      case None
      note aug = augment_foreign [OF h val [OF None] w]
      have "foreign_cell h0 (length hw) (AugmentedObject t (obj_put k w nd) ds)"
      proof -
        have "foreign (length h0) (length hw) u" if "(l, u) \<in> set (obj_put k w nd)" for l u
          using that aug t(2) obj_put_subset [of k w nd] foreign_mono [of _ "length h" u "length hw"]
          by (force simp: keeps_isolation_def)
        with aug t(1) show ?thesis by (auto simp: foreign_cell_def keeps_isolation_def)
      qed
      then have upd: "keeps_isolation h0 h (hw[a := AugmentedObject t (obj_put k w nd) ds])"
        using aug keeps_update [OF _ own] by simp
      from upd aug same new None get HRef AugmentedObject w show ?thesis
        by (auto simp: get_property_def object_trap_get_def Let_def split: if_splits)
    next
      case (Some s)
      with same new get HRef AugmentedObject show ?thesis
        by (auto simp: get_property_def object_trap_get_def Let_def split: if_splits)
    qed
  next
    case (AugmentedArray t nd)
    let ?val = "value_or_inherited k (array_own (current_data t nd h) k)"
    obtain w hw where w: "augment ?val h = (w, hw)" by (cases "augment ?val h")
    have "no_regexp h0 (length h) ?val"
      using current_data_no_regexp [OF h cell [unfolded AugmentedArray]] array_own_values [of "current_data t nd h" k]
      by (cases "array_own (current_data t nd h) k") (auto simp: value_or_inherited_def)
    note aug = augment_foreign [OF h this w]
    let ?cell = "AugmentedArray t (Some (case array_put k w (getData t nd hw) of Inr xs \<Rightarrow> xs | Inl _ \<Rightarrow> getData t nd hw))"
    have "foreign_cell h0 (length hw) ?cell"
    proof -
      have N: "t < length hw" using cell AugmentedArray aug by (auto simp: foreign_cell_def keeps_isolation_def)
      note data = getData_later [OF h _ cell [unfolded AugmentedArray]]
      show ?thesis
      proof (cases "array_put k w (getData t nd hw)")
        case (Inl e)
        with N aug data [of hw] show ?thesis by (auto simp: foreign_cell_def)
      next
        case (Inr xs)
        have "foreign_cell h0 (length hw) (AugmentedArray t (Some xs))"
          by (rule array_put_no_regexp [OF Inr _ _ N]) (use aug data in \<open>auto intro: foreign_no_regexp\<close>)
        with Inr show ?thesis by simp
      qed
    qed
    then have upd: "keeps_isolation h0 h (hw[a := ?cell])" using aug keeps_update [OF _ own] by simp
    from upd aug get HRef AugmentedArray w show ?thesis
      by (auto simp: get_property_def array_trap_get_def Let_def split: if_splits)
  qed (use plain get HRef same in \<open>auto simp: get_property_def\<close>)
qed (use h get in \<open>auto simp: get_property_def keeps_isolation_def\<close>)

lemma trap_delete_foreign:
  "foreign_cell h0 N (AugmentedObject t newData deleted) \<Longrightarrow> object_trap_delete t newData deleted k h = (newData', deleted') \<Longrightarrow>
     foreign_cell h0 N (AugmentedObject t newData' deleted')"
  by (auto simp: object_trap_delete_def foreign_cell_def AList.delete_eq split: if_splits)

lemma trap_set_foreign:
  assumes "foreign_cell h0 N (AugmentedObject t newData deleted)" "foreign (length h0) N x"
    "object_trap_set t newData deleted k x h = (newData', deleted')"
  shows "foreign_cell h0 N (AugmentedObject t newData' deleted')"
proof (cases "x = HUndef")
  case True
  with assms trap_delete_foreign show ?thesis by (simp add: object_trap_set_def)
next
  case False
  moreover have "foreign (length h0) N u" if "(l, u) \<in> set (obj_put k x newData)" for l u
    using that assms(1,2) obj_put_subset [of k x newData] by (force simp: foreign_cell_def)
  ultimately show ?thesis using assms by (auto simp: object_trap_set_def foreign_cell_def)
qed

lemma plain_put_foreign:
  assumes "foreign_cell h0 N c" "foreign (length h0) N x" "plain_put k x c = Inr c'"
  shows "foreign_cell h0 N c'"
proof (cases c)
  case (PlainObject ob)
  have "foreign (length h0) N u" if "(l, u) \<in> set (obj_put k x ob)" for l u
    using that assms(1,2) obj_put_subset [of k x ob] PlainObject by (force simp: foreign_cell_def)
  with PlainObject assms(3) show ?thesis by (auto simp: plain_put_def foreign_cell_def)
next
  case (PlainArray xs)
  with assms(3) obtain xs' where "array_put k x xs = Inr xs'" "c' = PlainArray xs'"
    by (auto simp: plain_put_def bindR_Inr_iff)
  with array_put_values [of k x xs xs'] assms(1,2) PlainArray show ?thesis by (auto simp: foreign_cell_def)
qed (use assms in \<open>auto simp: plain_put_def foreign_cell_def split: option.splits hval.splits\<close>)

lemma set_property_foreign:
  assumes h: "isolated h0 h" and v: "foreign (length h0) (length h) v" and x: "foreign (length h0) (length h) x"
    and set: "set_property v k x h = (r, h')"
  shows "keeps_isolation h0 h h'"
proof (cases v)
  case (HRef a)
  with v have a: "length h0 \<le> a" "a < length h" by (simp_all add: foreign_def)
  note cell = isolated_foreign [OF h a]
  have same: "keeps_isolation h0 h h" using h by (simp add: keeps_isolation_def)
  have own: "foreign (length h0) (length h) (HRef a)" using a by (simp add: foreign_def)
  have plain: "keeps_isolation h0 h (h[a := c])" if "plain_put k x (h ! a) = Inr c" for c
    using keeps_update [OF same own plain_put_foreign [OF cell x that]] .
  show ?thesis
  proof (cases "h ! a")
    case (AugmentedObject t nd ds)
    obtain nd' ds' where "object_trap_set t nd ds k x h = (nd', ds')" by (cases "object_trap_set t nd ds k x h")
    with trap_set_foreign [OF cell [unfolded AugmentedObject] x this] keeps_update [OF same own] set HRef AugmentedObject
    show ?thesis by (auto simp: set_property_def)
  next
    case (AugmentedArray t nd)
    obtain w hw where w: "augment x h = (w, hw)" by (cases "augment x h")
    note aug = augment_foreign [OF h foreign_no_regexp [OF x] w]
    have N: "t < length hw" using cell AugmentedArray aug by (auto simp: foreign_cell_def keeps_isolation_def)
    have data: "no_regexp h0 (length hw) u" if "u \<in> array_values (getData t nd h)" for u
      using getData_no_regexp [OF h cell [unfolded AugmentedArray] that] aug by (auto simp: keeps_isolation_def intro: no_regexp_mono)
    then have kept: "keeps_isolation h0 h (hw[a := AugmentedArray t (Some (getData t nd h))])"
      using N aug keeps_update [OF _ own] by (auto simp: foreign_cell_def)
    have put: "keeps_isolation h0 h (hw[a := AugmentedArray t (Some xs)])" if "array_put k w (getData t nd h) = Inr xs" for xs
      by (rule keeps_update [OF _ own array_put_no_regexp [OF that _ _ N]]) (use aug data in \<open>auto intro: foreign_no_regexp\<close>)
    from kept put set HRef AugmentedArray w show ?thesis
      by (auto simp: set_property_def array_trap_set_def Let_def split: sum.splits)
  qed (use plain set HRef same in \<open>auto simp: set_property_def split: sum.splits\<close>)
qed (use h set in \<open>auto simp: set_property_def keeps_isolation_def\<close>)

lemma plain_delete_foreign: "foreign_cell h0 N c \<Longrightarrow> foreign_cell h0 N (snd (plain_delete k c))"
proof (cases c)
  case (PlainArray xs)
  moreover assume "foreign_cell h0 N c"
  ultimately have "\<forall>v \<in> array_values (snd (array_delete k xs)). foreign (length h0) N v"
    using array_delete_values [of k xs] by (auto simp: foreign_cell_def)
  with PlainArray show ?thesis by (simp add: plain_delete_def foreign_cell_def)
qed (auto simp: plain_delete_def foreign_cell_def AList.delete_eq)

lemma delete_property_foreign:
  assumes h: "isolated h0 h" and v: "foreign (length h0) (length h) v" and delete: "delete_property v k h = (r, h')"
  shows "keeps_isolation h0 h h'"
proof (cases v)
  case (HRef a)
  with v have a: "length h0 \<le> a" "a < length h" by (simp_all add: foreign_def)
  note cell = isolated_foreign [OF h a]
  have same: "keeps_isolation h0 h h" using h by (simp add: keeps_isolation_def)
  have own: "foreign (length h0) (length h) (HRef a)" using a by (simp add: foreign_def)
  note upd = keeps_update [OF same own]
  note plain = upd [OF plain_delete_foreign [OF cell]]
  show ?thesis
  proof (cases "h ! a")
    case (AugmentedObject t nd ds)
    obtain nd' ds' where "object_trap_delete t nd ds k h = (nd', ds')" by (cases "object_trap_delete t nd ds k h")
    with trap_delete_foreign [OF cell [unfolded AugmentedObject] this] upd delete HRef AugmentedObject
    show ?thesis by (auto simp: delete_property_def)
  next
    case (AugmentedArray t nd)
    have "foreign_cell h0 (length h) (AugmentedArray t (Some (snd (array_delete k (getData t nd h)))))"
      using cell AugmentedArray getData_no_regexp [OF h cell [unfolded AugmentedArray]]
        array_delete_values [of k "getData t nd h"] by (auto simp: foreign_cell_def)
    with upd delete HRef AugmentedArray show ?thesis
      by (auto simp: delete_property_def array_trap_delete_def split_beta)
  qed (use plain [of k] delete HRef in \<open>auto simp: delete_property_def split_beta\<close>)
qed (use h delete in \<open>auto simp: delete_property_def keeps_isolation_def\<close>)

text \<open>Every operation of the code keeps the data isolated, and the values it has seen foreign.\<close>

definition isolated_state :: "heap \<Rightarrow> heap \<times> hval list \<Rightarrow> bool" where
  "isolated_state h0 st \<longleftrightarrow> isolated h0 (fst st) \<and> (\<forall>v \<in> set (snd st). foreign (length h0) (length (fst st)) v)"

lemma isolated_stateI:
  assumes "isolated_state h0 (h, vs)" "keeps_isolation h0 h h'" "\<forall>v \<in> set ws. foreign (length h0) (length h') v"
  shows "isolated_state h0 (h', vs @ ws)"
  using assms by (auto simp: isolated_state_def keeps_isolation_def intro: foreign_mono)

lemma setTime_foreign:
  assumes h: "isolated h0 h" and v: "foreign (length h0) (length h) v"
  shows "keeps_isolation h0 h (setTime v t h)"
proof -
  have same: "keeps_isolation h0 h h" using h by (simp add: keeps_isolation_def)
  then show ?thesis using keeps_update [OF same, of _ "DateObject t"] v
    by (auto simp: setTime_def split: hval.split heap_cell.split)
qed

lemma run_op_isolated:
  assumes st: "isolated_state h0 st"
  shows "isolated_state h0 (run_op op st)"
proof -
  obtain h vs where st': "st = (h, vs)" by (cases st)
  with st have h: "isolated h0 h" and vs: "foreign (length h0) (length h) (seen_value vs i)" for i
    by (auto simp: isolated_state_def seen_value_def)
  note next_state = isolated_stateI [OF st [unfolded st']]
  have make: "isolated_state h0 (h @ [c], vs @ [HRef (length h)])" if "foreign_cell h0 (Suc (length h)) c" for c
    using next_state [of "h @ [c]" "[HRef (length h)]"] keeps_alloc [OF h that] by simp
  show ?thesis
  proof (cases op)
    case (Literal v)
    then show ?thesis using next_state [of h "[v]"] st h st'
      by (cases v) (auto simp: run_op_def keeps_isolation_def foreign_def)
  next
    case (Read i k)
    then show ?thesis using next_state get_property_foreign [OF h vs] st'
      by (cases "get_property (seen_value vs i) k h") (auto simp: run_op_def)
  next
    case (Write i k j)
    then show ?thesis using next_state [of _ "[]"] set_property_foreign [OF h vs vs] st'
      by (cases "set_property (seen_value vs i) k (seen_value vs j) h") (auto simp: run_op_def)
  next
    case (Delete i k)
    then show ?thesis using next_state [of _ "[]"] delete_property_foreign [OF h vs] st'
      by (cases "delete_property (seen_value vs i) k h") (auto simp: run_op_def)
  next
    case (SetTime i t)
    then show ?thesis using next_state [of _ "[]"] setTime_foreign [OF h vs] st' by (auto simp: run_op_def)
  qed (use make st' in \<open>auto simp: run_op_def foreign_cell_def array_values_def\<close>)
qed

text \<open>C23: code that is given the data of an execution through \<open>augmentObject\<close> and \<open>augmentArray\<close> cannot change
  them by reading, writing and deleting properties and setting dates of whatever it reaches, at any depth, when no
  array of the data holds a regular expression. (One that an array holds is handed out as it is, as
  \<open>regexp_in_array_is_original\<close> shows; one that an object holds reads as its text.) Property descriptors and
  \<open>defineProperty\<close> are not among these operations.\<close>

theorem augmented_data_stay_as_they_are:
  assumes "list_all (original_cell h0) h0" "a < length h0" "b < length h0"
  shows "let (runData, h1) = augmentObject a h0; (inputData, h2) = augmentArray b h1
     in take (length h0) (fst (fold run_op ops (h2, [HRef runData, HRef inputData]))) = h0"
proof -
  let ?n = "length h0"
  have plain: "\<not> is_augmented h0 c" if "c < ?n" for c
    using assms(1) that by (auto simp: list_all_length is_augmented_def original_cell_def split: heap_cell.splits)
  have "\<not> is_augmented (h0 @ [AugmentedObject a [] []]) b"
    using plain [OF assms(3)] assms(3) by (simp add: is_augmented_def nth_append)
  then have start: "augmentObject a h0 = (?n, h0 @ [AugmentedObject a [] []])"
    "augmentArray b (h0 @ [AugmentedObject a [] []]) = (Suc ?n, h0 @ [AugmentedObject a [] [], AugmentedArray b None])"
    using plain [OF assms(2)] by (simp_all add: augmentObject_def augmentArray_def alloc_def)
  have "isolated_state h0 st \<Longrightarrow> isolated_state h0 (fold run_op ops st)" for st
    by (induction ops arbitrary: st) (simp_all add: run_op_isolated)
  moreover have "isolated_state h0 (h0 @ [AugmentedObject a [] [], AugmentedArray b None], [HRef ?n, HRef (Suc ?n)])"
    using assms by (simp add: isolated_state_def isolated_def foreign_def)
  ultimately have "isolated_state h0 (fold run_op ops (h0 @ [AugmentedObject a [] [], AugmentedArray b None], [HRef ?n, HRef (Suc ?n)]))"
    by blast
  then show ?thesis using start by (auto simp: isolated_state_def isolated_def)
qed

definition sample_data :: heap where
  "sample_data =
     [PlainObject [(''json'', HRef 1)], PlainObject [(''x'', HNum 1), (''word'', HRef 3)], PlainArray ([Some (HRef 0)], []),
      RegExpObject ''/a/g'' [(''lastIndex'', HNum 0)]]"

definition sample_reads :: "code_op list" where
  "sample_reads = [Read 0 ''json'', Literal (HNum 5), Write 2 ''x'' 3, Read 2 ''x'', Read 2 ''word'']"

theorem augmented_data_stay_as_they_are_witness:
  "let (runData, h1) = augmentObject 0 sample_data; (inputData, h2) = augmentArray 2 h1;
       st = fold run_op (sample_reads @ [Delete 1 ''0'']) (h2, [HRef runData, HRef inputData])
   in take (length sample_data) (fst st) = sample_data \<and> drop 4 (snd st) = [HNum 5, HStr ''/a/g'']"
proof -
  have "list_all (original_cell sample_data) sample_data" "0 < length sample_data" "2 < length sample_data"
    by (simp_all add: sample_data_def original_cell_def in_heap_def no_regexp_def)
  note stay = augmented_data_stay_as_they_are [OF this, of "sample_reads @ [Delete 1 ''0'']"]
  have "let (runData, h1) = augmentObject 0 sample_data; (inputData, h2) = augmentArray 2 h1
     in drop 4 (snd (fold run_op sample_reads (h2, [HRef runData, HRef inputData]))) = [HNum 5, HStr ''/a/g'']"
    by code_simp
  moreover have "snd (run_op (Delete i k) st) = snd st" for i k st by (simp add: run_op_def Let_def)
  ultimately show ?thesis using stay by (simp add: split_beta Let_def)
qed

section \<open>An augmented object reads like a copy\<close>

text \<open>The value of a key, if it has one.\<close>

definition visible :: "heap \<Rightarrow> nat \<Rightarrow> hval jsobj \<times> string list \<Rightarrow> string \<Rightarrow> hval option" where
  "visible h target st k =
     (if k \<in> set (snd st) then None
      else case map_of (fst st) k of Some v \<Rightarrow> Some v | None \<Rightarrow> plain_own h target k)"

lemma visible_set:
  "visible h t (object_trap_set t nd ds l v h) k =
     (if k = l then if v = HUndef then None else Some v else visible h t (nd, ds) k)"
  by (auto simp: visible_def object_trap_set_def object_trap_delete_def object_has_def target_has_def obj_has_def
      AList.delete_conv' split: option.split)

lemma visible_delete:
  "visible h t (object_trap_delete t nd ds l h) k = (if k = l then None else visible h t (nd, ds) k)"
  using visible_set [of h t nd ds l HUndef k] by (simp add: object_trap_set_def)

lemma writes_read_like_copy:
  "visible h t (fold (\<lambda>(l, v) st. object_trap_set t (fst st) (snd st) l v h) writes ([], [])) k =
     fold (\<lambda>(l, v) m. m(l := if v = HUndef then None else Some v)) writes (plain_own h t) k"
proof -
  have "visible h t (fold (\<lambda>(l, v) st. object_trap_set t (fst st) (snd st) l v h) writes st) =
      fold (\<lambda>(l, v) m. m(l := if v = HUndef then None else Some v)) writes (visible h t st)" for st
  proof (induction writes arbitrary: st)
    case (Cons w ws)
    obtain l v where w: "w = (l, v)" by (cases w)
    have "visible h t (object_trap_set t (fst st) (snd st) l v h) =
        (visible h t st)(l := if v = HUndef then None else Some v)"
      by (auto simp: visible_set)
    with Cons w show ?case by simp
  qed simp
  moreover have "visible h t ([], []) = plain_own h t" by (auto simp: visible_def)
  ultimately show ?thesis by simp
qed

text \<open>What the proxy answers is the visible value, unless it is an object or the key is one that objects inherit.\<close>

lemma trap_get_visible:
  assumes "k \<notin> set inherited_names" "visible h t (nd, ds) k = v" "\<And>b. v \<noteq> Some (HRef b)" "HUndef \<notin> snd ` set nd"
  shows "object_trap_get a t nd ds k h = (case v of None \<Rightarrow> HUndef | Some x \<Rightarrow> x, h)"
proof (cases "k \<in> set ds \<or> map_of nd k \<noteq> None")
  case True
  with assms show ?thesis
    by (force simp: object_trap_get_def visible_def object_read_def value_or_inherited_def dest: map_of_SomeD split: if_splits)
next
  case False
  have "augment x h = (x, h) \<and> own_text h x = None" if "v = Some x" for x
    using that assms(3) by (cases x) (auto simp: augment_def own_text_def)
  with False assms(1,2) show ?thesis
    by (cases "plain_own h t k")
      (auto simp: object_trap_get_def visible_def object_read_def value_or_inherited_def inherited_def own_text_def augment_def)
qed

section \<open>Where the isolation ends\<close>

text \<open>
  The value of a descriptor is the original object, and there is no trap for \<open>defineProperty\<close>, so that both
  lead to the original data. Regular expressions in arrays are handed out as they are.
\<close>

definition one_record :: heap where
  "one_record = [PlainObject [(''json'', HRef 1)], PlainObject [(''x'', HNum 1)], PlainArray ([Some (HRef 1)], [])]"

lemma descriptor_is_original:
  "object_trap_descriptor 0 [] [] ''json'' one_record = Some (HRef 1) \<and>
   snd (set_property (HRef 1) ''x'' (HNum 2) one_record) ! 1 = PlainObject [(''x'', HNum 2)]"
  by code_simp

lemma array_descriptor_is_original:
  "let h = one_record @ [AugmentedArray 2 None]; (v, h') = get_property (HRef 3) ''0'' h in
   case h' ! 3 of AugmentedArray _ newData \<Rightarrow> v \<noteq> HRef 1 \<and> array_trap_descriptor 2 newData ''0'' h' = Some (HRef 1) | _ \<Rightarrow> False"
  by code_simp

lemma regexp_in_array_is_original:
  "fst (get_property (HRef 2) ''0'' [RegExpObject ''/a/g'' [(''lastIndex'', HNum 0)], PlainArray ([Some (HRef 0)], []),
     AugmentedArray 1 None]) = HRef 0"
  by code_simp

text \<open>
  A key that objects inherit hides the value of the data, and the key is not enumerated, because it is looked up in
  the new data, which inherit it too.
\<close>

lemma inherited_name_hides_value:
  "let h = [PlainObject [(''constructor'', HStr ''Ford'')], AugmentedObject 0 [] []] in
   fst (get_property (HRef 1) ''constructor'' h) = HInherited ''constructor'' \<and>
   object_trap_ownKeys 0 [] [] h = [''constructor''] \<and> object_trap_descriptor 0 [] [] ''constructor'' h = None"
  by code_simp

text \<open>Every read of a date in an array makes a new copy: what is done to the first one is lost after the second.\<close>

lemma date_in_array_is_copied_again:
  "let h = [DateObject 1, PlainArray ([Some (HRef 0)], []), AugmentedArray 1 None];
       (d, h1) = get_property (HRef 2) ''0'' h; (d', h2) = get_property (HRef 2) ''0'' h1;
       h3 = setTime d 7 h2; (d'', h4) = get_property (HRef 2) ''0'' h3
   in d \<noteq> d' \<and> (case (d, d'') of (HRef i, HRef j) \<Rightarrow> h4 ! i = DateObject 7 \<and> h4 ! j = DateObject 1 | _ \<Rightarrow> False)"
  by code_simp

text \<open>An element that was deleted still has a descriptor: it is no element, but the array says it has it.\<close>

lemma deleted_element_has_descriptor:
  "let h = snd (delete_property (HRef 1) ''0'' [PlainArray ([Some (HNum 1)], []), AugmentedArray 0 None]) in
   case h ! 1 of AugmentedArray _ newData \<Rightarrow>
     \<not> array_trap_has 0 newData ''0'' h \<and> array_trap_descriptor 0 newData ''0'' h = Some (HNum 1)
   | _ \<Rightarrow> False"
  by code_simp

text \<open>A date reads as its text.\<close>

lemma date_reads_as_text:
  "fst (get_property (HRef 2) ''d'' [DateObject 1680089084200, PlainObject [(''d'', HRef 0)], AugmentedObject 1 [] []]) =
     HStr ''2023-03-29T11:24:44.200Z''"
  by code_simp

end
