(* ===== verification/ObservableObject.thy ===== *)
theory ObservableObject
  imports JsPrelude
begin

text \<open>
  The static data of a workflow, which are saved when a proxy has noticed a change
  (\<open>packages/workflow/src/ObservableObject.ts\<close>, and \<open>getStaticData\<close> of \<open>Workflow.ts\<close>). The data come from JSON,
  so that they are a tree; every object of the tree is observed (behind a proxy) or not. Arrays are objects
  with index keys, their \<open>length\<close> is left out; so are values that are assigned in two places.
\<close>

section \<open>Observed data\<close>

datatype static_value = Scalar jsval | Node bool "static_value jsobj"

record Observable =
  target :: "static_value jsobj"
  dataChanged :: bool

text \<open>The value as it is, or with all its objects observed, as \<open>create\<close> makes them.\<close>

fun node_value :: "bool \<Rightarrow> jsval \<Rightarrow> static_value" where
  "node_value b (JObj ob) = Node b (map (\<lambda>(k, v). (k, node_value b v)) ob)"
| "node_value b (JArr xs) = Node b (zip (map show_nat [0..<length xs]) (map (node_value b) xs))"
| "node_value b v = Scalar v"

definition create :: "jsval jsobj \<Rightarrow> Observable" where
  "create d = \<lparr>target = map (\<lambda>(k, v). (k, node_value True v)) d, dataChanged = False\<rparr>"

text \<open>
  The change of the properties of the object that is found along a path, with the news whether this object is
  observed. Below a value that is not an object nothing can be changed.
\<close>

fun write_at ::
  "string list \<Rightarrow> (static_value jsobj \<Rightarrow> static_value jsobj) \<Rightarrow> static_value \<Rightarrow> (static_value \<times> bool) res" where
  "write_at [] f (Node b ob) = Inr (Node b (f ob), b)"
| "write_at (k # p) f (Node b ob) =
     (case map_of ob k of
        None \<Rightarrow> Inl TypeError
      | Some v \<Rightarrow> bindR (write_at p f v) (\<lambda>(v', observed). Inr (Node b (AList.update k v' ob), observed)))"
| "write_at p f (Scalar v) = Inl TypeError"

text \<open>A trap below the root marks the root, which is its parent.\<close>

definition trap_below ::
  "string \<Rightarrow> string list \<Rightarrow> (static_value jsobj \<Rightarrow> static_value jsobj) \<Rightarrow> Observable \<Rightarrow> Observable res" where
  "trap_below entry p f root =
     (case map_of (target root) entry of
        None \<Rightarrow> Inl TypeError
      | Some v \<Rightarrow>
          bindR (write_at p f v) (\<lambda>(v', observed).
            Inr \<lparr>target = AList.update entry v' (target root), dataChanged = dataChanged root \<or> observed\<rparr>))"

definition set_below :: "string \<Rightarrow> string list \<Rightarrow> string \<Rightarrow> jsval \<Rightarrow> Observable \<Rightarrow> Observable res" where
  "set_below entry p name val root = trap_below entry p (obj_put name (node_value False val)) root"

definition delete_below :: "string \<Rightarrow> string list \<Rightarrow> string \<Rightarrow> Observable \<Rightarrow> Observable res" where
  "delete_below entry p name root = trap_below entry p (AList.delete name) root"

text \<open>
  The traps of the root, with the option \<open>ignoreEmptyOnFirstChild\<close>: an object without keys that is new is no
  change. \<open>Object.keys\<close> of \<open>null\<close> throws.
\<close>

definition set_root :: "string \<Rightarrow> static_value \<Rightarrow> Observable \<Rightarrow> Observable res" where
  "set_root name val root =
     (let put = (\<lambda>changed. Inr \<lparr>target = obj_put name val (target root), dataChanged = changed\<rparr>) in
      if map_of (target root) name \<in> {None, Some (Scalar JUndef)} then
        (case val of
           Scalar JNull \<Rightarrow> Inl TypeError
         | Node _ [] \<Rightarrow> put (dataChanged root)
         | _ \<Rightarrow> put True)
      else put True)"

definition delete_root :: "string \<Rightarrow> Observable \<Rightarrow> Observable" where
  "delete_root name root = \<lparr>target = AList.delete name (target root), dataChanged = True\<rparr>"

text \<open>\<open>getStaticData\<close> makes an entry that is missing, as an object that is observed.\<close>

definition make_entry :: "string \<Rightarrow> Observable \<Rightarrow> Observable res" where
  "make_entry key root =
     (if map_of (target root) key \<in> {None, Some (Scalar JUndef)} then set_root key (Node True []) root else Inr root)"

text \<open>\<open>saveStaticData\<close>: the mark is taken away when the data are saved.\<close>

definition saved :: "Observable \<Rightarrow> Observable" where
  "saved root = root\<lparr>dataChanged := False\<rparr>"

section \<open>What nodes do\<close>

text \<open>Nodes get an entry of their own, and change what is below it.\<close>

datatype static_op = Entry string | Put string "string list" string jsval | Remove string "string list" string

definition run_static :: "static_op \<Rightarrow> Observable \<Rightarrow> Observable" where
  "run_static op root =
     (case (case op of
        Entry key \<Rightarrow> make_entry key root
      | Put entry p name val \<Rightarrow> set_below entry p name val root
      | Remove entry p name \<Rightarrow> delete_below entry p name root) of
        Inl _ \<Rightarrow> root
      | Inr root' \<Rightarrow> root')"

fun all_observed :: "static_value \<Rightarrow> bool" where
  "all_observed (Scalar v) = True"
| "all_observed (Node b ob) = (b \<and> list_all (\<lambda>(k, v). all_observed v) ob)"

lemma all_observed_created: "all_observed (node_value True v)"
  by (induction True v rule: node_value.induct) (auto simp: list_all_iff dest!: set_zip_rightD)

lemma write_at_observed: "all_observed v \<Longrightarrow> write_at p f v = Inr (v', observed) \<Longrightarrow> observed"
  by (induction p f v arbitrary: v' rule: write_at.induct)
    (force simp: list_all_iff bindR_Inr_iff split: option.splits dest: map_of_SomeD)+

text \<open>An entry is as it was, or new and empty.\<close>

definition missing :: "static_value option \<Rightarrow> bool" where
  "missing v = (v \<in> {None, Some (Scalar JUndef)})"

definition same_entries :: "Observable \<Rightarrow> Observable \<Rightarrow> bool" where
  "same_entries old root \<longleftrightarrow> (\<forall>k. map_of (target root) k = map_of (target old) k \<or>
     missing (map_of (target old) k) \<and> map_of (target root) k = Some (Node True []))"

lemma entries_observed:
  assumes "same_entries (create d) root" "map_of (target root) entry = Some v"
  shows "all_observed v"
proof -
  have "all_observed w" if "map_of (target (create d)) entry = Some w" for w
    using that all_observed_created by (auto simp: create_def dest!: map_of_SomeD)
  moreover from assms have "map_of (target (create d)) entry = Some v \<or> v = Node True []"
    by (simp only: same_entries_def) (metis option.inject)
  ultimately show ?thesis by auto
qed

lemma trap_below_marks:
  assumes "same_entries (create d) root" "trap_below entry p f root = Inr root'"
  shows "dataChanged root'"
proof -
  from assms(2) obtain v v' observed where "map_of (target root) entry = Some v" "write_at p f v = Inr (v', observed)"
    "dataChanged root' = (dataChanged root \<or> observed)"
    by (auto simp: trap_below_def bindR_Inr_iff split: option.splits)
  with write_at_observed entries_observed [OF assms(1)] show ?thesis by blast
qed

lemma trap_below_keeps_mark: "trap_below entry p f root = Inr root' \<Longrightarrow> dataChanged root \<Longrightarrow> dataChanged root'"
  by (auto simp: trap_below_def bindR_Inr_iff split: option.splits)

lemma make_entry_same:
  assumes "same_entries old root" "make_entry key root = Inr root'"
  shows "same_entries old root' \<and> dataChanged root' = dataChanged root"
proof (cases "missing (map_of (target root) key)")
  case True
  with assms(2) have root': "root' = \<lparr>target = obj_put key (Node True []) (target root), dataChanged = dataChanged root\<rparr>"
    by (auto simp: make_entry_def set_root_def missing_def)
  have "missing (map_of (target old) key)"
    using assms(1) True by (force simp: same_entries_def missing_def)
  with root' assms(1) show ?thesis by (simp add: same_entries_def)
next
  case False
  then have "make_entry key root = Inr root" by (simp only: make_entry_def missing_def if_False)
  with assms show ?thesis by simp
qed

lemma run_static_same:
  assumes "dataChanged root \<or> same_entries (create d) root"
  shows "dataChanged (run_static op root) \<or> same_entries (create d) (run_static op root)"
proof (cases "dataChanged root")
  case True
  then have "dataChanged root'" if "make_entry key root = Inr root'" for key root'
    using that by (auto simp: make_entry_def set_root_def split: if_splits)
  with True show ?thesis using trap_below_keeps_mark
    by (auto simp: run_static_def set_below_def delete_below_def split: static_op.split sum.split)
next
  case False
  with assms show ?thesis using trap_below_marks make_entry_same
    by (auto simp: run_static_def set_below_def delete_below_def split: static_op.split sum.split)
qed

text \<open>C24: as long as no change is marked, every entry of the static data is what it was when they were loaded, or it
  is new and empty: no change below an entry goes unnoticed before the data are saved for the first time.\<close>

theorem unmarked_data_are_unchanged:
  assumes "\<not> dataChanged (fold run_static ops (create d))"
  shows "map_of (target (fold run_static ops (create d))) k = map_of (target (create d)) k \<or>
    map_of (target (create d)) k \<in> {None, Some (Scalar JUndef)} \<and>
    map_of (target (fold run_static ops (create d))) k = Some (Node True [])"
proof -
  have "dataChanged root \<or> same_entries (create d) root \<Longrightarrow>
      dataChanged (fold run_static ops root) \<or> same_entries (create d) (fold run_static ops root)" for root
    by (induction ops arbitrary: root) (simp_all add: run_static_same)
  moreover have "same_entries (create d) (create d)" by (simp add: same_entries_def)
  ultimately have "same_entries (create d) (fold run_static ops (create d))" using assms by blast
  then show ?thesis by (simp only: same_entries_def missing_def)
qed

definition loaded :: "jsval jsobj" where
  "loaded = [(''global'', JObj [(''last'', JInt 1)])]"

theorem unmarked_data_are_unchanged_witness:
  "map_of (target (fold run_static [Entry ''global'', Entry ''node:A'', Put ''node:B'' [] ''x'' JNull] (create loaded))) ''global'' =
     Some (Node True [(''last'', Scalar (JInt 1))])"
proof -
  let ?ops = "[Entry ''global'', Entry ''node:A'', Put ''node:B'' [] ''x'' JNull]"
  have "\<not> dataChanged (fold run_static ?ops (create loaded))" by code_simp
  from unmarked_data_are_unchanged [OF this, of "''global''"] show ?thesis
    by (simp add: create_def loaded_def)
qed

text \<open>A change is marked, at any depth of what was loaded.\<close>

lemma change_is_marked:
  "dataChanged (fold run_static [Entry ''global'', Put ''global'' [] ''last'' (JInt 2)] (create loaded)) \<and>
   dataChanged (fold run_static [Entry ''global'', Remove ''global'' [] ''last''] (create loaded))"
  by code_simp

section \<open>Changes that are lost\<close>

text \<open>
  What is assigned is not observed. A change inside it is not noticed, so that it is lost once the
  assignment has been saved.
\<close>

lemma change_after_save_is_lost:
  "let root = saved (fold run_static [Entry ''global'', Put ''global'' [] ''seen'' (JObj [])] (create loaded));
       root' = run_static (Put ''global'' [''seen''] ''id'' (JInt 1)) root
   in target root' \<noteq> target root \<and> \<not> dataChanged root'"
  by code_simp

text \<open>An empty object that is assigned at the root is neither a change nor observed, and \<open>null\<close> throws there.\<close>

lemma empty_object_at_root_is_lost:
  "case set_root ''x'' (node_value False (JObj [])) (create []) of
     Inl _ \<Rightarrow> False
   | Inr root \<Rightarrow> let root' = run_static (Put ''x'' [] ''id'' (JInt 1)) root in
       target root' = [(''x'', Node False [(''id'', Scalar (JInt 1))])] \<and> \<not> dataChanged root'"
  by code_simp

lemma null_at_root_throws: "set_root ''x'' (Scalar JNull) (create []) = Inl TypeError"
  by (simp add: set_root_def create_def)

end
